(* ===== verification/Prelude.thy ===== *)
theory Prelude
  imports Main "HOL-Library.Word" "HOL-Library.Char_ord" "HOL-Library.List_Lexorder"
    "HOL-Library.Sublist"
begin

text \<open>
  Shared vocabulary of the development: the string routines of the C++ and Qt standard
  libraries that the program calls (searching, splitting, joining, trimming, decimal
  printing), with the lemmas every component uses about them.

  Strings: a \<open>std::string\<close> or a \<open>QByteArray\<close> is its list of bytes (HOL \<open>char\<close> is a byte),
  and a \<open>QString\<close> is represented by its UTF-8 bytes.  Splitting at, searching for and
  comparing with ASCII text is the same on both representations.  Qt operations whose
  result depends on the Unicode tables (\<open>toLower\<close>, \<open>trimmed\<close> of non-ASCII text) are
  parameters of the definitions that use them.
\<close>

subsection \<open>Searching\<close>

text \<open>\<open>s.starts_with(p)\<close> is \<^term>\<open>prefix p s\<close> and \<open>s.find(p) != npos\<close> is
  \<^term>\<open>sublist p s\<close>.  \<open>find_sub p s\<close> is \<open>s.find(p)\<close> itself.\<close>

fun find_sub :: "'a list \<Rightarrow> 'a list \<Rightarrow> nat option" where
  "find_sub p [] = (if p = [] then Some 0 else None)"
| "find_sub p (x # xs) =
     (if prefix p (x # xs) then Some 0 else map_option Suc (find_sub p xs))"

lemma find_sub_None_iff: "find_sub p s = None \<longleftrightarrow> \<not> sublist p s"
  by (induction s) (auto simp: sublist_Cons_right)

lemma find_sub_SomeD:
  "find_sub p s = Some i \<Longrightarrow> i + length p \<le> length s \<and> prefix p (drop i s)"
proof (induction s arbitrary: i)
  case Nil
  then show ?case by (simp split: if_splits)
next
  case (Cons x xs)
  then show ?case
    by (force split: if_splits dest: prefix_length_le)
qed

lemma find_sub_le: "find_sub p s = Some i \<Longrightarrow> i \<le> length s"
  using find_sub_SomeD by fastforce

lemma find_sub_split:
  "find_sub p s = Some i \<Longrightarrow> s = take i s @ p @ drop (i + length p) s"
proof -
  assume a: "find_sub p s = Some i"
  then have "prefix p (drop i s)" by (blast dest: find_sub_SomeD)
  then obtain r where r: "drop i s = p @ r" by (auto elim: prefixE)
  then have "drop (i + length p) s = r"
    by (metis add.commute append_eq_conv_conj drop_drop)
  with r show "s = take i s @ p @ drop (i + length p) s"
    by (metis append_take_drop_id)
qed

lemma find_sub_single: "find_sub [c] s = Some i \<Longrightarrow> c \<notin> set (take i s)"
proof (induction s arbitrary: i)
  case Nil
  then show ?case by simp
next
  case (Cons x xs)
  then show ?case by (auto split: if_splits)
qed

lemma find_sub_single_None: "find_sub [c] s = None \<longleftrightarrow> c \<notin> set s"
  by (induction s) auto

text \<open>\<open>s.substr(0, s.find_first_of(cs))\<close>: everything before the first of the given characters.\<close>

definition before_any :: "'a list \<Rightarrow> 'a list \<Rightarrow> 'a list" where
  "before_any cs s = takeWhile (\<lambda>c. c \<notin> set cs) s"

text \<open>\<open>s.rfind(c)\<close>, then \<open>s.substr(pos + 1)\<close>: the text after the last \<open>c\<close>, if there is one.\<close>

definition after_last :: "'a \<Rightarrow> 'a list \<Rightarrow> 'a list option" where
  "after_last c s = (if c \<in> set s then Some (rev (takeWhile (\<lambda>x. x \<noteq> c) (rev s))) else None)"

lemma after_last_no_sep: "after_last c s = Some t \<Longrightarrow> c \<notin> set t"
  by (auto simp: after_last_def split: if_splits dest: set_takeWhileD)

lemma after_last_append: "c \<notin> set t \<Longrightarrow> after_last c (s @ c # t) = Some t"
  by (subst after_last_def) (auto simp: takeWhile_append)

lemma after_last_suffix: "after_last c s = Some t \<Longrightarrow> suffix (c # t) s"
proof -
  assume a: "after_last c s = Some t"
  then have t: "t = rev (takeWhile (\<lambda>x. x \<noteq> c) (rev s))" and m: "c \<in> set (rev s)"
    by (auto simp: after_last_def split: if_splits)
  from m obtain d where "dropWhile (\<lambda>x. x \<noteq> c) (rev s) = c # d"
    by (metis (mono_tags, lifting) dropWhile_eq_Nil_conv hd_dropWhile list.exhaust_sel)
  then have "rev s = takeWhile (\<lambda>x. x \<noteq> c) (rev s) @ c # d"
    by (metis takeWhile_dropWhile_id)
  then have "s = rev d @ [c] @ t"
    by (metis t rev.simps(2) rev_append rev_rev_ident append_assoc)
  then show "suffix (c # t) s" by (auto simp: suffix_def)
qed

subsection \<open>Splitting and joining\<close>

text \<open>\<open>QString::split(c)\<close>: always at least one piece, empty pieces kept.\<close>

fun split_on :: "'a \<Rightarrow> 'a list \<Rightarrow> 'a list list" where
  "split_on c [] = [[]]"
| "split_on c (x # xs) =
     (if x = c then [] # split_on c xs
      else (case split_on c xs of [] \<Rightarrow> [[x]] | t # ts \<Rightarrow> (x # t) # ts))"

fun join_with :: "'a list \<Rightarrow> 'a list list \<Rightarrow> 'a list" where
  "join_with sep [] = []"
| "join_with sep [x] = x"
| "join_with sep (x # y # zs) = x @ sep @ join_with sep (y # zs)"

lemma split_on_nonempty [simp]: "split_on c s \<noteq> []"
  by (induction s) (auto split: list.splits)

lemma join_with_Cons: "zs \<noteq> [] \<Longrightarrow> join_with sep (x # zs) = x @ sep @ join_with sep zs"
  by (cases zs) auto

lemma join_with_Cons_hd: "join_with sep ((x # t) # ts) = x # join_with sep (t # ts)"
  by (cases ts) auto

lemma join_split_on [simp]: "join_with [c] (split_on c s) = s"
proof (induction s)
  case Nil
  then show ?case by simp
next
  case (Cons x xs)
  then show ?case
    by (auto simp: join_with_Cons join_with_Cons_hd split: list.splits)
qed

lemma split_on_pieces: "t \<in> set (split_on c s) \<Longrightarrow> c \<notin> set t"
proof (induction s arbitrary: t)
  case Nil
  then show ?case by simp
next
  case (Cons x xs)
  then show ?case by (fastforce split: if_splits list.splits)
qed

lemma split_on_id: "c \<notin> set s \<Longrightarrow> split_on c s = [s]"
  by (induction s) auto

lemma split_on_append: "c \<notin> set s \<Longrightarrow> split_on c (s @ c # r) = s # split_on c r"
  by (induction s) auto

lemma split_on_join:
  "ts \<noteq> [] \<Longrightarrow> (\<forall>t\<in>set ts. c \<notin> set t) \<Longrightarrow> split_on c (join_with [c] ts) = ts"
  by (induction "[c]" ts rule: join_with.induct) (auto simp: split_on_id split_on_append)

subsection \<open>Trimming and replacing\<close>

text \<open>Drop the characters satisfying \<open>P\<close> at both ends.\<close>

definition trim_by :: "('a \<Rightarrow> bool) \<Rightarrow> 'a list \<Rightarrow> 'a list" where
  "trim_by P s = rev (dropWhile P (rev (dropWhile P s)))"

lemma trim_by_idem_ends:
  "trim_by P s = [] \<or> (\<not> P (hd (trim_by P s)) \<and> \<not> P (last (trim_by P s)))"
proof (cases "dropWhile P (rev (dropWhile P s))")
  case Nil
  then show ?thesis by (simp add: trim_by_def)
next
  case (Cons a as)
  then have na: "\<not> P a" by (metis hd_dropWhile list.distinct(1) list.sel(1))
  from Cons have t: "trim_by P s = rev as @ [a]" by (simp add: trim_by_def)
  have "dropWhile P s \<noteq> []" using Cons by (cases "dropWhile P s") auto
  then have nh: "\<not> P (hd (dropWhile P s))" by (simp add: hd_dropWhile)
  have "prefix (trim_by P s) (dropWhile P s)"
    by (metis suffix_dropWhile suffix_to_prefix rev_rev_ident trim_by_def)
  then have "hd (trim_by P s) = hd (dropWhile P s)"
    using t by (metis append_is_Nil_conv hd_append2 list.distinct(1) prefix_def)
  with nh na t show ?thesis by simp
qed

lemma set_trim_by: "set (trim_by P s) \<subseteq> set s"
  by (auto simp: trim_by_def dest!: set_dropWhileD)

lemma trim_by_id: "s = [] \<or> (\<not> P (hd s) \<and> \<not> P (last s)) \<Longrightarrow> trim_by P s = s"
proof -
  assume "s = [] \<or> (\<not> P (hd s) \<and> \<not> P (last s))"
  then show "trim_by P s = s"
  proof
    assume h: "\<not> P (hd s) \<and> \<not> P (last s)"
    show ?thesis
    proof (cases "s = []")
      case False
      then have "dropWhile P s = s" using h by (cases s) auto
      moreover have "dropWhile P (rev s) = rev s"
        using h False by (cases "rev s") (auto simp: hd_rev [symmetric])
      ultimately show ?thesis by (simp add: trim_by_def)
    qed (simp add: trim_by_def)
  qed (simp add: trim_by_def)
qed

lemma trim_by_idem [simp]: "trim_by P (trim_by P s) = trim_by P s"
  by (rule trim_by_id) (rule trim_by_idem_ends)

text \<open>Replace every occurrence of one character.\<close>

definition replace_char :: "'a \<Rightarrow> 'a \<Rightarrow> 'a list \<Rightarrow> 'a list" where
  "replace_char a b s = map (\<lambda>x. if x = a then b else x) s"

subsection \<open>Decimal numbers\<close>

text \<open>\<open>std::to_string\<close> and \<open>fmt\<close> of an unsigned value.\<close>

definition digit_char :: "nat \<Rightarrow> char" where
  "digit_char d = char_of (48 + d)"

fun show_nat :: "nat \<Rightarrow> string" where
  "show_nat n = (if n < 10 then [digit_char n] else show_nat (n div 10) @ [digit_char (n mod 10)])"

declare show_nat.simps [simp del]

definition show_int :: "int \<Rightarrow> string" where
  "show_int i = (if i < 0 then ''-'' @ show_nat (nat (- i)) else show_nat (nat i))"

definition is_digit :: "char \<Rightarrow> bool" where
  "is_digit c \<longleftrightarrow> 48 \<le> (of_char c :: nat) \<and> (of_char c :: nat) \<le> 57"

definition read_nat :: "string \<Rightarrow> nat" where
  "read_nat s = foldl (\<lambda>n c. 10 * n + (of_char c - 48)) 0 s"

lemma of_char_digit: "d < 10 \<Longrightarrow> (of_char (digit_char d) :: nat) = 48 + d"
  by (simp add: digit_char_def)

lemma is_digit_digit_char: "d < 10 \<Longrightarrow> is_digit (digit_char d)"
  by (simp add: is_digit_def of_char_digit)

lemma show_nat_nonempty [simp]: "show_nat n \<noteq> []"
  by (subst show_nat.simps) simp

lemma show_nat_digits: "c \<in> set (show_nat n) \<Longrightarrow> is_digit c"
proof (induction n rule: show_nat.induct)
  case (1 n)
  then show ?case
    by (cases "n < 10") (auto simp: show_nat.simps [of n] is_digit_digit_char)
qed

lemma read_show_nat [simp]: "read_nat (show_nat n) = n"
proof (induction n rule: show_nat.induct)
  case (1 n)
  show ?case
  proof (cases "n < 10")
    case True
    then show ?thesis by (simp add: show_nat.simps [of n] read_nat_def of_char_digit)
  next
    case False
    with 1 show ?thesis by (simp add: show_nat.simps [of n] read_nat_def of_char_digit)
  qed
qed

lemma show_nat_inject [simp]: "show_nat m = show_nat n \<longleftrightarrow> m = n"
  by (metis read_show_nat)

lemma unat_word32: "n < 2 ^ 32 \<Longrightarrow> unat (word_of_nat n :: 32 word) = n"
  by (simp add: unat_of_nat take_bit_nat_eq_self)

end
