(* ===== verification/LoginLimiter.thy ===== *)
theory LoginLimiter
  imports Prelude
begin

text \<open>
  \<^verbatim>\<open>HTTP/loginLimiter.h\<close> and \<^verbatim>\<open>HTTP/loginLimiter.cpp\<close>: the gate in front of the slow password
  hash of \<open>POST /login\<close>.

  The state is the record \<open>limiter\<close>: the two in-flight sets, the counter \<open>argon2Live_\<close> and
  the two failure maps.  A time point is its number of nanoseconds (\<open>int\<close>).  Every public
  operation takes the mutex, so it is one atomic step; the clock is read before the mutex is
  taken, so the time an operation works with may be older than the time of its step.
  \<open>normalizeEmail\<close> is Qt's Unicode \<open>trimmed().toLower()\<close>, the parameter \<open>norm\<close>.
\<close>

subsection \<open>State and constants\<close>

record limiter =
  inflightIp :: "string set"
  inflightEmail :: "string set"
  argon2Live :: int
  failsByIp :: "string \<rightharpoonup> int list"
  failsByEmail :: "string \<rightharpoonup> int list"

definition limiter_init :: limiter where
  "limiter_init = \<lparr>inflightIp = {}, inflightEmail = {}, argon2Live = 0,
     failsByIp = Map.empty, failsByEmail = Map.empty\<rparr>"

definition kMaxArgon2 :: int where "kMaxArgon2 = 2"

definition kIpFailMax :: nat where "kIpFailMax = 10"

definition kEmailFailMax :: nat where "kEmailFailMax = 10"

definition ns_per_sec :: int where "ns_per_sec = 1000000000"

definition kIpWindow :: int where "kIpWindow = 600 * ns_per_sec"

definition kEmailWindow :: int where "kEmailWindow = 600 * ns_per_sec"

definition kInflightRetryAfterSec :: nat where "kInflightRetryAfterSec = 5"

lemmas limiter_consts = kMaxArgon2_def kIpFailMax_def kEmailFailMax_def kIpWindow_def
  kEmailWindow_def kInflightRetryAfterSec_def ns_per_sec_def

datatype admit = Admit_ok | Admit_inflight | Admit_busy | Admit_throttled

fun admitReason :: "admit \<Rightarrow> string" where
  "admitReason Admit_inflight = ''inflight''"
| "admitReason Admit_busy = ''busy''"
| "admitReason Admit_throttled = ''window''"
| "admitReason Admit_ok = ''ok''"

text \<open>A guard that owns a slot; a moved-from or default guard (\<open>owner_ == nullptr\<close>) is \<open>None\<close>
  in the guard slots below.\<close>

record guard =
  g_ip :: string
  g_email :: string

record try_begin_out =
  tb_admit :: admit
  tb_guard :: "guard option"
  tb_retryAfterSec :: nat

subsection \<open>Operations\<close>

definition pruneLocked :: "int list \<Rightarrow> int \<Rightarrow> int \<Rightarrow> int list" where
  "pruneLocked stamps now window = (let cutoff = now - window in filter (\<lambda>t. \<not> t < cutoff) stamps)"

definition pruneMapLocked ::
    "(string \<rightharpoonup> int list) \<Rightarrow> string \<Rightarrow> int \<Rightarrow> int \<Rightarrow> (string \<rightharpoonup> int list) \<times> int list option" where
  "pruneMapLocked m key now window =
     (case m key of
        None \<Rightarrow> (m, None)
      | Some stamps \<Rightarrow>
          (let stamps' = pruneLocked stamps now window
           in if stamps' = [] then (m(key := None), None) else (m(key \<mapsto> stamps'), Some stamps')))"

text \<open>\<open>duration_cast<seconds>\<close> of a positive duration rounds down; the result is cast to a
  32-bit \<open>unsigned\<close>.\<close>

definition remainingSec :: "int list \<Rightarrow> int \<Rightarrow> int \<Rightarrow> nat" where
  "remainingSec stamps now window =
     (if stamps = [] then kInflightRetryAfterSec
      else let until = hd stamps + window
           in if until \<le> now then 1
              else let sec = (until - now) div ns_per_sec
                   in nat ((if sec < 1 then 1 else sec) mod 2 ^ 32))"

definition refused :: "admit \<Rightarrow> nat \<Rightarrow> try_begin_out" where
  "refused a retry = \<lparr>tb_admit = a, tb_guard = None, tb_retryAfterSec = retry\<rparr>"

text \<open>\<open>fails && fails->size() >= max\<close>.\<close>

definition at_limit :: "nat \<Rightarrow> int list option \<Rightarrow> bool" where
  "at_limit n fails = (case fails of None \<Rightarrow> False | Some ss \<Rightarrow> n \<le> length ss)"

definition tryBegin ::
    "(string \<Rightarrow> string) \<Rightarrow> limiter \<Rightarrow> int \<Rightarrow> string \<Rightarrow> string \<Rightarrow> limiter \<times> try_begin_out" where
  "tryBegin norm l t ip email =
     (let ipKey = ip;
          emailKey = norm email;
          (ipMap, ipFails) = pruneMapLocked (failsByIp l) ipKey t kIpWindow;
          (emailMap, emailFails) = pruneMapLocked (failsByEmail l) emailKey t kEmailWindow;
          l' = l\<lparr>failsByIp := ipMap, failsByEmail := emailMap\<rparr>
      in if at_limit kIpFailMax ipFails
           then (l', refused Admit_throttled (remainingSec (the ipFails) t kIpWindow))
         else if at_limit kEmailFailMax emailFails
           then (l', refused Admit_throttled (remainingSec (the emailFails) t kEmailWindow))
         else if ipKey \<in> inflightIp l' \<or> emailKey \<in> inflightEmail l'
           then (l', refused Admit_inflight kInflightRetryAfterSec)
         else if kMaxArgon2 \<le> argon2Live l'
           then (l', refused Admit_busy kInflightRetryAfterSec)
         else (l'\<lparr>inflightIp := insert ipKey (inflightIp l'),
                  inflightEmail := insert emailKey (inflightEmail l'),
                  argon2Live := argon2Live l' + 1\<rparr>,
               \<lparr>tb_admit = Admit_ok, tb_guard = Some \<lparr>g_ip = ipKey, g_email = emailKey\<rparr>,
                tb_retryAfterSec = 0\<rparr>))"

text \<open>\<open>map[key].push_back(t)\<close>: the entry is created empty when it is missing.\<close>

definition push_stamp :: "(string \<rightharpoonup> int list) \<Rightarrow> string \<Rightarrow> int \<Rightarrow> (string \<rightharpoonup> int list)" where
  "push_stamp m key t = m(key \<mapsto> (case m key of None \<Rightarrow> [] | Some ss \<Rightarrow> ss) @ [t])"

definition recordFailure ::
    "(string \<Rightarrow> string) \<Rightarrow> limiter \<Rightarrow> int \<Rightarrow> string \<Rightarrow> string \<Rightarrow> limiter" where
  "recordFailure norm l t ip email =
     (let ipKey = ip;
          emailKey = norm email;
          ipMap = fst (pruneMapLocked (push_stamp (failsByIp l) ipKey t) ipKey t kIpWindow);
          emailMap = fst (pruneMapLocked (push_stamp (failsByEmail l) emailKey t) emailKey t kEmailWindow)
      in l\<lparr>failsByIp := ipMap, failsByEmail := emailMap\<rparr>)"

definition recordSuccess :: "(string \<Rightarrow> string) \<Rightarrow> limiter \<Rightarrow> string \<Rightarrow> limiter" where
  "recordSuccess norm l email =
     (let emailKey = norm email in l\<lparr>failsByEmail := (failsByEmail l)(emailKey := None)\<rparr>)"

definition release :: "limiter \<Rightarrow> string \<Rightarrow> string \<Rightarrow> limiter" where
  "release l ip email =
     (let l' = l\<lparr>inflightIp := inflightIp l - {ip}, inflightEmail := inflightEmail l - {email}\<rparr>
      in if argon2Live l' > 0 then l'\<lparr>argon2Live := argon2Live l' - 1\<rparr> else l')"

lemmas limiter_ops = tryBegin_def recordFailure_def recordSuccess_def release_def

subsection \<open>The failure windows\<close>

text \<open>The stamps of a key that a prune at time \<open>t\<close> keeps: what every decision looks at.\<close>

definition stamps_of :: "(string \<rightharpoonup> int list) \<Rightarrow> string \<Rightarrow> int list" where
  "stamps_of m key = (case m key of None \<Rightarrow> [] | Some ss \<Rightarrow> ss)"

definition within :: "int \<Rightarrow> int list \<Rightarrow> int list" where
  "within cutoff ss = filter (\<lambda>t. cutoff \<le> t) ss"

text \<open>No key is kept with an empty list of stamps, so the maps do not grow with dead keys.\<close>

definition no_empty_entry :: "(string \<rightharpoonup> int list) \<Rightarrow> bool" where
  "no_empty_entry m \<longleftrightarrow> (\<forall>k. m k \<noteq> Some [])"

lemma pruneLocked_within: "pruneLocked ss now w = within (now - w) ss"
  by (auto simp: pruneLocked_def within_def not_less intro: filter_cong)

lemma within_append [simp]: "within c (xs @ ys) = within c xs @ within c ys"
  by (simp add: within_def)

lemma within_Nil [simp]: "within c [] = []"
  by (simp add: within_def)

lemma within_single: "within c [t] = (if c \<le> t then [t] else [])"
  by (simp add: within_def)

lemma within_within: "within a (within b ss) = within (max a b) ss"
  by (induction ss) (auto simp: within_def)

lemma length_within_mono: "a \<le> b \<Longrightarrow> length (within b ss) \<le> length (within a ss)"
  by (induction ss) (auto simp: within_def)

lemma snd_pruneMapLocked:
  "snd (pruneMapLocked m key t w) =
     (let ss = within (t - w) (stamps_of m key) in if ss = [] then None else Some ss)"
  by (auto simp: pruneMapLocked_def pruneLocked_within stamps_of_def Let_def split: option.splits)

lemma stamps_of_fst_prune [simp]:
  "stamps_of (fst (pruneMapLocked m key t w)) k =
     (if k = key then within (t - w) (stamps_of m key) else stamps_of m k)"
  by (auto simp: pruneMapLocked_def pruneLocked_within stamps_of_def Let_def split: option.splits)

lemma stamps_of_push [simp]:
  "stamps_of (push_stamp m key t) k = (if k = key then stamps_of m key @ [t] else stamps_of m k)"
  by (auto simp: push_stamp_def stamps_of_def split: option.splits)

lemma at_limit_prune:
  "0 < n \<Longrightarrow> at_limit n (snd (pruneMapLocked m key t w)) \<longleftrightarrow>
     n \<le> length (within (t - w) (stamps_of m key))"
  by (auto simp: at_limit_def snd_pruneMapLocked Let_def split: option.splits)

lemma at_limit_prune_the:
  "at_limit n (snd (pruneMapLocked m key t w)) \<Longrightarrow>
     the (snd (pruneMapLocked m key t w)) = within (t - w) (stamps_of m key)"
  by (auto simp: at_limit_def snd_pruneMapLocked Let_def split: option.splits if_splits)

lemma no_empty_entry_prune:
  "no_empty_entry m \<Longrightarrow> no_empty_entry (fst (pruneMapLocked m key t w))"
  by (auto simp: no_empty_entry_def pruneMapLocked_def Let_def split: option.splits)

lemma no_empty_entry_push:
  "no_empty_entry m \<Longrightarrow> no_empty_entry (push_stamp m key t)"
  by (auto simp: no_empty_entry_def push_stamp_def split: option.splits)

subsection \<open>What each operation does, branch by branch\<close>

lemma tryBegin_maps [simp]:
  "failsByIp (fst (tryBegin norm l t ip email)) = fst (pruneMapLocked (failsByIp l) ip t kIpWindow)"
  "failsByEmail (fst (tryBegin norm l t ip email)) =
     fst (pruneMapLocked (failsByEmail l) (norm email) t kEmailWindow)"
  by (simp_all add: tryBegin_def Let_def split: prod.split)

text \<open>The decision, stated on the windows of the state before the call.\<close>

definition recent_ip :: "limiter \<Rightarrow> int \<Rightarrow> string \<Rightarrow> int list" where
  "recent_ip l t ip = within (t - kIpWindow) (stamps_of (failsByIp l) ip)"

definition recent_email :: "limiter \<Rightarrow> int \<Rightarrow> string \<Rightarrow> int list" where
  "recent_email l t key = within (t - kEmailWindow) (stamps_of (failsByEmail l) key)"

definition admit_spec :: "limiter \<Rightarrow> int \<Rightarrow> string \<Rightarrow> string \<Rightarrow> admit" where
  "admit_spec l t ip key =
     (if 10 \<le> length (recent_ip l t ip) \<or> 10 \<le> length (recent_email l t key) then Admit_throttled
      else if ip \<in> inflightIp l \<or> key \<in> inflightEmail l then Admit_inflight
      else if 2 \<le> argon2Live l then Admit_busy else Admit_ok)"

lemma at_limit_ip:
  "at_limit kIpFailMax (snd (pruneMapLocked (failsByIp l) ip t kIpWindow)) \<longleftrightarrow>
     10 \<le> length (recent_ip l t ip)"
  by (simp add: at_limit_prune kIpFailMax_def recent_ip_def)

lemma at_limit_email:
  "at_limit kEmailFailMax (snd (pruneMapLocked (failsByEmail l) key t kEmailWindow)) \<longleftrightarrow>
     10 \<le> length (recent_email l t key)"
  by (simp add: at_limit_prune kEmailFailMax_def recent_email_def)

lemmas at_limit_simps = at_limit_ip at_limit_email

lemma the_recent_ip:
  "10 \<le> length (recent_ip l t ip) \<Longrightarrow>
     the (snd (pruneMapLocked (failsByIp l) ip t kIpWindow)) = recent_ip l t ip"
  using at_limit_prune_the at_limit_ip unfolding recent_ip_def by blast

lemma the_recent_email:
  "10 \<le> length (recent_email l t key) \<Longrightarrow>
     the (snd (pruneMapLocked (failsByEmail l) key t kEmailWindow)) = recent_email l t key"
  using at_limit_prune_the at_limit_email unfolding recent_email_def by blast

lemma tryBegin_unfold:
  "tryBegin norm l t ip email =
     (let l' = l\<lparr>failsByIp := fst (pruneMapLocked (failsByIp l) ip t kIpWindow),
                 failsByEmail := fst (pruneMapLocked (failsByEmail l) (norm email) t kEmailWindow)\<rparr>
      in if 10 \<le> length (recent_ip l t ip)
           then (l', refused Admit_throttled (remainingSec (recent_ip l t ip) t kIpWindow))
         else if 10 \<le> length (recent_email l t (norm email))
           then (l', refused Admit_throttled
                       (remainingSec (recent_email l t (norm email)) t kEmailWindow))
         else if ip \<in> inflightIp l \<or> norm email \<in> inflightEmail l
           then (l', refused Admit_inflight 5)
         else if 2 \<le> argon2Live l then (l', refused Admit_busy 5)
         else (l'\<lparr>inflightIp := insert ip (inflightIp l),
                  inflightEmail := insert (norm email) (inflightEmail l),
                  argon2Live := argon2Live l + 1\<rparr>,
               \<lparr>tb_admit = Admit_ok, tb_guard = Some \<lparr>g_ip = ip, g_email = norm email\<rparr>,
                tb_retryAfterSec = 0\<rparr>))"
  by (simp add: tryBegin_def Let_def case_prod_beta at_limit_simps the_recent_ip
        the_recent_email kMaxArgon2_def kInflightRetryAfterSec_def)

lemma tryBegin_admit: "tb_admit (snd (tryBegin norm l t ip email)) = admit_spec l t ip (norm email)"
  by (simp add: tryBegin_unfold admit_spec_def refused_def Let_def)

lemma tryBegin_refused_frame:
  "tb_admit (snd (tryBegin norm l t ip email)) \<noteq> Admit_ok \<Longrightarrow>
     inflightIp (fst (tryBegin norm l t ip email)) = inflightIp l \<and>
     inflightEmail (fst (tryBegin norm l t ip email)) = inflightEmail l \<and>
     argon2Live (fst (tryBegin norm l t ip email)) = argon2Live l \<and>
     tb_guard (snd (tryBegin norm l t ip email)) = None"
  by (simp add: tryBegin_unfold refused_def Let_def split: if_splits)

lemma tryBegin_ok:
  assumes "tb_admit (snd (tryBegin norm l t ip email)) = Admit_ok"
  shows "inflightIp (fst (tryBegin norm l t ip email)) = insert ip (inflightIp l)"
    and "inflightEmail (fst (tryBegin norm l t ip email)) = insert (norm email) (inflightEmail l)"
    and "argon2Live (fst (tryBegin norm l t ip email)) = argon2Live l + 1"
    and "tb_guard (snd (tryBegin norm l t ip email)) = Some \<lparr>g_ip = ip, g_email = norm email\<rparr>"
    and "ip \<notin> inflightIp l" and "norm email \<notin> inflightEmail l" and "argon2Live l < 2"
    and "length (recent_ip l t ip) < 10" and "length (recent_email l t (norm email)) < 10"
  using assms by (auto simp: tryBegin_unfold refused_def Let_def split: if_splits)

lemma recordFailure_frame [simp]:
  "inflightIp (recordFailure norm l t ip email) = inflightIp l"
  "inflightEmail (recordFailure norm l t ip email) = inflightEmail l"
  "argon2Live (recordFailure norm l t ip email) = argon2Live l"
  by (simp_all add: recordFailure_def Let_def)

lemma recordSuccess_frame [simp]:
  "inflightIp (recordSuccess norm l email) = inflightIp l"
  "inflightEmail (recordSuccess norm l email) = inflightEmail l"
  "argon2Live (recordSuccess norm l email) = argon2Live l"
  "failsByIp (recordSuccess norm l email) = failsByIp l"
  by (simp_all add: recordSuccess_def Let_def)

lemma release_fields [simp]:
  "inflightIp (release l ip email) = inflightIp l - {ip}"
  "inflightEmail (release l ip email) = inflightEmail l - {email}"
  "argon2Live (release l ip email) = (if argon2Live l > 0 then argon2Live l - 1 else argon2Live l)"
  "failsByIp (release l ip email) = failsByIp l"
  "failsByEmail (release l ip email) = failsByEmail l"
  by (simp_all add: release_def Let_def)

lemma stamps_of_recordFailure [simp]:
  "stamps_of (failsByIp (recordFailure norm l t ip email)) k =
     (if k = ip then within (t - kIpWindow) (stamps_of (failsByIp l) ip @ [t])
      else stamps_of (failsByIp l) k)"
  by (simp add: recordFailure_def Let_def)

lemma remainingSec_bounds:
  assumes "\<forall>x\<in>set ss. x \<le> t" and "w \<le> 2 ^ 31 * ns_per_sec" and "0 < w"
  shows "1 \<le> remainingSec ss t w"
    and "int (remainingSec ss t w) \<le> max 5 (max 1 (w div ns_per_sec))"
proof -
  let ?sec = "(hd ss + w - t) div ns_per_sec"
  consider "ss = []" | "ss \<noteq> []" "hd ss + w \<le> t" | "ss \<noteq> []" "\<not> hd ss + w \<le> t" by blast
  then have "1 \<le> remainingSec ss t w \<and>
      int (remainingSec ss t w) \<le> max 5 (max 1 (w div ns_per_sec))"
  proof cases
    case 3
    then have "hd ss \<le> t" using assms(1) by simp
    then have sec: "?sec \<le> w div ns_per_sec"
      by (intro zdiv_mono1) (simp_all add: ns_per_sec_def)
    have "w div ns_per_sec \<le> 2 ^ 31"
      using assms(2) zdiv_mono1 [of w "2 ^ 31 * ns_per_sec" ns_per_sec]
      by (simp add: ns_per_sec_def)
    with sec have "(if ?sec < 1 then 1 else ?sec) mod 2 ^ 32 = (if ?sec < 1 then 1 else ?sec)"
      by (auto intro: mod_pos_pos_trivial)
    with 3 sec show ?thesis by (auto simp: remainingSec_def Let_def)
  qed (auto simp: remainingSec_def kInflightRetryAfterSec_def)
  then show "1 \<le> remainingSec ss t w"
    and "int (remainingSec ss t w) \<le> max 5 (max 1 (w div ns_per_sec))" by blast+
qed

subsection \<open>Guards, and the runs of the gate\<close>

text \<open>
  Guard objects live in numbered slots; an empty slot is a default, moved-from or reset guard.
  \<open>guard_reset\<close> is \<open>Guard::reset\<close> (and the destructor), \<open>guard_move\<close> the move assignment,
  self-assignment included.  \<open>clk\<close> is real time.  Three ghost fields record the history the
  properties speak of: when a slot was admitted, whether its attempt has already been counted
  as a failure, and every failure ever recorded for an address.
\<close>

record gate =
  lim :: limiter
  slots :: "nat \<Rightarrow> guard option"
  clk :: int
  acq :: "nat \<Rightarrow> int"
  counted :: "nat \<Rightarrow> bool"
  hist :: "string \<Rightarrow> int list"

definition gate_init :: "int \<Rightarrow> gate" where
  "gate_init t = \<lparr>lim = limiter_init, slots = (\<lambda>_. None), clk = t, acq = (\<lambda>_. t),
     counted = (\<lambda>_. False), hist = (\<lambda>_. [])\<rparr>"

definition guard_reset :: "gate \<Rightarrow> nat \<Rightarrow> gate" where
  "guard_reset s i =
     (case slots s i of
        None \<Rightarrow> s
      | Some g \<Rightarrow> s\<lparr>lim := release (lim s) (g_ip g) (g_email g), slots := (slots s)(i := None)\<rparr>)"

definition guard_move :: "gate \<Rightarrow> nat \<Rightarrow> nat \<Rightarrow> gate" where
  "guard_move s dst src =
     (if dst = src then s
      else let s1 = guard_reset s dst
           in s1\<lparr>slots := (slots s1)(dst := slots s1 src, src := None),
                 acq := (acq s1)(dst := acq s1 src),
                 counted := (counted s1)(dst := counted s1 src)\<rparr>)"

text \<open>
  One step of the world around the gate.  The clients follow the protocol of \<open>loginPage\<close>: a
  failure is recorded only by the holder of a guard, for the guard's own address, at most once
  per guard.  \<open>t\<close> is the clock value the operation sampled before it took the mutex.
\<close>

inductive gate_step :: "(string \<Rightarrow> string) \<Rightarrow> gate \<Rightarrow> gate \<Rightarrow> bool" for norm where
  tick: "clk s \<le> t \<Longrightarrow> gate_step norm s (s\<lparr>clk := t\<rparr>)"
| admitted: "\<lbrakk>slots s i = None; t \<le> clk s; tryBegin norm (lim s) t ip email = (l', out);
     tb_admit out = Admit_ok\<rbrakk> \<Longrightarrow>
     gate_step norm s (s\<lparr>lim := l', slots := (slots s)(i := tb_guard out),
       acq := (acq s)(i := clk s), counted := (counted s)(i := False)\<rparr>)"
| turned_away: "\<lbrakk>t \<le> clk s; tryBegin norm (lim s) t ip email = (l', out);
     tb_admit out \<noteq> Admit_ok\<rbrakk> \<Longrightarrow> gate_step norm s (s\<lparr>lim := l'\<rparr>)"
| failure: "\<lbrakk>slots s i = Some g; \<not> counted s i; acq s i \<le> t; t \<le> clk s\<rbrakk> \<Longrightarrow>
     gate_step norm s (s\<lparr>lim := recordFailure norm (lim s) t (g_ip g) email,
       counted := (counted s)(i := True),
       hist := (hist s)(g_ip g := hist s (g_ip g) @ [t])\<rparr>)"
| success: "slots s i = Some g \<Longrightarrow>
     gate_step norm s (s\<lparr>lim := recordSuccess norm (lim s) email\<rparr>)"
| reset: "gate_step norm s (guard_reset s i)"
| move: "gate_step norm s (guard_move s dst src)"

inductive gate_reachable :: "(string \<Rightarrow> string) \<Rightarrow> gate \<Rightarrow> bool" for norm where
  start: "gate_reachable norm (gate_init t)"
| step: "gate_reachable norm s \<Longrightarrow> gate_step norm s s' \<Longrightarrow> gate_reachable norm s'"

subsection \<open>The slots and the counters agree\<close>

definition live :: "gate \<Rightarrow> nat set" where
  "live s = {i. slots s i \<noteq> None}"

definition ip_at :: "gate \<Rightarrow> nat \<Rightarrow> string" where
  "ip_at s i = g_ip (the (slots s i))"

definition email_at :: "gate \<Rightarrow> nat \<Rightarrow> string" where
  "email_at s i = g_email (the (slots s i))"

definition slots_ok :: "gate \<Rightarrow> bool" where
  "slots_ok s \<longleftrightarrow> finite (live s) \<and> argon2Live (lim s) = int (card (live s)) \<and>
     card (live s) \<le> 2 \<and>
     inflightIp (lim s) = ip_at s ` live s \<and> inj_on (ip_at s) (live s) \<and>
     inflightEmail (lim s) = email_at s ` live s \<and> inj_on (email_at s) (live s)"

text \<open>Only the slots and the limiter's in-flight fields matter to \<open>slots_ok\<close>.\<close>

lemma slots_ok_cong:
  assumes "slots s' = slots s" and "inflightIp (lim s') = inflightIp (lim s)"
    and "inflightEmail (lim s') = inflightEmail (lim s)"
    and "argon2Live (lim s') = argon2Live (lim s)"
  shows "slots_ok s' = slots_ok s"
  using assms by (simp add: slots_ok_def live_def ip_at_def[abs_def] email_at_def[abs_def])

lemma slots_ok_init: "slots_ok (gate_init t)"
  by (simp add: slots_ok_def gate_init_def live_def limiter_init_def)

lemma inj_on_image_remove:
  "inj_on f A \<Longrightarrow> i \<in> A \<Longrightarrow> f ` A - {f i} = f ` (A - {i})"
  by (auto simp: inj_on_def)

lemma slots_ok_reset: "slots_ok s \<Longrightarrow> slots_ok (guard_reset s i)"
proof (cases "slots s i")
  case None
  then show "slots_ok s \<Longrightarrow> ?thesis" by (simp add: guard_reset_def)
next
  case (Some g)
  assume ok: "slots_ok s"
  let ?s' = "guard_reset s i"
  have i: "i \<in> live s" and gip: "g_ip g = ip_at s i" and gem: "g_email g = email_at s i"
    using Some by (auto simp: live_def ip_at_def email_at_def)
  have lv: "live ?s' = live s - {i}"
    using Some by (auto simp: guard_reset_def live_def)
  have same: "ip_at ?s' j = ip_at s j" "email_at ?s' j = email_at s j" if "j \<in> live s - {i}" for j
    using that Some by (simp_all add: guard_reset_def ip_at_def email_at_def)
  have ipf: "ip_at ?s' ` live ?s' = ip_at s ` (live s - {i})"
    and emf: "email_at ?s' ` live ?s' = email_at s ` (live s - {i})"
    and ipi: "inj_on (ip_at ?s') (live ?s') = inj_on (ip_at s) (live s - {i})"
    and emi: "inj_on (email_at ?s') (live ?s') = inj_on (email_at s) (live s - {i})"
    unfolding lv using same by (fastforce intro!: image_cong inj_on_cong)+
  have pos: "0 < card (live s)" using ok i by (auto simp: slots_ok_def card_gt_0_iff)
  have flds: "inflightIp (lim ?s') = inflightIp (lim s) - {ip_at s i}"
    "inflightEmail (lim ?s') = inflightEmail (lim s) - {email_at s i}"
    "argon2Live (lim ?s') = argon2Live (lim s) - 1"
    using Some ok pos gip gem by (simp_all add: guard_reset_def slots_ok_def)
  show ?thesis
    using ok i pos inj_on_image_remove [of "ip_at s" "live s" i]
      inj_on_image_remove [of "email_at s" "live s" i]
    unfolding slots_ok_def flds ipf emf ipi emi unfolding lv
    by (auto simp: card_Diff_singleton of_nat_diff intro: inj_on_subset)
qed

lemma slots_ok_admit:
  assumes ok: "slots_ok s" and free: "slots s i = None"
    and out: "tryBegin norm (lim s) t ip email = (l', out)" and adm: "tb_admit out = Admit_ok"
  shows "slots_ok (s\<lparr>lim := l', slots := (slots s)(i := tb_guard out), acq := a, counted := c\<rparr>)"
    (is "slots_ok ?s'")
proof -
  have adm': "tb_admit (snd (tryBegin norm (lim s) t ip email)) = Admit_ok"
    using out adm by simp
  note new = tryBegin_ok [OF adm', unfolded out fst_conv snd_conv]
  have i: "i \<notin> live s" using free by (simp add: live_def)
  have lv: "live ?s' = insert i (live s)" using new(4) by (auto simp: live_def)
  have same: "ip_at ?s' j = ip_at s j" "email_at ?s' j = email_at s j" if "j \<in> live s" for j
    using that i by (auto simp: ip_at_def email_at_def)
  have mine: "ip_at ?s' i = ip" "email_at ?s' i = norm email"
    using new(4) by (simp_all add: ip_at_def email_at_def)
  have old: "ip_at ?s' ` live s = ip_at s ` live s" "email_at ?s' ` live s = email_at s ` live s"
    "inj_on (ip_at ?s') (live s) = inj_on (ip_at s) (live s)"
    "inj_on (email_at ?s') (live s) = inj_on (email_at s) (live s)"
    using same by (auto intro!: image_cong inj_on_cong simp del: image_insert)
  have img: "ip_at ?s' ` live ?s' = insert ip (ip_at s ` live s)"
    "email_at ?s' ` live ?s' = insert (norm email) (email_at s ` live s)"
    by (simp_all only: lv image_insert mine old)
  have inj: "inj_on (ip_at ?s') (live ?s')" "inj_on (email_at ?s') (live ?s')"
    using ok new(5,6) Diff_insert_absorb [OF i]
    by (simp_all add: lv inj_on_insert mine old slots_ok_def Diff_triv i)
  have "card (live s) < 2" using ok new(7) by (simp add: slots_ok_def)
  then show ?thesis
    using ok new(1-3) i img inj by (simp add: slots_ok_def lv)
qed

lemma relabel:
  assumes "src \<in> A" and "dst \<notin> A" and "f' dst = f src" and "\<And>j. j \<in> A - {src} \<Longrightarrow> f' j = f j"
  shows "f' ` insert dst (A - {src}) = f ` A"
    and "inj_on f A \<Longrightarrow> inj_on f' (insert dst (A - {src}))"
proof -
  have "f' ` (A - {src}) = f ` (A - {src})" using assms(4) by (rule image_cong [OF refl])
  then show "f' ` insert dst (A - {src}) = f ` A" using assms(1,3) by auto
  assume inj: "inj_on f A"
  have "inj_on f' (A - {src}) = inj_on f (A - {src})" using assms(4) by (rule inj_on_cong)
  moreover have "f src \<notin> f ` (A - {src})" using inj assms(1) by (auto simp: inj_on_def)
  moreover have "A - {src} - {dst} = A - {src}" using assms(2) by blast
  ultimately show "inj_on f' (insert dst (A - {src}))"
    using inj assms(3) \<open>f' ` (A - {src}) = f ` (A - {src})\<close>
    by (simp add: inj_on_insert inj_on_diff)
qed

lemma slots_ok_move: assumes "slots_ok s" shows "slots_ok (guard_move s dst src)"
proof (cases "dst = src")
  case True
  then show ?thesis using assms by (simp add: guard_move_def)
next
  case False
  let ?s1 = "guard_reset s dst"
  let ?s2 = "guard_move s dst src"
  have ok1: "slots_ok ?s1" by (rule slots_ok_reset [OF assms])
  have dst: "slots ?s1 dst = None" by (simp add: guard_reset_def split: option.splits)
  have s2: "slots ?s2 = (slots ?s1)(dst := slots ?s1 src, src := None)" "lim ?s2 = lim ?s1"
    using False by (simp_all add: guard_move_def Let_def)
  show ?thesis
  proof (cases "slots ?s1 src")
    case None
    then have "slots ?s2 = slots ?s1" using s2(1) dst by (auto simp: fun_eq_iff)
    then show ?thesis using slots_ok_cong [of ?s2 ?s1] s2(2) ok1 by simp
  next
    case (Some g)
    have lv: "live ?s2 = insert dst (live ?s1 - {src})" and m: "src \<in> live ?s1" "dst \<notin> live ?s1"
      using Some dst False by (auto simp: live_def s2(1))
    have c: "card (live ?s2) = card (live ?s1)"
    proof -
      have "0 < card (live ?s1)" using m ok1 by (auto simp: slots_ok_def card_gt_0_iff)
      then show ?thesis using m ok1 by (simp add: lv slots_ok_def)
    qed
    have ip: "ip_at ?s2 dst = ip_at ?s1 src" "email_at ?s2 dst = email_at ?s1 src"
      using False by (simp_all add: ip_at_def email_at_def s2(1))
    have rest: "ip_at ?s2 j = ip_at ?s1 j" "email_at ?s2 j = email_at ?s1 j"
      if "j \<in> live ?s1 - {src}" for j
      using that m by (auto simp: ip_at_def email_at_def s2(1))
    note ipr = relabel [of src "live ?s1" dst "ip_at ?s2" "ip_at ?s1", OF m ip(1) rest(1)]
    note emr = relabel [of src "live ?s1" dst "email_at ?s2" "email_at ?s1", OF m ip(2) rest(2)]
    show ?thesis
      using ok1 c ipr emr by (simp add: slots_ok_def lv s2(2))
  qed
qed

lemma gate_step_slots_ok: "gate_step norm s s' \<Longrightarrow> slots_ok s \<Longrightarrow> slots_ok s'"
proof (induction rule: gate_step.induct)
  case (admitted s i t ip email l' out)
  then show ?case using slots_ok_admit by blast
next
  case (turned_away t s ip email l' out)
  then have "inflightIp l' = inflightIp (lim s)" "inflightEmail l' = inflightEmail (lim s)"
    "argon2Live l' = argon2Live (lim s)"
    using tryBegin_refused_frame [of norm "lim s" t ip email] by simp_all
  with turned_away.prems show ?case using slots_ok_cong [of "s\<lparr>lim := l'\<rparr>" s] by simp
next
  case (tick s t)
  then show ?case using slots_ok_cong [of "s\<lparr>clk := t\<rparr>" s] by simp
next
  case (failure s i g t email)
  then show ?case by (subst slots_ok_cong [where s = s]) simp_all
next
  case (success s i g email)
  then show ?case by (subst slots_ok_cong [where s = s]) simp_all
qed (rule slots_ok_reset slots_ok_move, assumption)+

lemma gate_reachable_slots_ok: "gate_reachable norm s \<Longrightarrow> slots_ok s"
  by (induction rule: gate_reachable.induct) (auto intro: slots_ok_init gate_step_slots_ok)

subsection \<open>At most ten counted failures per address and window\<close>

text \<open>Every recorded failure is preceded, within its own window, by at most nine others.\<close>

definition window_le10 :: "int list \<Rightarrow> bool" where
  "window_le10 xs \<longleftrightarrow>
     (\<forall>n < length xs. length (within (xs ! n - kIpWindow) (take (Suc n) xs)) \<le> 10)"

lemma window_le10_snoc:
  assumes "window_le10 xs" and "length (within (t - kIpWindow) (xs @ [t])) \<le> 10"
  shows "window_le10 (xs @ [t])"
  unfolding window_le10_def
proof (intro allI impI)
  fix n assume n: "n < length (xs @ [t])"
  show "length (within ((xs @ [t]) ! n - kIpWindow) (take (Suc n) (xs @ [t]))) \<le> 10"
    using assms n by (cases "n < length xs") (auto simp: window_le10_def nth_append less_Suc_eq)
qed

lemma window_le10_any:
  "window_le10 xs \<Longrightarrow> length (filter (\<lambda>h. T - kIpWindow \<le> h \<and> h \<le> T) xs) \<le> 10"
proof (induction xs rule: rev_induct)
  case Nil
  then show ?case by simp
next
  case (snoc x xs)
  show ?case
  proof (cases "x \<le> T")
    case True
    have eq: "filter (\<lambda>h. T - kIpWindow \<le> h \<and> h \<le> T) (xs @ [x])
        = filter (\<lambda>h. h \<le> T) (within (T - kIpWindow) (xs @ [x]))"
      by (simp add: within_def)
    have "length (filter (\<lambda>h. T - kIpWindow \<le> h \<and> h \<le> T) (xs @ [x]))
        \<le> length (within (T - kIpWindow) (xs @ [x]))"
      unfolding eq by (rule length_filter_le)
    also have "\<dots> \<le> length (within (x - kIpWindow) (xs @ [x]))"
      using True by (intro length_within_mono) simp
    also have "\<dots> \<le> 10"
      using snoc.prems unfolding window_le10_def
      by (drule_tac spec [of _ "length xs"]) simp
    finally show ?thesis .
  next
    case False
    have "window_le10 xs"
      unfolding window_le10_def
    proof (intro allI impI)
      fix n assume n: "n < length xs"
      then show "length (within (xs ! n - kIpWindow) (take (Suc n) xs)) \<le> 10"
        using snoc.prems [unfolded window_le10_def, THEN spec, of n] by (simp add: nth_append)
    qed
    with False snoc.IH show ?thesis by simp
  qed
qed

definition slot_window_ok :: "gate \<Rightarrow> nat \<Rightarrow> bool" where
  "slot_window_ok s i \<longleftrightarrow> acq s i \<le> clk s \<and>
     (counted s i \<or>
       ((\<forall>h\<in>set (hist s (ip_at s i)). h \<le> acq s i) \<and>
        length (within (acq s i - kIpWindow) (hist s (ip_at s i))) \<le> 9))"

definition ip_window_ok :: "gate \<Rightarrow> string \<Rightarrow> bool" where
  "ip_window_ok s ip \<longleftrightarrow> (\<forall>h\<in>set (hist s ip). h \<le> clk s) \<and> window_le10 (hist s ip) \<and>
     within (clk s - kIpWindow) (hist s ip) =
     within (clk s - kIpWindow) (stamps_of (failsByIp (lim s)) ip)"

definition window_inv :: "gate \<Rightarrow> bool" where
  "window_inv s \<longleftrightarrow> (\<forall>ip. ip_window_ok s ip) \<and> (\<forall>i\<in>live s. slot_window_ok s i)"

lemma ip_window_okD:
  assumes "ip_window_ok s ip"
  shows "\<forall>h\<in>set (hist s ip). h \<le> clk s" and "window_le10 (hist s ip)"
    and "within (clk s - kIpWindow) (hist s ip) =
         within (clk s - kIpWindow) (stamps_of (failsByIp (lim s)) ip)"
  using assms by (simp_all add: ip_window_ok_def)

lemma within_later: "a \<le> b \<Longrightarrow> within a xs = within a ys \<Longrightarrow> within b xs = within b ys"
  by (metis max.absorb1 within_within)

lemma within_prune_stamps:
  "t \<le> c \<Longrightarrow> within (c - w) (within (t - w) ss) = within (c - w) ss"
  by (simp add: within_within max_def)

lemma window_inv_init: "window_inv (gate_init t)"
  by (simp add: window_inv_def ip_window_ok_def gate_init_def live_def limiter_init_def
      stamps_of_def window_le10_def)

lemma window_inv_tick:
  assumes inv: "window_inv s" and t: "clk s \<le> t" shows "window_inv (s\<lparr>clk := t\<rparr>)"
  unfolding window_inv_def
proof (intro conjI allI ballI)
  fix ip
  have ok: "ip_window_ok s ip" using inv by (simp add: window_inv_def)
  have "within (t - kIpWindow) (hist s ip) = within (t - kIpWindow) (stamps_of (failsByIp (lim s)) ip)"
    by (rule within_later [OF _ ip_window_okD(3) [OF ok]]) (use t in simp)
  then show "ip_window_ok (s\<lparr>clk := t\<rparr>) ip"
    using ip_window_okD(1,2) [OF ok] t by (auto simp: ip_window_ok_def)
next
  fix i assume "i \<in> live (s\<lparr>clk := t\<rparr>)"
  then have "slot_window_ok s i" using inv by (simp add: window_inv_def live_def)
  then show "slot_window_ok (s\<lparr>clk := t\<rparr>) i"
    using t by (simp add: slot_window_ok_def ip_at_def)
qed

text \<open>A call that only prunes the failure map of addresses leaves the invariant alone.\<close>

lemma ip_window_ok_prune:
  assumes "ip_window_ok s k" and "t \<le> clk s"
    and "failsByIp l' = fst (pruneMapLocked (failsByIp (lim s)) ip t kIpWindow)"
  shows "ip_window_ok (s\<lparr>lim := l'\<rparr>) k"
  using ip_window_okD [OF assms(1)] assms(2,3)
  by (cases "k = ip") (simp_all add: ip_window_ok_def within_prune_stamps)

lemma window_inv_lim:
  assumes "window_inv s" and "\<And>k. ip_window_ok s k \<Longrightarrow> ip_window_ok (s\<lparr>lim := l'\<rparr>) k"
  shows "window_inv (s\<lparr>lim := l'\<rparr>)"
  using assms by (simp add: window_inv_def slot_window_ok_def live_def ip_at_def)

lemma window_inv_admit:
  assumes inv: "window_inv s" and free: "slots s i = None" and t: "t \<le> clk s"
    and out: "tryBegin norm (lim s) t ip email = (l', out)" and adm: "tb_admit out = Admit_ok"
  shows "window_inv (s\<lparr>lim := l', slots := (slots s)(i := tb_guard out),
           acq := (acq s)(i := clk s), counted := (counted s)(i := False)\<rparr>)" (is "window_inv ?s'")
proof -
  have adm': "tb_admit (snd (tryBegin norm (lim s) t ip email)) = Admit_ok"
    using out adm by simp
  note new = tryBegin_ok [OF adm', unfolded out fst_conv snd_conv]
  have maps: "failsByIp l' = fst (pruneMapLocked (failsByIp (lim s)) ip t kIpWindow)"
    using tryBegin_maps(1) [of norm "lim s" t ip email] out by simp
  have all: "ip_window_ok s k" for k using inv by (simp add: window_inv_def)
  have ips: "ip_window_ok ?s' k" for k
    using ip_window_ok_prune [OF all t maps, of k] by (simp add: ip_window_ok_def)
  have "length (within (clk s - kIpWindow) (hist s ip)) \<le> length (recent_ip (lim s) t ip)"
    unfolding recent_ip_def ip_window_okD(3) [OF all]
    by (rule length_within_mono) (use t in simp)
  then have mine: "slot_window_ok ?s' i"
    using new(4,8) ip_window_okD(1) [OF all] by (simp add: slot_window_ok_def ip_at_def)
  have other: "slot_window_ok ?s' j" if j: "j \<in> live s" for j
  proof -
    have "j \<noteq> i" using j free by (auto simp: live_def)
    moreover have "slot_window_ok s j" using inv j by (simp add: window_inv_def)
    ultimately show ?thesis by (simp add: slot_window_ok_def ip_at_def)
  qed
  have "live ?s' = insert i (live s)" using new(4) by (auto simp: live_def)
  then show ?thesis using ips mine other by (simp add: window_inv_def)
qed

lemma window_inv_failure:
  assumes inv: "window_inv s" and ok: "slots_ok s" and g: "slots s i = Some g"
    and nc: "\<not> counted s i" and t: "acq s i \<le> t" "t \<le> clk s"
  shows "window_inv (s\<lparr>lim := recordFailure norm (lim s) t (g_ip g) email,
           counted := (counted s)(i := True), hist := (hist s)(g_ip g := hist s (g_ip g) @ [t])\<rparr>)"
    (is "window_inv ?s'")
proof -
  let ?ip = "g_ip g"
  have i: "i \<in> live s" and ipi: "ip_at s i = ?ip" using g by (auto simp: live_def ip_at_def)
  have all: "ip_window_ok s k" for k using inv by (simp add: window_inv_def)
  have si: "slot_window_ok s j" if "j \<in> live s" for j using inv that by (simp add: window_inv_def)
  have nine: "length (within (acq s i - kIpWindow) (hist s ?ip)) \<le> 9"
    using si [OF i] nc ipi by (simp add: slot_window_ok_def)
  have "length (within (t - kIpWindow) (hist s ?ip @ [t])) \<le> 10"
    using nine length_within_mono [of "acq s i - kIpWindow" "t - kIpWindow" "hist s ?ip"] t
    by (simp add: within_single)
  with ip_window_okD(2) [OF all] have le10: "window_le10 (hist s ?ip @ [t])"
    by (rule window_le10_snoc)
  have eq: "within (clk s - kIpWindow) (hist s ?ip @ [t]) =
      within (clk s - kIpWindow) (within (t - kIpWindow) (stamps_of (failsByIp (lim s)) ?ip @ [t]))"
    unfolding within_prune_stamps [OF t(2)] within_append ip_window_okD(3) [OF all] ..
  have "\<forall>h\<in>set (hist s ?ip @ [t]). h \<le> clk s" using ip_window_okD(1) [OF all] t by simp
  with le10 eq have mine: "ip_window_ok ?s' ?ip" by (simp add: ip_window_ok_def del: within_append)
  have ips: "ip_window_ok ?s' k" for k
    using mine all [of k] by (cases "k = ?ip") (simp_all add: ip_window_ok_def)
  have other: "slot_window_ok ?s' j" if j: "j \<in> live s" for j
  proof (cases "j = i")
    case True
    then show ?thesis using t by (simp add: slot_window_ok_def)
  next
    case False
    have "inj_on (ip_at s) (live s)" using ok by (simp add: slots_ok_def)
    then have "ip_at s j \<noteq> ?ip" using False i j ipi by (metis inj_onD)
    then show ?thesis
      using si [OF j] False by (simp add: slot_window_ok_def ip_at_def)
  qed
  have "live ?s' = live s" by (simp add: live_def)
  then show ?thesis using ips other by (simp add: window_inv_def)
qed

lemma window_inv_reset: "window_inv s \<Longrightarrow> window_inv (guard_reset s i)"
proof (cases "slots s i")
  case (Some g)
  assume inv: "window_inv s"
  have "ip_window_ok (guard_reset s i) k" for k
    using inv Some by (simp add: window_inv_def guard_reset_def ip_window_ok_def)
  moreover have "slot_window_ok (guard_reset s i) j" if j: "j \<in> live (guard_reset s i)" for j
  proof -
    have "j \<noteq> i" "j \<in> live s" using j Some by (auto simp: guard_reset_def live_def split: if_splits)
    then have "slot_window_ok s j" using inv by (simp add: window_inv_def)
    then show ?thesis using Some \<open>j \<noteq> i\<close>
      by (simp add: slot_window_ok_def guard_reset_def ip_at_def)
  qed
  ultimately show ?thesis by (simp add: window_inv_def)
qed (simp add: guard_reset_def)

lemma window_inv_move: "window_inv s \<Longrightarrow> window_inv (guard_move s dst src)"
proof (cases "dst = src")
  case False
  let ?s1 = "guard_reset s dst"
  let ?s2 = "guard_move s dst src"
  assume "window_inv s"
  then have inv: "window_inv ?s1" by (rule window_inv_reset)
  have s2: "slots ?s2 = (slots ?s1)(dst := slots ?s1 src, src := None)" "lim ?s2 = lim ?s1"
    "clk ?s2 = clk ?s1" "hist ?s2 = hist ?s1"
    "acq ?s2 = (acq ?s1)(dst := acq ?s1 src)" "counted ?s2 = (counted ?s1)(dst := counted ?s1 src)"
    using False by (simp_all add: guard_move_def Let_def)
  have "ip_window_ok ?s2 k" for k
    using inv by (simp add: window_inv_def ip_window_ok_def s2)
  moreover have "slot_window_ok ?s2 j" if j: "j \<in> live ?s2" for j
  proof (cases "j = dst")
    case True
    then have "src \<in> live ?s1" using j False by (simp add: live_def s2)
    then have "slot_window_ok ?s1 src" using inv by (simp add: window_inv_def)
    then show ?thesis using True False by (simp add: slot_window_ok_def ip_at_def s2)
  next
    case jd: False
    then have "j \<noteq> src" "j \<in> live ?s1" using j by (auto simp: live_def s2 split: if_splits)
    then have "slot_window_ok ?s1 j" using inv by (simp add: window_inv_def)
    then show ?thesis using jd \<open>j \<noteq> src\<close> by (simp add: slot_window_ok_def ip_at_def s2)
  qed
  ultimately show ?thesis by (simp add: window_inv_def)
qed (simp add: guard_move_def)

lemma gate_step_window_inv: "gate_step norm s s' \<Longrightarrow> slots_ok s \<Longrightarrow> window_inv s \<Longrightarrow> window_inv s'"
proof (induction rule: gate_step.induct)
  case (turned_away t s ip email l' out)
  have "failsByIp l' = fst (pruneMapLocked (failsByIp (lim s)) ip t kIpWindow)"
    using tryBegin_maps(1) [of norm "lim s" t ip email] turned_away by simp
  with turned_away show ?case by (auto intro: window_inv_lim ip_window_ok_prune)
next
  case (success s i g email)
  then show ?case by (auto intro!: window_inv_lim simp: ip_window_ok_def)
qed (blast intro: window_inv_tick window_inv_admit window_inv_failure window_inv_reset
       window_inv_move)+

lemma gate_reachable_window_inv: "gate_reachable norm s \<Longrightarrow> window_inv s"
  by (induction rule: gate_reachable.induct)
    (blast intro: window_inv_init gate_step_window_inv gate_reachable_slots_ok)+

subsection \<open>A run for the witnesses: one admission, one counted failure\<close>

lemma gate_example:
  "\<exists>s. gate_reachable id s \<and> slots s 0 = Some \<lparr>g_ip = ''10.0.0.7'', g_email = ''bob''\<rparr> \<and>
     hist s ''10.0.0.7'' = [5] \<and> clk s = 5"
proof -
  let ?out = "tryBegin id limiter_init 5 ''10.0.0.7'' ''bob''"
  let ?g = "\<lparr>g_ip = ''10.0.0.7'', g_email = ''bob''\<rparr>"
  let ?s1 = "(gate_init 5)\<lparr>lim := fst ?out, slots := (slots (gate_init 5))(0 := tb_guard (snd ?out)),
      acq := (acq (gate_init 5))(0 := clk (gate_init 5)),
      counted := (counted (gate_init 5))(0 := False)\<rparr>"
  have ok: "tb_admit (snd ?out) = Admit_ok"
    by (simp add: tryBegin_admit admit_spec_def recent_ip_def recent_email_def stamps_of_def
        limiter_init_def)
  note g = tryBegin_ok(4) [OF ok]
  have r1: "gate_reachable id ?s1"
    by (rule gate_reachable.step [OF gate_reachable.start [of id 5]], rule gate_step.admitted
        [where t = 5 and ip = "''10.0.0.7''" and email = "''bob''" and i = 0])
      (simp_all add: ok gate_init_def)
  let ?s2 = "?s1\<lparr>lim := recordFailure id (lim ?s1) 5 (g_ip ?g) ''bob'',
      counted := (counted ?s1)(0 := True), hist := (hist ?s1)(g_ip ?g := hist ?s1 (g_ip ?g) @ [5])\<rparr>"
  have "gate_reachable id ?s2"
    by (rule gate_reachable.step [OF r1], rule gate_step.failure)
      (simp_all add: g gate_init_def)
  moreover have "slots ?s2 0 = Some ?g" "hist ?s2 ''10.0.0.7'' = [5]" "clk ?s2 = 5"
    by (simp_all add: g gate_init_def)
  ultimately show ?thesis by blast
qed

subsection \<open>The gate as an interface\<close>

text \<open>What a caller relies on: a refused entry and an entry followed by its leave both give the
  in-flight state back, whatever else was changed in between.\<close>

locale admission_gate =
  fixes enter :: "'l \<Rightarrow> 'l \<times> 'g option" and leave :: "'g \<Rightarrow> 'l \<Rightarrow> 'l"
    and view :: "'l \<Rightarrow> 'v" and ok :: "'l \<Rightarrow> bool"
  assumes refused_view: "ok l \<Longrightarrow> enter l = (l', None) \<Longrightarrow> view l' = view l"
    and leave_view: "ok l \<Longrightarrow> enter l = (l', Some g) \<Longrightarrow> view m = view l' \<Longrightarrow> view (leave g m) = view l"
begin

definition bracket :: "('l \<Rightarrow> 'l) \<Rightarrow> ('l \<Rightarrow> 'l) \<Rightarrow> 'l \<Rightarrow> 'l" where
  "bracket body refusal l =
     (case enter l of (l', None) \<Rightarrow> refusal l' | (l', Some g) \<Rightarrow> leave g (body l'))"

lemma bracket_view:
  assumes "ok l" and "\<And>m. view (body m) = view m" and "\<And>m. view (refusal m) = view m"
  shows "view (bracket body refusal l) = view l"
proof (cases "enter l")
  case (Pair l' g)
  then show ?thesis using assms refused_view leave_view
    by (cases g) (auto simp: bracket_def)
qed

end

definition inflight :: "limiter \<Rightarrow> string set \<times> string set \<times> int" where
  "inflight l = (inflightIp l, inflightEmail l, argon2Live l)"

definition enter_gate ::
    "(string \<Rightarrow> string) \<Rightarrow> int \<Rightarrow> string \<Rightarrow> string \<Rightarrow> limiter \<Rightarrow> limiter \<times> guard option" where
  "enter_gate norm t ip email l =
     (fst (tryBegin norm l t ip email), tb_guard (snd (tryBegin norm l t ip email)))"

definition leave_gate :: "guard \<Rightarrow> limiter \<Rightarrow> limiter" where
  "leave_gate g l = release l (g_ip g) (g_email g)"

lemma tryBegin_guard_iff:
  "tb_guard (snd (tryBegin norm l t ip email)) = None \<longleftrightarrow>
     tb_admit (snd (tryBegin norm l t ip email)) \<noteq> Admit_ok"
  using tryBegin_ok(4) tryBegin_refused_frame by (metis option.distinct(1))

interpretation login_gate: admission_gate "enter_gate norm t ip email" leave_gate inflight
    "\<lambda>l. 0 \<le> argon2Live l" for norm t ip email
proof
  fix l l'
  assume "enter_gate norm t ip email l = (l', None)"
  then show "inflight l' = inflight l"
    using tryBegin_refused_frame [of norm l t ip email]
    by (auto simp: enter_gate_def inflight_def tryBegin_guard_iff)
next
  fix l l' g m
  assume ok: "0 \<le> argon2Live l" and e: "enter_gate norm t ip email l = (l', Some g)"
    and m: "inflight m = inflight l'"
  have a: "tb_admit (snd (tryBegin norm l t ip email)) = Admit_ok"
    using e tryBegin_guard_iff by (metis enter_gate_def option.distinct(1) prod.inject)
  note t = tryBegin_ok [OF a]
  have g: "g = \<lparr>g_ip = ip, g_email = norm email\<rparr>" and l': "l' = fst (tryBegin norm l t ip email)"
    using e t(4) by (auto simp: enter_gate_def)
  have "inflightIp m = insert ip (inflightIp l)" "inflightEmail m = insert (norm email) (inflightEmail l)"
    "argon2Live m = argon2Live l + 1"
    using m t(1-3) by (simp_all add: inflight_def l')
  then show "inflight (leave_gate g m) = inflight l"
    using ok t(5,6) by (simp add: leave_gate_def g release_def inflight_def Let_def)
qed

subsection \<open>Properties\<close>

text \<open>C1. In every reachable state of the gate the three views of the in-flight logins agree:
  the counter equals the number of live guards, never exceeds two, and no two live guards
  share an address or an e-mail, which are exactly the ones in the in-flight sets.  So a slot
  is never leaked by a moved, reset or reassigned guard, and the counter never underflows.\<close>

theorem limiter_slots_invariant:
  assumes "gate_reachable norm s"
  shows "argon2Live (lim s) = int (card (live s)) \<and> card (live s) \<le> 2 \<and>
    inflightIp (lim s) = ip_at s ` live s \<and> inj_on (ip_at s) (live s) \<and>
    inflightEmail (lim s) = email_at s ` live s \<and> inj_on (email_at s) (live s)"
  using gate_reachable_slots_ok [OF assms] by (simp add: slots_ok_def)

theorem limiter_slots_invariant_witness:
  "\<exists>s. gate_reachable id s \<and> 0 \<in> live s \<and> argon2Live (lim s) = int (card (live s)) \<and>
     ''10.0.0.7'' \<in> inflightIp (lim s)"
proof -
  obtain s where r: "gate_reachable id s" and g: "slots s 0 = Some \<lparr>g_ip = ''10.0.0.7'', g_email = ''bob''\<rparr>"
    using gate_example by blast
  have "0 \<in> live s" "ip_at s 0 = ''10.0.0.7''" using g by (auto simp: live_def ip_at_def)
  then show ?thesis using limiter_slots_invariant [OF r] r by (metis image_eqI)
qed

text \<open>C9. Serial guessing is capped: whatever the interleaving of clients, e-mails and clock
  reads, in no ten-minute window does one address get more than ten password failures
  counted, so not more than ten hashes of wrong passwords.\<close>

theorem limiter_failures_per_window:
  assumes "gate_reachable norm s"
  shows "length (filter (\<lambda>h. T - kIpWindow \<le> h \<and> h \<le> T) (hist s ip)) \<le> 10"
proof -
  have "ip_window_ok s ip"
    using gate_reachable_window_inv [OF assms] by (simp add: window_inv_def)
  then show ?thesis by (intro window_le10_any ip_window_okD(2))
qed

theorem limiter_failures_per_window_witness:
  "\<exists>s. gate_reachable id s \<and> hist s ''10.0.0.7'' = [5] \<and>
     length (filter (\<lambda>h. 5 - kIpWindow \<le> h \<and> h \<le> 5) (hist s ''10.0.0.7'')) \<le> 10"
proof -
  obtain s where "gate_reachable id s" "hist s ''10.0.0.7'' = [5]" using gate_example by blast
  then show ?thesis using limiter_failures_per_window [of id s 5 "''10.0.0.7''"] by blast
qed

text \<open>\<open>tryBegin\<close> decides exactly by the failures still inside their windows, then by the
  in-flight sets, then by the global counter, in that order; every refusal leaves the
  in-flight state untouched and hands out no guard.\<close>

theorem limiter_decision:
  "tb_admit (snd (tryBegin norm l t ip email)) = admit_spec l t ip (norm email) \<and>
   (tb_admit (snd (tryBegin norm l t ip email)) \<noteq> Admit_ok \<longrightarrow>
      tb_guard (snd (tryBegin norm l t ip email)) = None \<and>
      inflightIp (fst (tryBegin norm l t ip email)) = inflightIp l \<and>
      inflightEmail (fst (tryBegin norm l t ip email)) = inflightEmail l \<and>
      argon2Live (fst (tryBegin norm l t ip email)) = argon2Live l)"
  using tryBegin_refused_frame by (auto simp: tryBegin_admit)

theorem limiter_decision_witness:
  "admit_spec (limiter_init\<lparr>argon2Live := 2\<rparr>) 7 ''1.1.1.1'' ''eve'' = Admit_busy \<and>
   tb_guard (snd (tryBegin id (limiter_init\<lparr>argon2Live := 2\<rparr>) 7 ''1.1.1.1'' ''eve'')) = None"
proof -
  have b: "admit_spec (limiter_init\<lparr>argon2Live := 2\<rparr>) 7 ''1.1.1.1'' ''eve'' = Admit_busy"
    by (simp add: admit_spec_def recent_ip_def recent_email_def stamps_of_def limiter_init_def)
  then show ?thesis
    using limiter_decision [of id "limiter_init\<lparr>argon2Live := 2\<rparr>" 7 "''1.1.1.1''" "''eve''"] by simp
qed

text \<open>The \<open>Retry-After\<close> of every refusal is a real waiting time: at least one second and at
  most the ten minutes of the window, when the recorded failures are not in the future.\<close>

theorem limiter_retry_after_bounds:
  assumes "tb_admit (snd (tryBegin norm l t ip email)) \<noteq> Admit_ok"
    and "\<forall>x\<in>set (recent_ip l t ip) \<union> set (recent_email l t (norm email)). x \<le> t"
  shows "1 \<le> tb_retryAfterSec (snd (tryBegin norm l t ip email)) \<and>
    tb_retryAfterSec (snd (tryBegin norm l t ip email)) \<le> 600"
proof -
  have w: "kIpWindow \<le> 2 ^ 31 * ns_per_sec" "0 < kIpWindow" "kIpWindow div ns_per_sec = 600"
    by (simp_all add: kIpWindow_def ns_per_sec_def)
  have e: "kEmailWindow = kIpWindow" by (simp add: kEmailWindow_def kIpWindow_def)
  have i: "1 \<le> remainingSec ss t kIpWindow \<and> remainingSec ss t kIpWindow \<le> 600"
    if "\<forall>x\<in>set ss. x \<le> t" for ss
    using remainingSec_bounds [OF that w(1,2)] by (simp add: w(3))
  show ?thesis
    using assms i [of "recent_ip l t ip"] i [of "recent_email l t (norm email)"]
    by (simp add: tryBegin_unfold refused_def e Let_def split: if_splits)
qed

theorem limiter_retry_after_bounds_witness:
  "1 \<le> tb_retryAfterSec (snd (tryBegin id (limiter_init\<lparr>argon2Live := 2\<rparr>) 7 ''1.1.1.1'' ''eve'')) \<and>
   tb_retryAfterSec (snd (tryBegin id (limiter_init\<lparr>argon2Live := 2\<rparr>) 7 ''1.1.1.1'' ''eve'')) \<le> 600"
  by (rule limiter_retry_after_bounds)
    (simp_all add: tryBegin_admit admit_spec_def recent_ip_def recent_email_def stamps_of_def
      limiter_init_def)

text \<open>C33. The gate reopens by itself: once every recorded failure of the address and of the
  e-mail is older than ten minutes, a login whose address and e-mail have no other login running is
  admitted, as long as one of the two slots for password hashes is free, and both keys are dropped
  from the failure maps.\<close>

theorem limiter_reopens:
  assumes "\<forall>x\<in>set (stamps_of (failsByIp l) ip). x < t - kIpWindow"
    and "\<forall>x\<in>set (stamps_of (failsByEmail l) (norm email)). x < t - kEmailWindow"
    and "ip \<notin> inflightIp l" and "norm email \<notin> inflightEmail l" and "argon2Live l < 2"
  shows "tb_admit (snd (tryBegin norm l t ip email)) = Admit_ok \<and>
    failsByIp (fst (tryBegin norm l t ip email)) ip = None \<and>
    failsByEmail (fst (tryBegin norm l t ip email)) (norm email) = None"
proof -
  have none: "within (t - w) ss = []" if "\<forall>x\<in>set ss. x < t - w" for w ss
    using that by (auto simp: within_def filter_empty_conv)
  have gone: "fst (pruneMapLocked m k t w) k = None" if "\<forall>x\<in>set (stamps_of m k). x < t - w" for m k w
    using none [OF that]
    by (auto simp: pruneMapLocked_def pruneLocked_within stamps_of_def split: option.splits)
  show ?thesis
    using assms none [OF assms(1)] none [OF assms(2)]
    by (simp add: tryBegin_admit admit_spec_def recent_ip_def recent_email_def gone)
qed

theorem limiter_reopens_witness:
  "tb_admit (snd (tryBegin id (limiter_init\<lparr>failsByIp := [''1.1.1.1'' \<mapsto> replicate 12 0]\<rparr>)
     (kIpWindow + 1) ''1.1.1.1'' ''eve'')) = Admit_ok"
  using limiter_reopens [of "limiter_init\<lparr>failsByIp := [''1.1.1.1'' \<mapsto> replicate 12 0]\<rparr>"
      "''1.1.1.1''" "kIpWindow + 1" id "''eve''"]
  by (simp add: stamps_of_def limiter_init_def)

end
