(* ===== verification/ClientIp.thy ===== *)
theory ClientIp
  imports Prelude
begin

text \<open>
  \<^verbatim>\<open>HTTP/clientIp.h\<close> and \<^verbatim>\<open>HTTP/clientIp.cpp\<close>: which address a request that came through a
  reverse proxy is attributed to.

  Boost.Asio's addresses are not part of the repository: the record \<open>asio\<close> holds the
  functions of it the code calls, over an arbitrary type of addresses.  A request is its
  header lookup (Beast's \<open>req.find\<close>: the first field of that name).  An endpoint is its
  address, and \<open>None\<close> is a socket that has no peer.
\<close>

record 'a asio =
  make_address :: "string \<Rightarrow> 'a option"
  addr_to_string :: "'a \<Rightarrow> string"
  is_loopback :: "'a \<Rightarrow> bool"
  is_v6 :: "'a \<Rightarrow> bool"
  is_v4_mapped :: "'a \<Rightarrow> bool"
  make_v4_mapped :: "'a \<Rightarrow> 'a"

type_synonym header_lookup = "string \<Rightarrow> string option"

subsection \<open>Definitions\<close>

definition is_blank :: "char \<Rightarrow> bool" where
  "is_blank c \<longleftrightarrow> c = CHR '' '' \<or> c = CHR 0x09"

definition ip_trim :: "string \<Rightarrow> string" where
  "ip_trim value = trim_by is_blank value"

definition addressToKey :: "'a asio \<Rightarrow> 'a \<Rightarrow> string" where
  "addressToKey A addr =
     (if is_v6 A addr \<and> is_v4_mapped A addr then addr_to_string A (make_v4_mapped A addr)
      else addr_to_string A addr)"

definition parseAddress :: "'a asio \<Rightarrow> string \<Rightarrow> string option" where
  "parseAddress A text =
     (if text = [] then None
      else case make_address A text of None \<Rightarrow> None | Some addr \<Rightarrow> Some (addr_to_string A addr))"

definition normalizeAddress :: "'a asio \<Rightarrow> string \<Rightarrow> string option" where
  "normalizeAddress A text =
     (if text = [] then None
      else case make_address A text of None \<Rightarrow> None | Some addr \<Rightarrow> Some (addressToKey A addr))"

definition rightmostForwardedFor :: "'a asio \<Rightarrow> string \<Rightarrow> string option" where
  "rightmostForwardedFor A headerValue =
     (let v = (case after_last CHR '','' headerValue of None \<Rightarrow> headerValue | Some r \<Rightarrow> r)
      in normalizeAddress A (ip_trim v))"

definition isTrustedProxy :: "'a asio \<Rightarrow> 'a \<Rightarrow> string list option \<Rightarrow> bool" where
  "isTrustedProxy A peer trustedProxies =
     (if is_loopback A peer then True
      else case trustedProxies of
             None \<Rightarrow> False
           | Some entries \<Rightarrow> list_ex (\<lambda>entry. make_address A entry = Some peer) entries)"

text \<open>A header that is present and holds a usable address.\<close>

definition forwarded :: "'a asio \<Rightarrow> header_lookup \<Rightarrow> string \<Rightarrow> string option" where
  "forwarded A req name =
     (case req name of None \<Rightarrow> None | Some v \<Rightarrow> rightmostForwardedFor A v)"

definition clientIp :: "'a asio \<Rightarrow> 'a option \<Rightarrow> header_lookup \<Rightarrow> string list option \<Rightarrow> string" where
  "clientIp A peer0 req trustedProxies =
     (case peer0 of
        None \<Rightarrow> ''127.0.0.1''
      | Some peer \<Rightarrow>
          if isTrustedProxy A peer trustedProxies then
            (case forwarded A req ''X-Forwarded-For'' of
               Some ip \<Rightarrow> ip
             | None \<Rightarrow>
                 (case forwarded A req ''X-Real-IP'' of
                    Some ip \<Rightarrow> ip
                  | None \<Rightarrow> addressToKey A peer))
          else addressToKey A peer)"

definition serverIp ::
    "'a asio \<Rightarrow> 'a option \<Rightarrow> 'a option \<Rightarrow> header_lookup \<Rightarrow> string list option \<Rightarrow> string" where
  "serverIp A loc peer req trustedProxies =
     (let bound = (case loc of Some a \<Rightarrow> addr_to_string A a | None \<Rightarrow> ''127.0.0.1'')
      in case peer of
           None \<Rightarrow> bound
         | Some p \<Rightarrow>
             if \<not> isTrustedProxy A p trustedProxies then bound
             else (case req ''X-Server-IP'' of
                     None \<Rightarrow> bound
                   | Some v \<Rightarrow> (case parseAddress A (ip_trim v) of Some ip \<Rightarrow> ip | None \<Rightarrow> bound)))"

subsection \<open>Lemmas\<close>

lemma rightmost_last_element:
  "CHR '','' \<notin> set t \<Longrightarrow>
     rightmostForwardedFor A (s @ CHR '','' # t) = normalizeAddress A (ip_trim t)"
  by (simp add: rightmostForwardedFor_def after_last_append)

lemma normalizeAddress_SomeD:
  "normalizeAddress A s = Some ip \<Longrightarrow> \<exists>a. make_address A s = Some a \<and> ip = addressToKey A a"
  by (auto simp: normalizeAddress_def split: if_splits option.splits)

lemma forwarded_SomeD: "forwarded A req name = Some ip \<Longrightarrow> \<exists>a. ip = addressToKey A a"
  by (auto simp: forwarded_def rightmostForwardedFor_def Let_def split: option.splits
      dest: normalizeAddress_SomeD)

text \<open>The source of every answer: the peer itself, a parsed header, or the fixed fallback.\<close>

lemma clientIp_Some_key: "\<exists>a. clientIp A (Some p) req tp = addressToKey A a"
  using forwarded_SomeD [of A req] unfolding clientIp_def
  by (simp split: option.splits) blast

text \<open>Asio's documented behaviour: printing an address gives text that parses back to it, the
  IPv4 address made from a mapped one is not an IPv6 address, and \<open>127.0.0.1\<close> is its own
  canonical text.\<close>

definition asio_laws :: "'a asio \<Rightarrow> bool" where
  "asio_laws A \<longleftrightarrow>
     (\<forall>a. addr_to_string A a \<noteq> [] \<and> make_address A (addr_to_string A a) = Some a) \<and>
     (\<forall>a. \<not> is_v6 A (make_v4_mapped A a)) \<and>
     (\<exists>lo. make_address A ''127.0.0.1'' = Some lo \<and> addr_to_string A lo = ''127.0.0.1'' \<and>
        \<not> is_v6 A lo)"

lemma normalizeAddress_key:
  assumes "asio_laws A" shows "normalizeAddress A (addressToKey A a) = Some (addressToKey A a)"
  using assms by (simp add: asio_laws_def normalizeAddress_def addressToKey_def)

lemma normalizeAddress_localhost:
  "asio_laws A \<Longrightarrow> normalizeAddress A ''127.0.0.1'' = Some ''127.0.0.1''"
  by (auto simp: asio_laws_def normalizeAddress_def addressToKey_def)

text \<open>An instance with three addresses, for the witnesses.\<close>

datatype sample_addr = Loopback4 | Host9 | Host9_mapped

fun sample_text :: "sample_addr \<Rightarrow> string" where
  "sample_text Loopback4 = ''127.0.0.1''"
| "sample_text Host9 = ''10.0.0.9''"
| "sample_text Host9_mapped = ''::ffff:10.0.0.9''"

definition sample_asio :: "sample_addr asio" where
  "sample_asio = \<lparr>
     make_address = (\<lambda>s. if s = ''127.0.0.1'' then Some Loopback4
                         else if s = ''10.0.0.9'' then Some Host9
                         else if s = ''::ffff:10.0.0.9'' then Some Host9_mapped else None),
     addr_to_string = sample_text, is_loopback = (\<lambda>a. a = Loopback4),
     is_v6 = (\<lambda>a. a = Host9_mapped), is_v4_mapped = (\<lambda>a. a = Host9_mapped),
     make_v4_mapped = (\<lambda>_. Host9)\<rparr>"

lemma sample_asio_laws: "asio_laws sample_asio"
proof -
  have "sample_text a \<noteq> [] \<and> make_address sample_asio (sample_text a) = Some a" for a
    by (cases a) (simp_all add: sample_asio_def)
  then show ?thesis by (simp add: asio_laws_def) (simp add: sample_asio_def)
qed

subsection \<open>Properties\<close>

text \<open>C19. A peer that is not trusted cannot influence who it is: without trust the answer is
  the normalised socket address, whatever headers the request carries; and trust needs
  loopback or an entry of the list that parses to exactly that address, so entries that do
  not parse never widen it.\<close>

theorem clientIp_untrusted:
  assumes "\<not> is_loopback A peer"
    and "\<forall>e\<in>set (case tp of None \<Rightarrow> [] | Some es \<Rightarrow> es). make_address A e \<noteq> Some peer"
  shows "clientIp A (Some peer) req tp = addressToKey A peer"
proof -
  have "\<not> isTrustedProxy A peer tp"
    using assms by (auto simp: isTrustedProxy_def list_ex_iff split: option.splits)
  then show ?thesis by (simp add: clientIp_def)
qed

theorem clientIp_untrusted_witness:
  "clientIp sample_asio (Some Host9_mapped)
     [''X-Forwarded-For'' \<mapsto> ''127.0.0.1''] (Some [''10.0.0.9'', ''bogus'']) = ''10.0.0.9''"
proof -
  have "clientIp sample_asio (Some Host9_mapped)
     [''X-Forwarded-For'' \<mapsto> ''127.0.0.1''] (Some [''10.0.0.9'', ''bogus'']) =
     addressToKey sample_asio Host9_mapped"
    by (rule clientIp_untrusted) (simp_all add: sample_asio_def)
  then show ?thesis by (simp add: addressToKey_def sample_asio_def)
qed

text \<open>Behind a trusted proxy only the element the proxy appended counts: whatever the
  client puts in front of it in \<open>X-Forwarded-For\<close>, commas and addresses included, the answer
  is the normalised last element.\<close>

theorem clientIp_rightmost:
  assumes "isTrustedProxy A peer tp"
    and "req ''X-Forwarded-For'' = Some (forged @ CHR '','' # t)" and "CHR '','' \<notin> set t"
    and "make_address A (ip_trim t) = Some a" and "ip_trim t \<noteq> []"
  shows "clientIp A (Some peer) req tp = addressToKey A a"
  using assms
  by (simp add: clientIp_def forwarded_def rightmost_last_element normalizeAddress_def)

theorem clientIp_rightmost_witness:
  "clientIp sample_asio (Some Loopback4)
     [''X-Forwarded-For'' \<mapsto> ''127.0.0.1,evil'' @ CHR '','' # '' ::ffff:10.0.0.9''] None = ''10.0.0.9''"
proof -
  have "clientIp sample_asio (Some Loopback4)
     [''X-Forwarded-For'' \<mapsto> ''127.0.0.1,evil'' @ CHR '','' # '' ::ffff:10.0.0.9''] None =
     addressToKey sample_asio Host9_mapped"
    by (rule clientIp_rightmost [where t = "'' ::ffff:10.0.0.9''"])
      (simp_all add: sample_asio_def isTrustedProxy_def ip_trim_def trim_by_def is_blank_def)
  then show ?thesis by (simp add: addressToKey_def sample_asio_def)
qed

text \<open>The answer is never client text: it is always the canonical spelling of a parsed
  address, a fixed point of \<open>normalizeAddress\<close>, so one host has one key in filters, limits
  and logs.\<close>

theorem clientIp_canonical:
  assumes "asio_laws A"
  shows "normalizeAddress A (clientIp A peer req tp) = Some (clientIp A peer req tp)"
proof (cases peer)
  case None
  then show ?thesis using normalizeAddress_localhost [OF assms] by (simp add: clientIp_def)
next
  case (Some p)
  then show ?thesis using clientIp_Some_key [of A p req tp] normalizeAddress_key [OF assms] by auto
qed

theorem clientIp_canonical_witness:
  "normalizeAddress sample_asio (clientIp sample_asio (Some Loopback4)
     [''X-Real-IP'' \<mapsto> ''::ffff:10.0.0.9''] None) = Some ''10.0.0.9''"
proof -
  have "clientIp sample_asio (Some Loopback4) [''X-Real-IP'' \<mapsto> ''::ffff:10.0.0.9''] None = ''10.0.0.9''"
    by (simp add: clientIp_def isTrustedProxy_def forwarded_def rightmostForwardedFor_def
        after_last_def ip_trim_def trim_by_def is_blank_def normalizeAddress_def addressToKey_def
        sample_asio_def)
  then show ?thesis using clientIp_canonical [OF sample_asio_laws, of "Some Loopback4"
      "[''X-Real-IP'' \<mapsto> ''::ffff:10.0.0.9'']" None] by simp
qed

end
