(* ===== verification/MapExt.thy ===== *)
theory MapExt
  imports Prelude
begin

text \<open>
  The containers of \<^verbatim>\<open>mapExtensor/\<close>: \<open>mapV2\<close> and \<open>multiMapV2\<close> (\<^verbatim>\<open>mapV2.h\<close>, \<^verbatim>\<open>NotFoundMixin.h\<close>),
  \<open>vectorV2\<close>, \<open>RRList\<close>, \<open>FixedVector\<close>, \<open>IndexedVector\<close> and \<open>join\<close>.

  A \<open>std::map\<close> or \<open>std::multimap\<close> is the list of its entries in iteration order, so that
  printing and serialising see the order the code sees.  \<open>std::map::insert\<close> keeps an existing
  entry, \<open>operator[]\<close> with an assignment overwrites it, and \<open>std::multimap::insert\<close> puts a new
  entry after the equal ones; \<open>multimap::find\<close> is the first of them (libstdc++).
\<close>

type_synonym ('k, 'v) omap = "('k \<times> 'v) list"

subsection \<open>The standard containers\<close>

definition map_wf :: "('k::linorder, 'v) omap \<Rightarrow> bool" where
  "map_wf m \<longleftrightarrow> sorted_wrt (<) (map fst m)"

definition mm_wf :: "('k::linorder, 'v) omap \<Rightarrow> bool" where
  "mm_wf m \<longleftrightarrow> sorted (map fst m)"

fun map_insert :: "'k::linorder \<Rightarrow> 'v \<Rightarrow> ('k, 'v) omap \<Rightarrow> ('k, 'v) omap" where
  "map_insert k v [] = [(k, v)]"
| "map_insert k v ((k', v') # m) =
     (if k < k' then (k, v) # (k', v') # m
      else if k = k' then (k', v') # m
      else (k', v') # map_insert k v m)"

fun map_assign :: "'k::linorder \<Rightarrow> 'v \<Rightarrow> ('k, 'v) omap \<Rightarrow> ('k, 'v) omap" where
  "map_assign k v [] = [(k, v)]"
| "map_assign k v ((k', v') # m) =
     (if k < k' then (k, v) # (k', v') # m
      else if k = k' then (k, v) # m
      else (k', v') # map_assign k v m)"

fun mm_insert :: "'k::linorder \<Rightarrow> 'v \<Rightarrow> ('k, 'v) omap \<Rightarrow> ('k, 'v) omap" where
  "mm_insert k v [] = [(k, v)]"
| "mm_insert k v ((k', v') # m) =
     (if k < k' then (k, v) # (k', v') # m else (k', v') # mm_insert k v m)"

definition map_erase :: "'k \<Rightarrow> ('k, 'v) omap \<Rightarrow> ('k, 'v) omap" where
  "map_erase k m = filter (\<lambda>p. fst p \<noteq> k) m"

definition mm_range :: "('k, 'v) omap \<Rightarrow> 'k \<Rightarrow> 'v list" where
  "mm_range m k = map snd (filter (\<lambda>p. fst p = k) m)"

lemma set_keys_insert [simp]: "fst ` set (map_insert k v m) = insert k (fst ` set m)"
  by (induction k v m rule: map_insert.induct) auto

lemma set_keys_assign [simp]: "fst ` set (map_assign k v m) = insert k (fst ` set m)"
  by (induction k v m rule: map_assign.induct) auto

lemma set_mm_insert [simp]: "set (mm_insert k v m) = insert (k, v) (set m)"
  by (induction k v m rule: mm_insert.induct) auto

lemma map_wf_Nil [simp]: "map_wf []"
  by (simp add: map_wf_def)

lemma mm_wf_Nil [simp]: "mm_wf []"
  by (simp add: mm_wf_def)

lemma map_wf_insert [simp]: "map_wf m \<Longrightarrow> map_wf (map_insert k v m)"
  by (induction k v m rule: map_insert.induct) (auto simp: map_wf_def)

lemma map_wf_assign [simp]: "map_wf m \<Longrightarrow> map_wf (map_assign k v m)"
  by (induction k v m rule: map_assign.induct) (auto simp: map_wf_def)

lemma map_wf_erase [simp]: "map_wf m \<Longrightarrow> map_wf (map_erase k m)"
  by (induction m) (auto simp: map_wf_def map_erase_def)

lemma mm_wf_insert [simp]: "mm_wf m \<Longrightarrow> mm_wf (mm_insert k v m)"
  by (induction k v m rule: mm_insert.induct) (auto simp: mm_wf_def)

lemma mm_wf_erase [simp]: "mm_wf m \<Longrightarrow> mm_wf (map_erase k m)"
  by (induction m) (auto simp: mm_wf_def map_erase_def)

lemma map_wf_less: "map_wf ((k, v) # m) \<Longrightarrow> k' \<le> k \<Longrightarrow> map_of m k' = None"
  by (auto simp: map_wf_def map_of_eq_None_iff)

lemma map_of_insert:
  "map_wf m \<Longrightarrow>
     map_of (map_insert k v m) = (map_of m)(k := Some (case map_of m k of None \<Rightarrow> v | Some x \<Rightarrow> x))"
proof (induction k v m rule: map_insert.induct)
  case (2 k v k' v' m)
  then have "map_wf m" by (simp add: map_wf_def)
  with 2 show ?case
    using map_wf_less [OF "2.prems"] by (auto simp: fun_eq_iff split: option.splits)
qed auto

lemma map_of_assign: "map_wf m \<Longrightarrow> map_of (map_assign k v m) = (map_of m)(k \<mapsto> v)"
proof (induction k v m rule: map_assign.induct)
  case (2 k v k' v' m)
  then have "map_wf m" by (simp add: map_wf_def)
  with 2 show ?case by (auto simp: fun_eq_iff)
qed auto

lemma map_of_erase [simp]: "map_of (map_erase k m) = (map_of m)(k := None)"
  by (induction m) (auto simp: map_erase_def fun_eq_iff)

lemma mm_sorted_head: "mm_wf ((k, v) # m) \<Longrightarrow> k' < k \<Longrightarrow> map_of m k' = None"
  by (fastforce simp: mm_wf_def map_of_eq_None_iff)

lemma map_of_mm_insert:
  "mm_wf m \<Longrightarrow>
     map_of (mm_insert k v m) = (map_of m)(k := Some (case map_of m k of None \<Rightarrow> v | Some x \<Rightarrow> x))"
proof (induction k v m rule: mm_insert.induct)
  case (2 k v k' v' m)
  then have "mm_wf m" by (simp add: mm_wf_def)
  with 2 show ?case
    using mm_sorted_head [OF "2.prems"] by (auto simp: fun_eq_iff split: option.splits)
qed auto

lemma mm_range_insert:
  "mm_wf m \<Longrightarrow>
     mm_range (mm_insert k v m) k' = (if k' = k then mm_range m k @ [v] else mm_range m k')"
proof (induction k v m rule: mm_insert.induct)
  case (2 k v k' v' m)
  have none: "filter (\<lambda>p. fst p = k) m = []" if "k < k'"
    using "2.prems" that by (fastforce simp: mm_wf_def filter_empty_conv)
  from 2 have "mm_wf m" by (simp add: mm_wf_def)
  with 2 none show ?case by (auto simp: mm_range_def)
qed (auto simp: mm_range_def)

lemma mm_find_range: "map_of m k = (case mm_range m k of [] \<Rightarrow> None | v # _ \<Rightarrow> Some v)"
  by (induction m) (auto simp: mm_range_def)

lemma mm_range_erase [simp]: "mm_range (map_erase k m) k' = (if k' = k then [] else mm_range m k')"
  by (induction m) (auto simp: mm_range_def map_erase_def)

subsection \<open>Interfaces\<close>

text \<open>What a filler of a container relies on when a second entry of a key must not replace the
  first one: cookies, query parameters, the MIME table, the columns of a result set.\<close>

locale first_wins_map =
  fixes ins :: "'k \<Rightarrow> 'v \<Rightarrow> 'm \<Rightarrow> 'm" and look :: "'m \<Rightarrow> 'k \<Rightarrow> 'v option" and ok :: "'m \<Rightarrow> bool"
  assumes look_ins:
      "ok m \<Longrightarrow> look (ins k v m) = (look m)(k := Some (case look m k of None \<Rightarrow> v | Some x \<Rightarrow> x))"
    and ok_ins: "ok m \<Longrightarrow> ok (ins k v m)"
begin

definition fill :: "('k \<times> 'v) list \<Rightarrow> 'm \<Rightarrow> 'm" where
  "fill kvs m = fold (\<lambda>(k, v). ins k v) kvs m"

lemma ok_fill: "ok m \<Longrightarrow> ok (fill kvs m)"
  by (induction kvs arbitrary: m) (auto simp: fill_def ok_ins)

lemma look_fill:
  "ok m \<Longrightarrow> look (fill kvs m) k = (case look m k of None \<Rightarrow> map_of kvs k | Some x \<Rightarrow> Some x)"
proof (induction kvs arbitrary: m)
  case Nil
  then show ?case by (simp add: fill_def split: option.splits)
next
  case (Cons p kvs)
  obtain a b where p: "p = (a, b)" by (cases p)
  have "look (fill kvs (ins a b m)) k =
      (case look (ins a b m) k of None \<Rightarrow> map_of kvs k | Some x \<Rightarrow> Some x)"
    by (rule Cons.IH) (rule ok_ins [OF Cons.prems])
  then show ?case using Cons.prems by (simp add: p fill_def look_ins split: option.splits)
qed

end

interpretation std_map: first_wins_map map_insert map_of map_wf
  by unfold_locales (auto simp: map_of_insert)

interpretation std_multimap: first_wins_map mm_insert map_of mm_wf
  by unfold_locales (auto simp: map_of_mm_insert)

text \<open>A store whose writes replace: the assignments through \<open>operator[]\<close> and the cache.\<close>

locale kv_store =
  fixes put :: "'k \<Rightarrow> 'v \<Rightarrow> 'm \<Rightarrow> 'm" and look :: "'m \<Rightarrow> 'k \<Rightarrow> 'v option"
    and del :: "'k \<Rightarrow> 'm \<Rightarrow> 'm" and ok :: "'m \<Rightarrow> bool"
  assumes look_put: "ok m \<Longrightarrow> look (put k v m) = (look m)(k \<mapsto> v)"
    and look_del: "ok m \<Longrightarrow> look (del k m) = (look m)(k := None)"
    and ok_put: "ok m \<Longrightarrow> ok (put k v m)"
    and ok_del: "ok m \<Longrightarrow> ok (del k m)"
begin

definition put_all :: "('k \<times> 'v) list \<Rightarrow> 'm \<Rightarrow> 'm" where
  "put_all kvs m = fold (\<lambda>(k, v). put k v) kvs m"

lemma ok_put_all: "ok m \<Longrightarrow> ok (put_all kvs m)"
  by (induction kvs arbitrary: m) (auto simp: put_all_def ok_put)

lemma look_put_all: "ok m \<Longrightarrow> look (put_all kvs m) = look m ++ map_of (rev kvs)"
proof (induction kvs arbitrary: m)
  case Nil
  then show ?case by (simp add: put_all_def)
next
  case (Cons p kvs)
  obtain a b where p: "p = (a, b)" by (cases p)
  have "look (put_all kvs (put a b m)) = look (put a b m) ++ map_of (rev kvs)"
    by (rule Cons.IH) (rule ok_put [OF Cons.prems])
  then show ?case
    using Cons.prems
    by (simp add: p put_all_def look_put map_add_assoc [symmetric] map_add_def fun_eq_iff
        split: option.splits)
qed

lemma put_then_del: "ok m \<Longrightarrow> look m k = None \<Longrightarrow> look (del k (put k v m)) = look m"
  by (auto simp: look_del look_put ok_put fun_eq_iff)

end

interpretation assign_map: kv_store map_assign map_of map_erase map_wf
  by unfold_locales (auto simp: map_of_assign)

subsection \<open>mapV2 and multiMapV2\<close>

text \<open>
  A missing key first calls the optional callback, which may throw an exception of its own
  (\<open>FromCallback\<close>), and otherwise raises the library's exception (\<open>MissingKey\<close>).  \<open>conv\<close> is
  the \<open>swapType\<close> of the requested type, which may throw (\<open>BadConversion\<close>).
\<close>

datatype ('k, 'e) map_error = MissingKey 'k | FromCallback 'e | BadConversion 'e

type_synonym ('k, 'e) not_found = "('k \<Rightarrow> 'e option) option"

definition callNotFoundCallback :: "('k, 'e) not_found \<Rightarrow> 'k \<Rightarrow> ('k, 'e) map_error" where
  "callNotFoundCallback cb k =
     (case cb of
        None \<Rightarrow> MissingKey k
      | Some f \<Rightarrow> (case f k of Some e \<Rightarrow> FromCallback e | None \<Rightarrow> MissingKey k))"

definition convert :: "('v \<Rightarrow> 'e + 't) \<Rightarrow> 'v \<Rightarrow> ('k, 'e) map_error + 't" where
  "convert conv v = (case conv v of Inl e \<Rightarrow> Inl (BadConversion e) | Inr t \<Rightarrow> Inr t)"

definition map_rq :: "('k, 'e) not_found \<Rightarrow> ('k, 'v) omap \<Rightarrow> 'k \<Rightarrow> ('k, 'e) map_error + 'v" where
  "map_rq cb m k = (case map_of m k of Some v \<Rightarrow> Inr v | None \<Rightarrow> Inl (callNotFoundCallback cb k))"

definition map_rq_as ::
    "('k, 'e) not_found \<Rightarrow> ('v \<Rightarrow> 'e + 't) \<Rightarrow> ('k, 'v) omap \<Rightarrow> 'k \<Rightarrow> ('k, 'e) map_error + 't" where
  "map_rq_as cb conv m k = (case map_rq cb m k of Inl e \<Rightarrow> Inl e | Inr v \<Rightarrow> convert conv v)"

definition map_get_as ::
    "('v \<Rightarrow> 'e + 't) \<Rightarrow> ('k, 'v) omap \<Rightarrow> 'k \<Rightarrow> ('k, 'e) map_error + 't option" where
  "map_get_as conv m k =
     (case map_of m k of
        None \<Rightarrow> Inr None
      | Some v \<Rightarrow> (case convert conv v of Inl e \<Rightarrow> Inl e | Inr t \<Rightarrow> Inr (Some t)))"

definition map_take_rq ::
    "('k, 'e) not_found \<Rightarrow> ('v \<Rightarrow> 'e + 't) \<Rightarrow> ('k, 'v) omap \<Rightarrow> 'k \<Rightarrow>
     ('k, 'e) map_error + 't \<times> ('k, 'v) omap" where
  "map_take_rq cb conv m k =
     (case map_rq_as cb conv m k of Inl e \<Rightarrow> Inl e | Inr t \<Rightarrow> Inr (t, map_erase k m))"

definition map_take ::
    "('v \<Rightarrow> 'e + 't) \<Rightarrow> ('k, 'v) omap \<Rightarrow> 'k \<Rightarrow> 't \<Rightarrow> ('k, 'e) map_error + 't \<times> ('k, 'v) omap" where
  "map_take conv m k def =
     (case map_get_as conv m k of
        Inl e \<Rightarrow> Inl e
      | Inr None \<Rightarrow> Inr (def, m)
      | Inr (Some t) \<Rightarrow> Inr (t, map_erase k m))"

definition map_take_opt :: "('k, 'v) omap \<Rightarrow> 'k \<Rightarrow> 'v option \<times> ('k, 'v) omap" where
  "map_take_opt m k = (case map_of m k of Some v \<Rightarrow> (Some v, map_erase k m) | None \<Rightarrow> (None, m))"

text \<open>\<open>get(QStringList, T&)\<close>: the first key of the list that is present.\<close>

fun map_get_any ::
    "('v \<Rightarrow> 'e + 't) \<Rightarrow> ('k, 'v) omap \<Rightarrow> 'k list \<Rightarrow> ('k, 'e) map_error + 't option" where
  "map_get_any conv m [] = Inr None"
| "map_get_any conv m (k # ks) =
     (case map_get_as conv m k of
        Inl e \<Rightarrow> Inl e
      | Inr (Some t) \<Rightarrow> Inr (Some t)
      | Inr None \<Rightarrow> map_get_any conv m ks)"

definition map_get_default :: "('k, 'v) omap \<Rightarrow> 'k \<Rightarrow> 'v \<Rightarrow> 'v \<times> bool" where
  "map_get_default m k v = (case map_of m k of Some x \<Rightarrow> (x, True) | None \<Rightarrow> (v, False))"

text \<open>The non-const \<open>operator[]\<close> creates a default entry; \<open>copyIfFound\<close> inserts, so it answers
  true without touching an entry that is already there.\<close>

definition map_index :: "'v \<Rightarrow> 'k::linorder \<Rightarrow> ('k, 'v) omap \<Rightarrow> 'v \<times> ('k, 'v) omap" where
  "map_index dflt k m = (case map_of m k of Some v \<Rightarrow> (v, m) | None \<Rightarrow> (dflt, map_insert k dflt m))"

definition map_copyIfFound ::
    "'k::linorder \<Rightarrow> ('k, 'v) omap \<Rightarrow> ('k, 'v) omap \<Rightarrow> bool \<times> ('k, 'v) omap" where
  "map_copyIfFound k source m =
     (case map_of source k of Some v \<Rightarrow> (True, map_insert k v m) | None \<Rightarrow> (False, m))"

definition mm_rqRange :: "('k, 'e) not_found \<Rightarrow> ('k, 'v) omap \<Rightarrow> 'k \<Rightarrow> ('k, 'e) map_error + 'v list" where
  "mm_rqRange cb m k =
     (let res = mm_range m k in if res = [] then Inl (callNotFoundCallback cb k) else Inr res)"

definition mm_take ::
    "('v \<Rightarrow> 'e + 't) \<Rightarrow> ('k, 'v) omap \<Rightarrow> 'k \<Rightarrow> 't \<Rightarrow> ('k, 'e) map_error + 't \<times> ('k, 'v) omap" where
  "mm_take conv m k def =
     (case map_of m k of
        None \<Rightarrow> Inr (def, m)
      | Some v \<Rightarrow> (case convert conv v of Inl e \<Rightarrow> Inl e | Inr t \<Rightarrow> Inr (t, map_erase k m)))"

definition mm_getAllKeys :: "('k, 'v) omap \<Rightarrow> 'k list" where
  "mm_getAllKeys m = map fst m"

lemmas map_access_defs = map_rq_def map_rq_as_def map_get_as_def map_take_rq_def map_take_def
  map_take_opt_def map_get_default_def map_index_def map_copyIfFound_def mm_rqRange_def
  mm_take_def convert_def

lemma map_get_any_first:
  "map_get_any conv m ks =
     (case filter (\<lambda>k. map_of m k \<noteq> None) ks of [] \<Rightarrow> Inr None | k # _ \<Rightarrow> map_get_as conv m k)"
  by (induction ks) (auto simp: map_get_as_def split: option.splits sum.splits)

subsection \<open>vectorV2, RRList, FixedVector and join\<close>

definition vec_contains :: "'a list \<Rightarrow> 'a \<Rightarrow> bool" where
  "vec_contains v n \<longleftrightarrow> n \<in> set v"

definition vec_try_insert :: "'a list \<Rightarrow> 'a \<Rightarrow> 'a list \<times> bool" where
  "vec_try_insert v n = (if \<not> vec_contains v n then (v @ [n], True) else (v, False))"

definition vec_findN :: "'a list \<Rightarrow> 'a \<Rightarrow> nat option" where
  "vec_findN v n = (let i = length (takeWhile (\<lambda>x. x \<noteq> n) v) in if i < length v then Some i else None)"

definition vec_elementContainedInto :: "('p \<Rightarrow> 'a \<Rightarrow> bool) \<Rightarrow> 'a list \<Rightarrow> 'p \<Rightarrow> 'a option" where
  "vec_elementContainedInto contains v pattern = find (contains pattern) v"

text \<open>\<open>RRList::append\<close>: push at the back, drop one element at the front when the list got longer
  than \<open>maxSize\<close>; \<open>maxSize = 0\<close> is unlimited.\<close>

definition rr_append :: "nat \<Rightarrow> 'a list \<Rightarrow> 'a \<Rightarrow> 'a list" where
  "rr_append maxSize l v =
     (let l' = l @ [v] in if maxSize \<noteq> 0 \<and> maxSize < length l' then tl l' else l')"

definition fixed_tryAppend :: "nat \<Rightarrow> 'a list \<Rightarrow> 'a \<Rightarrow> nat \<times> 'a list" where
  "fixed_tryAppend maxSize l v =
     (let s = length l in if maxSize \<le> s then (0, l) else (s, l @ [v]))"

definition fixed_full :: "nat \<Rightarrow> 'a list \<Rightarrow> bool" where
  "fixed_full maxSize l \<longleftrightarrow> maxSize \<le> length l"

text \<open>\<open>join\<close> appends every element followed by the separator and drops the last character;
  \<open>pop_back\<close> of an empty string (no elements, empty separator) is undefined: \<open>None\<close>.\<close>

definition vec_join :: "string list \<Rightarrow> string \<Rightarrow> string option" where
  "vec_join els sep =
     (let out = concat (map (\<lambda>el. el @ sep) els) in if out = [] then None else Some (butlast out))"

lemma vec_join_single_sep:
  "els \<noteq> [] \<Longrightarrow> vec_join els [c] = Some (join_with [c] els)"
proof -
  have "els \<noteq> [] \<Longrightarrow> concat (map (\<lambda>el. el @ [c]) els) = join_with [c] els @ [c]"
    by (induction "[c]" els rule: join_with.induct) auto
  then show "els \<noteq> [] \<Longrightarrow> ?thesis" by (simp add: vec_join_def)
qed

lemma rr_append_fold:
  assumes "0 < n" and "length l \<le> n"
  shows "fold (\<lambda>v l. rr_append n l v) vs l = drop (length (l @ vs) - n) (l @ vs)"
  using assms(2)
proof (induction vs arbitrary: l)
  case Nil
  then show ?case by simp
next
  case (Cons v vs)
  have step: "rr_append n l v = drop (length (l @ [v]) - n) (l @ [v])"
  proof (cases "length l < n")
    case True
    then show ?thesis by (simp add: rr_append_def Let_def)
  next
    case False
    then have "length l = n" using Cons.prems by simp
    then show ?thesis using assms(1) by (cases l) (simp_all add: rr_append_def Let_def)
  qed
  then have "length (rr_append n l v) \<le> n" by simp
  then have "fold (\<lambda>v l. rr_append n l v) (v # vs) l =
      drop (length (rr_append n l v @ vs) - n) (rr_append n l v @ vs)"
    using Cons.IH by simp
  also have "\<dots> = drop (length (l @ v # vs) - n) (l @ v # vs)"
  proof -
    let ?a = "length (l @ [v]) - n" and ?all = "(l @ [v]) @ vs"
    have "rr_append n l v @ vs = drop ?a ?all" using assms(1) by (simp add: step)
    moreover have "length ?all - ?a - n + ?a = length ?all - n"
      using Cons.prems by simp
    ultimately have "drop (length (rr_append n l v @ vs) - n) (rr_append n l v @ vs)
        = drop (length ?all - n) ?all"
      by (simp only: length_drop drop_drop)
    then show ?thesis by simp
  qed
  finally show ?case .
qed

subsection \<open>IndexedVector\<close>

text \<open>The key of an \<open>IndexedVector\<close> is compared field by field (\<open>operator<=> = default\<close>); the
  elements are kept in a multimap over it.  \<open>key_of\<close> is the extraction of \<open>rty\<close> and \<open>nation\<close>
  that \<open>push_back\<close> selects at compile time.\<close>

datatype ivkey = IvKey (iv_rty: nat) (iv_nation: string)

text \<open>The defaulted \<^verbatim>\<open>operator<=>\<close> of the key: member by member. It is the order of the type.\<close>

definition iv_key_le :: "ivkey \<Rightarrow> ivkey \<Rightarrow> bool" where
  "iv_key_le a b \<longleftrightarrow> iv_rty a < iv_rty b \<or> (iv_rty a = iv_rty b \<and> iv_nation a \<le> iv_nation b)"

definition iv_key_less :: "ivkey \<Rightarrow> ivkey \<Rightarrow> bool" where
  "iv_key_less a b \<longleftrightarrow> iv_rty a < iv_rty b \<or> (iv_rty a = iv_rty b \<and> iv_nation a < iv_nation b)"

instantiation ivkey :: linorder
begin

definition less_eq_ivkey :: "ivkey \<Rightarrow> ivkey \<Rightarrow> bool" where
  "less_eq_ivkey a b \<longleftrightarrow> iv_key_le a b"

definition less_ivkey :: "ivkey \<Rightarrow> ivkey \<Rightarrow> bool" where
  "less_ivkey a b \<longleftrightarrow> iv_key_less a b"

instance
  by standard (auto simp: less_eq_ivkey_def less_ivkey_def iv_key_le_def iv_key_less_def intro: ivkey.expand)

end

definition iv_push :: "('a \<Rightarrow> ivkey) \<Rightarrow> (ivkey, 'a) omap \<Rightarrow> 'a \<Rightarrow> (ivkey, 'a) omap" where
  "iv_push key_of content r = mm_insert (key_of r) r content"

definition iv_push_all :: "('a \<Rightarrow> ivkey) \<Rightarrow> (ivkey, 'a) omap \<Rightarrow> 'a list \<Rightarrow> (ivkey, 'a) omap" where
  "iv_push_all key_of content rs = fold (\<lambda>r c. iv_push key_of c r) rs content"

definition iv_elements :: "(ivkey, 'a) omap \<Rightarrow> 'a list" where
  "iv_elements content = map snd content"

lemma iv_push_wf: "mm_wf c \<Longrightarrow> mm_wf (iv_push_all key_of c rs)"
  by (induction rs arbitrary: c) (auto simp: iv_push_all_def iv_push_def)

lemma iv_range_push_all:
  "mm_wf c \<Longrightarrow> mm_range (iv_push_all key_of c rs) k = mm_range c k @ filter (\<lambda>r. key_of r = k) rs"
proof (induction rs arbitrary: c)
  case Nil
  then show ?case by (simp add: iv_push_all_def)
next
  case (Cons r rs)
  have "mm_range (iv_push_all key_of (iv_push key_of c r) rs) k =
      mm_range (iv_push key_of c r) k @ filter (\<lambda>r. key_of r = k) rs"
    using Cons.prems by (intro Cons.IH) (simp add: iv_push_def)
  then show ?case
    using Cons.prems by (auto simp: iv_push_all_def iv_push_def mm_range_insert)
qed

end
