(* ===== verification/HttpMessage.thy ===== *)
theory HttpMessage
  imports MapExt
begin

text \<open>
  Requests and responses: \<^verbatim>\<open>HTTP/Payload.h\<close>, \<^verbatim>\<open>HTTP/Payload.cpp\<close>, \<^verbatim>\<open>HTTP/PMFCGI.h\<close>,
  \<^verbatim>\<open>HTTP/PMFCGI.cpp\<close> and \<^verbatim>\<open>HTTP/canned_reply.cpp\<close>.

  Headers of a response are a multimap, those of a request and the cookies a \<open>mapV2\<close> (the
  first entry of a key wins), a decoded form a multimap.  Qt's \<open>trimmed\<close>, \<open>toLower\<close> and
  \<open>fromPercentEncoding\<close> are parameters.
\<close>

datatype http_error = HttpException string

subsection \<open>Response headers and payload\<close>

type_synonym headers = "(string, string) omap"

record payload =
  alreadySent :: bool
  statusCode :: nat
  html :: string
  mime :: string
  headers :: headers

definition payload_init :: payload where
  "payload_init = \<lparr>alreadySent = False, statusCode = 200, html = [],
     mime = ''text/html; charset=utf-8'', headers = []\<rparr>"

definition hdr_setCookie :: "headers \<Rightarrow> string \<Rightarrow> string \<Rightarrow> nat \<Rightarrow> bool \<Rightarrow> bool \<Rightarrow> headers" where
  "hdr_setCookie h name value ttl sameSite secure =
     (let secureS = (if secure then '' Secure;'' else []);
          same = (if sameSite then ''SameSite=Strict'' else ''SameSite=Lax'');
          row = name @ ''='' @ value @ ''; Max-Age='' @ show_nat ttl @ ''; path=/ ; '' @ same @
                '';'' @ secureS @ '' HttpOnly''
      in mm_insert ''Set-Cookie'' row h)"

definition hdr_deleteCookie :: "headers \<Rightarrow> string \<Rightarrow> headers" where
  "hdr_deleteCookie h name =
     (let row = name @ ''=; Max-Age='' @ show_nat 0 @ ''; path=/ ; '' @ ''SameSite=Lax'' @ ''; HttpOnly''
      in mm_insert ''Set-Cookie'' row h)"

definition setStandardHeaders :: "bool \<Rightarrow> payload \<Rightarrow> payload" where
  "setStandardHeaders addCors p =
     (let h1 = mm_insert ''Expires'' ''Sun, 01 Jan 2014 00:00:00 GMT'' (headers p);
          h2 = mm_insert ''Cache-Control'' ''no-store, no-cache, must-revalidate'' h1;
          h3 = mm_insert ''Cache-Control'' ''post-check=0, pre-check=0'' h2;
          h4 = mm_insert ''Pragma'' ''no-cache'' h3;
          h5 = (if addCors then mm_insert ''Access-Control-Allow-Origin'' ''*'' h4 else h4)
      in p\<lparr>headers := h5, statusCode := 200\<rparr>)"

definition setCacheHeader :: "nat \<Rightarrow> payload \<Rightarrow> payload" where
  "setCacheHeader ttl p =
     (if ttl > 0
      then p\<lparr>headers := mm_insert ''cache-control'' (''public, max-age='' @ show_nat ttl) (headers p)\<rparr>
      else p)"

definition redirect :: "string \<Rightarrow> payload \<Rightarrow> payload" where
  "redirect location p =
     p\<lparr>headers := mm_insert ''Location'' location (headers p), statusCode := 302\<rparr>"

definition setCookie :: "string \<Rightarrow> string \<Rightarrow> nat \<Rightarrow> bool \<Rightarrow> bool \<Rightarrow> payload \<Rightarrow> payload" where
  "setCookie key value cookieTTL sameSite secure p =
     p\<lparr>headers := hdr_setCookie (headers p) key value cookieTTL sameSite secure\<rparr>"

lemmas payload_ops = setStandardHeaders_def setCacheHeader_def redirect_def setCookie_def
  hdr_setCookie_def hdr_deleteCookie_def

subsection \<open>Canned empty replies\<close>

definition pick :: "bool \<Rightarrow> string \<Rightarrow> string \<Rightarrow> string" where
  "pick keepAlive ka close = (if keepAlive then ka else close)"

definition crlf :: string where
  "crlf = [CHR 0x0D, CHR 0x0A]"

definition canned_line :: "string \<Rightarrow> string \<Rightarrow> bool \<Rightarrow> string" where
  "canned_line version phrase keepAlive =
     pick keepAlive (version @ phrase @ crlf @ ''Connection: keep-alive'' @ crlf @ crlf)
                    (version @ phrase @ crlf @ ''Connection: close'' @ crlf @ crlf)"

definition cannedEmptyHttp :: "nat \<Rightarrow> nat \<Rightarrow> bool \<Rightarrow> string" where
  "cannedEmptyHttp status httpVersion keepAlive =
     (if status = 204 then
        (if httpVersion = 11 then canned_line ''HTTP/1.1 '' ''204 No Content'' keepAlive
         else if httpVersion = 10 then canned_line ''HTTP/1.0 '' ''204 No Content'' keepAlive else [])
      else if status = 205 then
        (if httpVersion = 11 then canned_line ''HTTP/1.1 '' ''205 Reset Content'' keepAlive
         else if httpVersion = 10 then canned_line ''HTTP/1.0 '' ''205 Reset Content'' keepAlive else [])
      else if status = 304 then
        (if httpVersion = 11 then canned_line ''HTTP/1.1 '' ''304 Not Modified'' keepAlive
         else if httpVersion = 10 then canned_line ''HTTP/1.0 '' ''304 Not Modified'' keepAlive else [])
      else [])"

subsection \<open>Request headers and cookies\<close>

text \<open>\<open>SKQ\<close>: a value with the mutable mark that \<open>serialize\<close> sets.\<close>

record skq =
  skq_val :: string
  skip :: bool

type_synonym bheaders = "(string, skq) omap"

definition bh_add :: "(string \<Rightarrow> string) \<Rightarrow> bheaders \<Rightarrow> string \<Rightarrow> string \<Rightarrow> bheaders" where
  "bh_add lower h key value = map_insert (lower key) \<lparr>skq_val = value, skip = False\<rparr> h"

definition bh_set :: "(string \<Rightarrow> string) \<Rightarrow> bheaders \<Rightarrow> (string, string) omap \<Rightarrow> bheaders" where
  "bh_set lower h hs = fold (\<lambda>(key, value) h. bh_add lower h key value) hs h"

text \<open>\<open>fmt\<close>'s \<open>{:<n}\<close>: pad with spaces on the right.\<close>

definition pad_right :: "nat \<Rightarrow> string \<Rightarrow> string" where
  "pad_right n s = s @ replicate (n - length s) CHR '' ''"

definition mark_skipped :: "string list \<Rightarrow> bool \<Rightarrow> bheaders \<Rightarrow> bheaders" where
  "mark_skipped skipHeaders skipEmpty h =
     map (\<lambda>(k, v). (k, if k \<in> set skipHeaders \<or> (skipEmpty \<and> skq_val v = []) then v\<lparr>skip := True\<rparr>
                       else v)) h"

definition kept_now :: "string list \<Rightarrow> bool \<Rightarrow> string \<times> skq \<Rightarrow> bool" where
  "kept_now skipHeaders skipEmpty p \<longleftrightarrow>
     \<not> (fst p \<in> set skipHeaders \<or> (skipEmpty \<and> skq_val (snd p) = []))"

text \<open>The result and the headers afterwards: the marks stay set.\<close>

definition bh_serialize ::
    "string list \<Rightarrow> bool \<Rightarrow> bool \<Rightarrow> bheaders \<Rightarrow> string \<times> bheaders" where
  "bh_serialize skipHeaders initialSpacer skipEmpty h =
     (let longest = fold max (map (length \<circ> fst) (filter (kept_now skipHeaders skipEmpty) h)) 0;
          h' = mark_skipped skipHeaders skipEmpty h;
          line = (\<lambda>(k, v). (if initialSpacer then ''  |--> '' else []) @ pad_right longest k @
                     '' : '' @ skq_val v @ [CHR 0x0A])
      in (concat (map line (filter (\<lambda>p. \<not> skip (snd p)) h')), h'))"

record conf_base =
  basePathOpt :: "string option"
  port :: nat

record 'c fcgi =
  remoteIp :: string
  localIp :: string
  req_headers :: bheaders
  cookies :: "bheaders option"
  req_path :: string
  url_path :: string
  body :: string
  post :: "(string, string) omap"
  get_params :: "(string, string) omap"
  curBasePath :: string
  fcgi_conf :: "'c"

text \<open>One cookie of the \<open>Cookie\<close> header; a piece that is not \<open>name=value\<close> throws.\<close>

fun add_cookies :: "(string \<Rightarrow> string) \<Rightarrow> string list \<Rightarrow> bheaders \<Rightarrow> http_error option \<times> bheaders" where
  "add_cookies trimmed [] acc = (None, acc)"
| "add_cookies trimmed (ck # cks) acc =
     (case split_on CHR ''='' ck of
        [n, v] \<Rightarrow> add_cookies trimmed cks
                   (map_insert (trimmed n) \<lparr>skq_val = trimmed v, skip = False\<rparr> acc)
      | _ \<Rightarrow> (Some (HttpException (''invalid cookie '' @ ck)), acc))"

text \<open>\<open>extractCookies\<close> returns the exception, if any, and the request afterwards: a throw leaves
  the cookies read so far in place.\<close>

definition extractCookies :: "(string \<Rightarrow> string) \<Rightarrow> 'c fcgi \<Rightarrow> http_error option \<times> 'c fcgi" where
  "extractCookies trimmed s =
     (if cookies s \<noteq> None then (None, s)
      else case map_of (req_headers s) ''cookie'' of
             None \<Rightarrow> (None, s\<lparr>cookies := Some []\<rparr>)
           | Some v \<Rightarrow>
               (case add_cookies trimmed (split_on CHR '';'' (skq_val v)) [] of
                  (e, c) \<Rightarrow> (e, s\<lparr>cookies := Some c\<rparr>)))"

subsection \<open>Form bodies\<close>

fun decode_rows ::
    "(string \<Rightarrow> string) \<Rightarrow> nat \<Rightarrow> string list \<Rightarrow> (string, string) omap \<Rightarrow>
     http_error + (string, string) omap" where
  "decode_rows pct n [] res = Inr res"
| "decode_rows pct n (row # rows) res =
     (case split_on CHR ''='' row of
        [a, b] \<Rightarrow>
          (let c0 = replace_char CHR ''+'' CHR '' '' a;
               c1 = replace_char CHR ''+'' CHR '' '' b
           in decode_rows pct n rows (mm_insert (pct c0) (pct c1) res))
      | _ \<Rightarrow> if n = 1 then Inr [] else Inl (HttpException (''invalid line in post'' @ row)))"

definition decodePost :: "(string \<Rightarrow> string) \<Rightarrow> string \<Rightarrow> http_error + (string, string) omap" where
  "decodePost pct form =
     (if form = [] then Inr []
      else if hd form = CHR ''{'' then Inr []
      else let rows = split_on CHR ''&'' form in decode_rows pct (length rows) rows [])"

definition fcgi_decodePost :: "(string \<Rightarrow> string) \<Rightarrow> 'c fcgi \<Rightarrow> http_error + 'c fcgi" where
  "fcgi_decodePost pct s =
     (case decodePost pct (body s) of Inl e \<Rightarrow> Inl e | Inr m \<Rightarrow> Inr (s\<lparr>post := m\<rparr>))"

definition post_checkIfUnused :: "(string, string) omap \<Rightarrow> http_error option" where
  "post_checkIfUnused m =
     (if m = [] then None
      else Some (HttpException (''Unused parameter found! '' @ join_with '';'' (mm_getAllKeys m))))"

subsection \<open>The base path\<close>

text \<open>\<open>basePathFunctor\<close> overrides everything and is not cached; otherwise the first answer is.\<close>

definition getBasePath ::
    "('c fcgi \<Rightarrow> string) option \<Rightarrow> conf_base \<Rightarrow> 'c fcgi \<Rightarrow> string \<times> 'c fcgi" where
  "getBasePath functor conf s =
     (case functor of
        Some f \<Rightarrow> (f s, s)
      | None \<Rightarrow>
          if curBasePath s \<noteq> [] then (curBasePath s, s)
          else let p = (case basePathOpt conf of
                          None \<Rightarrow> if port conf = 80 then ''http://'' @ localIp s @ ''/''
                                  else ''http://'' @ localIp s @ '':'' @ show_nat (port conf) @ ''/''
                        | Some b \<Rightarrow> b)
               in (p, s\<lparr>curBasePath := p\<rparr>))"

end
