(* ===== verification/Json.thy ===== *)
theory Json
  imports Prelude
begin

text \<open>
  The JSON helpers: \<^verbatim>\<open>BoostJson/pretty_print.cpp\<close>, \<^verbatim>\<open>BoostJson/math.cpp\<close>,
  \<^verbatim>\<open>BoostJson/to_string.cpp\<close> and, of \<^verbatim>\<open>BoostJson/extra.cpp\<close>, \<open>escape_json\<close>, \<open>pushCreate\<close>,
  \<open>createOrAppendObj\<close>, \<open>swap\<close> and the position report of \<open>composeErrorMsg\<close>.

  A value is \<open>'d json\<close>, with Boost's double as the type parameter.  An object is the list
  of its fields in insertion order, each key once.  The text of a string literal and of a
  number are Boost's: the parameters \<open>lit\<close> and \<open>num\<close>.
\<close>

datatype 'd json =
    JNull
  | JBool bool
  | JInt64 int
  | JUint64 nat
  | JDouble 'd
  | JString string
  | JArray "'d json list"
  | JObject "(string \<times> 'd json) list"

type_synonym 'd jobject = "(string \<times> 'd json) list"

text \<open>\<open>insert_or_assign\<close>, also \<open>json[key] = value\<close>: replace in place, else append.\<close>

fun obj_set :: "string \<Rightarrow> 'd json \<Rightarrow> 'd jobject \<Rightarrow> 'd jobject" where
  "obj_set k v [] = [(k, v)]"
| "obj_set k v ((a, x) # r) = (if a = k then (k, v) # r else (a, x) # obj_set k v r)"

lemma map_of_obj_set [simp]: "map_of (obj_set k v t) = (map_of t)(k \<mapsto> v)"
  by (induction t) auto

lemma obj_set_keys: "fst ` set (obj_set k v t) = insert k (fst ` set t)"
  by (simp add: dom_map_of_conv_image_fst [symmetric])

lemma obj_set_distinct: "distinct (map fst t) \<Longrightarrow> distinct (map fst (obj_set k v t))"
proof (induction t)
  case (Cons p t)
  then show ?case using obj_set_keys [of k v t] by (cases p) auto
qed simp

subsection \<open>Printing\<close>

definition spaces :: "nat \<Rightarrow> string" where
  "spaces n = replicate n CHR '' ''"

definition nl :: string where
  "nl = [CHR 0x0A]"

definition end_nl :: "nat \<Rightarrow> string" where
  "end_nl n = (if n = 0 then nl else [])"

text \<open>The recursion of \<open>pretty_print(os, jv, indent)\<close>; \<open>indent\<close> is its length.  A value printed
  at an empty indent, which is only the outermost one, is followed by a newline.\<close>

primrec
  pp :: "(string \<Rightarrow> string) \<Rightarrow> ('d json \<Rightarrow> string) \<Rightarrow> 'd json \<Rightarrow> nat \<Rightarrow> string" and
  pp_items :: "(string \<Rightarrow> string) \<Rightarrow> ('d json \<Rightarrow> string) \<Rightarrow> 'd json list \<Rightarrow> nat \<Rightarrow> string list" and
  pp_fields ::
    "(string \<Rightarrow> string) \<Rightarrow> ('d json \<Rightarrow> string) \<Rightarrow> (string \<times> 'd json) list \<Rightarrow> nat \<Rightarrow> string list" and
  pp_field :: "(string \<Rightarrow> string) \<Rightarrow> ('d json \<Rightarrow> string) \<Rightarrow> string \<times> 'd json \<Rightarrow> nat \<Rightarrow> string"
where
  "pp lit num JNull n = ''null'' @ end_nl n"
| "pp lit num (JBool b) n = (if b then ''true'' else ''false'') @ end_nl n"
| "pp lit num (JInt64 i) n = num (JInt64 i) @ end_nl n"
| "pp lit num (JUint64 i) n = num (JUint64 i) @ end_nl n"
| "pp lit num (JDouble d) n = num (JDouble d) @ end_nl n"
| "pp lit num (JString s) n = lit s @ end_nl n"
| "pp lit num (JArray vs) n =
     ''['' @ nl @ join_with (CHR '','' # nl) (pp_items lit num vs (n + 4)) @ nl @ spaces n @ '']'' @ end_nl n"
| "pp lit num (JObject kvs) n =
     ''{'' @ nl @ join_with (CHR '','' # nl) (pp_fields lit num kvs (n + 4)) @ nl @ spaces n @ ''}'' @ end_nl n"
| "pp_items lit num [] n = []"
| "pp_items lit num (v # vs) n = (spaces n @ pp lit num v n) # pp_items lit num vs n"
| "pp_fields lit num [] n = []"
| "pp_fields lit num (kv # kvs) n = pp_field lit num kv n # pp_fields lit num kvs n"
| "pp_field lit num (k, v) n = spaces n @ lit k @ '' : '' @ pp lit num v n"

definition pretty_print :: "(string \<Rightarrow> string) \<Rightarrow> ('d json \<Rightarrow> string) \<Rightarrow> 'd json \<Rightarrow> string" where
  "pretty_print lit num v = pp lit num v 0"

text \<open>\<open>to_string\<close> reads the unsigned alternative of Boost's union whatever kind it holds; for a
  signed or double value that is outside the precondition of \<open>get_uint64\<close>.\<close>

datatype text_result = Text string | PreconditionViolated | RuntimeError

fun json_to_string :: "'d json \<Rightarrow> text_result" where
  "json_to_string (JString s) = Text s"
| "json_to_string (JUint64 n) = Text (show_nat n)"
| "json_to_string (JInt64 i) = PreconditionViolated"
| "json_to_string (JDouble d) = PreconditionViolated"
| "json_to_string (JBool b) = Text (if b then ''true'' else ''false'')"
| "json_to_string JNull = Text ''null''"
| "json_to_string (JArray vs) = RuntimeError"
| "json_to_string (JObject kvs) = RuntimeError"

subsection \<open>Merging and subtracting\<close>

function mergeJson :: "bool \<Rightarrow> 'd jobject \<Rightarrow> 'd jobject \<Rightarrow> 'd jobject" where
  "mergeJson overwrite target [] = target"
| "mergeJson overwrite target ((k, v) # mix) =
     mergeJson overwrite
       (case map_of target k of
          None \<Rightarrow> obj_set k v target
        | Some tv \<Rightarrow>
            (case (v, tv) of
               (JObject vo, JObject t) \<Rightarrow> obj_set k (JObject (mergeJson overwrite t vo)) target
             | (JArray va, JArray ta) \<Rightarrow> obj_set k (JArray (ta @ va)) target
             | _ \<Rightarrow> if overwrite then obj_set k v target else target)) mix"
  by pat_completeness auto
termination
  by (relation "measure (\<lambda>(_, _, m). size (JObject m))") auto

text \<open>\<open>subtractJson\<close>: a field of the first object stays when the second has no such key, when
  both are objects and the difference is not empty, when both are arrays and some element is
  missing in the second, or when the kinds differ.  \<open>eq\<close> is Boost's \<open>operator==\<close> of values.\<close>

fun same_kind :: "'d json \<Rightarrow> 'd json \<Rightarrow> bool" where
  "same_kind JNull JNull = True"
| "same_kind (JBool _) (JBool _) = True"
| "same_kind (JInt64 _) (JInt64 _) = True"
| "same_kind (JUint64 _) (JUint64 _) = True"
| "same_kind (JDouble _) (JDouble _) = True"
| "same_kind (JString _) (JString _) = True"
| "same_kind (JArray _) (JArray _) = True"
| "same_kind (JObject _) (JObject _) = True"
| "same_kind _ _ = False"

function subtractJson :: "('d json \<Rightarrow> 'd json \<Rightarrow> bool) \<Rightarrow> 'd jobject \<Rightarrow> 'd jobject \<Rightarrow> 'd jobject" where
  "subtractJson eq [] second = []"
| "subtractJson eq ((k, v) # first) second =
     (case map_of second k of
        None \<Rightarrow> [(k, v)]
      | Some v2 \<Rightarrow>
          (case (v, v2) of
             (JObject o1, JObject o2) \<Rightarrow>
               (let nested = subtractJson eq o1 o2 in if nested = [] then [] else [(k, JObject nested)])
           | (JArray a1, JArray a2) \<Rightarrow>
               (let diff = filter (\<lambda>x. \<not> list_ex (eq x) a2) a1
                in if diff = [] then [] else [(k, JArray diff)])
           | _ \<Rightarrow> if same_kind v v2 then [] else [(k, v)])) @ subtractJson eq first second"
  by pat_completeness auto
termination
  by (relation "measure (\<lambda>(_, f, _). size (JObject f))") auto

definition jsonPointerChild :: "string \<Rightarrow> string \<Rightarrow> string" where
  "jsonPointerChild base key = (if base = [] then ''/'' @ key else base @ ''/'' @ key)"

definition extraJsonKeyPaths :: "'d jobject \<Rightarrow> 'd jobject \<Rightarrow> string \<Rightarrow> string list" where
  "extraJsonKeyPaths original expected basePath =
     map (\<lambda>(k, v). jsonPointerChild basePath k) (filter (\<lambda>(k, v). map_of expected k = None) original)"

subsection \<open>Building and reading\<close>

datatype json_exn = NotAnArray string | NotAnObject string | NotAString

definition pushCreate :: "string \<Rightarrow> 'd json \<Rightarrow> 'd jobject \<Rightarrow> json_exn + 'd jobject" where
  "pushCreate key newValue json =
     (case map_of json key of
        Some (JArray vs) \<Rightarrow> Inr (obj_set key (JArray (vs @ [newValue])) json)
      | Some _ \<Rightarrow> Inl (NotAnArray key)
      | None \<Rightarrow> Inr (obj_set key (JArray [newValue]) json))"

definition createOrAppendObj ::
    "string \<Rightarrow> string \<Rightarrow> 'd json \<Rightarrow> 'd jobject \<Rightarrow> json_exn + 'd jobject" where
  "createOrAppendObj container newElement newValue json =
     (case map_of json container of
        Some (JObject kvs) \<Rightarrow> Inr (obj_set container (JObject (obj_set newElement newValue kvs)) json)
      | Some _ \<Rightarrow> Inl (NotAnObject container)
      | None \<Rightarrow> Inr (obj_set container (JObject [(newElement, newValue)]) json))"

text \<open>\<open>swap(value, vector<string>&)\<close>: the loop of the code pushes every string twice, once in the
  branch and once after it.\<close>

fun swap_items :: "'d json list \<Rightarrow> string list \<Rightarrow> json_exn + string list" where
  "swap_items [] target = Inr target"
| "swap_items (JString s # vs) target = swap_items vs ((target @ [s]) @ [s])"
| "swap_items (_ # vs) target = Inl NotAString"

fun toVecString :: "'d json \<Rightarrow> json_exn + string list" where
  "toVecString (JArray vs) = swap_items vs []"
| "toVecString (JString s) = Inr [s]"
| "toVecString _ = Inl NotAString"

text \<open>\<open>Depleter::get\<close>: the private \<open>swap\<close> takes its destination by value, so the converted value
  is lost and the destination keeps what it held.  Boost's \<open>erase\<close> moves the last field into
  the gap.\<close>

fun obj_erase :: "string \<Rightarrow> 'd jobject \<Rightarrow> 'd jobject" where
  "obj_erase k [] = []"
| "obj_erase k ((a, x) # r) =
     (if a = k then (if r = [] then [] else last r # butlast r) else (a, x) # obj_erase k r)"

definition depleter_get ::
    "('d json \<Rightarrow> 'e + 'v) \<Rightarrow> string \<Rightarrow> 'v \<Rightarrow> 'v \<Rightarrow> 'd jobject \<Rightarrow> 'e + bool \<times> 'v \<times> 'd jobject" where
  "depleter_get conv key dest def obj =
     (case map_of obj key of
        None \<Rightarrow> Inr (False, def, obj)
      | Some v \<Rightarrow>
          (case conv v of Inl e \<Rightarrow> Inl e | Inr _ \<Rightarrow> Inr (True, dest, obj_erase key obj)))"

definition depleter_rq ::
    "('d json \<Rightarrow> 'e + 'v) \<Rightarrow> 'e \<Rightarrow> string \<Rightarrow> 'v \<Rightarrow> 'd jobject \<Rightarrow> 'e + 'v \<times> 'd jobject" where
  "depleter_rq conv notFound key dest obj =
     (case depleter_get conv key dest dest obj of
        Inl e \<Rightarrow> Inl e
      | Inr (found, d, obj') \<Rightarrow> if found then Inr (d, obj') else Inl notFound)"

subsection \<open>The position of a parse error\<close>

text \<open>\<open>composeErrorMsg\<close>: the map of line ends, each with the start and the number of its line; the
  last line ends at the size of the text.\<close>

fun err_lines :: "string \<Rightarrow> nat \<Rightarrow> nat \<Rightarrow> nat \<Rightarrow> (nat \<times> nat \<times> nat) list" where
  "err_lines [] lineStart pos row = [(pos, lineStart, row)]"
| "err_lines (c # r) lineStart pos row =
     (if c = CHR 0x0A then (pos, lineStart, row) # err_lines r (pos + 1) (pos + 1) (row + 1)
      else err_lines r lineStart (pos + 1) row)"

definition substr :: "string \<Rightarrow> nat \<Rightarrow> nat \<Rightarrow> string" where
  "substr s start len = take len (drop start s)"

text \<open>Row, column and snippet; \<open>None\<close> is a position past the end, which the parser never reports.\<close>

definition err_report :: "string \<Rightarrow> nat \<Rightarrow> (nat \<times> nat \<times> string) option" where
  "err_report raw position =
     (let ls = err_lines raw 0 0 1
      in case find (\<lambda>l. position \<le> fst l) ls of
           None \<Rightarrow> None
         | Some (e, lineStart, row) \<Rightarrow>
             (let i = row - 1;
                  start = (if row > 2 then fst (snd (ls ! (i - 2)))
                           else if row > 1 then fst (snd (ls ! (i - 1))) else lineStart)
              in Some (row, position - lineStart + 1, substr raw start (e - start))))"

definition pad_left :: "nat \<Rightarrow> string \<Rightarrow> string" where
  "pad_left w s = replicate (w - length s) CHR '' '' @ s"

definition composeErrorMsg :: "string \<Rightarrow> string \<Rightarrow> nat \<Rightarrow> string option" where
  "composeErrorMsg ec raw position =
     (if raw = [] then Some ''Empty JSON''
      else if position = 0 then Some (''Invalid JSON: '' @ ec)
      else case err_report raw position of
             None \<Rightarrow> None
           | Some (row, offset, showMe) \<Rightarrow>
               Some (nl @ ''Invalid json '' @ nl @ ''Error '' @ ec @ '' '' @ nl @ ''At line '' @
                 show_nat row @ '':'' @ show_nat offset @ '' (byte from start '' @ show_nat position @
                 '')'' @ nl @ ''--------------------'' @ nl @ showMe @ nl @ pad_left offset ''^'' @ nl @
                 ''--------------------'' @ nl))"

subsection \<open>Escaping\<close>

text \<open>\<open>escape_json\<close> works on \<open>char\<close>, which is signed: a byte from 128 on is negative, so it takes
  the branch of the control characters and is printed as a 32-bit number in hexadecimal.\<close>

definition schar :: "char \<Rightarrow> int" where
  "schar c = (let n = int (of_char c) in if n < 128 then n else n - 256)"

definition hex_digit :: "nat \<Rightarrow> char" where
  "hex_digit d = char_of (if d < 10 then 48 + d else 87 + d)"

fun show_hex :: "nat \<Rightarrow> string" where
  "show_hex n = (if n < 16 then [hex_digit n] else show_hex (n div 16) @ [hex_digit (n mod 16)])"

declare show_hex.simps [simp del]

definition pad_left0 :: "nat \<Rightarrow> string \<Rightarrow> string" where
  "pad_left0 w s = replicate (w - length s) CHR ''0'' @ s"

definition backslash :: char where
  "backslash = CHR 0x5C"

definition escape_char :: "char \<Rightarrow> string" where
  "escape_char c =
     (if c = CHR 0x22 then [backslash, CHR 0x22]
      else if c = backslash then [backslash, backslash]
      else if c = CHR 0x08 then [backslash, CHR ''b'']
      else if c = CHR 0x0C then [backslash, CHR ''f'']
      else if c = CHR 0x0A then [backslash, CHR ''n'']
      else if c = CHR 0x0D then [backslash, CHR ''r'']
      else if c = CHR 0x09 then [backslash, CHR ''t'']
      else if schar c \<le> 31 then [backslash, CHR ''u''] @ pad_left0 4 (show_hex (nat (schar c mod 2 ^ 32)))
      else [c])"

definition escape_json :: "string \<Rightarrow> string" where
  "escape_json s = concat (map escape_char s)"

text \<open>The reading of a JSON string literal's body, for text without surrogates.\<close>

definition hex_value :: "char \<Rightarrow> nat option" where
  "hex_value c =
     (let n = (of_char c :: nat)
      in if 48 \<le> n \<and> n \<le> 57 then Some (n - 48)
         else if 97 \<le> n \<and> n \<le> 102 then Some (n - 87) else None)"

definition hex4 :: "char \<Rightarrow> char \<Rightarrow> char \<Rightarrow> char \<Rightarrow> nat option" where
  "hex4 a b c d =
     (case (hex_value a, hex_value b, hex_value c, hex_value d) of
        (Some w, Some x, Some y, Some z) \<Rightarrow> Some (4096 * w + 256 * x + 16 * y + z)
      | _ \<Rightarrow> None)"

definition simple_escape :: "char \<Rightarrow> char option" where
  "simple_escape c =
     (if c = CHR 0x22 then Some CHR 0x22 else if c = backslash then Some backslash
      else if c = CHR ''b'' then Some CHR 0x08 else if c = CHR ''f'' then Some CHR 0x0C
      else if c = CHR ''n'' then Some CHR 0x0A else if c = CHR ''r'' then Some CHR 0x0D
      else if c = CHR ''t'' then Some CHR 0x09 else None)"

fun unescape_json :: "string \<Rightarrow> string option" where
  "unescape_json [] = Some []"
| "unescape_json (c # r) =
     (if c = CHR 0x22 \<or> (of_char c :: nat) < 32 then None
      else if c \<noteq> backslash then map_option ((#) c) (unescape_json r)
      else case r of
             [] \<Rightarrow> None
           | e # r1 \<Rightarrow>
               if e = CHR ''u'' then
                 (case r1 of
                    h1 # h2 # h3 # h4 # r2 \<Rightarrow>
                      (case hex4 h1 h2 h3 h4 of
                         Some n \<Rightarrow> if n < 128 then map_option ((#) (char_of n)) (unescape_json r2) else None
                       | None \<Rightarrow> None)
                  | _ \<Rightarrow> None)
               else (case simple_escape e of
                       Some x \<Rightarrow> map_option ((#) x) (unescape_json r1)
                     | None \<Rightarrow> None))"

subsection \<open>Lemmas\<close>

definition scalar :: "'d json \<Rightarrow> bool" where
  "scalar v = (case v of JArray _ \<Rightarrow> False | JObject _ \<Rightarrow> False | _ \<Rightarrow> True)"

lemma scalar_simps [simp]: "\<not> scalar (JArray vs)" "\<not> scalar (JObject kvs)"
  by (simp_all add: scalar_def)

text \<open>The value at a path of object keys.\<close>

fun at_path :: "'d json \<Rightarrow> string list \<Rightarrow> 'd json option" where
  "at_path v [] = Some v"
| "at_path (JObject kvs) (k # p) = (case map_of kvs k of None \<Rightarrow> None | Some v \<Rightarrow> at_path v p)"
| "at_path _ (k # p) = None"

text \<open>Every object of the value has each key once.\<close>

primrec
  keys_ok :: "'d json \<Rightarrow> bool" and keys_ok_items :: "'d json list \<Rightarrow> bool" and
  keys_ok_fields :: "(string \<times> 'd json) list \<Rightarrow> bool" and keys_ok_field :: "string \<times> 'd json \<Rightarrow> bool"
where
  "keys_ok JNull = True"
| "keys_ok (JBool b) = True"
| "keys_ok (JInt64 i) = True"
| "keys_ok (JUint64 i) = True"
| "keys_ok (JDouble d) = True"
| "keys_ok (JString s) = True"
| "keys_ok (JArray vs) = keys_ok_items vs"
| "keys_ok (JObject kvs) = (distinct (map fst kvs) \<and> keys_ok_fields kvs)"
| "keys_ok_items [] = True"
| "keys_ok_items (v # vs) = (keys_ok v \<and> keys_ok_items vs)"
| "keys_ok_fields [] = True"
| "keys_ok_fields (kv # kvs) = (keys_ok_field kv \<and> keys_ok_fields kvs)"
| "keys_ok_field (k, v) = keys_ok v"

text \<open>One field of the merge.\<close>

definition merge1 :: "bool \<Rightarrow> string \<Rightarrow> 'd json \<Rightarrow> 'd jobject \<Rightarrow> 'd json" where
  "merge1 ow k v target =
     (case map_of target k of
        None \<Rightarrow> v
      | Some tv \<Rightarrow>
          (case (v, tv) of
             (JObject vo, JObject t) \<Rightarrow> JObject (mergeJson ow t vo)
           | (JArray va, JArray ta) \<Rightarrow> JArray (ta @ va)
           | _ \<Rightarrow> if ow then v else tv))"

lemma obj_set_same: "map_of t k = Some v \<Longrightarrow> obj_set k v t = t"
  by (induction t) auto

lemma mergeJson_step:
  "mergeJson ow t ((k, v) # m) = mergeJson ow (obj_set k (merge1 ow k v t) t) m"
  by (auto simp: merge1_def obj_set_same split: option.splits json.splits)

lemma mergeJson_frame: "a \<notin> fst ` set m \<Longrightarrow> map_of (mergeJson ow t m) a = map_of t a"
proof (induction m arbitrary: t)
  case (Cons p m)
  obtain k v where "p = (k, v)" by (cases p)
  with Cons show ?case by (simp add: mergeJson_step del: mergeJson.simps)
qed simp

lemma mergeJson_at:
  "distinct (map fst m) \<Longrightarrow> map_of (mergeJson ow t m) a =
     (case map_of m a of None \<Rightarrow> map_of t a | Some v \<Rightarrow> Some (merge1 ow a v t))"
proof (induction m arbitrary: t)
  case (Cons p m)
  obtain k v where p: "p = (k, v)" by (cases p)
  have IH: "map_of (mergeJson ow (obj_set k x t) m) a =
      (case map_of m a of None \<Rightarrow> map_of (obj_set k x t) a | Some v \<Rightarrow> Some (merge1 ow a v (obj_set k x t)))"
    for x using Cons by (simp add: p)
  show ?case
  proof (cases "a = k")
    case True
    then have "a \<notin> fst ` set m" using Cons.prems by (simp add: p)
    then show ?thesis using True by (simp add: p mergeJson_step mergeJson_frame del: mergeJson.simps)
  next
    case False
    then show ?thesis
      by (simp add: p mergeJson_step IH merge1_def del: mergeJson.simps split: option.splits)
  qed
qed simp

lemma keys_ok_fieldsD: "keys_ok_fields m \<Longrightarrow> map_of m k = Some v \<Longrightarrow> keys_ok v"
  by (induction m) (auto split: if_splits)

lemma mergeJson_keeps_lemma:
  "at_path (JObject t) p = Some v \<Longrightarrow> scalar v \<Longrightarrow> keys_ok (JObject m) \<Longrightarrow>
     at_path (JObject (mergeJson False t m)) p = Some v"
proof (induction p arbitrary: t m)
  case (Cons a p)
  then obtain tv where tv: "map_of t a = Some tv" "at_path tv p = Some v"
    by (auto split: option.splits)
  have m: "distinct (map fst m)" "keys_ok_fields m" using Cons.prems by simp_all
  show ?case
  proof (cases "map_of m a")
    case None
    then show ?thesis using tv by (simp add: mergeJson_at [OF m(1)])
  next
    case (Some mv)
    have ok: "keys_ok mv" by (rule keys_ok_fieldsD [OF m(2) Some])
    have "at_path (merge1 False a mv t) p = Some v"
    proof (cases "(\<exists>o1 o2. mv = JObject o1 \<and> tv = JObject o2) \<or> (\<exists>a1 a2. mv = JArray a1 \<and> tv = JArray a2)")
      case True
      then consider o1 o2 where "mv = JObject o1" "tv = JObject o2"
        | a1 a2 where "mv = JArray a1" "tv = JArray a2" by blast
      then show ?thesis
      proof cases
        case 1
        then show ?thesis using Cons.IH [of o2 o1] Cons.prems tv ok by (simp add: merge1_def)
      next
        case 2
        then show ?thesis using tv Cons.prems by (cases p) auto
      qed
    next
      case False
      then have "merge1 False a mv t = tv" using tv by (auto simp: merge1_def split: json.splits)
      then show ?thesis using tv by simp
    qed
    then show ?thesis using Some by (simp add: mergeJson_at [OF m(1)])
  qed
qed auto

lemma mergeJson_overwrites_lemma:
  "at_path (JObject m) p = Some v \<Longrightarrow> scalar v \<Longrightarrow> keys_ok (JObject m) \<Longrightarrow>
     at_path (JObject (mergeJson True t m)) p = Some v"
proof (induction p arbitrary: t m)
  case (Cons a p)
  then obtain mv where mv: "map_of m a = Some mv" "at_path mv p = Some v"
    by (auto split: option.splits)
  have m: "distinct (map fst m)" "keys_ok_fields m" using Cons.prems by simp_all
  have ok: "keys_ok mv" by (rule keys_ok_fieldsD [OF m(2) mv(1)])
  have "at_path (merge1 True a mv t) p = Some v"
  proof (cases "map_of t a")
    case None
    then show ?thesis using mv by (simp add: merge1_def)
  next
    case (Some tv)
    consider (obj) o1 o2 where "mv = JObject o1" "tv = JObject o2"
      | (arr) a1 a2 where "mv = JArray a1" "tv = JArray a2" | (other) "merge1 True a mv t = mv"
      using Some by (cases mv; cases tv; auto simp: merge1_def)
    then show ?thesis
    proof cases
      case obj
      then show ?thesis using Cons.IH [of o1 o2] Cons.prems mv ok Some by (simp add: merge1_def)
    next
      case arr
      then show ?thesis using mv Cons.prems by (cases p) auto
    next
      case other
      then show ?thesis using mv by simp
    qed
  qed
  then show ?case using mv by (simp add: mergeJson_at [OF m(1)])
qed auto

lemma swap_items_strings: "swap_items (map JString ss) acc = Inr (acc @ concat (map (\<lambda>s. [s, s]) ss))"
  by (induction ss arbitrary: acc) auto

subsubsection \<open>Escaping\<close>

lemma show_hex_small: "n < 16 \<Longrightarrow> show_hex n = [hex_digit n]"
  by (simp add: show_hex.simps [of n])

lemma show_hex_32: "16 \<le> n \<Longrightarrow> n < 32 \<Longrightarrow> show_hex n = [hex_digit 1, hex_digit (n mod 16)]"
proof -
  assume "16 \<le> n" "n < 32"
  then have "n div 16 = 1" "\<not> n < 16" by presburger+
  then show ?thesis by (simp add: show_hex.simps [of n] show_hex_small)
qed

lemma hex_value_digit: "d < 16 \<Longrightarrow> hex_value (hex_digit d) = Some d"
  by (simp add: hex_value_def hex_digit_def Let_def)

lemma hex_value_0: "hex_value CHR ''0'' = Some 0"
  by (simp add: hex_value_def)

lemma pad_hex4:
  assumes "n < 32"
  obtains a b c d where "pad_left0 4 (show_hex n) = [a, b, c, d]" "hex4 a b c d = Some n"
proof (cases "n < 16")
  case True
  then show thesis using that
    by (simp add: show_hex_small pad_left0_def numeral_3_eq_3 hex4_def hex_value_digit hex_value_0)
next
  case False
  then have "pad_left0 4 (show_hex n) = [CHR ''0'', CHR ''0'', hex_digit 1, hex_digit (n mod 16)]"
    using assms by (simp add: show_hex_32 pad_left0_def numeral_2_eq_2)
  moreover have "hex4 CHR ''0'' CHR ''0'' (hex_digit 1) (hex_digit (n mod 16)) = Some n"
    using assms False by (simp add: hex4_def hex_value_digit hex_value_0) presburger
  ultimately show thesis using that by blast
qed

lemma unescape_escape_char:
  assumes "(of_char c :: nat) < 128"
  shows "unescape_json (escape_char c @ r) = map_option ((#) c) (unescape_json r)"
proof -
  consider "c \<in> {CHR 0x22, backslash, CHR 0x08, CHR 0x0C, CHR 0x0A, CHR 0x0D, CHR 0x09}"
    | (ctl) "c \<notin> {CHR 0x22, backslash, CHR 0x08, CHR 0x0C, CHR 0x0A, CHR 0x0D, CHR 0x09}"
        "(of_char c :: nat) < 32"
    | (plain) "c \<notin> {CHR 0x22, backslash, CHR 0x08, CHR 0x0C, CHR 0x0A, CHR 0x0D, CHR 0x09}"
        "\<not> (of_char c :: nat) < 32" by blast
  then show ?thesis
  proof cases
    case 1
    then show ?thesis by (auto simp: escape_char_def backslash_def simple_escape_def)
  next
    case ctl
    let ?n = "of_char c :: nat"
    have "schar c = int ?n" using assms by (simp add: schar_def Let_def)
    then have e: "escape_char c = [backslash, CHR ''u''] @ pad_left0 4 (show_hex ?n)"
      using ctl by (simp add: escape_char_def)
    obtain h1 h2 h3 h4 where h: "pad_left0 4 (show_hex ?n) = [h1, h2, h3, h4]" "hex4 h1 h2 h3 h4 = Some ?n"
      using ctl(2) by (rule pad_hex4)
    then show ?thesis using assms by (simp add: e backslash_def)
  next
    case plain
    have "schar c = int (of_char c :: nat)" using assms by (simp add: schar_def Let_def)
    then have "escape_char c = [c]" using plain by (simp add: escape_char_def)
    then show ?thesis using plain by (simp add: backslash_def)
  qed
qed

lemma unescape_escape:
  "(\<forall>c\<in>set s. (of_char c :: nat) < 128) \<Longrightarrow> unescape_json (escape_json s) = Some s"
  by (induction s) (simp_all add: escape_json_def unescape_escape_char)

subsubsection \<open>Positions and differences\<close>

lemma find_err_first:
  "p \<le> pos \<Longrightarrow> \<exists>e. find (\<lambda>l. p \<le> fst l) (err_lines r start pos row) = Some (e, start, row)"
  by (induction r arbitrary: pos) auto

lemma rev_line_in:
  "CHR 0x0A \<in> set t \<Longrightarrow>
     takeWhile (\<lambda>c. c \<noteq> CHR 0x0A) (rev (a # t)) = takeWhile (\<lambda>c. c \<noteq> CHR 0x0A) (rev t)"
  by (simp add: takeWhile_append1 [where x = "CHR 0x0A"])

lemma rev_line_out:
  "CHR 0x0A \<notin> set t \<Longrightarrow> takeWhile (\<lambda>c. c \<noteq> CHR 0x0A) (rev (CHR 0x0A # t)) = rev t"
  by (simp, subst takeWhile_append2) auto

lemma find_err_lines:
  "pos \<le> p \<Longrightarrow> p \<le> pos + length r \<Longrightarrow>
     \<exists>e. find (\<lambda>l. p \<le> fst l) (err_lines r start pos row) =
       Some (e, (if CHR 0x0A \<in> set (take (p - pos) r)
                 then p - length (takeWhile (\<lambda>c. c \<noteq> CHR 0x0A) (rev (take (p - pos) r))) else start),
             row + length (filter (\<lambda>c. c = CHR 0x0A) (take (p - pos) r)))"
proof (induction r arbitrary: start pos row)
  case (Cons c r)
  show ?case
  proof (cases "p = pos")
    case True
    show ?thesis using find_err_first [of p pos "c # r" start row] by (simp add: True)
  next
    case False
    then have le: "pos + 1 \<le> p" "p \<le> pos + 1 + length r" using Cons.prems by simp_all
    have tk: "take (p - pos) (x # r) = x # take (p - (pos + 1)) r" for x
      using le by (simp add: take_Cons')
    let ?t = "take (p - (pos + 1)) r"
    have len: "length ?t = p - (pos + 1)" using le by simp
    show ?thesis
    proof (cases "c = CHR 0x0A")
      case True
      show ?thesis
        using Cons.IH [OF le, of "pos + 1" "row + 1"] le len
        by (cases "CHR 0x0A \<in> set ?t") (simp_all add: tk True rev_line_in rev_line_out del: rev.simps)
    next
      case False
      show ?thesis
        using Cons.IH [OF le, of start row] False
        by (cases "CHR 0x0A \<in> set ?t") (simp_all add: tk rev_line_in del: rev.simps)
    qed
  qed
qed simp

lemma subtractJson_self_lemma:
  "\<lbrakk>\<forall>x. eq x x; keys_ok (JObject f); \<forall>(k, v)\<in>set f. map_of s k = Some v\<rbrakk> \<Longrightarrow>
     subtractJson eq f s = []"
proof (induction eq f s rule: subtractJson.induct)
  case (2 eq k v first second)
  have rest: "subtractJson eq first second = []" using 2 by auto
  have s: "map_of second k = Some v" using 2(5) by auto
  have obj: "subtractJson eq kvs kvs = []" if v: "v = JObject kvs" for kvs
  proof -
    have ok: "keys_ok (JObject kvs)" using 2(4) v by simp
    then have "\<forall>(a, x)\<in>set kvs. map_of kvs a = Some x" by auto
    with 2(1) [OF s] ok v 2(3) show ?thesis by auto
  qed
  have arr: "filter (\<lambda>x. \<not> list_ex (eq x) a) a = []" for a
    using 2(3) by (auto simp: filter_empty_conv list_ex_iff)
  have "(case (v, v) of
             (JObject o1, JObject o2) \<Rightarrow>
               (let nested = subtractJson eq o1 o2 in if nested = [] then [] else [(k, JObject nested)])
           | (JArray a1, JArray a2) \<Rightarrow>
               (let diff = filter (\<lambda>x. \<not> list_ex (eq x) a2) a1
                in if diff = [] then [] else [(k, JArray diff)])
           | _ \<Rightarrow> if same_kind v v then [] else [(k, v)]) = []"
    using obj arr by (cases v) auto
  then show ?case using rest s by simp
qed simp

subsection \<open>Properties\<close>

text \<open>Merging without \<open>overwrite\<close> never changes a scalar that the target already has, at any
  depth: for every path of keys, the value found there stays.\<close>

theorem mergeJson_keeps:
  assumes "at_path (JObject target) p = Some v" and "scalar v" and "keys_ok (JObject mix)"
  shows "at_path (JObject (mergeJson False target mix)) p = Some v"
  using assms by (rule mergeJson_keeps_lemma)

theorem mergeJson_keeps_witness:
  "at_path (JObject (mergeJson False [(''a'', JObject [(''x'', JBool True)])]
     [(''a'', JObject [(''x'', JNull :: unit json), (''y'', JNull)])])) [''a'', ''x''] = Some (JBool True)"
  by (rule mergeJson_keeps) (simp_all add: scalar_def)

text \<open>Merging with \<open>overwrite\<close> makes every scalar of the mixed-in object win, at any depth and
  whatever kind of value it displaces.\<close>

theorem mergeJson_overwrites:
  assumes "at_path (JObject mix) p = Some v" and "scalar v" and "keys_ok (JObject mix)"
  shows "at_path (JObject (mergeJson True target mix)) p = Some v"
  using assms by (rule mergeJson_overwrites_lemma)

theorem mergeJson_overwrites_witness:
  "at_path (JObject (mergeJson True [(''a'', JObject [(''x'', JBool True)])]
     [(''a'', JObject [(''x'', JNull :: unit json)])])) [''a'', ''x''] = Some JNull"
  by (rule mergeJson_overwrites) (simp_all add: scalar_def)

text \<open>\<open>escape_json\<close> loses nothing on 7-bit text: reading the escaped body as a JSON string
  literal gives the text back, and the body has no raw quote or control character.\<close>

theorem escape_json_roundtrip:
  assumes "\<forall>c\<in>set s. (of_char c :: nat) < 128"
  shows "unescape_json (escape_json s) = Some s"
  using assms by (rule unescape_escape)

theorem escape_json_roundtrip_witness:
  "unescape_json (escape_json [CHR ''a'', CHR 0x22, CHR 0x1F]) = Some [CHR ''a'', CHR 0x22, CHR 0x1F]"
  by (rule escape_json_roundtrip) simp

text \<open>\<open>toVecString\<close> of an array of strings returns every string twice.\<close>

theorem toVecString_doubles:
  "toVecString (JArray (map JString ss)) = Inr (concat (map (\<lambda>s. [s, s]) ss))"
  by (simp add: swap_items_strings)

text \<open>The reported position of a JSON error is right: the row is one more than the number of
  newlines before it, the column one more than the distance from the last of them.\<close>

theorem err_report_position:
  assumes "position \<le> length raw"
  shows "\<exists>shown. err_report raw position =
    Some (1 + length (filter (\<lambda>c. c = CHR 0x0A) (take position raw)),
          1 + length (takeWhile (\<lambda>c. c \<noteq> CHR 0x0A) (rev (take position raw))), shown)"
proof -
  let ?t = "take position raw"
  obtain e where f: "find (\<lambda>l. position \<le> fst l) (err_lines raw 0 0 1) =
      Some (e, (if CHR 0x0A \<in> set ?t
                then position - length (takeWhile (\<lambda>c. c \<noteq> CHR 0x0A) (rev ?t)) else 0),
            1 + length (filter (\<lambda>c. c = CHR 0x0A) ?t))"
    using find_err_lines [of 0 position raw 0 1] assms by auto
  have le: "length (takeWhile (\<lambda>c. c \<noteq> CHR 0x0A) (rev ?t)) \<le> position"
    using length_takeWhile_le [of _ "rev ?t"] assms by (metis length_rev length_take min.absorb2)
  have all: "length (takeWhile (\<lambda>c. c \<noteq> CHR 0x0A) (rev ?t)) = position" if "CHR 0x0A \<notin> set ?t"
  proof -
    have "takeWhile (\<lambda>c. c \<noteq> CHR 0x0A) (rev ?t) = rev ?t" using that by (auto simp: takeWhile_eq_all_conv)
    then have "length (takeWhile (\<lambda>c. c \<noteq> CHR 0x0A) (rev ?t)) = length (rev ?t)" by (simp only:)
    then show ?thesis using assms by simp
  qed
  show ?thesis unfolding err_report_def Let_def f
    using le all by (cases "CHR 0x0A \<in> set ?t") simp_all
qed

theorem err_report_position_witness:
  "\<exists>shown. err_report [CHR ''a'', CHR 0x0A, CHR ''b'', CHR ''c''] 3 = Some (2, 2, shown)"
  using err_report_position [of 3 "[CHR ''a'', CHR 0x0A, CHR ''b'', CHR ''c'']"]
  by (simp add: numeral_2_eq_2)

end
