(* ===== verification/TextUtil.thy ===== *)
theory TextUtil
  imports Prelude Json
begin

text \<open>
  Text routines: \<^verbatim>\<open>string/util.cpp\<close>, \<^verbatim>\<open>misc/escapeH.h\<close>, \<^verbatim>\<open>misc/jsonForHtmlScript.h\<close>,
  \<^verbatim>\<open>misc/safeFilename.h\<close>, \<^verbatim>\<open>misc/csv.cpp\<close>, \<^verbatim>\<open>HTTP/util.cpp\<close> and \<^verbatim>\<open>HTTP/select2.cpp\<close>.

  The reverse of each escaping (\<open>unescapeH\<close>, \<open>csv_parse\<close>) is a specification: it is what a
  browser or a CSV reader makes of the text.
\<close>

subsection \<open>string/util\<close>

text \<open>\<open>substr\<close> throws \<open>out_of_range\<close> (\<open>None\<close>) when it starts past the end; a negative length wraps to
  a huge one, which is clamped.\<close>

definition subView :: "string \<Rightarrow> nat \<Rightarrow> nat \<Rightarrow> string option" where
  "subView s start fin =
     (if length s < start then None
      else Some (take (if start \<le> fin then fin - start else length s) (drop start s)))"

definition removeNonAscii :: "string \<Rightarrow> string" where
  "removeNonAscii input = filter (\<lambda>c. (of_char c :: nat) < 128) input"

text \<open>\<open>from_chars\<close> for a 64-bit signed value: an optional minus and the longest run of digits;
  what follows is ignored.\<close>

definition stoi :: "string \<Rightarrow> int option" where
  "stoi input =
     (let neg = (case input of c # _ \<Rightarrow> c = CHR ''-'' | [] \<Rightarrow> False);
          ds = takeWhile is_digit (if neg then tl input else input);
          n = (if neg then - int (read_nat ds) else int (read_nat ds))
      in if ds = [] then None
         else if n < - (2 ^ 63) \<or> 2 ^ 63 \<le> n then None else Some n)"

definition is_space :: "char \<Rightarrow> bool" where
  "is_space c \<longleftrightarrow> c \<in> {CHR '' '', CHR 0x09, CHR 0x0A, CHR 0x0B, CHR 0x0C, CHR 0x0D}"

text \<open>\<open>trim\<close> decrements the end iterator before it compares: on an empty string it moves before
  the beginning, which is undefined (\<open>None\<close>).\<close>

definition trim_str :: "string \<Rightarrow> string option" where
  "trim_str s = (if s = [] then None else Some (trim_by is_space s))"

definition ascii_lower :: "char \<Rightarrow> char" where
  "ascii_lower c =
     (let n = (of_char c :: nat) in if 65 \<le> n \<and> n \<le> 90 then char_of (n + 32) else c)"

definition toLower :: "string \<Rightarrow> string" where
  "toLower s = map ascii_lower s"

text \<open>\<open>split\<close>: the search resumes one character after the start of a match, whatever the length
  of the delimiter.  With an empty delimiter the loop ends past the string and \<open>substr\<close> throws.\<close>

function split_from :: "string \<Rightarrow> string \<Rightarrow> string list option" where
  "split_from d r =
     (case find_sub d r of
        None \<Rightarrow> Some [r]
      | Some i \<Rightarrow>
          if i < length r then map_option ((#) (take i r)) (split_from d (drop (i + 1) r)) else None)"
  by pat_completeness auto
termination
  by (relation "measure (\<lambda>(d, r). length r)") auto

declare split_from.simps [simp del]

definition split_str :: "string \<Rightarrow> string \<Rightarrow> string list option" where
  "split_str s delimiter = split_from delimiter s"

subsection \<open>Escaping for HTML and for scripts\<close>

definition escapeH_char :: "char \<Rightarrow> string" where
  "escapeH_char c =
     (if c = CHR ''&'' then ''&amp;'' else if c = CHR ''<'' then ''&lt;''
      else if c = CHR ''>'' then ''&gt;'' else if c = CHR 0x22 then ''&quot;'' else [c])"

definition escapeH :: "string \<Rightarrow> string" where
  "escapeH s = concat (map escapeH_char s)"

fun unescapeH :: "string \<Rightarrow> string" where
  "unescapeH [] = []"
| "unescapeH (c # r) =
     (if prefix ''amp;'' r \<and> c = CHR ''&'' then CHR ''&'' # unescapeH (drop 4 r)
      else if prefix ''lt;'' r \<and> c = CHR ''&'' then CHR ''<'' # unescapeH (drop 3 r)
      else if prefix ''gt;'' r \<and> c = CHR ''&'' then CHR ''>'' # unescapeH (drop 3 r)
      else if prefix ''quot;'' r \<and> c = CHR ''&'' then CHR 0x22 # unescapeH (drop 5 r)
      else c # unescapeH r)"

definition script_char :: "char \<Rightarrow> string" where
  "script_char c =
     (if c = CHR ''<'' then backslash # ''u003c'' else if c = CHR ''>'' then backslash # ''u003e''
      else if c = CHR ''&'' then backslash # ''u0026'' else [c])"

definition jsonForHtmlScript :: "('d json \<Rightarrow> string) \<Rightarrow> 'd json \<Rightarrow> string" where
  "jsonForHtmlScript serialize jv = concat (map script_char (serialize jv))"

subsection \<open>File names\<close>

definition filename_char :: "char \<Rightarrow> bool" where
  "filename_char c \<longleftrightarrow>
     (let n = (of_char c :: nat)
      in (65 \<le> n \<and> n \<le> 90) \<or> (97 \<le> n \<and> n \<le> 122) \<or> (48 \<le> n \<and> n \<le> 57)) \<or>
     c = CHR ''.'' \<or> c = CHR ''_'' \<or> c = CHR ''-''"

definition safeFilename :: "string \<Rightarrow> string \<Rightarrow> string" where
  "safeFilename raw fallback =
     (let out = map (\<lambda>c. if filename_char c then c else CHR ''_'') (take 200 raw)
      in if out = [] \<or> out = ''.'' \<or> out = ''..'' then fallback else out)"

subsection \<open>CSV\<close>

definition csv_special :: "char \<Rightarrow> bool" where
  "csv_special c \<longleftrightarrow> c = CHR 0x22 \<or> c = CHR '','' \<or> c = CHR 0x0A \<or> c = CHR 0x0D"

definition escapeForCSV :: "string \<Rightarrow> string" where
  "escapeForCSV input =
     (let output = concat (map (\<lambda>c. if c = CHR 0x22 then [c, c] else [c]) input)
      in if list_ex csv_special input \<or> output = [] then [CHR 0x22] @ output @ [CHR 0x22] else output)"

text \<open>Reading a record: a field is quoted or bare, fields are separated by commas.\<close>

fun csv_quoted :: "string \<Rightarrow> (string \<times> string) option" where
  "csv_quoted [] = None"
| "csv_quoted (c # r) =
     (if c \<noteq> CHR 0x22 then map_option (\<lambda>(f, q). (c # f, q)) (csv_quoted r)
      else case r of
             d # r' \<Rightarrow> if d = CHR 0x22 then map_option (\<lambda>(f, q). (d # f, q)) (csv_quoted r')
                       else Some ([], r)
           | [] \<Rightarrow> Some ([], []))"

definition csv_field :: "string \<Rightarrow> (string \<times> string) option" where
  "csv_field s =
     (case s of
        c # r \<Rightarrow> if c = CHR 0x22 then csv_quoted r
                 else Some (takeWhile (\<lambda>c. \<not> csv_special c) s, dropWhile (\<lambda>c. \<not> csv_special c) s)
      | [] \<Rightarrow> Some ([], []))"

fun csv_parse :: "nat \<Rightarrow> string \<Rightarrow> string list option" where
  "csv_parse 0 s = None"
| "csv_parse (Suc n) s =
     (case csv_field s of
        None \<Rightarrow> None
      | Some (f, r) \<Rightarrow>
          (case r of
             [] \<Rightarrow> Some [f]
           | c # r' \<Rightarrow> if c = CHR '','' then map_option ((#) f) (csv_parse n r') else None))"

subsection \<open>Links and select2 answers\<close>

definition href_compose :: "string \<Rightarrow> string \<Rightarrow> string \<Rightarrow> string \<Rightarrow> string" where
  "href_compose cls target url txt =
     (let c = (if cls = [] then [] else '' class='' @ [CHR 0x27] @ cls @ [CHR 0x27])
      in ''<a '' @ c @ '' target='' @ [CHR 0x22] @ target @ [CHR 0x22] @ '' href='' @ [CHR 0x27] @ url @
         [CHR 0x27] @ ''>'' @ txt @ ''</a>'')"

record s2_row =
  s2_id :: string
  s2_text :: string
  selected :: bool
  disabled :: bool
  formatMe :: string

definition s2_row_json :: "s2_row \<Rightarrow> 'd json" where
  "s2_row_json row =
     JObject ([(''id'', JString (s2_id row)), (''text'', JString (s2_text row))] @
              (if selected row then [(''selected'', JBool True)] else []) @
              (if disabled row then [(''disabled'', JBool True)] else []) @
              (if formatMe row = [] then [] else [(''formatMe'', JString (formatMe row))]))"

definition toResultJSON :: "('d json \<Rightarrow> string) \<Rightarrow> bool \<Rightarrow> s2_row list \<Rightarrow> string" where
  "toResultJSON serialize pagination rows =
     serialize (JObject [(''pagination'', JObject [(''more'', JBool pagination)]),
                         (''results'', JArray (map s2_row_json rows))])"

datatype search_pattern = S_START | S_ANYWHERE | S_EXACT

definition s2_search ::
    "(string \<Rightarrow> string) \<Rightarrow> string option \<Rightarrow> string \<Rightarrow> search_pattern \<Rightarrow> string" where
  "s2_search escape param sqlColumn pattern =
     (case param of
        None \<Rightarrow> []
      | Some v \<Rightarrow>
          (case pattern of
             S_START \<Rightarrow> '' `'' @ sqlColumn @ ''` LIKE '' @ [CHR 0x27] @ escape v @ ''%'' @ [CHR 0x27]
           | S_ANYWHERE \<Rightarrow>
               '' `'' @ sqlColumn @ ''` LIKE '' @ [CHR 0x27] @ ''%'' @ escape v @ ''%'' @ [CHR 0x27]
           | S_EXACT \<Rightarrow> '' `'' @ sqlColumn @ ''` = '' @ [CHR 0x27] @ escape v @ [CHR 0x27]))"

text \<open>\<open>toUInt\<close> is Qt's conversion, 0 for text that is no number; the arithmetic is on 32 bits.\<close>

definition s2_limits :: "(string \<Rightarrow> nat) \<Rightarrow> string option \<Rightarrow> string" where
  "s2_limits toUInt page =
     (case page of
        None \<Rightarrow> '' LIMIT 50''
      | Some v \<Rightarrow>
          (let p = (word_of_nat (toUInt v) :: 32 word) - 1
           in if p = 0 then '' LIMIT 50''
              else '' LIMIT 50 OFFSET '' @ show_nat (unat (50 * p))))"

subsection \<open>Lemmas\<close>

lemma split_from_single: "split_from [c] s = Some (split_on c s)"
proof (induction "[c]" s rule: split_from.induct)
  case (1 s)
  show ?case
  proof (cases "find_sub [c] s")
    case None
    then have "c \<notin> set s" by (simp add: find_sub_single_None)
    with None show ?thesis by (simp add: split_from.simps [of "[c]" s] split_on_id)
  next
    case (Some i)
    have s: "s = take i s @ c # drop (i + 1) s" using find_sub_split [OF Some] by simp
    then have i: "i < length s"
      by (metis append_Nil2 drop_eq_Nil list.distinct(1) not_less take_all same_append_eq)
    have "split_on c s = take i s # split_on c (drop (i + 1) s)"
      by (subst s, rule split_on_append, rule find_sub_single [OF Some])
    then show ?thesis using 1 [OF Some i] Some i by (simp add: split_from.simps [of "[c]" s])
  qed
qed

lemma split_from_nonempty: "split_from d s = Some ts \<Longrightarrow> ts \<noteq> []"
proof -
  assume a: "split_from d s = Some ts"
  show "ts \<noteq> []"
    by (rule notI) (use a in \<open>simp add: split_from.simps [of d s] split: option.splits if_splits\<close>)
qed

lemma split_from_join:
  "split_from (c # d) s = Some ts \<Longrightarrow> join_with [c] ts = s"
proof (induction "c # d" s arbitrary: ts rule: split_from.induct)
  case (1 s)
  show ?case
  proof (cases "find_sub (c # d) s")
    case None
    then show ?thesis using 1(2) by (auto simp: split_from.simps [of "c # d" s])
  next
    case (Some i)
    have s: "s = take i s @ c # d @ drop (i + length (c # d)) s" using find_sub_split [OF Some] by simp
    then have i: "i < length s"
      by (metis append_Nil2 drop_eq_Nil list.distinct(1) not_less take_all same_append_eq)
    with Some 1(2) obtain us where us: "split_from (c # d) (drop (i + 1) s) = Some us" "ts = take i s # us"
      by (auto simp: split_from.simps [of "c # d" s])
    have ne: "us \<noteq> []" using us(1) by (rule split_from_nonempty)
    have "s ! i = c" using s i by (metis append_take_drop_id nth_append_length length_take min.absorb2
          less_imp_le_nat)
    then have "s = take i s @ c # drop (i + 1) s" using i by (metis Suc_eq_plus1 id_take_nth_drop)
    then show ?thesis using 1(1) [OF Some i us(1)] us(2) ne by (simp add: join_with_Cons)
  qed
qed

lemma split_from_total: "split_from (c # d) s \<noteq> None"
proof (induction "c # d" s rule: split_from.induct)
  case (1 s)
  show ?case
  proof (cases "find_sub (c # d) s")
    case (Some i)
    have "i < length s" using find_sub_SomeD [OF Some] by auto
    then show ?thesis using 1 [OF Some] Some by (simp add: split_from.simps [of "c # d" s])
  qed (simp add: split_from.simps [of "c # d" s])
qed

lemma unescapeH_char: "unescapeH (escapeH_char c @ r) = c # unescapeH r"
  by (simp add: escapeH_char_def)

lemma unescapeH_escapeH: "unescapeH (escapeH s) = s"
  by (induction s) (simp_all add: escapeH_def unescapeH_char)

lemma script_charset:
  "c \<in> set (concat (map script_char s)) \<Longrightarrow> c \<noteq> CHR ''<'' \<and> c \<noteq> CHR ''>'' \<and> c \<noteq> CHR ''&''"
  by (auto simp: script_char_def backslash_def split: if_splits)

lemma escapeH_charset: "c \<in> set (escapeH s) \<Longrightarrow> c \<noteq> CHR ''<'' \<and> c \<noteq> CHR ''>'' \<and> c \<noteq> CHR 0x22"
  by (auto simp: escapeH_def escapeH_char_def split: if_splits)

lemma csv_quoted_escape:
  "csv_quoted (concat (map (\<lambda>c. if c = CHR 0x22 then [c, c] else [c]) s) @ CHR 0x22 # r) = Some (s, r)"
  if "r = [] \<or> hd r \<noteq> CHR 0x22"
  using that by (induction s) (auto split: list.splits)

lemma csv_field_escape:
  assumes "r = [] \<or> hd r = CHR '',''"
  shows "csv_field (escapeForCSV s @ r) = Some (s, r)"
proof (cases "list_ex csv_special s \<or> s = []")
  case True
  then have "escapeForCSV s = [CHR 0x22] @ concat (map (\<lambda>c. if c = CHR 0x22 then [c, c] else [c]) s) @ [CHR 0x22]"
    by (auto simp: escapeForCSV_def Let_def)
  moreover have "r = [] \<or> hd r \<noteq> CHR 0x22" using assms by auto
  ultimately show ?thesis using csv_quoted_escape [of r s] by (simp add: csv_field_def)
next
  case False
  then have no: "\<forall>c\<in>set s. \<not> csv_special c" and ne: "s \<noteq> []" by (auto simp: list_ex_iff)
  have id: "concat (map (\<lambda>c. if c = CHR 0x22 then [c, c] else [c]) s) = s"
    using no by (induction s) (auto simp: csv_special_def)
  have e: "escapeForCSV s = s" using False by (simp add: escapeForCSV_def id)
  obtain a b where s: "s = a # b" using ne by (cases s) auto
  have a: "a \<noteq> CHR 0x22" using no s by (auto simp: csv_special_def)
  have "takeWhile (\<lambda>c. \<not> csv_special c) (s @ r) = s \<and> dropWhile (\<lambda>c. \<not> csv_special c) (s @ r) = r"
    using no assms by (cases r) (auto simp: csv_special_def)
  then show ?thesis unfolding e using a by (simp add: csv_field_def s)
qed

lemma csv_parse_join:
  "fs \<noteq> [] \<Longrightarrow> csv_parse (length fs) (join_with '','' (map escapeForCSV fs)) = Some fs"
proof (induction fs)
  case (Cons f fs)
  show ?case
  proof (cases "fs = []")
    case True
    then show ?thesis using csv_field_escape [of "[]" f] by simp
  next
    case False
    then have "csv_field (join_with '','' (map escapeForCSV (f # fs))) =
        Some (f, CHR '','' # join_with '','' (map escapeForCSV fs))"
      using csv_field_escape [of "CHR '','' # join_with '','' (map escapeForCSV fs)" f]
      by (simp add: join_with_Cons)
    then show ?thesis using Cons.IH [OF False] by (simp del: join_with.simps)
  qed
qed simp

subsection \<open>Properties\<close>

text \<open>A CSV field or row written with \<open>escapeForCSV\<close> reads back as the same fields, whatever
  quotes, commas and line breaks they hold; the empty field is told apart from no field.\<close>

theorem csv_roundtrip:
  assumes "fs \<noteq> []"
  shows "csv_parse (length fs) (join_with '','' (map escapeForCSV fs)) = Some fs"
  using assms by (rule csv_parse_join)

theorem csv_roundtrip_witness:
  "csv_parse 2 (join_with '','' (map escapeForCSV [''a,b'', []])) = Some [''a,b'', []]"
  using csv_roundtrip [of "[''a,b'', []]"] by (simp add: numeral_2_eq_2)

text \<open>HTML escaping is safe and loses nothing: the result has no angle bracket and no double
  quote, and decoding its entities gives the text back; and JSON printed into a script element
  never holds a character that could end it.\<close>

theorem escapeH_safe:
  "set (escapeH s) \<inter> {CHR ''<'', CHR ''>'', CHR 0x22} = {} \<and> unescapeH (escapeH s) = s \<and>
   set (jsonForHtmlScript serialize jv) \<inter> {CHR ''<'', CHR ''>'', CHR ''&''} = {}"
  using escapeH_charset [of _ s] script_charset [of _ "serialize jv"]
  by (auto simp: unescapeH_escapeH jsonForHtmlScript_def)

text \<open>\<open>safeFilename\<close> never returns a path: with a safe fallback the name is not empty, not
  \<open>.\<close> or \<open>..\<close>, at most 200 characters and made of letters, digits, dots, dashes and underscores.\<close>

theorem safeFilename_safe:
  assumes "fallback \<noteq> []" and "length fallback \<le> 200" and "list_all filename_char fallback"
    and "fallback \<noteq> ''.''" and "fallback \<noteq> ''..''"
  shows "let out = safeFilename raw fallback in
    out \<noteq> [] \<and> out \<noteq> ''.'' \<and> out \<noteq> ''..'' \<and> length out \<le> 200 \<and> list_all filename_char out"
proof -
  have "filename_char CHR ''_''" by (simp add: filename_char_def)
  then have "list_all filename_char (map (\<lambda>c. if filename_char c then c else CHR ''_'') (take 200 raw))"
    by (auto simp: list_all_iff)
  then show ?thesis using assms unfolding safeFilename_def Let_def by simp
qed

theorem safeFilename_safe_witness:
  "list_all filename_char (safeFilename ''../a b'' ''export.csv'')"
  using safeFilename_safe [of "''export.csv''" "''../a b''"]
  by (simp add: Let_def filename_char_def)

text \<open>\<open>split\<close> with a one-character delimiter is the plain split.  With a longer delimiter the
  search resumes inside the match, so what always holds is only that the pieces joined with the
  delimiter's first character give the text back: the rest of the delimiter stays in the pieces.\<close>

theorem split_behaviour:
  "split_str s [c] = Some (split_on c s) \<and>
   (\<exists>ts. split_str s (c # d) = Some ts \<and> join_with [c] ts = s)"
  using split_from_join [of c d s] split_from_total [of c d s]
  by (auto simp: split_str_def split_from_single)

text \<open>Page numbers: a page from 1 on, small enough not to wrap, asks for the rows after the
  pages before it; page 0, and every text that is no number, asks for an offset of 4294967246.\<close>

theorem s2_limits_offset:
  "(2 \<le> toUInt v \<and> toUInt v \<le> 85899346 \<longrightarrow>
      s2_limits toUInt (Some v) = '' LIMIT 50 OFFSET '' @ show_nat (50 * (toUInt v - 1))) \<and>
   (toUInt v = 0 \<longrightarrow> s2_limits toUInt (Some v) = '' LIMIT 50 OFFSET '' @ show_nat 4294967246)"
proof (intro conjI impI)
  assume a: "2 \<le> toUInt v \<and> toUInt v \<le> 85899346"
  have w: "(word_of_nat (toUInt v) :: 32 word) - 1 = word_of_nat (toUInt v - 1)"
    using a by (simp add: of_nat_diff)
  have u: "unat (50 * (word_of_nat (toUInt v - 1) :: 32 word)) = 50 * (toUInt v - 1)"
  proof -
    have "50 * (word_of_nat (toUInt v - 1) :: 32 word) = word_of_nat (50 * (toUInt v - 1))" by simp
    moreover have "50 * (toUInt v - 1) < 2 ^ 32"
      using a by (cases "toUInt v") simp_all
    ultimately show ?thesis by (simp only: unat_word32)
  qed
  then have "(word_of_nat (toUInt v - 1) :: 32 word) \<noteq> 0"
    using a by (metis mult_zero_right unat_0 mult_eq_0_iff One_nat_def Suc_1 diff_is_0_eq
        not_less_eq_eq numeral_eq_iff zero_neq_numeral)
  then show "s2_limits toUInt (Some v) = '' LIMIT 50 OFFSET '' @ show_nat (50 * (toUInt v - 1))"
    using u by (simp add: s2_limits_def w Let_def)
next
  assume "toUInt v = 0"
  then show "s2_limits toUInt (Some v) = '' LIMIT 50 OFFSET '' @ show_nat 4294967246"
    by (simp add: s2_limits_def Let_def)
qed

theorem s2_limits_offset_witness:
  "s2_limits (\<lambda>_. 3) (Some ''3'') = '' LIMIT 50 OFFSET '' @ show_nat 100 \<and>
   s2_limits (\<lambda>_. 0) (Some ''x'') = '' LIMIT 50 OFFSET '' @ show_nat 4294967246"
  using s2_limits_offset [of "\<lambda>_. 3" "''3''"] s2_limits_offset [of "\<lambda>_. 0" "''x''"] by simp

end
