(* ===== verification/AuthHandler.thy ===== *)
theory AuthHandler
  imports HttpMessage LoginLimiter Json
begin

text \<open>
  \<^verbatim>\<open>HTTP/authHandler.h\<close> and \<^verbatim>\<open>HTTP/authHandler.cpp\<close>: session check in front of the routes, the
  login page, the logout and the level guard of a route.

  The hooks of \<open>Conf\<close> belong to the project that uses the library.  Each is an optional action
  on the whole state \<open>areq\<close> (the project's own world, the limiter, the request, the payload),
  so a hook may change anything, and also throw.  An action is a function
  \<open>'s \<Rightarrow> (auth_exn + 'a) \<times> 's\<close>: it always returns the state it leaves, with a value or with the
  exception.  Calling an empty \<open>std::function\<close> throws \<open>BadFunctionCall\<close>; dereferencing
  \<open>status.cookies\<close> before \<open>extractCookies\<close> is \<open>NoCookies\<close> (undefined in C++).

  The record \<open>alib\<close> holds the Qt, fmt, Boost.JSON and mustache functions that the code calls.
\<close>

subsection \<open>Actions\<close>

datatype auth_exn =
  BadFunctionCall | NoCookies | MissingKeyEx string | FormError http_error | BadNumber string
  | HookError string

type_synonym ('s, 'a) act = "'s \<Rightarrow> (auth_exn + 'a) \<times> 's"

definition ret :: "'a \<Rightarrow> ('s, 'a) act" where
  "ret x s = (Inr x, s)"

definition throw :: "auth_exn \<Rightarrow> ('s, 'a) act" where
  "throw e s = (Inl e, s)"

definition bnd :: "('s, 'a) act \<Rightarrow> ('a \<Rightarrow> ('s, 'b) act) \<Rightarrow> ('s, 'b) act" where
  "bnd m f s = (case m s of (Inl e, s') \<Rightarrow> (Inl e, s') | (Inr x, s') \<Rightarrow> f x s')"

definition gets :: "('s \<Rightarrow> 'a) \<Rightarrow> ('s, 'a) act" where
  "gets f s = (Inr (f s), s)"

definition upd :: "('s \<Rightarrow> 's) \<Rightarrow> ('s, unit) act" where
  "upd f s = (Inr (), f s)"

text \<open>Calling a \<open>std::function\<close>; calling it only when it is set.\<close>

definition call :: "'h option \<Rightarrow> ('h \<Rightarrow> ('s, 'a) act) \<Rightarrow> ('s, 'a) act" where
  "call h k = (case h of None \<Rightarrow> throw BadFunctionCall | Some f \<Rightarrow> k f)"

definition call_if :: "'h option \<Rightarrow> ('h \<Rightarrow> ('s, unit) act) \<Rightarrow> ('s, unit) act" where
  "call_if h k = (case h of None \<Rightarrow> ret () | Some f \<Rightarrow> k f)"

lemmas act_simps = ret_def throw_def gets_def upd_def call_def call_if_def

lemma bnd_Inr:
  "bnd m f s = (Inr y, s') \<longleftrightarrow> (\<exists>x s1. m s = (Inr x, s1) \<and> f x s1 = (Inr y, s'))"
  by (auto simp: bnd_def split: prod.splits sum.splits)

lemma bnd_step: "m s = (Inr x, s1) \<Longrightarrow> bnd m f s = f x s1"
  by (simp add: bnd_def)

lemma bnd_ret [simp]: "bnd (ret x) f = f x"
  by (simp add: bnd_def ret_def fun_eq_iff)

lemma bnd_gets [simp]: "bnd (gets g) f s = f (g s) s"
  by (simp add: bnd_def gets_def)

lemma bnd_upd [simp]: "bnd (upd g) f s = f () (g s)"
  by (simp add: bnd_def upd_def)

lemma bnd_throw [simp]: "bnd (throw e) f = throw e"
  by (simp add: bnd_def throw_def fun_eq_iff)

subsection \<open>State and configuration\<close>

record ('w, 'c) areq =
  a_world :: 'w
  a_lim :: limiter
  a_req :: "'c fcgi"
  a_pay :: payload

datatype login_result = LR_ok | LR_invalidEmail | LR_invalidPassword | LR_error | LR_rateLimited

datatype session_state = SS_ok | SS_invalid | SS_notLogged

datatype upgrade_auth = UA_ok | UA_unauthorized | UA_forbidden

record login_outcome =
  lo_result :: login_result
  lo_sessionId :: string
  lo_retryAfterSec :: nat

type_synonym login_json = "unit jobject"

record ('w, 'c) aconf =
  publicPaths :: "(string, bool) omap"
  publicPrefixes :: "string list"
  cookieName :: string
  cookieTTL :: nat
  cookieSecure :: bool
  loginTemplate :: string
  appLoginTemplate :: string
  successPath :: string
  appSuccessPath :: string
  f_isApiCall :: "(string \<Rightarrow> bool) option"
  f_loginErrorMessage :: "(nat \<Rightarrow> string) option"
  f_resumeSession :: "(string \<Rightarrow> (('w, 'c) areq, session_state) act) option"
  f_develLogin :: "(('w, 'c) areq, string) act option"
  f_postLogin :: "(('w, 'c) areq, bool) act option"
  f_prepareAnonymous :: "(('w, 'c) areq, unit) act option"
  f_decorateLoginJson :: "(login_json \<Rightarrow> login_json) option"
  f_login :: "(string \<Rightarrow> string \<Rightarrow> (('w, 'c) areq, login_outcome) act) option"
  loginLimiter_on :: bool
  f_onLoginRateLimited :: "(string \<Rightarrow> string \<Rightarrow> (('w, 'c) areq, unit) act) option"
  f_logout :: "(string \<Rightarrow> (('w, 'c) areq, unit) act) option"
  f_isLogged :: "(('w, 'c) areq, bool) act option"
  f_hasLevel :: "(int \<Rightarrow> (('w, 'c) areq, bool) act) option"
  f_auditBlockedRoute :: "(('w, 'c) areq, unit) act option"
  basePathFunctor :: "('c fcgi \<Rightarrow> string) option"
  base_conf :: conf_base

record 'w alib =
  l_trimmed :: "string \<Rightarrow> string"
  l_norm :: "string \<Rightarrow> string"
  l_pctDecode :: "string \<Rightarrow> string"
  l_pctEncode :: "string \<Rightarrow> string"
  l_mustache :: "string \<Rightarrow> login_json \<Rightarrow> string"
  l_lit :: "string \<Rightarrow> string"
  l_num :: "unit json \<Rightarrow> string"
  l_toUInt :: "string \<Rightarrow> nat option"
  l_now :: "'w \<Rightarrow> int"

subsection \<open>Paths and redirects\<close>

definition isApiCall :: "('w, 'c) aconf \<Rightarrow> string \<Rightarrow> bool" where
  "isApiCall c path =
     (case f_isApiCall c of Some f \<Rightarrow> f path | None \<Rightarrow> prefix ''api/'' path)"

definition bad_next_char :: "char \<Rightarrow> bool" where
  "bad_next_char ch \<longleftrightarrow> (of_char ch :: nat) < 32 \<or> (of_char ch :: nat) = 127"

definition login_path :: "string \<Rightarrow> bool" where
  "login_path p \<longleftrightarrow> p = ''login'' \<or> p = ''logout'' \<or> p = ''app/login'' \<or> p = ''app/logout'' \<or>
     prefix ''login/'' p \<or> prefix ''logout/'' p"

definition safeNextPath :: "string \<Rightarrow> string option" where
  "safeNextPath raw =
     (if raw = [] then None
      else if sublist ''://'' raw \<or> prefix ''//'' raw then None
      else if sublist ''..'' raw \<or> list_ex (\<lambda>c. c \<in> {backslash, CHR 0x0D, CHR 0x0A}) raw then None
      else if list_ex bad_next_char raw then None
      else let r = dropWhile (\<lambda>c. c = CHR ''/'') raw
           in if r = [] \<or> prefix ''//'' r \<or> sublist ''://'' r then None
              else if login_path (before_any ''?#'' r) then None else Some r)"

definition originalTarget :: "'c fcgi \<Rightarrow> string" where
  "originalTarget status =
     (let target = req_path status in if prefix ''/'' target then tl target else target)"

definition requestedNext :: "'c fcgi \<Rightarrow> string" where
  "requestedNext status =
     (case map_of (post status) ''next'' of
        Some v \<Rightarrow> v
      | None \<Rightarrow> (case map_of (get_params status) ''next'' of Some v \<Rightarrow> v | None \<Rightarrow> []))"

definition loginLeafFor :: "string \<Rightarrow> string" where
  "loginLeafFor nextRaw =
     (case safeNextPath nextRaw of
        Some next \<Rightarrow>
          (let pathOnly = before_any ''?#'' next
           in if pathOnly = ''app'' \<or> prefix ''app/'' pathOnly \<or> prefix ''api/app/'' pathOnly
              then ''app/login'' else ''login'')
      | None \<Rightarrow> ''login'')"

text \<open>The lambda \<open>append\<close>: the first parameter follows a question mark, the others an ampersand.\<close>

fun append_params :: "char \<Rightarrow> (string \<times> string) list \<Rightarrow> string" where
  "append_params sep [] = []"
| "append_params sep ((k, v) # r) = sep # k @ ''='' @ v @ append_params CHR ''&'' r"

definition loginRedirect ::
    "(string \<Rightarrow> string) \<Rightarrow> string \<Rightarrow> nat option \<Rightarrow> string \<Rightarrow> string \<Rightarrow> string" where
  "loginRedirect pctEncode basePath error nextRaw leafOverride =
     (let leaf = (if leafOverride = [] then loginLeafFor nextRaw else leafOverride);
          p1 = (case error of Some e \<Rightarrow> [(''error'', show_nat e)] | None \<Rightarrow> []);
          p2 = (case safeNextPath nextRaw of Some next \<Rightarrow> [(''next'', pctEncode next)] | None \<Rightarrow> [])
      in basePath @ leaf @ append_params CHR ''?'' (p1 @ p2))"

definition successRedirect :: "string \<Rightarrow> string \<Rightarrow> string \<Rightarrow> string" where
  "successRedirect basePath nextRaw fallback =
     (case safeNextPath nextRaw of Some next \<Rightarrow> basePath @ next | None \<Rightarrow> basePath @ fallback)"

definition setLoginTemplateVars ::
    "('w, 'c) aconf \<Rightarrow> string \<Rightarrow> string \<Rightarrow> login_json \<Rightarrow> login_json" where
  "setLoginTemplateVars c basePath nextRaw json =
     (let j1 = obj_set ''BASE_PATH'' (JString basePath) json;
          j2 = (case safeNextPath nextRaw of Some next \<Rightarrow> obj_set ''NEXT'' (JString next) j1 | None \<Rightarrow> j1)
      in case f_decorateLoginJson c of Some decorate \<Rightarrow> decorate j2 | None \<Rightarrow> j2)"

definition defaultLoginErrorMessage :: "nat \<Rightarrow> string" where
  "defaultLoginErrorMessage error =
     (if error = 1 then ''Invalid email or username'' else if error = 2 then ''Invalid password''
      else if error = 7 then ''Invalid session'' else ''Login Error'')"

subsection \<open>Refusals\<close>

definition upd_pay :: "(payload \<Rightarrow> payload) \<Rightarrow> (('w, 'c) areq, unit) act" where
  "upd_pay f = upd (\<lambda>s. s\<lparr>a_pay := f (a_pay s)\<rparr>)"

definition writeJsonError :: "'w alib \<Rightarrow> nat \<Rightarrow> string \<Rightarrow> payload \<Rightarrow> payload" where
  "writeJsonError L code message p =
     (let json = JObject [(''status'', JString ''error''), (''message'', JString message)]
      in p\<lparr>statusCode := code, html := pretty_print (l_lit L) (l_num L) json\<rparr>)"

definition deny ::
    "'w alib \<Rightarrow> ('w, 'c) aconf \<Rightarrow> string \<Rightarrow> string \<Rightarrow> (('w, 'c) areq, bool) act" where
  "deny L c path location =
     bnd (upd_pay (\<lambda>p. if isApiCall c path then writeJsonError L 401 ''login required'' p
                       else redirect location (setStandardHeaders True p)))
       (\<lambda>_. ret False)"

definition denyRoute :: "'w alib \<Rightarrow> ('w, 'c) aconf \<Rightarrow> nat \<Rightarrow> (('w, 'c) areq, unit) act" where
  "denyRoute L c code =
     (if code = 401 then upd_pay (writeJsonError L 401 ''login required'')
      else bnd (call_if (f_auditBlockedRoute c) id)
             (\<lambda>_. upd_pay (writeJsonError L code ''insufficient privileges'')))"

text \<open>The template \<open>guard<minLevel, handler>\<close>.\<close>

definition guard_route ::
    "'w alib \<Rightarrow> ('w, 'c) aconf \<Rightarrow> int \<Rightarrow> (('w, 'c) areq, unit) act \<Rightarrow> (('w, 'c) areq, unit) act" where
  "guard_route L c minLevel handler =
     (case f_isLogged c of
        None \<Rightarrow> denyRoute L c 401
      | Some isLogged \<Rightarrow>
          bnd isLogged (\<lambda>logged.
            if \<not> logged then denyRoute L c 401
            else bnd (call (f_hasLevel c) (\<lambda>f. f minLevel)) (\<lambda>ok.
                   if \<not> ok then denyRoute L c 403 else handler)))"

subsection \<open>The session check\<close>

definition base_path :: "('w, 'c) aconf \<Rightarrow> (('w, 'c) areq, string) act" where
  "base_path c s =
     (let (p, r) = getBasePath (basePathFunctor c) (base_conf c) (a_req s)
      in (Inr p, s\<lparr>a_req := r\<rparr>))"

definition the_path :: "('w, 'c) areq \<Rightarrow> string" where
  "the_path s = drop 1 (url_path (a_req s))"

definition set_session_cookie :: "('w, 'c) aconf \<Rightarrow> string \<Rightarrow> (('w, 'c) areq, unit) act" where
  "set_session_cookie c sessionId =
     upd_pay (setCookie (cookieName c) sessionId (cookieTTL c) True (cookieSecure c))"

definition tryDevelLogin :: "('w, 'c) aconf \<Rightarrow> (('w, 'c) areq, bool) act" where
  "tryDevelLogin c =
     (case f_develLogin c of
        None \<Rightarrow> ret False
      | Some f \<Rightarrow>
          bnd f (\<lambda>sessionId.
            if sessionId = [] then ret False
            else bnd (set_session_cookie c sessionId) (\<lambda>_. ret True)))"

definition is_public :: "('w, 'c) aconf \<Rightarrow> string \<Rightarrow> bool" where
  "is_public c path \<longleftrightarrow>
     map_of (publicPaths c) path \<noteq> None \<or> list_ex (\<lambda>p. prefix p path) (publicPrefixes c)"

text \<open>What the cookie and the devel login decide: whether to go on, with the refusal already
  written when not.\<close>

definition session_check ::
    "'w alib \<Rightarrow> ('w, 'c) aconf \<Rightarrow> string \<Rightarrow> string \<Rightarrow> string \<Rightarrow> (('w, 'c) areq, bool) act" where
  "session_check L c path basePath next =
     bnd (gets (\<lambda>s. cookies (a_req s))) (\<lambda>cks.
       case cks of
         None \<Rightarrow> throw NoCookies
       | Some ck \<Rightarrow>
           (case map_of ck (cookieName c) of
              Some session \<Rightarrow>
                bnd (call (f_resumeSession c) (\<lambda>f. f (skq_val session))) (\<lambda>st.
                  case st of
                    SS_ok \<Rightarrow> ret True
                  | SS_invalid \<Rightarrow>
                      bnd (tryDevelLogin c) (\<lambda>ok.
                        if ok then ret True
                        else bnd (upd_pay (\<lambda>p. p\<lparr>headers := hdr_deleteCookie (headers p) (cookieName c)\<rparr>))
                               (\<lambda>_. deny L c path (loginRedirect (l_pctEncode L) basePath (Some 7) next [])))
                  | SS_notLogged \<Rightarrow>
                      bnd (tryDevelLogin c) (\<lambda>ok.
                        if ok then ret True
                        else deny L c path (loginRedirect (l_pctEncode L) basePath None next [])))
            | None \<Rightarrow>
                bnd (tryDevelLogin c) (\<lambda>ok.
                  if ok then ret True
                  else deny L c path (loginRedirect (l_pctEncode L) basePath None next []))))"

definition loginManager :: "'w alib \<Rightarrow> ('w, 'c) aconf \<Rightarrow> (('w, 'c) areq, bool) act" where
  "loginManager L c =
     bnd (gets the_path) (\<lambda>path.
       if is_public c path then ret True
       else bnd (base_path c) (\<lambda>basePath.
            bnd (gets (\<lambda>s. originalTarget (a_req s))) (\<lambda>next.
            bnd (session_check L c path basePath next) (\<lambda>go.
              if \<not> go then ret False
              else (case f_postLogin c of
                      None \<Rightarrow> ret True
                    | Some f \<Rightarrow> bnd f (\<lambda>ok. if ok then ret True else ret False))))))"

definition wsDevelLogin :: "('w, 'c) aconf \<Rightarrow> (('w, 'c) areq, bool) act" where
  "wsDevelLogin c =
     (case f_develLogin c of None \<Rightarrow> ret False | Some f \<Rightarrow> bnd f (\<lambda>sid. ret (sid \<noteq> [])))"

definition ws_level :: "('w, 'c) aconf \<Rightarrow> int \<Rightarrow> bool \<Rightarrow> (('w, 'c) areq, upgrade_auth) act" where
  "ws_level c minLevel resolved =
     (if \<not> resolved then ret UA_unauthorized
      else case f_isLogged c of
             None \<Rightarrow> ret UA_unauthorized
           | Some isLogged \<Rightarrow>
               bnd isLogged (\<lambda>logged.
                 if \<not> logged then ret UA_unauthorized
                 else (case f_hasLevel c of
                         None \<Rightarrow> ret UA_ok
                       | Some f \<Rightarrow> bnd (f minLevel) (\<lambda>ok. ret (if ok then UA_ok else UA_forbidden)))))"

definition checkWsUpgrade :: "('w, 'c) aconf \<Rightarrow> int \<Rightarrow> (('w, 'c) areq, upgrade_auth) act" where
  "checkWsUpgrade c minLevel =
     bnd (gets (\<lambda>s. case cookies (a_req s) of None \<Rightarrow> None | Some ck \<Rightarrow> map_of ck (cookieName c)))
       (\<lambda>session.
          case session of
            Some v \<Rightarrow>
              (case f_resumeSession c of
                 None \<Rightarrow> ret UA_unauthorized
               | Some f \<Rightarrow>
                   bnd (f (skq_val v)) (\<lambda>st.
                     if st = SS_ok then ws_level c minLevel True
                     else bnd (wsDevelLogin c) (ws_level c minLevel)))
          | None \<Rightarrow> bnd (wsDevelLogin c) (ws_level c minLevel))"

subsection \<open>The login page\<close>

text \<open>The destructor of the local \<open>Guard inflight\<close> runs however its block is left.\<close>

definition drop_guard :: "guard option \<Rightarrow> ('w, 'c) areq \<Rightarrow> ('w, 'c) areq" where
  "drop_guard g s =
     (case g of None \<Rightarrow> s | Some x \<Rightarrow> s\<lparr>a_lim := release (a_lim s) (g_ip x) (g_email x)\<rparr>)"

definition with_guard :: "guard option \<Rightarrow> (('w, 'c) areq, 'a) act \<Rightarrow> (('w, 'c) areq, 'a) act" where
  "with_guard g m s = (case m s of (r, s') \<Rightarrow> (r, drop_guard g s'))"

definition tooMany ::
    "'w alib \<Rightarrow> ('w, 'c) aconf \<Rightarrow> string \<Rightarrow> string \<Rightarrow> string \<Rightarrow> nat \<Rightarrow> (('w, 'c) areq, unit) act" where
  "tooMany L c tmpl basePath next retryAfterSec =
     upd_pay (\<lambda>p.
       let retry = (if retryAfterSec \<noteq> 0 then retryAfterSec else 10);
           json = obj_set ''ERROR_MESSAGE'' (JString ''Too many login attempts, try again shortly.'')
                    (setLoginTemplateVars c basePath next [])
       in p\<lparr>statusCode := 429, headers := mm_insert ''Retry-After'' (show_nat retry) (headers p),
            html := l_mustache L tmpl json\<rparr>)"

definition record_outcome :: "'w alib \<Rightarrow> ('w, 'c) aconf \<Rightarrow> string \<Rightarrow> login_result \<Rightarrow> (('w, 'c) areq, unit) act" where
  "record_outcome L c email result =
     upd (\<lambda>s.
       if loginLimiter_on c \<and> result \<noteq> LR_rateLimited then
         (if result = LR_ok then s\<lparr>a_lim := recordSuccess (l_norm L) (a_lim s) email\<rparr>
          else s\<lparr>a_lim := recordFailure (l_norm L) (a_lim s) (l_now L (a_world s))
                            (remoteIp (a_req s)) email\<rparr>)
       else s)"

definition answer_outcome ::
    "'w alib \<Rightarrow> ('w, 'c) aconf \<Rightarrow> bool \<Rightarrow> string \<Rightarrow> string \<Rightarrow> string \<Rightarrow> string \<Rightarrow> login_outcome \<Rightarrow>
     (('w, 'c) areq, unit) act" where
  "answer_outcome L c appLogin tmpl basePath next fallback outcome =
     (let leaf = (if appLogin then ''app/login'' else ''login'')
      in case lo_result outcome of
           LR_ok \<Rightarrow>
             bnd (set_session_cookie c (lo_sessionId outcome))
               (\<lambda>_. upd_pay (redirect (successRedirect basePath next fallback)))
         | LR_invalidEmail \<Rightarrow> upd_pay (redirect (loginRedirect (l_pctEncode L) basePath (Some 1) next leaf))
         | LR_invalidPassword \<Rightarrow>
             upd_pay (redirect (loginRedirect (l_pctEncode L) basePath (Some 2) next leaf))
         | LR_rateLimited \<Rightarrow> tooMany L c tmpl basePath next (lo_retryAfterSec outcome)
         | LR_error \<Rightarrow> upd_pay (redirect (loginRedirect (l_pctEncode L) basePath (Some 3) next leaf)))"

text \<open>The password check itself, from the call of the \<open>login\<close> hook on.\<close>

definition check_password ::
    "'w alib \<Rightarrow> ('w, 'c) aconf \<Rightarrow> bool \<Rightarrow> string \<Rightarrow> string \<Rightarrow> string \<Rightarrow> string \<Rightarrow> string \<Rightarrow> string \<Rightarrow>
     (('w, 'c) areq, unit) act" where
  "check_password L c appLogin tmpl basePath next fallback email password =
     bnd (call (f_login c) (\<lambda>f. f email password)) (\<lambda>outcome.
     bnd (record_outcome L c email (lo_result outcome)) (\<lambda>_.
       answer_outcome L c appLogin tmpl basePath next fallback outcome))"

definition do_login ::
    "'w alib \<Rightarrow> ('w, 'c) aconf \<Rightarrow> bool \<Rightarrow> string \<Rightarrow> string \<Rightarrow> string \<Rightarrow> string \<Rightarrow> string \<Rightarrow> string \<Rightarrow>
     (('w, 'c) areq, unit) act" where
  "do_login L c appLogin tmpl basePath next fallback email password s =
     (let body = check_password L c appLogin tmpl basePath next fallback email password
      in if loginLimiter_on c then
           (let (l', slot) = tryBegin (l_norm L) (a_lim s) (l_now L (a_world s)) (remoteIp (a_req s)) email;
                s' = s\<lparr>a_lim := l'\<rparr>
            in if tb_admit slot \<noteq> Admit_ok then
                 bnd (call_if (f_onLoginRateLimited c) (\<lambda>f. f email (admitReason (tb_admit slot))))
                   (\<lambda>_. tooMany L c tmpl basePath next (tb_retryAfterSec slot)) s'
               else with_guard (tb_guard slot) body s')
         else body s)"

definition show_form ::
    "'w alib \<Rightarrow> ('w, 'c) aconf \<Rightarrow> string \<Rightarrow> string \<Rightarrow> string \<Rightarrow> (('w, 'c) areq, unit) act" where
  "show_form L c tmpl basePath next =
     bnd (gets (\<lambda>s. map_of (get_params (a_req s)) ''error'')) (\<lambda>err.
       let json = setLoginTemplateVars c basePath next []
       in case err of
            None \<Rightarrow> upd_pay (\<lambda>p. p\<lparr>html := l_mustache L tmpl json\<rparr>)
          | Some v \<Rightarrow>
              (case l_toUInt L v of
                 None \<Rightarrow> throw (BadNumber v)
               | Some e \<Rightarrow>
                   (let msg = (case f_loginErrorMessage c of Some f \<Rightarrow> f e | None \<Rightarrow> defaultLoginErrorMessage e);
                        json' = obj_set ''ERROR_MESSAGE'' (JString msg) json
                    in upd_pay (\<lambda>p. p\<lparr>html := l_mustache L tmpl json'\<rparr>))))"

definition decode_form :: "'w alib \<Rightarrow> (('w, 'c) areq, unit) act" where
  "decode_form L s =
     (case fcgi_decodePost (l_pctDecode L) (a_req s) of
        Inl e \<Rightarrow> (Inl (FormError e), s)
      | Inr r \<Rightarrow> (Inr (), s\<lparr>a_req := r\<rparr>))"

definition loginPage :: "'w alib \<Rightarrow> ('w, 'c) aconf \<Rightarrow> (('w, 'c) areq, unit) act" where
  "loginPage L c =
     bnd (decode_form L) (\<lambda>_.
     bnd (call_if (f_prepareAnonymous c) id) (\<lambda>_.
     bnd (upd_pay (\<lambda>p. (setStandardHeaders True p)\<lparr>statusCode := 200\<rparr>)) (\<lambda>_.
     bnd (base_path c) (\<lambda>basePath.
     bnd (gets a_req) (\<lambda>status.
       let next = requestedNext status;
           appLogin = (drop 1 (url_path status) = ''app/login'');
           tmpl = (if appLogin \<and> appLoginTemplate c \<noteq> [] then appLoginTemplate c else loginTemplate c);
           fallback = (if appLogin then (if appSuccessPath c = [] then ''app/'' else appSuccessPath c)
                       else successPath c)
       in case map_of (post status) ''email'' of
            Some email \<Rightarrow>
              (case map_of (post status) ''password'' of
                 None \<Rightarrow> throw (MissingKeyEx ''password'')
               | Some pw \<Rightarrow>
                   do_login L c appLogin tmpl basePath next fallback (l_trimmed L email) (l_trimmed L pw))
          | None \<Rightarrow> show_form L c tmpl basePath next)))))"

definition logout :: "'w alib \<Rightarrow> ('w, 'c) aconf \<Rightarrow> (('w, 'c) areq, unit) act" where
  "logout L c =
     bnd (upd_pay (setStandardHeaders True)) (\<lambda>_.
     bnd (gets (\<lambda>s. cookies (a_req s))) (\<lambda>cks.
       case cks of
         None \<Rightarrow> throw NoCookies
       | Some ck \<Rightarrow>
           bnd (case map_of ck (cookieName c) of
                  Some session \<Rightarrow> call_if (f_logout c) (\<lambda>f. f (skq_val session))
                | None \<Rightarrow> ret ()) (\<lambda>_.
           bnd (upd_pay (\<lambda>p. p\<lparr>headers := hdr_deleteCookie (headers p) (cookieName c)\<rparr>)) (\<lambda>_.
           bnd (gets the_path) (\<lambda>path.
           bnd (base_path c) (\<lambda>base.
             upd_pay (redirect (base @ (if path = ''app/logout'' then ''app/login'' else ''login'')))))))))"

subsection \<open>Lemmas\<close>



lemma deny_value: "fst (deny L c path loc s) = Inr False"
  by (simp add: deny_def upd_pay_def ret_def)

lemma inflight_record [simp]:
  "inflight (recordFailure norm l t ip email) = inflight l"
  "inflight (recordSuccess norm l email) = inflight l"
  by (simp_all add: inflight_def recordFailure_def recordSuccess_def Let_def)

text \<open>An action that gives the in-flight state back.\<close>

definition keeps :: "(('w, 'c) areq, 'a) act \<Rightarrow> bool" where
  "keeps m \<longleftrightarrow> (\<forall>s. 0 \<le> argon2Live (a_lim s) \<longrightarrow> inflight (a_lim (snd (m s))) = inflight (a_lim s))"

named_theorems keeps_intros \<open>actions that keep the in-flight state\<close>

lemma keeps_bnd [keeps_intros]: "keeps m \<Longrightarrow> (\<And>x. keeps (f x)) \<Longrightarrow> keeps (bnd m f)"
proof (unfold keeps_def, intro allI impI)
  fix s :: "('a, 'b) areq"
  assume m: "\<forall>s. 0 \<le> argon2Live (a_lim s) \<longrightarrow> inflight (a_lim (snd (m s))) = inflight (a_lim s)"
    and f: "\<And>x. \<forall>s. 0 \<le> argon2Live (a_lim s) \<longrightarrow> inflight (a_lim (snd (f x s))) = inflight (a_lim s)"
    and s: "0 \<le> argon2Live (a_lim s)"
  obtain r s1 where r: "m s = (r, s1)" by (cases "m s")
  with m s have i: "inflight (a_lim s1) = inflight (a_lim s)" by (metis snd_conv)
  then have "0 \<le> argon2Live (a_lim s1)" using s by (simp add: inflight_def)
  then show "inflight (a_lim (snd (bnd m f s))) = inflight (a_lim s)"
    using r f i by (cases r) (auto simp: bnd_def)
qed

lemma keeps_simple [keeps_intros]:
  "keeps (ret x)" "keeps (throw e)" "keeps (gets g)" "keeps (upd_pay h)" "keeps (base_path c)"
  "keeps (decode_form L)" "keeps (record_outcome L c email result)"
  by (auto simp: keeps_def act_simps upd_pay_def base_path_def decode_form_def record_outcome_def Let_def
      split: prod.splits sum.splits)

lemma keeps_call [keeps_intros]:
  "(\<And>f. h = Some f \<Longrightarrow> keeps (k f)) \<Longrightarrow> keeps (call h k)"
  "(\<And>f. h = Some f \<Longrightarrow> keeps (k' f)) \<Longrightarrow> keeps (call_if h k')"
  by (auto simp: call_def call_if_def intro: keeps_intros split: option.splits)

lemma keeps_answers [keeps_intros]:
  "keeps (tooMany L c tmpl basePath next retry)"
  "keeps (answer_outcome L c appLogin tmpl basePath next fallback outcome)"
  "keeps (show_form L c tmpl basePath next)"
  by (auto simp: tooMany_def answer_outcome_def show_form_def set_session_cookie_def Let_def
      intro!: keeps_intros split: login_result.splits option.splits)

lemma keeps_check_password [keeps_intros]:
  "(\<And>f e p. f_login c = Some f \<Longrightarrow> keeps (f e p)) \<Longrightarrow>
     keeps (check_password L c appLogin tmpl basePath next fallback email password)"
  by (auto simp: check_password_def intro!: keeps_intros)

lemma with_guard_inflight:
  "inflight (a_lim (snd (with_guard (Some g) m s))) = inflight (leave_gate g (a_lim (snd (m s))))"
  by (simp add: with_guard_def drop_guard_def leave_gate_def split: prod.splits)

lemma keeps_do_login [keeps_intros]:
  assumes "\<And>f e p. f_login c = Some f \<Longrightarrow> keeps (f e p)"
    and "\<And>f e r. f_onLoginRateLimited c = Some f \<Longrightarrow> keeps (f e r)"
  shows "keeps (do_login L c appLogin tmpl basePath next fallback email password)"
proof (unfold keeps_def, intro allI impI)
  fix s :: "('a, 'b) areq"
  assume s: "0 \<le> argon2Live (a_lim s)"
  let ?body = "check_password L c appLogin tmpl basePath next fallback email password"
  let ?t = "l_now L (a_world s)" and ?ip = "remoteIp (a_req s)"
  let ?out = "tryBegin (l_norm L) (a_lim s) ?t ?ip email"
  let ?s' = "s\<lparr>a_lim := fst ?out\<rparr>"
  have body: "keeps ?body" using assms(1) by (rule keeps_check_password)
  show "inflight (a_lim (snd (do_login L c appLogin tmpl basePath next fallback email password s))) =
      inflight (a_lim s)"
  proof (cases "loginLimiter_on c")
    case False
    then show ?thesis using body s by (simp add: do_login_def keeps_def)
  next
    case on: True
    show ?thesis
    proof (cases "tb_guard (snd ?out)")
      case None
      then have e: "enter_gate (l_norm L) ?t ?ip email (a_lim s) = (fst ?out, None)"
        by (simp add: enter_gate_def)
      let ?m = "bnd (call_if (f_onLoginRateLimited c) (\<lambda>f. f email (admitReason (tb_admit (snd ?out)))))
          (\<lambda>_. tooMany L c tmpl basePath next (tb_retryAfterSec (snd ?out)))"
      have "keeps ?m" using assms(2) by (auto intro!: keeps_intros)
      moreover have i: "inflight (fst ?out) = inflight (a_lim s)"
        using login_gate.refused_view [OF s e] .
      moreover have "0 \<le> argon2Live (a_lim ?s')" using i s by (simp add: inflight_def)
      ultimately have "inflight (a_lim (snd (?m ?s'))) = inflight (a_lim s)"
        unfolding keeps_def by simp
      then show ?thesis using on None tryBegin_guard_iff [of "l_norm L" "a_lim s" ?t ?ip email]
        by (simp add: do_login_def Let_def case_prod_beta)
    next
      case (Some g)
      then have e: "enter_gate (l_norm L) ?t ?ip email (a_lim s) = (fst ?out, Some g)"
        by (simp add: enter_gate_def)
      have a: "tb_admit (snd ?out) = Admit_ok"
        using Some tryBegin_guard_iff [of "l_norm L" "a_lim s" ?t ?ip email] by (metis option.distinct(1))
      then have "0 \<le> argon2Live (a_lim ?s')" using s by (simp add: tryBegin_ok(3))
      then have "inflight (a_lim (snd (?body ?s'))) = inflight (fst ?out)"
        using body unfolding keeps_def by simp
      then have "inflight (leave_gate g (a_lim (snd (?body ?s')))) = inflight (a_lim s)"
        by (rule login_gate.leave_view [OF s e])
      then show ?thesis using on a Some
        by (simp add: do_login_def Let_def case_prod_beta with_guard_inflight)
    qed
  qed
qed

lemma keeps_loginPage:
  assumes "\<And>f e p. f_login c = Some f \<Longrightarrow> keeps (f e p)"
    and "\<And>f e r. f_onLoginRateLimited c = Some f \<Longrightarrow> keeps (f e r)"
    and "\<And>f. f_prepareAnonymous c = Some f \<Longrightarrow> keeps f"
  shows "keeps (loginPage L c)"
  unfolding loginPage_def Let_def
  using assms by (auto intro!: keeps_intros split: option.splits)

text \<open>What it takes for a request to be let through, over the states the request itself goes through. The devel
  login hook is asked in the state it is reached in, and its session becomes the request's cookie.\<close>

definition devel_admits :: "('w, 'c) aconf \<Rightarrow> ('w, 'c) areq \<Rightarrow> ('w, 'c) areq \<Rightarrow> bool" where
  "devel_admits c s s' \<longleftrightarrow>
     (\<exists>f sid t. f_develLogin c = Some f \<and> f s = (Inr sid, t) \<and> sid \<noteq> [] \<and>
        s' = t\<lparr>a_pay := setCookie (cookieName c) sid (cookieTTL c) True (cookieSecure c) (a_pay t)\<rparr>)"

text \<open>The session hook is asked with the request's own cookie, in the request's own state; only when the cookie is
  missing or the hook says that it is no session does the devel login decide, in the state the hook left.\<close>

definition session_admits :: "('w, 'c) aconf \<Rightarrow> ('w, 'c) areq \<Rightarrow> ('w, 'c) areq \<Rightarrow> bool" where
  "session_admits c s s' \<longleftrightarrow>
     (\<exists>ck. cookies (a_req s) = Some ck \<and>
       (case map_of ck (cookieName c) of
          None \<Rightarrow> devel_admits c s s'
        | Some v \<Rightarrow> (\<exists>f st t. f_resumeSession c = Some f \<and> f (skq_val v) s = (Inr st, t) \<and>
            (if st = SS_ok then s' = t else devel_admits c t s'))))"

definition post_admits :: "('w, 'c) aconf \<Rightarrow> ('w, 'c) areq \<Rightarrow> ('w, 'c) areq \<Rightarrow> bool" where
  "post_admits c s s' \<longleftrightarrow> (case f_postLogin c of None \<Rightarrow> s' = s | Some f \<Rightarrow> f s = (Inr True, s'))"

text \<open>The whole rule: a public path goes through as it is; any other request needs its session and then the consent
  of the project's \<open>postLogin\<close>, from the state in which its base path has been worked out.\<close>

definition admitted :: "('w, 'c) aconf \<Rightarrow> ('w, 'c) areq \<Rightarrow> ('w, 'c) areq \<Rightarrow> bool" where
  "admitted c s s' \<longleftrightarrow>
     (if is_public c (the_path s) then s' = s
      else (\<exists>t. session_admits c (snd (base_path c s)) t \<and> post_admits c t s'))"

lemma tryDevelLogin_True_iff: "tryDevelLogin c s = (Inr True, s') \<longleftrightarrow> devel_admits c s s'"
  by (auto simp: tryDevelLogin_def devel_admits_def bnd_Inr ret_def set_session_cookie_def upd_pay_def
      split: option.splits if_splits)

lemma denied_never [simp]:
  "deny L c path loc s \<noteq> (Inr True, s')"
  "bnd (upd_pay g) (\<lambda>_. deny L c path loc) s \<noteq> (Inr True, s')"
  using deny_value [of L c path loc] by (auto simp: bnd_Inr upd_pay_def) (metis fst_conv sum.inject(2))+

lemma devel_or_deny:
  assumes "\<And>t. k t \<noteq> (Inr True, s')"
  shows "bnd (tryDevelLogin c) (\<lambda>ok. if ok then ret True else k) s = (Inr True, s') \<longleftrightarrow> devel_admits c s s'"
proof -
  have "bnd (tryDevelLogin c) (\<lambda>ok. if ok then ret True else k) s = (Inr True, s') \<longleftrightarrow>
      tryDevelLogin c s = (Inr True, s')"
    using assms by (auto simp: bnd_Inr ret_def split: if_splits)
  then show ?thesis by (simp add: tryDevelLogin_True_iff)
qed

lemma session_check_True_iff:
  "session_check L c path base next s = (Inr True, s') \<longleftrightarrow> session_admits c s s'"
proof (cases "cookies (a_req s)")
  case None
  then show ?thesis by (simp add: session_check_def session_admits_def bnd_def gets_def throw_def)
next
  case (Some ck)
  show ?thesis
  proof (cases "map_of ck (cookieName c)")
    case None
    then show ?thesis using Some
      by (simp add: session_check_def session_admits_def devel_or_deny)
  next
    case v: (Some v)
    show ?thesis
    proof (cases "f_resumeSession c")
      case None
      then show ?thesis using Some v
        by (simp add: session_check_def session_admits_def call_def) (simp add: throw_def)
    next
      case f: (Some f)
      obtain r t where r: "f (skq_val v) s = (r, t)" by fastforce
      show ?thesis
      proof (cases r)
        case (Inl e)
        then show ?thesis using Some v f r
          by (simp add: session_check_def session_admits_def call_def) (simp add: bnd_def)
      next
        case (Inr st)
        then have k: "bnd (call (Some f) (\<lambda>f. f (skq_val v))) k s = k st t" for k
          using f r by (simp add: bnd_def call_def)
        show ?thesis using Some v f r Inr
          by (cases st) (simp_all add: session_check_def session_admits_def devel_or_deny k, auto simp: ret_def)
      qed
    qed
  qed
qed

subsection \<open>An instance for the witnesses\<close>

definition demo_lib :: "int alib" where
  "demo_lib = \<lparr>l_trimmed = id, l_norm = id, l_pctDecode = id, l_pctEncode = id,
     l_mustache = (\<lambda>t j. t), l_lit = id, l_num = (\<lambda>_. []), l_toUInt = (\<lambda>_. Some 1), l_now = id\<rparr>"

definition demo_conf :: "(int, unit) aconf" where
  "demo_conf = \<lparr>publicPaths = [(''favicon.ico'', True)], publicPrefixes = [''static/''],
     cookieName = ''session'', cookieTTL = 60, cookieSecure = True, loginTemplate = ''t'',
     appLoginTemplate = [], successPath = ''index'', appSuccessPath = [], f_isApiCall = None,
     f_loginErrorMessage = None,
     f_resumeSession = Some (\<lambda>sid. ret (if sid = ''s1'' then SS_ok else SS_invalid)),
     f_develLogin = None, f_postLogin = None, f_prepareAnonymous = None, f_decorateLoginJson = None,
     f_login = Some (\<lambda>e p. ret \<lparr>lo_result = LR_invalidPassword, lo_sessionId = [], lo_retryAfterSec = 0\<rparr>),
     loginLimiter_on = True, f_onLoginRateLimited = None, f_logout = None,
     f_isLogged = Some (ret True), f_hasLevel = Some (\<lambda>l. ret (l \<le> 3)), f_auditBlockedRoute = None,
     basePathFunctor = None, base_conf = \<lparr>basePathOpt = Some ''/'', port = 80\<rparr>\<rparr>"

definition demo_req :: "string \<Rightarrow> string \<Rightarrow> unit fcgi" where
  "demo_req path sid = \<lparr>remoteIp = ''10.0.0.7'', localIp = ''10.0.0.1'', req_headers = [],
     cookies = Some [(''session'', \<lparr>skq_val = sid, skip = False\<rparr>)], req_path = path, url_path = path,
     body = ''email=bob&password=x'', post = [], get_params = [], curBasePath = [], fcgi_conf = ()\<rparr>"

definition demo_state :: "string \<Rightarrow> string \<Rightarrow> (int, unit) areq" where
  "demo_state path sid = \<lparr>a_world = 7, a_lim = limiter_init, a_req = demo_req path sid,
     a_pay = payload_init\<rparr>"

lemmas demo_defs = demo_lib_def demo_conf_def demo_req_def demo_state_def

subsection \<open>Properties\<close>

text \<open>Where a browser goes when it follows a location from a page of the site. It drops control characters
  and reads a backslash as a slash; two slashes start a host, one is a path, and a colon before the first
  slash ends some other scheme.\<close>

datatype destination = Same_site | To_host string | Other_scheme

definition upto_path :: "string \<Rightarrow> string" where
  "upto_path = takeWhile (\<lambda>c. c \<notin> {CHR ''/'', backslash, CHR ''?'', CHR ''#''})"

definition slashlike :: "char \<Rightarrow> bool" where
  "slashlike c \<longleftrightarrow> c = CHR ''/'' \<or> c = backslash"

definition follows_to :: "string \<Rightarrow> destination" where
  "follows_to u =
     (let v = filter (\<lambda>c. \<not> bad_next_char c) u
      in if 2 \<le> length v \<and> slashlike (v ! 0) \<and> slashlike (v ! 1) then To_host (upto_path (drop 2 v))
         else if prefix ''http://'' v then To_host (upto_path (drop 7 v))
         else if prefix ''https://'' v then To_host (upto_path (drop 8 v))
         else if CHR '':'' \<in> set (upto_path v) then Other_scheme
         else Same_site)"







text \<open>On its own, what \<open>safeNextPath\<close> accepts may still name another scheme: only the base path that the redirects
  put in front of it keeps the browser on the site, and the login template gets it without one.\<close>

theorem next_keeps_a_scheme:
  "safeNextPath ''javascript:alert(1)'' = Some ''javascript:alert(1)'' \<and>
   follows_to ''javascript:alert(1)'' = Other_scheme"
  by code_simp

text \<open>When \<open>loginManager\<close> answers true.\<close>

lemma base_path_cookies [simp]: "cookies (a_req (snd (base_path c s))) = cookies (a_req s)"
  by (auto simp: base_path_def getBasePath_def Let_def split: prod.splits option.splits if_splits)

lemma base_path_world [simp]: "a_world (snd (base_path c s)) = a_world s"
  by (simp add: base_path_def split: prod.splits)

lemma loginManager_True: "loginManager L c s = (Inr True, s') \<longleftrightarrow> admitted c s s'"
proof (cases "is_public c (the_path s)")
  case True
  then show ?thesis by (auto simp: loginManager_def admitted_def ret_def)
next
  case False
  obtain base where b: "base_path c s = (Inr base, snd (base_path c s))"
    by (cases "getBasePath (basePathFunctor c) (base_conf c) (a_req s)") (simp add: base_path_def)
  let ?post = "\<lambda>go. if \<not> go then ret False
      else (case f_postLogin c of None \<Rightarrow> ret True | Some f \<Rightarrow> bnd f (\<lambda>ok. if ok then ret True else ret False))"
  let ?s1 = "snd (base_path c s)"
  have "loginManager L c s = bnd (session_check L c (the_path s) base (originalTarget (a_req ?s1))) ?post ?s1"
    using False by (simp add: loginManager_def bnd_step [where m = "base_path c", OF b])
  moreover have "?post go t = (Inr True, s') \<longleftrightarrow> go \<and> post_admits c t s'" for go t
    by (auto simp: post_admits_def bnd_Inr ret_def split: option.split if_splits)
  ultimately have "loginManager L c s = (Inr True, s') \<longleftrightarrow>
      (\<exists>t. session_check L c (the_path s) base (originalTarget (a_req ?s1)) ?s1 = (Inr True, t) \<and> post_admits c t s')"
    by (auto simp: bnd_Inr)
  then show ?thesis using False by (simp add: admitted_def session_check_True_iff)
qed

lemma admitted_iff:
  "admitted c s s' \<longleftrightarrow>
     (if is_public c (the_path s) then s' = s
      else \<exists>ck t. cookies (a_req s) = Some ck \<and>
        (case map_of ck (cookieName c) of
           None \<Rightarrow> devel_admits c (snd (base_path c s)) t
         | Some v \<Rightarrow> \<exists>f st u. f_resumeSession c = Some f \<and> f (skq_val v) (snd (base_path c s)) = (Inr st, u) \<and>
             (if st = SS_ok then t = u else devel_admits c u t)) \<and>
        post_admits c t s')"
  unfolding admitted_def session_admits_def base_path_cookies by auto

text \<open>C3. \<open>loginManager\<close> lets a request through exactly when its path is public, or, from the state in which its
  base path has been worked out (the world and the cookies still being the request's), its own session
  cookie is accepted by the session hook asked there, or, where the cookie is missing or refused, the
  devel login hook asked right then returns a session, and in both cases \<open>postLogin\<close>, where there is
  one, agrees in the state that check left. The request goes on in the state the last of them left.\<close>

theorem loginManager_gate:
  "let s1 = snd (base_path c s) in
     cookies (a_req s1) = cookies (a_req s) \<and> a_world s1 = a_world s \<and>
     (loginManager L c s = (Inr True, s') \<longleftrightarrow>
       (if is_public c (the_path s) then s' = s
        else \<exists>ck t. cookies (a_req s) = Some ck \<and>
          (case map_of ck (cookieName c) of
             None \<Rightarrow> devel_admits c s1 t
           | Some v \<Rightarrow> \<exists>f st u. f_resumeSession c = Some f \<and> f (skq_val v) s1 = (Inr st, u) \<and>
               (if st = SS_ok then t = u else devel_admits c u t)) \<and>
          post_admits c t s'))"
  unfolding Let_def loginManager_True admitted_iff by simp

theorem loginManager_gate_witness:
  "(\<exists>s'. loginManager demo_lib demo_conf (demo_state ''/index'' ''s1'') = (Inr True, s')) \<and>
   (\<nexists>s'. loginManager demo_lib demo_conf (demo_state ''/index'' ''s2'') = (Inr True, s'))"
proof -
  have np: "\<not> is_public demo_conf (the_path (demo_state ''/index'' v))" for v
    by (simp add: is_public_def the_path_def demo_defs)
  note gate = loginManager_gate [where L = demo_lib and c = demo_conf, unfolded Let_def]
  have d: "cookies (a_req (demo_state p v)) = Some [(''session'', \<lparr>skq_val = v, skip = False\<rparr>)]"
      "cookieName demo_conf = ''session''" "f_develLogin demo_conf = None" "f_postLogin demo_conf = None"
      "f_resumeSession demo_conf = Some (\<lambda>sid. ret (if sid = ''s1'' then SS_ok else SS_invalid))" for p v
    by (simp_all add: demo_defs)
  have "\<exists>s'. loginManager demo_lib demo_conf (demo_state ''/index'' ''s1'') = (Inr True, s')"
    using gate [of "demo_state ''/index'' ''s1''"] by (simp add: np d post_admits_def ret_def)
  moreover have "\<nexists>s'. loginManager demo_lib demo_conf (demo_state ''/index'' ''s2'') = (Inr True, s')"
    using gate [of "demo_state ''/index'' ''s2''"] by (simp add: np d devel_admits_def ret_def)
  ultimately show ?thesis ..
qed

text \<open>A guarded route is closed to everyone else: the handler runs only after the project's
  \<open>isLogged\<close> and then \<open>hasLevel\<close> answered yes; otherwise what the route does is the same whatever
  the handler is.\<close>

theorem guard_route_protects:
  "(\<exists>f g s1 s2. f_isLogged c = Some f \<and> f s = (Inr True, s1) \<and>
      f_hasLevel c = Some g \<and> g minLevel s1 = (Inr True, s2) \<and>
      guard_route L c minLevel handler s = handler s2) \<or>
   (\<forall>h. guard_route L c minLevel h s = guard_route L c minLevel handler s)"
proof (cases "f_isLogged c")
  case (Some f)
  note f = Some
  obtain r s1 where fs: "f s = (r, s1)" by (cases "f s")
  show ?thesis
  proof (cases "r = Inr True \<and> (\<exists>g s2. f_hasLevel c = Some g \<and> g minLevel s1 = (Inr True, s2))")
    case True
    then show ?thesis using f fs by (auto simp: guard_route_def bnd_def call_def)
  next
    case False
    have "guard_route L c minLevel h s = guard_route L c minLevel handler s" for h
    proof (cases "r = Inr True")
      case True
      have "bnd (call (f_hasLevel c) (\<lambda>f. f minLevel)) (\<lambda>ok. if \<not> ok then denyRoute L c 403 else h) s1 =
          bnd (call (f_hasLevel c) (\<lambda>f. f minLevel)) (\<lambda>ok. if \<not> ok then denyRoute L c 403 else handler) s1"
        using False True
        by (cases "f_hasLevel c") (auto simp: bnd_def call_def throw_def split: prod.splits sum.splits)
      then show ?thesis using f fs True by (simp add: guard_route_def bnd_def)
    next
      case nl: False
      then show ?thesis using f fs by (cases r) (auto simp: guard_route_def bnd_def)
    qed
    then show ?thesis by blast
  qed
qed (simp add: guard_route_def)

text \<open>C15. \<open>loginPage\<close> never leaks a slot: on every path through it, exceptions of the hooks
  included, the in-flight sets and the hash counter are afterwards what they were before, as
  long as the hooks themselves leave them alone.\<close>

theorem loginPage_releases:
  assumes "\<forall>f e p. f_login c = Some f \<longrightarrow> keeps (f e p)"
    and "\<forall>f e r. f_onLoginRateLimited c = Some f \<longrightarrow> keeps (f e r)"
    and "\<forall>f. f_prepareAnonymous c = Some f \<longrightarrow> keeps f"
    and "0 \<le> argon2Live (a_lim s)"
  shows "inflight (a_lim (snd (loginPage L c s))) = inflight (a_lim s)"
proof -
  have "keeps (loginPage L c)" using assms(1-3) by (intro keeps_loginPage) auto
  then show ?thesis using assms(4) unfolding keeps_def by simp
qed

theorem loginPage_releases_witness:
  "inflight (a_lim (snd (loginPage demo_lib demo_conf (demo_state ''/login'' []))) ) = ({}, {}, 0)"
proof -
  have "inflight (a_lim (snd (loginPage demo_lib demo_conf (demo_state ''/login'' [])))) =
      inflight (a_lim (demo_state ''/login'' []))"
    by (rule loginPage_releases) (auto simp: demo_defs keeps_def ret_def limiter_init_def)
  then show ?thesis by (simp add: demo_defs limiter_init_def inflight_def)
qed

text \<open>A refused login costs nothing: when the limiter does not admit the attempt, the password
  hook is not called (the result does not depend on it), and the answer is a 429 with a
  \<open>Retry-After\<close> header, unless the audit hook throws.\<close>

theorem do_login_refused:
  assumes "loginLimiter_on c"
    and "tb_admit (snd (tryBegin (l_norm L) (a_lim s) (l_now L (a_world s)) (remoteIp (a_req s)) email)) \<noteq> Admit_ok"
  shows "do_login L (c\<lparr>f_login := h\<rparr>) app tmpl base next fb email pw s =
      do_login L c app tmpl base next fb email pw s \<and>
    (\<forall>s'. do_login L c app tmpl base next fb email pw s = (Inr (), s') \<longrightarrow>
      statusCode (a_pay s') = 429 \<and> ''Retry-After'' \<in> fst ` set (headers (a_pay s')))"
proof (intro conjI allI impI)
  show "do_login L (c\<lparr>f_login := h\<rparr>) app tmpl base next fb email pw s =
      do_login L c app tmpl base next fb email pw s"
    using assms by (simp add: do_login_def Let_def case_prod_beta tooMany_def setLoginTemplateVars_def)
next
  fix s'
  assume r: "do_login L c app tmpl base next fb email pw s = (Inr (), s')"
  then obtain s1 where t: "tooMany L c tmpl base next
      (tb_retryAfterSec (snd (tryBegin (l_norm L) (a_lim s) (l_now L (a_world s)) (remoteIp (a_req s)) email)))
      s1 = (Inr (), s')"
    using assms by (auto simp: do_login_def Let_def case_prod_beta bnd_Inr)
  then show "statusCode (a_pay s') = 429"
    by (auto simp: tooMany_def upd_pay_def upd_def Let_def)
  show "''Retry-After'' \<in> fst ` set (headers (a_pay s'))"
    using t by (auto simp: tooMany_def upd_pay_def upd_def Let_def set_mm_insert)
qed

theorem do_login_refused_witness:
  "\<exists>s'. do_login demo_lib demo_conf False [] ''/'' [] ''index'' ''bob'' ''x''
      ((demo_state ''/login'' [])\<lparr>a_lim := limiter_init\<lparr>argon2Live := 2\<rparr>\<rparr>) = (Inr (), s') \<and>
    statusCode (a_pay s') = 429"
proof -
  let ?s = "(demo_state ''/login'' [])\<lparr>a_lim := limiter_init\<lparr>argon2Live := 2\<rparr>\<rparr>"
  let ?m = "do_login demo_lib demo_conf False [] ''/'' [] ''index'' ''bob'' ''x'' ?s"
  have b: "tb_admit (snd (tryBegin (l_norm demo_lib) (a_lim ?s) (l_now demo_lib (a_world ?s))
      (remoteIp (a_req ?s)) ''bob'')) = Admit_busy"
    by (simp add: tryBegin_admit admit_spec_def recent_ip_def recent_email_def stamps_of_def
        limiter_init_def demo_defs)
  then have nok: "tb_admit (snd (tryBegin (l_norm demo_lib) (a_lim ?s) (l_now demo_lib (a_world ?s))
      (remoteIp (a_req ?s)) ''bob'')) \<noteq> Admit_ok" by simp
  have on: "loginLimiter_on demo_conf" "f_onLoginRateLimited demo_conf = None" by (simp_all add: demo_defs)
  obtain s' where r: "?m = (Inr (), s')"
    using nok on by (simp add: do_login_def Let_def case_prod_beta call_if_def tooMany_def upd_pay_def upd_def)
  show ?thesis using do_login_refused [OF on(1) nok] r by blast
qed

end
