(* ===== verification/WebPath.thy ===== *)
theory WebPath
  imports HttpMessage TextUtil
begin

text \<open>
  From a request path to what is served: \<^verbatim>\<open>HTTP/staticPath.h\<close>, \<^verbatim>\<open>HTTP/mime.cpp\<close>,
  \<^verbatim>\<open>HTTP/router.cpp\<close> and \<^verbatim>\<open>HTTP/url.cpp\<close>.

  A \<open>std::filesystem::path\<close> is its generic text.  \<open>path_names\<close>, \<open>lexically_normal\<close> and
  \<open>path_append\<close> are the standard's operations on a POSIX system.  Reading a file is the
  parameter \<open>readf\<close>.
\<close>

subsection \<open>Paths\<close>

definition slash :: char where
  "slash = CHR ''/''"

definition is_absolute :: "string \<Rightarrow> bool" where
  "is_absolute s = prefix [slash] s"

text \<open>The file names between the separators.\<close>

definition path_names :: "string \<Rightarrow> string list" where
  "path_names s = filter (\<lambda>n. n \<noteq> []) (split_on slash s)"

text \<open>One name of the normal form; the stack holds the names so far, the last one first.\<close>

definition norm_name :: "bool \<Rightarrow> string \<Rightarrow> string list \<Rightarrow> string list" where
  "norm_name absolute n stk =
     (if n = ''.'' then stk
      else if n = ''..'' then
        (case stk of
           [] \<Rightarrow> if absolute then [] else [n]
         | t # r \<Rightarrow> if t = ''..'' then n # stk else r)
      else n # stk)"

definition norm_names :: "bool \<Rightarrow> string list \<Rightarrow> string list" where
  "norm_names absolute ns = rev (fold (norm_name absolute) ns [])"

text \<open>The text of a normal form, with the separator at the end when the original ended in a
  separator, a dot or a dot-dot; an empty relative result is a dot.\<close>

definition path_text :: "bool \<Rightarrow> string list \<Rightarrow> bool \<Rightarrow> string" where
  "path_text absolute ns dirlike =
     (let body = join_with [slash] ns @
                 (if dirlike \<and> ns \<noteq> [] \<and> last ns \<noteq> ''..'' then [slash] else [])
      in if absolute then slash # body else if body = [] then ''.'' else body)"

definition lexically_normal :: "string \<Rightarrow> string" where
  "lexically_normal s =
     (if s = [] then []
      else path_text (is_absolute s) (norm_names (is_absolute s) (path_names s))
             (last (split_on slash s) \<in> {[], ''.'', ''..''}))"

text \<open>\<open>operator/\<close>: an absolute right side replaces the left one.\<close>

definition path_append :: "string \<Rightarrow> string \<Rightarrow> string" where
  "path_append root rel =
     (if is_absolute rel then rel
      else if root = [] \<or> last root = slash then root @ rel else root @ [slash] @ rel)"

definition resolveStaticFile :: "string \<Rightarrow> string \<Rightarrow> string option" where
  "resolveStaticFile staticRoot urlPath =
     (if urlPath = [] \<or> hd urlPath = slash \<or> CHR 0x00 \<in> set urlPath \<or> backslash \<in> set urlPath
      then None
      else if is_absolute urlPath then None
      else if list_ex (\<lambda>part. part = ''..'') (split_on slash urlPath) then None
      else let root = lexically_normal staticRoot
           in if root = [] then None
              else let out = lexically_normal (path_append root urlPath);
                       rootPrefix = (if last root \<noteq> slash then root @ [slash] else root)
                   in if length out \<le> length rootPrefix \<or> \<not> prefix rootPrefix out then None
                      else Some out)"

subsection \<open>MIME types\<close>

text \<open>The initialiser list of the table, duplicates included: the first entry of a key is the one
  that stays in the map.\<close>

definition mime_entries :: "(string \<times> string) list" where
  "mime_entries =
    [(''htm'', ''text/html''),
     (''html'', ''text/html''),
     (''php'', ''text/html''),
     (''css'', ''text/css''),
     (''txt'', ''text/plain''),
     (''js'', ''application/javascript''),
     (''json'', ''application/json''),
     (''xml'', ''application/xml''),
     (''swf'', ''application/x-shockwave-flash''),
     (''flv'', ''video/x-flv''),
     (''png'', ''image/png''),
     (''jpe'', ''image/jpeg''),
     (''jpeg'', ''image/jpeg''),
     (''jpg'', ''image/jpeg''),
     (''gif'', ''image/gif''),
     (''bmp'', ''image/bmp''),
     (''ico'', ''image/vnd.microsoft.icon''),
     (''tiff'', ''image/tiff''),
     (''tif'', ''image/tiff''),
     (''svg'', ''image/svg+xml''),
     (''svgz'', ''image/svg+xml''),
     (''woff'', ''font/woff''),
     (''woff2'', ''font/woff2''),
     (''eot'', ''font/eot''),
     (''ttf'', ''font/ttf''),
     (''otf'', ''font/otf''),
     (''mp4'', ''video/mp4''),
     (''webm'', ''video/webm''),
     (''ogg'', ''video/ogg''),
     (''mp3'', ''audio/mpeg''),
     (''wav'', ''audio/wav''),
     (''zip'', ''application/zip''),
     (''gz'', ''application/gzip''),
     (''tar'', ''application/tar''),
     (''rar'', ''application/rar''),
     (''7z'', ''application/x-7z-compressed''),
     (''csv'', ''text/csv''),
     (''pdf'', ''application/pdf''),
     (''doc'', ''application/msword''),
     (''docx'', ''application/vnd.openxmlformats-officedocument.wordprocessingml.document''),
     (''xls'', ''application/vnd.ms-excel''),
     (''xlsx'', ''application/vnd.openxmlformats-officedocument.spreadsheetml.sheet''),
     (''ppt'', ''application/vnd.ms-powerpoint''),
     (''pptx'', ''application/vnd.openxmlformats-officedocument.presentationml.presentation''),
     (''odt'', ''application/vnd.oasis.opendocument.text''),
     (''ods'', ''application/vnd.oasis.opendocument.spreadsheet''),
     (''odp'', ''application/vnd.oasis.opendocument.presentation''),
     (''odg'', ''application/vnd.oasis.opendocument.graphics''),
     (''odc'', ''application/vnd.oasis.opendocument.chart''),
     (''odb'', ''application/vnd.oasis.opendocument.database''),
     (''odf'', ''application/vnd.oasis.opendocument.formula''),
     (''odm'', ''application/vnd.oasis.opendocument.text-master''),
     (''ott'', ''application/vnd.oasis.opendocument.text-template''),
     (''ots'', ''application/vnd.oasis.opendocument.spreadsheet-template''),
     (''otp'', ''application/vnd.oasis.opendocument.presentation-template''),
     (''otg'', ''application/vnd.oasis.opendocument.graphics-template''),
     (''otc'', ''application/vnd.oasis.opendocument.chart-template''),
     (''otb'', ''application/vnd.oasis.opendocument.database-template''),
     (''otf'', ''application/vnd.oasis.opendocument.formula-template''),
     (''otm'', ''application/vnd.oasis.opendocument.text-master''),
     (''oth'', ''application/vnd.oasis.opendocument.text-web''),
     (''rtf'', ''application/rtf''),
     (''wasm'', ''application/wasm''),
     (''xhtml'', ''application/xhtml+xml''),
     (''xul'', ''application/vnd.mozilla.xul+xml''),
     (''webp'', ''image/webp''),
     (''appcache'', ''text/cache-manifest''),
     (''manifest'', ''text/cache-manifest''),
     (''htc'', ''text/x-component''),
     (''vcf'', ''text/x-vcard''),
     (''vcard'', ''text/x-vcard''),
     (''vtt'', ''text/vtt''),
     (''m3u8'', ''application/x-mpegURL''),
     (''m3u'', ''audio/x-mpegurl''),
     (''ics'', ''text/calendar''),
     (''ical'', ''text/calendar''),
     (''coffee'', ''text/coffeescript''),
     (''less'', ''text/css''),
     (''scss'', ''text/css''),
     (''sass'', ''text/css''),
     (''mjs'', ''application/javascript''),
     (''map'', ''application/json''),
     (''lock'', ''application/json''),
     (''webmanifest'', ''application/manifest+json''),
     (''appcache'', ''text/cache-manifest''),
     (''manifest'', ''text/cache-manifest''),
     (''htc'', ''text/x-component''),
     (''vcf'', ''text/x-vcard''),
     (''vcard'', ''text/x-vcard''),
     (''vtt'', ''text/vtt''),
     (''m3u8'', ''application/x-mpegURL''),
     (''m3u'', ''audio/x-mpegurl'')]"

definition mimeTypeMap :: "(string, string) omap" where
  "mimeTypeMap = fold (\<lambda>(k, v). map_insert k v) mime_entries []"

definition getMimeType :: "string \<Rightarrow> string" where
  "getMimeType file =
     (case after_last CHR ''.'' file of
        None \<Rightarrow> []
      | Some ext \<Rightarrow> (case map_of mimeTypeMap ext of Some m \<Rightarrow> m | None \<Rightarrow> ''text/plaintext''))"

subsection \<open>Routing\<close>

text \<open>A handler works on the project's world and the payload and may throw; an operation is its
  \<open>immediate\<close> and its \<open>deferred\<close> part.\<close>

type_synonym ('w, 'e) handler = "'w \<times> payload \<Rightarrow> ('e + unit) \<times> ('w \<times> payload)"

record ('w, 'e) operation =
  op_immediate :: "('w, 'e) handler"
  op_deferred :: "'w \<Rightarrow> ('e + unit) \<times> 'w"

record ('w, 'e) rconf =
  routing :: "(string, ('w, 'e) operation) omap"
  routingSimple :: "(string, ('w, 'e) handler) omap"
  staticFile :: "string option"
  staticFileCacheTTL :: nat

definition invalid_path :: "string \<Rightarrow> payload \<Rightarrow> payload" where
  "invalid_path path p =
     p\<lparr>mime := ''text/plain; charset=utf-8'',
       html := ''invalid path >>> '' @ escapeH path @ '' <<< no routing available'', statusCode := 400\<rparr>"

definition static_answer :: "nat \<Rightarrow> string \<Rightarrow> string \<Rightarrow> payload \<Rightarrow> payload" where
  "static_answer ttl path content p =
     setCacheHeader ttl (p\<lparr>html := content, mime := getMimeType path, statusCode := 200\<rparr>)"

text \<open>\<open>Router::immediate\<close>: the answer, and the operation that \<open>deferred\<close> will run.\<close>

definition router_immediate ::
    "('w \<Rightarrow> string \<Rightarrow> string option) \<Rightarrow> ('w, 'e) rconf \<Rightarrow> string \<Rightarrow> 'w \<times> payload \<Rightarrow>
     ('w, 'e) operation option \<times> ('e + unit) \<times> ('w \<times> payload)" where
  "router_immediate readf conf urlPath s =
     (if urlPath = [] then (None, Inr (), fst s, (snd s)\<lparr>statusCode := 404\<rparr>)
      else let path = drop 1 urlPath
           in case map_of (routing conf) path of
                Some op \<Rightarrow> (Some op, op_immediate op s)
              | None \<Rightarrow>
                  (case map_of (routingSimple conf) path of
                     Some h \<Rightarrow> (None, h s)
                   | None \<Rightarrow>
                       (None, Inr (), fst s,
                        (case staticFile conf of
                           None \<Rightarrow> invalid_path path (snd s)
                         | Some root \<Rightarrow>
                             if root = [] then invalid_path path (snd s)
                             else (case resolveStaticFile root path of
                                     None \<Rightarrow> invalid_path path (snd s)
                                   | Some p \<Rightarrow>
                                       (case readf (fst s) p of
                                          None \<Rightarrow> invalid_path path (snd s)
                                        | Some content \<Rightarrow>
                                            static_answer (staticFileCacheTTL conf) path content (snd s)))))))"

definition router_deferred :: "('w, 'e) operation option \<Rightarrow> 'w \<Rightarrow> ('e + unit) \<times> 'w" where
  "router_deferred op w = (case op of None \<Rightarrow> (Inr (), w) | Some x \<Rightarrow> op_deferred x w)"

subsection \<open>URLs\<close>

definition fixBrokenUrl :: "string \<Rightarrow> string" where
  "fixBrokenUrl broken =
     (if prefix ''//'' broken then ''http:'' @ broken
      else if \<not> prefix ''http'' broken then ''http://'' @ broken else broken)"

definition getHostNoWWW :: "string \<Rightarrow> string" where
  "getHostNoWWW h = (if prefix ''www.'' h then drop 4 h else h)"

definition getNlvl :: "string \<Rightarrow> nat \<Rightarrow> string" where
  "getNlvl host pos =
     (let p = split_on CHR ''.'' host; s = length p in if s < pos then [] else p ! (s - pos))"

definition query_join :: "(string, string) omap \<Rightarrow> string" where
  "query_join q = join_with ''&'' (map (\<lambda>(key, value). key @ ''='' @ value) q)"

definition query_checkIfUnused :: "(string, string) omap \<Rightarrow> string option" where
  "query_checkIfUnused q = (if q = [] then None else Some (''Unused parameter found! '' @ query_join q))"

text \<open>\<open>items\<close> is what \<open>QUrlQuery\<close> finds in the query, still encoded.\<close>

definition setQuery ::
    "(string \<Rightarrow> string) \<Rightarrow> (string \<times> string) list \<Rightarrow> (string, string) omap \<Rightarrow> (string, string) omap" where
  "setQuery pct items q =
     fold (\<lambda>(k, v) m. map_insert k (pct v) m) (filter (\<lambda>(k, v). v \<noteq> []) items) q"

record url_ds =
  ds_domain :: string
  ds_subDomain :: string

definition semiTLD :: "string list" where
  "semiTLD = [''co'', ''com'', ''edu'', ''asn'', ''org'', ''id'', ''net'', ''ac'', ''info'', ''uk'']"

definition notAllowed :: "string list" where
  "notAllowed = [''www'']"

text \<open>The result and the cached value; \<open>None\<close> is the exception for an invalid url.\<close>

definition getDomain_SubDomain :: "string \<Rightarrow> url_ds \<Rightarrow> (url_ds \<times> url_ds) option" where
  "getDomain_SubDomain host ds =
     (if ds_domain ds \<noteq> [] then Some (ds, ds)
      else if host = [] \<or> host = ''0.0.0.0'' then Some (\<lparr>ds_domain = [], ds_subDomain = []\<rparr>, ds)
      else let part = split_on CHR ''.'' host
           in if length part < 2 then None
              else let tld0 = last part; part1 = butlast part;
                       semi = last part1 \<in> set semiTLD;
                       tld = (if semi then last part1 @ ''.'' @ tld0 else tld0);
                       part2 = (if semi then butlast part1 else part1)
                   in case part2 of
                        [] \<Rightarrow> None
                      | [_] \<Rightarrow> (let d = \<lparr>ds_domain = host, ds_subDomain = []\<rparr> in Some (d, d))
                      | _ \<Rightarrow>
                          (let domain = last part2 @ ''.'' @ tld;
                               sub = fold (\<lambda>p sub. if p \<in> set notAllowed then sub else p @ ''.'' @ domain)
                                       (butlast part2) [];
                               d = \<lparr>ds_domain = domain, ds_subDomain = sub\<rparr>
                           in Some (d, d)))"

subsection \<open>Lemmas on paths\<close>

lemma split_on_app: "split_on c (a @ c # b) = split_on c a @ split_on c b"
  by (induction a) (auto split: list.splits)

lemma path_names_app: "path_names (a @ slash # b) = path_names a @ path_names b"
  by (simp add: path_names_def split_on_app)

lemma path_names_ends [simp]: "path_names [] = []" "path_names (a @ [slash]) = path_names a"
  "path_names (slash # b) = path_names b" "path_names ''.'' = [''.'']"
  using path_names_app [of a "[]"] path_names_app [of "[]" b]
  by (simp_all add: path_names_def slash_def)

definition valid_names :: "string list \<Rightarrow> bool" where
  "valid_names ns \<longleftrightarrow> (\<forall>n\<in>set ns. n \<noteq> [] \<and> slash \<notin> set n)"

lemma valid_path_names: "valid_names (path_names s)"
  by (auto simp: valid_names_def path_names_def dest: split_on_pieces)

lemma path_names_join: "valid_names ns \<Longrightarrow> path_names (join_with [slash] ns) = ns"
proof (cases "ns = []")
  case False
  moreover assume "valid_names ns"
  ultimately show ?thesis
    by (simp add: path_names_def split_on_join valid_names_def)
qed simp

text \<open>The stacks that the normal form builds.\<close>

fun stack_ok :: "bool \<Rightarrow> string list \<Rightarrow> bool" where
  "stack_ok absolute [] = True"
| "stack_ok absolute (t # r) \<longleftrightarrow>
     stack_ok absolute r \<and> t \<noteq> ''.'' \<and> (t = ''..'' \<longrightarrow> \<not> absolute \<and> (r = [] \<or> hd r = ''..''))"

lemma stack_ok_norm: "stack_ok b stk \<Longrightarrow> stack_ok b (norm_name b n stk)"
  by (cases stk) (auto simp: norm_name_def)

lemma stack_ok_fold: "stack_ok b stk \<Longrightarrow> stack_ok b (fold (norm_name b) ns stk)"
  by (induction ns arbitrary: stk) (auto simp: stack_ok_norm)

lemma fold_norm_stack: "stack_ok b stk \<Longrightarrow> fold (norm_name b) (rev stk) [] = stk"
proof (induction stk)
  case (Cons t r)
  then have "norm_name b t r = t # r" by (cases r) (auto simp: norm_name_def)
  with Cons show ?case by simp
qed simp

lemma fold_norm_plain:
  "''..'' \<notin> set ns \<Longrightarrow> fold (norm_name b) ns stk = rev (filter (\<lambda>n. n \<noteq> ''.'') ns) @ stk"
  by (induction ns arbitrary: stk) (auto simp: norm_name_def)

lemma set_norm_names: "set (norm_names b ns) \<subseteq> set ns"
proof -
  have "set (fold (norm_name b) ns stk) \<subseteq> set ns \<union> set stk" for stk
  proof (induction ns arbitrary: stk)
    case (Cons n ns)
    have "set (norm_name b n stk) \<subseteq> insert n (set stk)"
      by (cases stk) (auto simp: norm_name_def)
    with Cons [of "norm_name b n stk"] show ?case by auto
  qed simp
  from this [of "[]"] show ?thesis by (simp add: norm_names_def)
qed

lemma valid_norm_names: "valid_names ns \<Longrightarrow> valid_names (norm_names b ns)"
  using set_norm_names [of b ns] by (auto simp: valid_names_def)

lemma norm_names_idem: "norm_names b (norm_names b ns) = norm_names b ns"
  using fold_norm_stack [of b "fold (norm_name b) ns []"] stack_ok_fold [of b "[]" ns]
  by (simp add: norm_names_def)

lemma norm_names_app:
  "''..'' \<notin> set ms \<Longrightarrow>
     norm_names b (ns @ ms) = norm_names b ns @ filter (\<lambda>n. n \<noteq> ''.'') ms"
  by (simp add: norm_names_def fold_norm_plain)

lemma no_dot_norm_names: "''.'' \<notin> set (norm_names b ns)"
proof -
  have "stack_ok b stk \<Longrightarrow> ''.'' \<notin> set stk" for stk
    by (induction stk) auto
  then show ?thesis using stack_ok_fold [of b "[]" ns] by (simp add: norm_names_def)
qed

lemma hd_join_valid:
  "valid_names ns \<Longrightarrow> ns \<noteq> [] \<Longrightarrow> \<exists>x xs. join_with [slash] ns = x # xs \<and> x \<noteq> slash"
proof (cases ns)
  case (Cons n r)
  moreover assume "valid_names ns"
  ultimately obtain x xs where "n = x # xs" "x \<noteq> slash"
    by (cases n) (auto simp: valid_names_def)
  then show ?thesis using Cons by (cases r) auto
qed simp

lemma path_text_absolute:
  assumes "valid_names ns" shows "is_absolute (path_text b ns d) = b"
proof (cases "b \<or> ns = []")
  case True
  then show ?thesis by (cases b) (auto simp: path_text_def is_absolute_def slash_def)
next
  case False
  then obtain x xs where "join_with [slash] ns = x # xs" "x \<noteq> slash"
    using hd_join_valid [OF assms] by auto
  then show ?thesis using False by (simp add: path_text_def is_absolute_def)
qed

lemma path_text_names:
  assumes "valid_names ns"
  shows "path_names (path_text b ns d) = (if \<not> b \<and> ns = [] then [''.''] else ns)"
proof (cases "ns = []")
  case False
  then have ne: "join_with [slash] ns \<noteq> []"
    using hd_join_valid [OF assms] by auto
  have "path_names (join_with [slash] ns) = ns" using assms by (rule path_names_join)
  then show ?thesis using False ne by (simp add: path_text_def Let_def)
qed (simp add: path_text_def)

lemma lexically_normal_facts:
  assumes "s \<noteq> []"
  shows "is_absolute (lexically_normal s) = is_absolute s"
    and "path_names (lexically_normal s) =
      (if \<not> is_absolute s \<and> norm_names (is_absolute s) (path_names s) = [] then [''.'']
       else norm_names (is_absolute s) (path_names s))"
  using assms valid_norm_names [OF valid_path_names, of "is_absolute s" s]
  by (simp_all add: lexically_normal_def path_text_absolute path_text_names)

lemma path_append_facts:
  assumes "root \<noteq> []" and "\<not> is_absolute rel"
  shows "path_names (path_append root rel) = path_names root @ path_names rel"
    and "is_absolute (path_append root rel) = is_absolute root" and "path_append root rel \<noteq> []"
proof -
  show "path_names (path_append root rel) = path_names root @ path_names rel"
  proof (cases "last root = slash")
    case True
    then have "root = butlast root @ [slash]" using assms(1) by (metis append_butlast_last_id)
    then show ?thesis using assms True path_names_app [of "butlast root" rel]
      by (metis append.assoc append_Cons append_Nil path_append_def path_names_ends(2))
  next
    case False
    then show ?thesis using assms by (simp add: path_append_def path_names_app)
  qed
  show "is_absolute (path_append root rel) = is_absolute root" "path_append root rel \<noteq> []"
    using assms by (cases root; simp add: path_append_def is_absolute_def)+
qed

text \<open>What is left of a request path once its dots and empty names are gone.\<close>

definition clean_names :: "string \<Rightarrow> string list" where
  "clean_names u = filter (\<lambda>n. n \<noteq> ''.'') (path_names u)"

lemma resolve_SomeD:
  assumes "resolveStaticFile sr u = Some out"
  shows "sr \<noteq> []" and "lexically_normal sr \<noteq> []" and "\<not> is_absolute u"
    and "''..'' \<notin> set (path_names u)" and "out = lexically_normal (path_append (lexically_normal sr) u)"
    and "rp = (if last (lexically_normal sr) \<noteq> slash then lexically_normal sr @ [slash]
               else lexically_normal sr) \<Longrightarrow> length rp < length out \<and> prefix rp out"
  using assms
  by (auto simp: resolveStaticFile_def Let_def list_ex_iff lexically_normal_def path_names_def
      split: if_splits)

text \<open>Everything in terms of one flag and the names of the root.\<close>

lemma resolve_shape:
  assumes "resolveStaticFile sr u = Some out" and b: "b = is_absolute sr"
    and rn: "rn = norm_names b (path_names sr)"
  shows "\<exists>d. lexically_normal sr = path_text b rn d"
    and "\<exists>d. out = path_text b (rn @ clean_names u) d"
    and "path_names (lexically_normal sr) = (if \<not> b \<and> rn = [] then [''.''] else rn)"
proof -
  note f = resolve_SomeD [OF assms(1)]
  note root = lexically_normal_facts [OF f(1), folded b, folded rn]
  note app = path_append_facts [OF f(2,3)]
  show "\<exists>d. lexically_normal sr = path_text b rn d"
    using f(1) by (auto simp: lexically_normal_def b rn)
  show "path_names (lexically_normal sr) = (if \<not> b \<and> rn = [] then [''.''] else rn)" by (rule root(2))
  have "norm_names b (if \<not> b \<and> rn = [] then [''.''] else rn) = rn"
  proof (cases "\<not> b \<and> rn = []")
    case True
    then show ?thesis by (simp add: norm_names_def norm_name_def)
  next
    case False
    then show ?thesis using norm_names_idem [of b "path_names sr", folded rn] by auto
  qed
  then have "norm_names b (path_names (path_append (lexically_normal sr) u)) = rn @ clean_names u"
    by (simp add: app(1) root(2) norm_names_app [OF f(4)] clean_names_def)
  then show "\<exists>d. out = path_text b (rn @ clean_names u) d"
    using app(2,3) root(1) unfolding f(5)
    by (auto simp: lexically_normal_def [of "path_append (lexically_normal sr) u"])
qed

lemma last_join_valid:
  "valid_names ns \<Longrightarrow> ns \<noteq> [] \<Longrightarrow> last (join_with [slash] ns) \<noteq> slash \<and> join_with [slash] ns \<noteq> []"
proof (induction ns)
  case (Cons n r)
  have "n \<noteq> [] \<Longrightarrow> slash \<notin> set n \<Longrightarrow> last n \<noteq> slash" by (metis last_in_set)
  with Cons show ?case by (cases r) (auto simp: valid_names_def last_append)
qed simp

lemma out_longer:
  assumes "valid_names ns" and "b \<or> ns \<noteq> []"
    and "rootPrefix = (if last (path_text b ns d) \<noteq> slash then path_text b ns d @ [slash]
                       else path_text b ns d)"
  shows "length (path_text b ns d') \<le> length rootPrefix"
proof (cases "ns = []")
  case False
  note l = last_join_valid [OF assms(1) False]
  have "last (path_text b ns d) = slash \<or> length (path_text b ns d) = length (join_with [slash] ns) + (if b then 1 else 0)"
    using l by (auto simp: path_text_def Let_def)
  moreover have "last (path_text b ns d) = slash \<Longrightarrow>
      length (path_text b ns d) = length (join_with [slash] ns) + (if b then 2 else 1)"
    using l by (auto simp: path_text_def Let_def split: if_splits)
  ultimately show ?thesis using l assms(3) by (auto simp: path_text_def Let_def)
qed (use assms in \<open>auto simp: path_text_def Let_def\<close>)

lemma path_names_prefix_dot: "prefix ''./'' s \<Longrightarrow> ''.'' \<in> set (path_names s)"
proof -
  assume "prefix ''./'' s"
  then obtain r where "s = ''.'' @ slash # r" by (auto simp: prefix_def slash_def)
  then show ?thesis using path_names_app [of "''.''" r] by simp
qed

lemma resolve_root:
  assumes "resolveStaticFile sr u = Some out" and b: "b = is_absolute sr"
    and rn: "rn = norm_names b (path_names sr)"
  shows "b \<or> rn \<noteq> []" and "clean_names u \<noteq> []"
proof -
  note sh = resolve_shape [OF assms]
  obtain d0 d1 where root: "lexically_normal sr = path_text b rn d0"
    and out: "out = path_text b (rn @ clean_names u) d1" using sh(1,2) by blast
  have v: "valid_names rn" "valid_names (clean_names u)"
    using valid_norm_names [OF valid_path_names, of b sr] valid_path_names [of u]
    by (auto simp: rn valid_names_def clean_names_def)
  show one: "b \<or> rn \<noteq> []"
  proof (rule ccontr)
    assume "\<not> (b \<or> rn \<noteq> [])"
    then have nb: "\<not> b" and r: "rn = []" by simp_all
    have "lexically_normal sr = ''.''" using root nb r by (simp add: path_text_def)
    then have p: "prefix ''./'' out" and l: "2 < length out"
      using resolve_SomeD(6) [OF assms(1), of "''./''"] by (simp_all add: slash_def)
    have out': "out = path_text False (clean_names u) d1" using out nb r by simp
    have "''.'' \<in> set (path_names out)" using path_names_prefix_dot [OF p] .
    then have "clean_names u = []"
      unfolding out' path_text_names [OF v(2)] by (auto simp: clean_names_def split: if_splits)
    then have "out = ''.''" using out' by (simp add: path_text_def)
    then show False using l by simp
  qed
  show "clean_names u \<noteq> []"
  proof
    assume "clean_names u = []"
    then have "length out \<le> length (if last (lexically_normal sr) \<noteq> slash
        then lexically_normal sr @ [slash] else lexically_normal sr)"
      using out_longer [OF v(1) one refl, of d1 d0] by (auto simp: root out split: if_splits)
    then show False using resolve_SomeD(6) [OF assms(1) refl] by simp
  qed
qed

lemma resolve_under_root:
  assumes "resolveStaticFile staticRoot urlPath = Some out"
  shows "is_absolute out = is_absolute staticRoot \<and>
    path_names out = path_names (lexically_normal staticRoot) @ clean_names urlPath \<and>
    clean_names urlPath \<noteq> [] \<and> ''..'' \<notin> set (clean_names urlPath)"
proof -
  note sh = resolve_shape [OF assms refl refl] and r = resolve_root [OF assms refl refl]
  have v: "valid_names (norm_names (is_absolute staticRoot) (path_names staticRoot) @ clean_names urlPath)"
    using valid_norm_names [OF valid_path_names, of "is_absolute staticRoot" staticRoot]
      valid_path_names [of urlPath]
    by (auto simp: valid_names_def clean_names_def)
  show ?thesis
    using sh(2,3) r path_text_absolute [OF v] path_text_names [OF v] resolve_SomeD(4) [OF assms]
    by (auto simp: clean_names_def)
qed

text \<open>A root that normalises to a single dot serves nothing: the result never starts with the two
  characters that the prefix check asks for.\<close>

lemma resolve_dot_root: "lexically_normal sr = ''.'' \<Longrightarrow> resolveStaticFile sr u = None"
proof (rule ccontr)
  assume d: "lexically_normal sr = ''.''" and "resolveStaticFile sr u \<noteq> None"
  then obtain out where r: "resolveStaticFile sr u = Some out" by auto
  note sh = resolve_shape(3) [OF r refl refl] and root = resolve_root(1) [OF r refl refl]
  have a: "is_absolute sr = is_absolute ''.''"
    using lexically_normal_facts(1) [OF resolve_SomeD(1) [OF r]] d by simp
  then have "\<not> is_absolute sr" by (simp add: is_absolute_def slash_def)
  with sh root d have "norm_names (is_absolute sr) (path_names sr) = [''.'']" by auto
  then show False using no_dot_norm_names [of "is_absolute sr" "path_names sr"]
    by (metis list.set_intros(1))
qed

subsection \<open>Properties\<close>

text \<open>C8. No traversal out of the static root: whenever \<open>resolveStaticFile\<close> answers, the result is
  the normalised root followed by at least one name of the request, in order, with the dots and
  empty names dropped, and none of these names is \<open>..\<close>, whatever slashes, dots or separators the
  request path holds.\<close>

theorem static_stays_under_root:
  assumes "resolveStaticFile staticRoot urlPath = Some out"
  shows "is_absolute out = is_absolute staticRoot \<and>
    path_names out = path_names (lexically_normal staticRoot) @ clean_names urlPath \<and>
    clean_names urlPath \<noteq> [] \<and> ''..'' \<notin> set (clean_names urlPath)"
  using assms by (rule resolve_under_root)

theorem static_stays_under_root_witness:
  "\<exists>out. resolveStaticFile ''/srv/www'' ''a//./b'' = Some out \<and>
     path_names out = path_names (lexically_normal ''/srv/www'') @ [''a'', ''b'']"
proof -
  obtain out where r: "resolveStaticFile ''/srv/www'' ''a//./b'' = Some out"
    by (simp add: resolveStaticFile_def Let_def lexically_normal_def is_absolute_def path_append_def
        path_names_def norm_names_def norm_name_def path_text_def slash_def backslash_def)
  have "clean_names ''a//./b'' = [''a'', ''b'']"
    by (simp add: clean_names_def path_names_def slash_def)
  then show ?thesis using static_stays_under_root [OF r] r by simp
qed

text \<open>The router never looks outside the static root: two file systems that agree on the files
  whose path is the root's names followed by names without \<open>..\<close> give the same answer to every
  request; and a static root that normalises to \<open>.\<close> answers nothing.\<close>

theorem router_confined:
  assumes "\<forall>root p. staticFile conf = Some root \<and>
      take (length (path_names (lexically_normal root))) (path_names p) = path_names (lexically_normal root) \<and>
      ''..'' \<notin> set (drop (length (path_names (lexically_normal root))) (path_names p)) \<longrightarrow>
      readf (fst s) p = readf' (fst s) p"
  shows "router_immediate readf conf urlPath s = router_immediate readf' conf urlPath s \<and>
    (lexically_normal r0 = ''.'' \<longrightarrow> resolveStaticFile r0 u = None)"
proof -
  have same: "readf (fst s) p = readf' (fst s) p"
    if root: "staticFile conf = Some root" and p: "resolveStaticFile root path = Some p" for root path p
  proof -
    let ?n = "path_names (lexically_normal root)"
    have "path_names p = ?n @ clean_names path \<and> ''..'' \<notin> set (clean_names path)"
      using resolve_under_root [OF p] by simp
    then show ?thesis using assms root by auto
  qed
  show ?thesis
    using same resolve_dot_root by (auto simp: router_immediate_def Let_def split: option.splits)
qed

theorem router_confined_witness:
  "router_immediate (\<lambda>_ p. if p = ''/etc/passwd'' then Some ''root'' else None)
      (\<lparr>routing = [], routingSimple = [], staticFile = Some ''/srv'', staticFileCacheTTL = 0\<rparr> :: (unit, unit) rconf)
      ''//../etc/passwd'' ((), payload_init) =
   router_immediate (\<lambda>_ p. None)
      (\<lparr>routing = [], routingSimple = [], staticFile = Some ''/srv'', staticFileCacheTTL = 0\<rparr> :: (unit, unit) rconf)
      ''//../etc/passwd'' ((), payload_init)"
proof -
  have n: "path_names (lexically_normal ''/srv'') = [''srv'']" "path_names ''/etc/passwd'' = [''etc'', ''passwd'']"
    by (simp_all add: lexically_normal_def is_absolute_def path_names_def norm_names_def norm_name_def
        path_text_def slash_def)
  let ?c = "\<lparr>routing = [], routingSimple = [], staticFile = Some ''/srv'', staticFileCacheTTL = 0\<rparr>
    :: (unit, unit) rconf"
  have "router_immediate (\<lambda>_ p. if p = ''/etc/passwd'' then Some ''root'' else None) ?c
      ''//../etc/passwd'' ((), payload_init) =
    router_immediate (\<lambda>_ p. None) ?c ''//../etc/passwd'' ((), payload_init) \<and>
    (lexically_normal [] = ''.'' \<longrightarrow> resolveStaticFile [] [] = None)"
    by (rule router_confined) (auto simp: n)
  then show ?thesis ..
qed

text \<open>The MIME type of a file is the first entry of the table for the text after its last dot,
  although the table repeats some keys, with one fallback for the unknown ones.\<close>

theorem getMimeType_first:
  assumes "CHR ''.'' \<notin> set ext"
  shows "getMimeType (name @ CHR ''.'' # ext) =
    (case map_of mime_entries ext of Some m \<Rightarrow> m | None \<Rightarrow> ''text/plaintext'')"
proof -
  have "map_of mimeTypeMap ext = map_of mime_entries ext"
    using std_map.look_fill [of "[]" mime_entries ext]
    by (simp add: mimeTypeMap_def std_map.fill_def map_wf_def)
  then show ?thesis by (simp add: getMimeType_def after_last_append [OF assms])
qed

theorem getMimeType_first_witness:
  "getMimeType (''a.b'' @ CHR ''.'' # ''otf'') = ''font/otf''"
  using getMimeType_first [of "''otf''" "''a.b''"] by (simp add: mime_entries_def)

text \<open>The registered domain of a host: for a host with labels \<open>ls @ [name, tld]\<close>, where \<open>name\<close>
  is none of the second-level registries, the domain is \<open>name.tld\<close> (the host itself when it has
  no more labels), and the sub-domain keeps only the last label before it that is not \<open>www\<close>.\<close>

theorem getDomain_labels:
  assumes "split_on CHR ''.'' host = ls @ [name, tld]" and "name \<notin> set semiTLD"
    and "host \<noteq> ''0.0.0.0''"
  shows "getDomain_SubDomain host \<lparr>ds_domain = [], ds_subDomain = []\<rparr> =
    (let d = (if ls = [] then \<lparr>ds_domain = host, ds_subDomain = []\<rparr>
              else \<lparr>ds_domain = name @ ''.'' @ tld,
                    ds_subDomain = (let keep = filter (\<lambda>p. p \<noteq> ''www'') ls
                                    in if keep = [] then [] else last keep @ ''.'' @ name @ ''.'' @ tld)\<rparr>)
     in Some (d, d))"
proof -
  have ne: "host \<noteq> []" using assms(1) by (cases ls) auto
  have sub: "fold (\<lambda>p sub. if p = ''www'' then sub else p @ ''.'' @ dm) xs s =
      (let keep = filter (\<lambda>p. p \<noteq> ''www'') xs in if keep = [] then s else last keep @ ''.'' @ dm)" for dm xs s
    by (induction xs arbitrary: s) (auto simp: Let_def)
  have bl: "butlast (xs @ [name, tld]) = xs @ [name]" for xs by (simp add: butlast_append)
  show ?thesis
  proof (cases ls)
    case Nil
    then show ?thesis using assms ne by (simp add: getDomain_SubDomain_def Let_def)
  next
    case (Cons a r)
    have "(case r @ [name] of [] \<Rightarrow> x | a # l \<Rightarrow> y) = y" for x y :: "(url_ds \<times> url_ds) option"
      by (cases r) auto
    then show ?thesis using assms ne
      by (simp add: getDomain_SubDomain_def Let_def bl Cons sub notAllowed_def)
  qed
qed

theorem getDomain_labels_witness:
  "getDomain_SubDomain ''seek.de.site.it'' \<lparr>ds_domain = [], ds_subDomain = []\<rparr> =
     (let d = \<lparr>ds_domain = ''site.it'', ds_subDomain = ''de.site.it''\<rparr> in Some (d, d))"
  using getDomain_labels [of "''seek.de.site.it''" "[''seek'', ''de'']" "''site''" "''it''"]
  by (simp add: semiTLD_def)

end
