(* ===== verification/Codec.thy ===== *)
theory Codec
  imports Prelude
begin

text \<open>
  \<^verbatim>\<open>misc/base32.cpp\<close>, \<^verbatim>\<open>totp/totp.cpp\<close> and \<^verbatim>\<open>misc/b64.cpp\<close>.

  The 32-bit accumulators are natural numbers below \<open>2 ^ 32\<close> with the wrap-around written out.
  OpenSSL's HMAC and Qt's base64 are parameters.
\<close>

subsection \<open>Base32\<close>

definition base32Alphabet :: string where
  "base32Alphabet = ''ABCDEFGHIJKLMNOPQRSTUVWXYZ234567''"

text \<open>\<open>(value << 8) | byte\<close> on a 32-bit \<open>int\<close> and a signed \<open>char\<close>: a byte from 128 on is negative,
  its sign fills the upper 24 bits, and what the accumulator held there is lost.\<close>

definition next_value :: "nat \<Rightarrow> char \<Rightarrow> nat" where
  "next_value val byte =
     (let n = of_char byte
      in if n < 128 then (val * 256 + n) mod 2 ^ 32 else 2 ^ 32 - 256 + n)"

text \<open>The inner loop: the digits for five bits at a time, and the bits that remain.\<close>

fun enc_emit :: "nat \<Rightarrow> nat \<Rightarrow> string \<times> nat" where
  "enc_emit val bits =
     (if bits < 5 then ([], bits)
      else let (out, rest) = enc_emit val (bits - 5)
           in ((base32Alphabet ! ((val div 2 ^ (bits - 5)) mod 32)) # out, rest))"

declare enc_emit.simps [simp del]

fun enc_bytes :: "string \<Rightarrow> nat \<Rightarrow> nat \<Rightarrow> string" where
  "enc_bytes [] val bits =
     (if bits > 0 then [base32Alphabet ! ((val * 2 ^ (5 - bits)) mod 2 ^ 32 mod 32)] else [])"
| "enc_bytes (byte # data) val bits =
     (let val' = next_value val byte;
          (out, bits') = enc_emit val' (bits + 8)
      in out @ enc_bytes data val' bits')"

definition encodeBase32 :: "string \<Rightarrow> string" where
  "encodeBase32 data = enc_bytes data 0 0"

text \<open>The table: the position in the alphabet; any other character counts as 0.\<close>

definition DecodingTable :: "char \<Rightarrow> nat option" where
  "DecodingTable c = map_of (zip base32Alphabet [0..<32]) c"

fun dec_bytes :: "string \<Rightarrow> nat \<Rightarrow> nat \<Rightarrow> string" where
  "dec_bytes [] buffer bits = []"
| "dec_bytes (datum # data) buffer bits =
     (let group = (case DecodingTable datum of Some g \<Rightarrow> g | None \<Rightarrow> 0);
          buffer' = ((buffer * 32) mod 2 ^ 32 + group) mod 2 ^ 32;
          bits' = bits + 5
      in if bits' \<ge> 8 then
           (let top = (buffer' div 2 ^ (bits' - 8)) mod 256
            in (if datum \<noteq> CHR ''='' then [char_of top] else []) @
               dec_bytes data (buffer' - top * 2 ^ (bits' - 8)) (bits' - 8))
         else dec_bytes data buffer' bits')"

definition decodeBase32 :: "string \<Rightarrow> string" where
  "decodeBase32 data = dec_bytes data 0 0"

lemma Decoding_alphabet: "i < 32 \<Longrightarrow> DecodingTable (base32Alphabet ! i) = Some i"
proof -
  have "distinct base32Alphabet" "length base32Alphabet = 32" by (simp_all add: base32Alphabet_def)
  then show "i < 32 \<Longrightarrow> DecodingTable (base32Alphabet ! i) = Some i"
    by (simp add: DecodingTable_def map_of_zip_nth)
qed

lemma alphabet_no_pad: "i < 32 \<Longrightarrow> base32Alphabet ! i \<noteq> CHR ''=''"
proof -
  have "CHR ''='' \<notin> set base32Alphabet" "length base32Alphabet = 32" by (simp_all add: base32Alphabet_def)
  then show "i < 32 \<Longrightarrow> base32Alphabet ! i \<noteq> CHR ''=''" by (metis nth_mem)
qed

text \<open>One digit at the decoder.\<close>

lemma dec_digit:
  assumes "i < 32" and "buffer < 2 ^ bits" and "bits < 8"
  shows "dec_bytes ((base32Alphabet ! i) # data) buffer bits =
    (if bits + 5 \<ge> 8
     then char_of ((buffer * 32 + i) div 2 ^ (bits - 3)) #
            dec_bytes data ((buffer * 32 + i) mod 2 ^ (bits - 3)) (bits - 3)
     else dec_bytes data (buffer * 32 + i) (bits + 5))"
proof -
  have "(2::nat) ^ bits \<le> 2 ^ 7" by (rule power_increasing) (use assms(3) in simp_all)
  then have b: "buffer < 128" using assms(2) by simp
  let ?B = "buffer * 32 + i"
  have w: "(buffer * 32 mod 4294967296 + i) mod 4294967296 = ?B" using b assms(1) by simp
  show ?thesis
  proof (cases "bits + 5 \<ge> 8")
    case True
    define s where "s = bits - 3"
    have s: "bits = s + 3" using True by (simp add: s_def)
    have "?B < 2 ^ bits * 32" using assms(1,2) by simp
    then have "?B < 256 * 2 ^ s" by (simp add: s power_add)
    then have top: "?B div 2 ^ s < 256" by (simp add: less_mult_imp_div_less)
    have "?B - ?B div 2 ^ s * 2 ^ s = ?B mod 2 ^ s" by (simp add: minus_div_mult_eq_mod)
    then show ?thesis
      using top assms(1) by (simp add: Decoding_alphabet alphabet_no_pad w s Let_def)
  next
    case False
    then show ?thesis using assms(1) by (simp add: Decoding_alphabet w Let_def)
  qed
qed

lemma enc_emit_cases:
  "enc_emit v 8 = ([base32Alphabet ! (v div 8 mod 32)], 3)"
  "enc_emit v 9 = ([base32Alphabet ! (v div 16 mod 32)], 4)"
  "enc_emit v 10 = ([base32Alphabet ! (v div 32 mod 32), base32Alphabet ! (v mod 32)], 0)"
  "enc_emit v 11 = ([base32Alphabet ! (v div 64 mod 32), base32Alphabet ! (v div 2 mod 32)], 1)"
  "enc_emit v 12 = ([base32Alphabet ! (v div 128 mod 32), base32Alphabet ! (v div 4 mod 32)], 2)"
  by (simp_all add: enc_emit.simps)

lemma next_value_split:
  assumes "(of_char d :: nat) < 128"
  shows "\<exists>w. next_value val d = 256 * w + of_char d \<and> w mod 16 = val mod 16"
proof -
  let ?n = "of_char d :: nat"
  have "next_value val d = (val * 256 + ?n) mod (256 * 2 ^ 24)"
    using assms by (simp add: next_value_def Let_def)
  also have "\<dots> = 256 * ((val * 256 + ?n) div 256 mod 2 ^ 24) + (val * 256 + ?n) mod 256"
    by (rule mod_mult2_eq)
  also have "\<dots> = 256 * (val mod 2 ^ 24) + ?n" using assms by simp
  finally have "next_value val d = 256 * (val mod 2 ^ 24) + ?n" .
  moreover have "val mod 2 ^ 24 mod 16 = val mod 16" by (simp add: mod_mod_cancel)
  ultimately show ?thesis by blast
qed

lemma groups_of:
  assumes "n < (256::nat)"
  shows "(256 * w + n) div 8 mod 32 = n div 8"
    and "(256 * w + n) div 16 mod 32 = (w mod 2) * 16 + n div 16"
    and "(256 * w + n) div 32 mod 32 = (w mod 4) * 8 + n div 32"
    and "(256 * w + n) mod 32 = n mod 32"
    and "(256 * w + n) div 64 mod 32 = (w mod 8) * 4 + n div 64"
    and "(256 * w + n) div 2 mod 32 = n div 2 mod 32"
    and "(256 * w + n) div 128 mod 32 = (w mod 16) * 2 + n div 128"
    and "(256 * w + n) div 4 mod 32 = n div 4 mod 32"
proof -
  have d: "(256 * w + n) div 8 = 32 * w + n div 8" "(256 * w + n) div 16 = 16 * w + n div 16"
    "(256 * w + n) div 32 = 8 * w + n div 32" "(256 * w + n) div 64 = 4 * w + n div 64"
    "(256 * w + n) div 128 = 2 * w + n div 128" "(256 * w + n) div 2 = 128 * w + n div 2"
    "(256 * w + n) div 4 = 64 * w + n div 4"
    by (simp_all add: div_plus_div_distrib_dvd_left)
  have l: "n div 8 < 32" "n div 16 < 16" "n div 32 < 8" "n div 64 < 4" "n div 128 < 2"
    using assms by simp_all
  have h: "(32 * x + y) mod 32 = y mod 32" for x y :: nat by simp
  have g: "m < a \<Longrightarrow> (a * w + m) mod (a * b) = (w mod b) * a + m" for m a b :: nat
    by (simp add: mod_mult2_eq)
  note m = g [of _ 16 2, simplified] g [of _ 8 4, simplified] g [of _ 4 8, simplified]
    g [of _ 2 16, simplified]
  show "(256 * w + n) div 8 mod 32 = n div 8" "(256 * w + n) mod 32 = n mod 32"
    "(256 * w + n) div 2 mod 32 = n div 2 mod 32" "(256 * w + n) div 4 mod 32 = n div 4 mod 32"
    "(256 * w + n) div 16 mod 32 = (w mod 2) * 16 + n div 16"
    "(256 * w + n) div 32 mod 32 = (w mod 4) * 8 + n div 32"
    "(256 * w + n) div 64 mod 32 = (w mod 8) * 4 + n div 64"
    "(256 * w + n) div 128 mod 32 = (w mod 16) * 2 + n div 128"
    unfolding d using l h [of "8 * w" n] h [of "4 * w" "n div 2"] h [of "2 * w" "n div 4"]
    by (simp_all add: m)
qed

lemma regroup:
  assumes "p * q = (32::nat)" and "m < q"
  shows "(c div p * 32 + (c mod p * q + m)) div q = c"
    and "(c div p * 32 + (c mod p * q + m)) mod q = m" and "c mod p * q + m < 32"
proof -
  have "c div p * 32 = c div p * p * q" using assms(1) by (metis mult.assoc)
  then have e: "c div p * 32 + (c mod p * q + m) = (c div p * p + c mod p) * q + m"
    by (simp only: add_mult_distrib add.assoc)
  show "(c div p * 32 + (c mod p * q + m)) div q = c" "(c div p * 32 + (c mod p * q + m)) mod q = m"
    unfolding e div_mult_mod_eq using assms(2) by simp_all
  have "0 < p" using assms(1) by (cases p) auto
  then have "c mod p + 1 \<le> p" by (simp add: Suc_le_eq)
  then have "(c mod p + 1) * q \<le> 32" unfolding assms(1) [symmetric] by (rule mult_le_mono1)
  then show "c mod p * q + m < 32" using assms(2) by simp
qed

lemma low_bits:
  "(n::nat) div 32 * 32 + n mod 32 = n"
  "n div 64 * 32 + n div 2 mod 32 = n div 2"
  "n div 128 * 32 + n div 4 mod 32 = n div 4"
  using div_mult_mod_eq [of "n div 2" 32] div_mult_mod_eq [of "n div 4" 32]
  by (simp_all add: div_mult2_eq [symmetric])

text \<open>The joint state: after a byte \<open>c\<close> the encoder still holds its last \<open>b\<close> bits, the decoder has
  received the other \<open>8 - b\<close>.\<close>

lemma dec_enc_bytes:
  assumes "\<forall>d\<in>set s. (of_char d :: nat) < 128" and "(b::nat) \<le> 4"
    and "c < 256" and "val mod 2 ^ b = c mod 2 ^ b"
  shows "dec_bytes (enc_bytes s val b) (if b = 0 then 0 else c div 2 ^ b) (if b = 0 then 0 else 8 - b) =
    (if b = 0 then s else char_of c # s)"
  using assms
proof (induction s arbitrary: val b c)
  case Nil
  show ?case
  proof (cases "b = 0")
    case False
    let ?i = "val * 2 ^ (5 - b) mod 2 ^ 32 mod 32"
    have i: "?i = (c mod 2 ^ b) * 2 ^ (5 - b)"
    proof -
      have "?i = val * 2 ^ (5 - b) mod 32" by (simp add: mod_mod_cancel)
      also have "\<dots> = (val mod 2 ^ b) * 2 ^ (5 - b)"
      proof -
        have "(32::nat) = 2 ^ b * 2 ^ (5 - b)" using Nil(2) by (simp add: power_add [symmetric])
        then show ?thesis by (simp only: mult_mod_left)
      qed
      finally show ?thesis using Nil(4) by simp
    qed
    have lt: "?i < 32" by simp
    have cb: "c div 2 ^ b < 2 ^ (8 - b)"
    proof -
      have "(256::nat) = 2 ^ (8 - b) * 2 ^ b" using Nil(2) by (simp add: power_add [symmetric])
      then show ?thesis using Nil(3) by (simp add: less_mult_imp_div_less)
    qed
    have "(c div 2 ^ b * 32 + ?i) div 2 ^ (8 - b - 3) = c"
    proof -
      have "2 ^ b * 2 ^ (5 - b) = (32::nat)" using Nil(2) by (simp add: power_add [symmetric])
      then have "c div 2 ^ b * 32 = c div 2 ^ b * 2 ^ b * 2 ^ (5 - b)" by (metis mult.assoc)
      then have "c div 2 ^ b * 32 + ?i = (c div 2 ^ b * 2 ^ b + c mod 2 ^ b) * 2 ^ (5 - b)"
        unfolding i by (simp only: add_mult_distrib)
      then show ?thesis by (simp add: div_mult_mod_eq)
    qed
    then show ?thesis using dec_digit [OF lt cb, of "[]"] False Nil(2) by simp
  qed simp
next
  case (Cons d s)
  define n where "n = (of_char d :: nat)"
  have n: "n < 128" "char_of n = d" using Cons.prems(1) by (simp_all add: n_def)
  obtain w where v: "next_value val d = 256 * w + n" and w: "w mod 16 = val mod 16"
    using next_value_split [of d val] n(1) unfolding n_def by blast
  let ?v = "256 * w + n"
  have IH: "dec_bytes (enc_bytes s ?v b') (if b' = 0 then 0 else n div 2 ^ b') (if b' = 0 then 0 else 8 - b') =
      (if b' = 0 then s else d # s)" if "b' \<le> 4" for b'
  proof -
    have "2 ^ b' dvd (256::nat)" using that le_imp_power_dvd [of b' 8 "2::nat"] by simp
    then have "?v mod 2 ^ b' = n mod 2 ^ b'" by (metis dvd_mult2 mod_add_left_eq add_0 dvd_imp_mod_0)
    then show ?thesis using Cons.IH [of b' n ?v] Cons.prems(1) that n by simp
  qed
  have n256: "n < 256" using n(1) by simp
  have wm: "w mod k = val mod k" if "k dvd 16" for k
    using w mod_mod_cancel [OF that] by metis
  consider "b = 0" | "b = 1" | "b = 2" | "b = 3" | "b = 4" using Cons.prems(2) by linarith
  then show ?case
  proof cases
    case 1
    then show ?thesis using IH [of 3] n
      by (simp add: Decoding_alphabet enc_emit_cases groups_of [OF n256] v)
  next
    case 2
    then have "val mod 2 = c mod 2" using Cons.prems(4) by simp
    then have i: "w mod 2 = c mod 2" using wm [of 2] by simp
    have lt: "n div 16 < 16" using n(1) by simp
    have pq: "(2::nat) * 16 = 32" by simp
    note j = regroup [OF pq lt, of c]
    have k: "c div 2 < 2 ^ 7" using n(1) Cons.prems(3) by simp_all
    show ?thesis using 2 IH [of 4] n
      by (simp add: dec_digit [OF j(3) k] enc_emit_cases groups_of [OF n256] v i j low_bits del: dec_bytes.simps(2))
  next
    case 3
    then have "val mod 4 = c mod 4" using Cons.prems(4) by simp
    then have i: "w mod 4 = c mod 4" using wm [of 4] by simp
    have lt: "n div 32 < 8" using n(1) by simp
    have pq: "(4::nat) * 8 = 32" by simp
    note j = regroup [OF pq lt, of c]
    have k: "c div 4 < 2 ^ 6" "n mod 32 < 32" "n div 32 < 2 ^ 3" using n(1) Cons.prems(3) by simp_all
    show ?thesis using 3 IH [of 0] n
      by (simp add: dec_digit [OF j(3) k(1)] dec_digit [OF k(2,3)] enc_emit_cases groups_of [OF n256] v i j low_bits del: dec_bytes.simps(2))
  next
    case 4
    then have "val mod 8 = c mod 8" using Cons.prems(4) by simp
    then have i: "w mod 8 = c mod 8" using wm [of 8] by simp
    have lt: "n div 64 < 4" using n(1) by simp
    have pq: "(8::nat) * 4 = 32" by simp
    note j = regroup [OF pq lt, of c]
    have k: "c div 8 < 2 ^ 5" "n div 2 mod 32 < 32" "n div 64 < 2 ^ 2" using n(1) Cons.prems(3) by simp_all
    show ?thesis using 4 IH [of 1] n
      by (simp add: dec_digit [OF j(3) k(1)] dec_digit [OF k(2,3)] enc_emit_cases groups_of [OF n256] v i j low_bits del: dec_bytes.simps(2))
  next
    case 5
    then have i: "w mod 16 = c mod 16" using w Cons.prems(4) by simp
    have lt: "(0::nat) < 2" by simp
    have pq: "(16::nat) * 2 = 32" by simp
    note j = regroup [OF pq lt, of c, unfolded add_0_right]
    have k: "c div 16 < 2 ^ 4" "n div 4 < 32" "(0::nat) < 2 ^ Suc 0" using n(1) Cons.prems(3) by simp_all
    show ?thesis using 5 IH [of 2] n
      by (simp add: dec_digit [OF j(3) k(1)] dec_digit [OF k(2,3)] enc_emit_cases
          groups_of [OF n256] v i j del: dec_bytes.simps(2))
  qed
qed

lemma decode_encode:
  "\<forall>c\<in>set s. (of_char c :: nat) < 128 \<Longrightarrow> decodeBase32 (encodeBase32 s) = s"
  using dec_enc_bytes [of s 0 0 0] by (simp add: encodeBase32_def decodeBase32_def)

subsection \<open>Time-based one-time passwords\<close>

text \<open>The 64-bit time step as eight bytes, the most significant first.\<close>

definition time_bytes :: "nat \<Rightarrow> string" where
  "time_bytes timeSTEP = map (\<lambda>i. char_of ((timeSTEP div 256 ^ (7 - i)) mod 256)) [0..<8]"

definition byte_at :: "string \<Rightarrow> nat \<Rightarrow> nat option" where
  "byte_at h i = (if i < length h then Some (of_char (h ! i)) else None)"

text \<open>\<open>None\<close> is a read past the end of the hash.\<close>

definition generateTotpAt :: "(string \<Rightarrow> string \<Rightarrow> string) \<Rightarrow> string \<Rightarrow> nat \<Rightarrow> nat option" where
  "generateTotpAt hmac secret_key timeSTEP =
     (let key = decodeBase32 secret_key;
          hash = hmac key (time_bytes timeSTEP)
      in case byte_at hash 19 of
           None \<Rightarrow> None
         | Some l \<Rightarrow>
             (let offset = l mod 16
              in case (byte_at hash offset, byte_at hash (offset + 1), byte_at hash (offset + 2),
                       byte_at hash (offset + 3)) of
                   (Some a, Some b, Some c, Some d) \<Rightarrow>
                     Some (((a mod 128) * 2 ^ 24 + b * 2 ^ 16 + c * 2 ^ 8 + d) mod 10 ^ 6)
                 | _ \<Rightarrow> None))"

definition generate_totp :: "(string \<Rightarrow> string \<Rightarrow> string) \<Rightarrow> nat \<Rightarrow> string \<Rightarrow> nat \<Rightarrow> nat option" where
  "generate_totp hmac now secret_key stepSize = generateTotpAt hmac secret_key (now div stepSize)"

subsection \<open>Base64 for SQL\<close>

definition SQL_NULL :: string where
  "SQL_NULL = ''NULL''"

definition base64this :: "(string \<Rightarrow> string) \<Rightarrow> string \<Rightarrow> string" where
  "base64this toBase64 param = ''FROM_BASE64('' @ [CHR 0x27] @ toBase64 param @ [CHR 0x27] @ '')''"

definition mayBeBase64 :: "(string \<Rightarrow> string) \<Rightarrow> string \<Rightarrow> bool \<Rightarrow> string" where
  "mayBeBase64 toBase64 original emptyAsNull =
     (if original = SQL_NULL then original
      else if original = [] then (if emptyAsNull then SQL_NULL else [CHR 0x27, CHR 0x27])
      else base64this toBase64 original)"

definition base64Nullable :: "(string \<Rightarrow> string) \<Rightarrow> string \<Rightarrow> bool \<Rightarrow> string" where
  "base64Nullable toBase64 param emptyAsNull = mayBeBase64 toBase64 param emptyAsNull"

definition base64Nullable4Where :: "(string \<Rightarrow> string) \<Rightarrow> string \<Rightarrow> bool \<Rightarrow> string" where
  "base64Nullable4Where toBase64 param emptyAsNull =
     (let v = mayBeBase64 toBase64 param emptyAsNull
      in if v = SQL_NULL then '' IS NULL '' else '' = '' @ v)"

text \<open>The ranges of the switch, as they stand: \<open>64 ... 91\<close> and \<open>96 ... 123\<close> are one wider at both
  ends than the letters.  The position in the message is never advanced.\<close>

definition b64_char :: "char \<Rightarrow> bool" where
  "b64_char c \<longleftrightarrow>
     (let n = (of_char c :: nat)
      in (48 \<le> n \<and> n \<le> 57) \<or> (64 \<le> n \<and> n \<le> 91) \<or> (96 \<le> n \<and> n \<le> 123)) \<or>
     c \<in> {CHR ''+'', CHR ''-'', CHR ''='', CHR ''_'', CHR ''/''}"

fun isValidBase64_from :: "string \<Rightarrow> nat \<Rightarrow> bool \<times> string option" where
  "isValidBase64_from [] pos = (True, None)"
| "isValidBase64_from (c # r) pos =
     (if b64_char c then isValidBase64_from r pos
      else (False, Some (''invalid char at pos '' @ show_nat pos)))"

definition isValidBase64 :: "string \<Rightarrow> bool \<times> string option" where
  "isValidBase64 coded = isValidBase64_from coded 0"

lemma isValidBase64_from_eq:
  "isValidBase64_from s pos =
     (if list_all b64_char s then (True, None) else (False, Some (''invalid char at pos '' @ show_nat pos)))"
  by (induction s) auto

text \<open>The characters of the two base64 alphabets and the padding.\<close>

definition base64_alphabet_char :: "char \<Rightarrow> bool" where
  "base64_alphabet_char c \<longleftrightarrow>
     (let n = (of_char c :: nat)
      in (48 \<le> n \<and> n \<le> 57) \<or> (65 \<le> n \<and> n \<le> 90) \<or> (97 \<le> n \<and> n \<le> 122)) \<or>
     c \<in> {CHR ''+'', CHR ''-'', CHR ''='', CHR ''_'', CHR ''/''}"

lemma b64_char_iff:
  "b64_char c \<longleftrightarrow> base64_alphabet_char c \<or> (of_char c :: nat) \<in> {64, 91, 96, 123}"
  by (auto simp: b64_char_def base64_alphabet_char_def Let_def)

lemma time_bytes_inj:
  assumes "time_bytes t = time_bytes u" and "t < 2 ^ 64" and "u < 2 ^ 64"
  shows "t = u"
proof -
  have b: "(t div 256 ^ k) mod 256 = (u div 256 ^ k) mod 256" if "k < 8" for k
  proof -
    have "time_bytes t ! (7 - k) = time_bytes u ! (7 - k)" using assms(1) by simp
    then have "char_of ((t div 256 ^ k) mod 256) = (char_of ((u div 256 ^ k) mod 256) :: char)"
      using that nth_upt [of 0 "7 - k" 8] by (simp add: time_bytes_def)
    then show ?thesis by (metis of_char_of mod_mod_trivial)
  qed
  have "t mod 256 ^ k = u mod 256 ^ k" if "k \<le> 8" for k
    using that
  proof (induction k)
    case (Suc k)
    have "x mod 256 ^ Suc k = 256 ^ k * (x div 256 ^ k mod 256) + x mod 256 ^ k" for x :: nat
      using mod_mult2_eq [of x "256 ^ k" 256] by (simp add: mult.commute)
    then show ?case using Suc b [of k] by simp
  qed simp
  from this [of 8] show "t = u" using assms(2,3) by simp
qed

subsection \<open>Properties\<close>

text \<open>Base32 round trip: decoding what \<open>encodeBase32\<close> made of 7-bit text of any length gives
  exactly that text back, padding bits included.\<close>

theorem base32_roundtrip:
  assumes "\<forall>c\<in>set s. (of_char c :: nat) < 128"
  shows "decodeBase32 (encodeBase32 s) = s"
  using assms by (rule decode_encode)

theorem base32_roundtrip_witness: "decodeBase32 (encodeBase32 ''secret'') = ''secret''"
  using base32_roundtrip [of "''secret''"] by simp

text \<open>A one-time password always exists for a 20-byte HMAC, without reading past the hash, has at
  most six digits, and depends on the clock only through the time step; distinct 64-bit steps
  are distinct HMAC messages.\<close>

theorem totp_in_range:
  assumes "\<forall>k m. length (hmac k m) = 20"
  shows "(\<exists>otp. generate_totp hmac now secret step = Some otp \<and> otp < 1000000) \<and>
    (now div step = now' div step \<longrightarrow> generate_totp hmac now' secret step = generate_totp hmac now secret step) \<and>
    (t < 2 ^ 64 \<and> u < 2 ^ 64 \<and> time_bytes t = time_bytes u \<longrightarrow> t = u)"
proof -
  have "\<exists>otp. generateTotpAt hmac secret tt = Some otp \<and> otp < 1000000" for tt
  proof -
    let ?h = "hmac (decodeBase32 secret) (time_bytes tt)"
    have l: "length ?h = 20" using assms by simp
    have o: "(of_char (?h ! 19) :: nat) mod 16 < 16" by simp
    show ?thesis using o by (simp add: generateTotpAt_def byte_at_def l Let_def)
  qed
  then show ?thesis using time_bytes_inj by (auto simp: generate_totp_def)
qed

theorem totp_in_range_witness:
  "\<exists>otp. generate_totp (\<lambda>k m. replicate 20 CHR 0x1F) 59 ''GEZDGNBV'' 30 = Some otp \<and> otp < 1000000"
  using totp_in_range [of "\<lambda>k m. replicate 20 CHR 0x1F" 59 "''GEZDGNBV''" 30 59 0 0] by simp

text \<open>\<open>isValidBase64\<close> accepts exactly the texts over the base64 alphabets, the padding and the four
  characters \<open>@ [ ` {\<close> next to the letter ranges; a refusal always reports position 0.\<close>

theorem isValidBase64_accepts:
  "fst (isValidBase64 s) = list_all (\<lambda>c. base64_alphabet_char c \<or> (of_char c :: nat) \<in> {64, 91, 96, 123}) s \<and>
   (\<not> fst (isValidBase64 s) \<longrightarrow> snd (isValidBase64 s) = Some ''invalid char at pos 0'')"
proof -
  have "show_nat 0 = ''0''" by (simp add: show_nat.simps digit_char_def char_of_def bit_Suc_0_iff)
  moreover have "b64_char = (\<lambda>c. base64_alphabet_char c \<or> (of_char c :: nat) \<in> {64, 91, 96, 123})"
    by (rule ext) (rule b64_char_iff)
  ultimately show ?thesis by (simp add: isValidBase64_def isValidBase64_from_eq)
qed

theorem isValidBase64_accepts_witness:
  "fst (isValidBase64 ''ab@['') \<and> snd (isValidBase64 ''ab c'') = Some ''invalid char at pos 0''"
  using isValidBase64_accepts [of "''ab@[''"] isValidBase64_accepts [of "''ab c''"]
  by (simp add: base64_alphabet_char_def)

end
