(* ===== verification/SecureRandom.thy ===== *)
theory SecureRandom
  imports Prelude
begin

text \<open>
  \<^verbatim>\<open>rand/secureRandom.cpp\<close> and \<^verbatim>\<open>hash/salt.cpp\<close>.

  The operating system is a script: the list of the answers its \<^verbatim>\<open>getrandom\<close> will give, in order.
  Each operation consumes a prefix of it and returns the rest; \<open>Waiting\<close> is the value of a call
  whose script ended before the code could return, so that not returning stays visible.
\<close>

subsection \<open>The system call\<close>

text \<open>An answer: a negative result with its errno, or bytes, of which a call asking for fewer takes
  the first ones (\<^verbatim>\<open>getrandom\<close> never writes more than it is asked for). No bytes is the answer 0.\<close>

datatype reply = Errno nat | Bytes string

datatype 'a outcome = Done 'a "reply list" | Raised string | Waiting

fun finished :: "'a outcome \<Rightarrow> 'a option" where
  "finished (Done x rs) = Some x"
| "finished _ = None"

definition obind :: "'a outcome \<Rightarrow> ('a \<Rightarrow> reply list \<Rightarrow> 'b outcome) \<Rightarrow> 'b outcome" where
  "obind m f = (case m of Done x rs \<Rightarrow> f x rs | Raised e \<Rightarrow> Raised e | Waiting \<Rightarrow> Waiting)"

lemma obind_simps [simp]:
  "obind (Done x rs) f = f x rs" "obind (Raised e) f = Raised e" "obind Waiting f = Waiting"
  by (simp_all add: obind_def)

lemma obind_Done:
  "obind m f = Done y rs' \<longleftrightarrow> (\<exists>x rs. m = Done x rs \<and> f x rs = Done y rs')"
  by (cases m) auto

text \<open>\<open>secureRandomBytes\<close>: fill a buffer of \<open>n\<close> bytes, in as many calls as it takes.\<close>

fun fill_buffer :: "nat \<Rightarrow> reply list \<Rightarrow> string outcome" where
  "fill_buffer n [] = (if n = 0 then Done [] [] else Waiting)"
| "fill_buffer n (r # rs) =
     (if n = 0 then Done [] (r # rs)
      else case r of
        Errno e \<Rightarrow> Raised (''getrandom failed: errno '' @ show_nat e)
      | Bytes bs \<Rightarrow>
          (if bs = [] then Raised ''getrandom returned 0 bytes''
           else obind (fill_buffer (n - length (take n bs)) rs)
                  (\<lambda>out rs'. Done (take n bs @ out) rs')))"

definition secureRandomBytes :: "nat \<Rightarrow> reply list \<Rightarrow> string outcome" where
  "secureRandomBytes n rs = (if n = 0 then Done [] rs else fill_buffer n rs)"

lemma fill_zero [simp]: "fill_buffer 0 rs = Done [] rs"
  by (cases rs) simp_all

lemma fill_Done:
  "fill_buffer n rs = Done out rs' \<Longrightarrow>
   length out = n \<and> (\<exists>used. rs = used @ rs' \<and> (n > 0 \<longrightarrow> used \<noteq> []))"
proof (induction n rs arbitrary: out rs' rule: fill_buffer.induct)
  case (2 n r rs)
  show ?case
  proof (cases "n = 0")
    case False
    with 2(2) obtain bs where r: "r = Bytes bs" "bs \<noteq> []"
      by (auto split: reply.splits if_splits)
    with 2(2) False obtain out' where
      d: "fill_buffer (n - length (take n bs)) rs = Done out' rs'" "out = take n bs @ out'"
      by (auto simp: obind_Done)
    from 2(1) [OF False r(1) r(2) d(1)] obtain used
      where "length out' = n - length (take n bs)" "rs = used @ rs'" by blast
    then show ?thesis using d(2) False by (intro conjI exI [of _ "r # used"]) auto
  qed (use 2(2) in auto)
qed (auto split: if_splits)

text \<open>A healthy system call: it never fails and always gives at least one byte.\<close>

fun healthy :: "reply \<Rightarrow> bool" where
  "healthy (Errno e) = False"
| "healthy (Bytes bs) = (bs \<noteq> [])"

lemma fill_returns:
  "\<forall>r\<in>set rs. healthy r \<Longrightarrow> n \<le> length rs \<Longrightarrow>
   \<exists>out rs'. fill_buffer n rs = Done out rs' \<and> length rs \<le> length rs' + n"
proof (induction rs arbitrary: n)
  case (Cons r rs)
  show ?case
  proof (cases "n = 0")
    case False
    from Cons.prems(1) obtain bs where r: "r = Bytes bs" "bs \<noteq> []" by (cases r) auto
    define k where "k = length (take n bs)"
    have k: "0 < k" "k \<le> n" using False r(2) by (auto simp: k_def)
    then have "n - k \<le> length rs" using Cons.prems(2) by simp
    then obtain out rs' where "fill_buffer (n - k) rs = Done out rs'" "length rs \<le> length rs' + (n - k)"
      using Cons.IH [of "n - k"] Cons.prems(1) by auto
    moreover have "fill_buffer n (r # rs) =
        obind (fill_buffer (n - k) rs) (\<lambda>out rs'. Done (take n bs @ out) rs')"
      using False r by (simp add: k_def)
    ultimately show ?thesis using k by auto
  qed auto
qed simp

lemma secureRandomBytes_Done:
  "secureRandomBytes n rs = Done out rs' \<Longrightarrow> length out = n \<and> suffix rs' rs"
  using fill_Done [of n rs out rs'] by (auto simp: secureRandomBytes_def suffix_def split: if_splits)

lemma secureRandomBytes_consumes:
  "secureRandomBytes n rs = Done out rs' \<Longrightarrow> n > 0 \<Longrightarrow> length rs' < length rs"
  using fill_Done [of n rs out rs'] by (auto simp: secureRandomBytes_def)

subsection \<open>An index without modulo bias\<close>

definition UINT32_MAX :: nat where
  "UINT32_MAX = 2 ^ 32 - 1"

text \<open>The four bytes of a draw, least significant first.\<close>

fun le_word :: "string \<Rightarrow> nat" where
  "le_word [] = 0"
| "le_word (c # cs) = of_char c + 256 * le_word cs"

lemma le_word_bound: "le_word cs < 256 ^ length cs"
proof (induction cs)
  case (Cons c cs)
  have "(of_char c :: nat) < 256" by simp
  then have "of_char c + 256 * le_word cs < 256 * Suc (le_word cs)" by simp
  also have "\<dots> \<le> 256 * 256 ^ length cs" using Cons by (intro mult_le_mono) simp_all
  finally show ?case by simp
qed simp

definition rejection_limit :: "nat \<Rightarrow> nat" where
  "rejection_limit n = (UINT32_MAX div n) * n"

function index_loop :: "nat \<Rightarrow> reply list \<Rightarrow> nat outcome" where
  "index_loop n rs =
     (case secureRandomBytes 4 rs of
        Done bytes rs' \<Rightarrow>
          (let x = le_word bytes in
           if x < rejection_limit n then Done (x mod n) rs' else index_loop n rs')
      | Raised e \<Rightarrow> Raised e
      | Waiting \<Rightarrow> Waiting)"
  by pat_completeness auto

termination index_loop
  by (relation "measure (\<lambda>(n, rs). length rs)") (auto dest: secureRandomBytes_consumes)

declare index_loop.simps [simp del]

definition secureUniformIndex :: "nat \<Rightarrow> reply list \<Rightarrow> nat outcome" where
  "secureUniformIndex n rs =
     (if n = 0 then Raised ''secureUniformIndex: n == 0''
      else if n = 1 then Done 0 rs
      else index_loop n rs)"

lemma index_loop_Done: "index_loop n rs = Done i rs' \<Longrightarrow> n > 0 \<Longrightarrow> i < n \<and> suffix rs' rs"
proof (induction n rs arbitrary: i rs' rule: index_loop.induct)
  case (1 n rs)
  from 1(2) obtain bytes rs1 where d: "secureRandomBytes 4 rs = Done bytes rs1"
    by (auto simp: index_loop.simps [of n rs] split: outcome.splits)
  have s: "suffix rs1 rs" using secureRandomBytes_Done [OF d] by simp
  show ?case
  proof (cases "le_word bytes < rejection_limit n")
    case True
    then show ?thesis using 1(2,3) d s by (auto simp: index_loop.simps [of n rs])
  next
    case False
    then have "index_loop n rs1 = Done i rs'" using 1(2) d by (simp add: index_loop.simps [of n rs])
    from 1(1) [OF d refl False this 1(3)] s show ?thesis by (auto intro: suffix_order.trans)
  qed
qed

lemma secureUniformIndex_Done:
  "secureUniformIndex n rs = Done i rs' \<Longrightarrow> i < n \<and> suffix rs' rs"
  using index_loop_Done [of n rs i rs'] by (auto simp: secureUniformIndex_def split: if_splits)

text \<open>The accepted draws, counted by their residue.\<close>

lemma residue_class:
  fixes q :: nat
  assumes "i < n"
  shows "{x. x < q * n \<and> x mod n = i} = (\<lambda>k. k * n + i) ` {..<q}"
proof (intro set_eqI iffI)
  fix x assume "x \<in> {x. x < q * n \<and> x mod n = i}"
  then have x: "x < q * n" "x mod n = i" by auto
  then have "x div n < q" using less_mult_imp_div_less by blast
  moreover have "x = (x div n) * n + i" using x(2) div_mult_mod_eq [of x n] by simp
  ultimately show "x \<in> (\<lambda>k. k * n + i) ` {..<q}" by blast
next
  fix x assume "x \<in> (\<lambda>k. k * n + i) ` {..<q}"
  then obtain k where k: "k < q" "x = k * n + i" by auto
  have "x < (k + 1) * n" using k(2) assms by simp
  also have "\<dots> \<le> q * n" using k(1) by (intro mult_right_mono) auto
  finally show "x \<in> {x. x < q * n \<and> x mod n = i}" using k(2) assms by simp
qed

lemma card_residue_class: "i < n \<Longrightarrow> card {x. x < q * n \<and> x mod n = i} = (q::nat)"
  by (subst residue_class) (auto simp: card_image inj_on_def)

lemma limit_more_than_half:
  assumes "0 < n" and "n \<le> UINT32_MAX"
  shows "UINT32_MAX < 2 * rejection_limit n"
proof -
  let ?q = "UINT32_MAX div n"
  have q: "1 \<le> ?q" using assms by (metis One_nat_def Suc_leI div_greater_zero_iff)
  then have "n \<le> ?q * n" by (metis mult_le_mono1 mult_1)
  moreover have "UINT32_MAX < ?q * n + n" using assms(1)
    using dividend_less_div_times [of n UINT32_MAX] by (simp add: add.commute)
  ultimately show ?thesis unfolding rejection_limit_def by linarith
qed

subsection \<open>Random strings, salts and passwords\<close>

fun draw_chars :: "nat \<Rightarrow> string \<Rightarrow> reply list \<Rightarrow> string outcome" where
  "draw_chars 0 alphabet rs = Done [] rs"
| "draw_chars (Suc k) alphabet rs =
     obind (secureUniformIndex (length alphabet mod 2 ^ 32) rs)
       (\<lambda>i rs'. obind (draw_chars k alphabet rs')
         (\<lambda>out rs''. Done (alphabet ! i # out) rs''))"

definition randomString :: "nat \<Rightarrow> string \<Rightarrow> reply list \<Rightarrow> string outcome" where
  "randomString len alphabet rs =
     (if len = 0 then Raised ''randomString: length == 0''
      else if alphabet = [] then Raised ''randomString: empty alphabet''
      else draw_chars len alphabet rs)"

definition kAlphaNum :: string where
  "kAlphaNum = ''0123456789ABCDEFGHIJKLMNOPQRSTUVWXYZabcdefghijklmnopqrstuvwxyz''"

definition salt :: "int \<Rightarrow> reply list \<Rightarrow> string outcome" where
  "salt lenght rs =
     (if lenght \<le> 0 then Raised ''salt: length must be > 0''
      else randomString (nat lenght) kAlphaNum rs)"

definition genPassword :: "int \<Rightarrow> reply list \<Rightarrow> string outcome" where
  "genPassword lenght rs =
     (if lenght \<le> 0 then Raised ''genPassword: length must be > 0''
      else randomString (nat lenght) kAlphaNum rs)"

lemma draw_chars_Done:
  "draw_chars k alphabet rs = Done out rs' \<Longrightarrow>
   length out = k \<and> set out \<subseteq> set alphabet \<and> suffix rs' rs"
proof (induction k arbitrary: rs out)
  case (Suc k)
  then obtain i rs1 out1 where
    i: "secureUniformIndex (length alphabet mod 2 ^ 32) rs = Done i rs1" and
    d: "draw_chars k alphabet rs1 = Done out1 rs'" and out: "out = alphabet ! i # out1"
    by (auto simp: obind_Done)
  have "i < length alphabet" using secureUniformIndex_Done [OF i] mod_less_eq_dividend
    by (metis order_less_le_trans)
  then show ?case using Suc.IH [OF d] secureUniformIndex_Done [OF i] out
    by (auto intro: suffix_order.trans)
qed auto

lemma randomString_Done:
  "randomString k alphabet rs = Done out rs' \<Longrightarrow>
   0 < k \<and> length out = k \<and> set out \<subseteq> set alphabet \<and> suffix rs' rs"
  using draw_chars_Done [of k alphabet rs out rs'] by (auto simp: randomString_def split: if_splits)

lemma salt_Done:
  "salt k rs = Done out rs' \<Longrightarrow> 0 < k \<and> length out = nat k \<and> set out \<subseteq> set kAlphaNum"
  using randomString_Done [of "nat k" kAlphaNum rs out rs'] by (auto simp: salt_def split: if_splits)

subsection \<open>Draws of four bytes\<close>

definition accepted :: "nat \<Rightarrow> string \<Rightarrow> bool" where
  "accepted n d = (le_word d < rejection_limit n)"

lemma four_bytes: "length d = 4 \<Longrightarrow> secureRandomBytes 4 (Bytes d # rs) = Done d rs"
  by (auto simp: secureRandomBytes_def)

lemma index_loop_draws:
  assumes "\<forall>d\<in>set ds. length d = 4"
  shows "index_loop n (map Bytes ds) =
    (case dropWhile (\<lambda>d. \<not> accepted n d) ds of
       [] \<Rightarrow> Waiting
     | d # ds' \<Rightarrow> Done (le_word d mod n) (map Bytes ds'))"
  using assms
proof (induction ds)
  case Nil
  then show ?case by (simp add: index_loop.simps [of n "[]"] secureRandomBytes_def)
next
  case (Cons d ds)
  then show ?case
    by (simp add: index_loop.simps [of n "Bytes d # map Bytes ds"] four_bytes accepted_def)
qed

lemma draw_chars_total:
  assumes "\<forall>d\<in>set ds. length d = 4" and "1 < length alphabet" and "length alphabet < 2 ^ 32"
    and "k \<le> length (filter (accepted (length alphabet)) ds)"
  shows "\<exists>out rs'. draw_chars k alphabet (map Bytes ds) = Done out rs'"
  using assms(1,4)
proof (induction k arbitrary: ds)
  case (Suc k)
  let ?n = "length alphabet" and ?rest = "dropWhile (\<lambda>d. \<not> accepted (length alphabet) d) ds"
  have f: "filter (accepted ?n) ds = filter (accepted ?n) ?rest"
    by (induction ds) auto
  then obtain d ds' where r: "?rest = d # ds'" using Suc.prems(2) by (cases ?rest) auto
  then have a: "accepted ?n d" using hd_dropWhile [of "\<lambda>d. \<not> accepted ?n d" ds] by simp
  have s: "set ds' \<subseteq> set ds" using r set_dropWhileD [of _ "\<lambda>d. \<not> accepted ?n d" ds] by (metis list.set_intros(2) subsetI)
  have "secureUniformIndex (?n mod 2 ^ 32) (map Bytes ds) = Done (le_word d mod ?n) (map Bytes ds')"
    using assms(2,3) index_loop_draws [OF Suc.prems(1), of ?n] r
    by (cases alphabet) (auto simp: secureUniformIndex_def)
  moreover have "k \<le> length (filter (accepted ?n) ds')" using Suc.prems(2) f r a by simp
  moreover have "\<forall>d\<in>set ds'. length d = 4" using Suc.prems(1) s by blast
  ultimately show ?case using Suc.IH [of ds'] by auto
qed auto

subsection \<open>Properties\<close>

text \<open>\<open>secureRandomBytes\<close> returns: with a system call that never fails and gives at least one byte
  a time, however short its answers, the buffer is full after at most as many calls as bytes.\<close>

theorem secureRandomBytes_returns:
  assumes "\<forall>r\<in>set rs. healthy r" and "n \<le> length rs"
  shows "\<exists>out rs'. secureRandomBytes n rs = Done out rs' \<and> length out = n \<and>
           length rs \<le> length rs' + n"
proof -
  obtain out rs' where "fill_buffer n rs = Done out rs'" "length rs \<le> length rs' + n"
    using fill_returns [OF assms] by blast
  then show ?thesis using fill_Done [of n rs out rs'] by (auto simp: secureRandomBytes_def)
qed

theorem secureRandomBytes_returns_witness:
  "\<exists>out rs'. secureRandomBytes 2 [Bytes ''a'', Bytes ''bcd''] = Done out rs' \<and> length out = 2 \<and>
     length [Bytes ''a'', Bytes ''bcd''] \<le> length rs' + 2"
  using secureRandomBytes_returns [of "[Bytes ''a'', Bytes ''bcd'']" 2] by simp

text \<open>The rejection loop is the search for the first acceptable draw: over 4-byte draws its value
  is the residue of the first draw below the limit, and it consumes exactly the draws up to it.\<close>

theorem secureUniformIndex_first_accepted:
  assumes "1 < n" and "\<forall>d\<in>set ds. length d = 4"
  shows "secureUniformIndex n (map Bytes ds) =
    (case dropWhile (\<lambda>d. \<not> le_word d < (UINT32_MAX div n) * n) ds of
       [] \<Rightarrow> Waiting
     | d # ds' \<Rightarrow> Done (le_word d mod n) (map Bytes ds'))"
  using assms index_loop_draws [of ds n]
  by (simp add: secureUniformIndex_def accepted_def rejection_limit_def)

theorem secureUniformIndex_first_accepted_witness:
  "secureUniformIndex 10 (map Bytes [[CHR 0xFF, CHR 0xFF, CHR 0xFF, CHR 0xFF], [CHR ''A'', CHR 0x00, CHR 0x00, CHR 0x00]]) =
   Done 5 []"
  using secureUniformIndex_first_accepted
    [of 10 "[[CHR 0xFF, CHR 0xFF, CHR 0xFF, CHR 0xFF], [CHR ''A'', CHR 0x00, CHR 0x00, CHR 0x00]]"]
  by (simp add: UINT32_MAX_def)

text \<open>The draws of four bytes are the 32-bit numbers.\<close>

lemma le_word_inj: "length d = length e \<Longrightarrow> le_word d = le_word e \<Longrightarrow> d = e"
proof (induction d e rule: list_induct2)
  case (Cons c cs d ds)
  have b: "(of_char c :: nat) < 256" "(of_char d :: nat) < 256" by simp_all
  have "(of_char c + 256 * le_word cs) mod 256 = (of_char d + 256 * le_word ds) mod (256 :: nat)"
    using Cons.prems by simp
  then have c: "(of_char c :: nat) = of_char d" using b by simp
  then have "le_word cs = le_word ds" using Cons.prems by simp
  then show ?case using Cons.IH c by simp
qed simp

lemma le_word_bij: "bij_betw le_word {d. length d = 4} {..<2 ^ 32}"
proof -
  have inj: "inj_on le_word {d. length d = 4}" using le_word_inj by (auto intro: inj_onI)
  have "card {d :: string. length d = 4} = 2 ^ 32"
    using card_lists_length_eq [of "UNIV :: char set" 4] by (simp add: card_UNIV_char)
  then have "card (le_word ` {d. length d = 4}) = card {..<2 ^ 32 :: nat}" using inj by (simp add: card_image)
  moreover have "le_word ` {d. length d = 4} \<subseteq> {..<2 ^ 32}"
  proof
    fix x assume "x \<in> le_word ` {d. length d = 4}"
    then obtain d where d: "length d = 4" "x = le_word d" by (elim imageE CollectE)
    show "x \<in> {..<2 ^ 32}" using le_word_bound [of d] d by simp
  qed
  ultimately have "le_word ` {d. length d = 4} = {..<2 ^ 32}" by (intro card_subset_eq) simp_all
  then show ?thesis using inj by (simp add: bij_betw_def)
qed

lemma card_draws: "card {d. length d = 4 \<and> P (le_word d)} = card {x. x < 2 ^ 32 \<and> P x}"
proof -
  have "bij_betw le_word {d \<in> {d. length d = 4}. P (le_word d)} {x \<in> {..<2 ^ 32}. P x}"
    using le_word_bij by (auto simp: bij_betw_def inj_on_def)
  then show ?thesis by (simp add: bij_betw_same_card)
qed

lemma index_one_draw:
  assumes "1 < n" and "length d = 4"
  shows "secureUniformIndex n (Bytes d # rs) =
    (if le_word d < rejection_limit n then Done (le_word d mod n) rs else secureUniformIndex n rs)"
  using assms by (simp add: secureUniformIndex_def index_loop.simps [of n "Bytes d # rs"] four_bytes)

text \<open>C18. The loop has no modulo bias: among the 2 to the 32 draws of four bytes, every index below \<open>n\<close> is the
  answer to exactly the same number of them, \<open>UINT32_MAX div n\<close>; at most half of the draws are rejected;
  and a rejected draw leaves no trace, the loop goes on as if it had not been drawn, with whatever the
  system gives next.\<close>

theorem secureUniformIndex_unbiased:
  assumes "1 < n" and "n \<le> UINT32_MAX" and "i < n"
  shows "card {d. length d = 4 \<and> secureUniformIndex n [Bytes d] = Done i []} = UINT32_MAX div n \<and>
    2 * card {d. length d = 4 \<and> secureUniformIndex n [Bytes d] = Waiting} \<le> 2 ^ 32 \<and>
    (\<forall>d rs. length d = 4 \<longrightarrow> secureUniformIndex n (Bytes d # rs) =
       (case secureUniformIndex n [Bytes d] of Done j _ \<Rightarrow> Done j rs | _ \<Rightarrow> secureUniformIndex n rs))"
proof -
  have one: "secureUniformIndex n [Bytes d] = (if le_word d < rejection_limit n then Done (le_word d mod n) [] else Waiting)"
    if "length d = 4" for d
    using index_one_draw [OF assms(1) that, of "[]"] assms(1)
    by (simp add: secureUniformIndex_def index_loop.simps [of n "[]"] secureRandomBytes_def)
  have lim: "rejection_limit n \<le> UINT32_MAX" by (simp add: rejection_limit_def div_times_less_eq_dividend)
  then have below: "{x. x < 2 ^ 32 \<and> x < rejection_limit n \<and> x mod n = i} = {x. x < rejection_limit n \<and> x mod n = i}"
    by (auto simp: UINT32_MAX_def)
  have "{d. length d = 4 \<and> secureUniformIndex n [Bytes d] = Done i []} =
      {d. length d = 4 \<and> le_word d < rejection_limit n \<and> le_word d mod n = i}"
    using one by (auto split: if_splits)
  then have hits: "card {d. length d = 4 \<and> secureUniformIndex n [Bytes d] = Done i []} = UINT32_MAX div n"
    using card_draws [of "\<lambda>x. x < rejection_limit n \<and> x mod n = i"] below
      card_residue_class [OF assms(3), of "UINT32_MAX div n"] by (simp add: rejection_limit_def)
  have "{d. length d = 4 \<and> secureUniformIndex n [Bytes d] = Waiting} = {d. length d = 4 \<and> \<not> le_word d < rejection_limit n}"
    using one by (auto split: if_splits)
  moreover have "{x. x < 2 ^ 32 \<and> \<not> x < rejection_limit n} = {rejection_limit n ..< 2 ^ 32}" by auto
  ultimately have "card {d. length d = 4 \<and> secureUniformIndex n [Bytes d] = Waiting} = 2 ^ 32 - rejection_limit n"
    using card_draws [of "\<lambda>x. \<not> x < rejection_limit n"] by simp
  moreover have "UINT32_MAX < 2 * rejection_limit n" using assms by (intro limit_more_than_half) simp_all
  ultimately have "2 * card {d. length d = 4 \<and> secureUniformIndex n [Bytes d] = Waiting} \<le> 2 ^ 32"
    using lim by (simp add: UINT32_MAX_def)
  then show ?thesis using hits one index_one_draw [OF assms(1)] by simp
qed

theorem secureUniformIndex_unbiased_witness:
  "card {d. length d = 4 \<and> secureUniformIndex 62 [Bytes d] = Done 7 []} = 69273666"
  using secureUniformIndex_unbiased [of 62 7] by (simp add: UINT32_MAX_def)

text \<open>\<open>randomString\<close> returns as soon as the system gave enough acceptable draws, with the length
  asked for and only characters of the alphabet; a length or an alphabet of zero raises.\<close>

theorem randomString_returns:
  assumes "\<forall>d\<in>set ds. length d = 4" and "1 < length alphabet" and "length alphabet < 2 ^ 32"
    and "k \<le> length (filter (accepted (length alphabet)) ds)" and "0 < k"
  shows "(\<exists>out rs'. randomString k alphabet (map Bytes ds) = Done out rs' \<and> length out = k \<and>
            set out \<subseteq> set alphabet) \<and>
         randomString 0 alphabet rs = Raised ''randomString: length == 0'' \<and>
         randomString k [] rs = Raised ''randomString: empty alphabet''"
proof -
  obtain out rs' where d: "randomString k alphabet (map Bytes ds) = Done out rs'"
    using draw_chars_total [OF assms(1-4)] assms(2,5) by (cases alphabet) (auto simp: randomString_def)
  then show ?thesis using randomString_Done [OF d] assms(5) by (auto simp: randomString_def)
qed

theorem randomString_returns_witness:
  "\<exists>out rs'. randomString 1 ''ab'' (map Bytes [''wxyz'']) = Done out rs' \<and> length out = 1 \<and>
     set out \<subseteq> set ''ab''"
proof -
  have "accepted (length ''ab'') ''wxyz''"
    by (simp add: accepted_def rejection_limit_def UINT32_MAX_def flip: numeral_2_eq_2)
  then show ?thesis using randomString_returns [of "[''wxyz'']" "''ab''" 1 "[]"] by simp
qed

end
