(* ===== verification/Password.thy ===== *)
theory Password
  imports SecureRandom
begin

text \<open>
  \<^verbatim>\<open>hash/passwordHash.h\<close> and \<^verbatim>\<open>hash/passwordHash.cpp\<close>: scheme detection, the legacy salted
  SHA-256, Argon2id and crypt hashes, and the automatic verification.

  \<open>sha\<close> (SHA-256 in URL-safe base64), Argon2 and \<^verbatim>\<open>crypt_r\<close> are parameters. Texts are byte strings;
  a C string handed to \<^verbatim>\<open>crypt_r\<close> or \<^verbatim>\<open>argon2id_verify\<close> ends at its first zero byte.
\<close>

subsection \<open>Schemes\<close>

datatype PasswordScheme = LegacyDiterSha256 | Argon2id | Sha256Crypt | Sha512Crypt | UnknownScheme

definition startsWith :: "string \<Rightarrow> string \<Rightarrow> bool" where
  "startsWith s p = (length s \<ge> length p \<and> take (length p) s = p)"

lemma startsWith_prefix: "startsWith s p \<longleftrightarrow> prefix p s"
  by (auto simp: startsWith_def prefix_def append_eq_conv_conj) (metis append_take_drop_id)

lemma startsWith_append [simp]: "startsWith (p @ s) p"
  by (simp add: startsWith_def)

lemma startsWith_ne_hd: "s \<noteq> [] \<Longrightarrow> hd s \<noteq> c \<Longrightarrow> \<not> startsWith s (c # p)"
  by (cases s) (auto simp: startsWith_prefix)

definition dovecot_prefix :: string where
  "dovecot_prefix = ''{SHA256-CRYPT}''"

definition stripDovecotPrefix :: "string \<Rightarrow> string" where
  "stripDovecotPrefix stored =
     (if startsWith stored dovecot_prefix then drop (length dovecot_prefix) stored else stored)"

definition detectPasswordScheme :: "string \<Rightarrow> PasswordScheme" where
  "detectPasswordScheme stored =
     (if stored = [] then UnknownScheme
      else if startsWith stored ''$argon2'' then Argon2id
      else let cryptPart = stripDovecotPrefix stored in
        if startsWith cryptPart ''$6$'' then Sha512Crypt
        else if startsWith cryptPart ''$5$'' then Sha256Crypt
        else LegacyDiterSha256)"

subsection \<open>Legacy hashes\<close>

definition hashLegacyDiterSha256 ::
  "(string \<Rightarrow> string) \<Rightarrow> string \<Rightarrow> string \<Rightarrow> string \<Rightarrow> reply list \<Rightarrow> string outcome" where
  "hashLegacyDiterSha256 sha email password pepper rs =
     obind (salt 17 rs)
       (\<lambda>sale rs'. Done (sale @ sha (sale @ email @ password @ pepper)) rs')"

definition verifyLegacyDiterSha256 ::
  "(string \<Rightarrow> string) \<Rightarrow> string \<Rightarrow> string \<Rightarrow> string \<Rightarrow> string \<Rightarrow> bool" where
  "verifyLegacyDiterSha256 sha email password pepper stored =
     (if length stored < 17 then False
      else let sale = take 17 stored in
        sale @ sha (sale @ email @ password @ pepper) = stored)"

subsection \<open>Argon2id\<close>

record argon_params =
  kArgonT :: nat
  kArgonM :: nat
  kArgonP :: nat
  kArgonHash :: nat

definition kArgon :: argon_params where
  "kArgon = \<lparr>kArgonT = 3, kArgonM = 65536, kArgonP = 2, kArgonHash = 32\<rparr>"

definition kArgonSalt :: nat where
  "kArgonSalt = 16"

definition kEncodedMax :: nat where
  "kEncodedMax = 512"

text \<open>A C string: what precedes the first zero byte.\<close>

definition cstr :: "string \<Rightarrow> string" where
  "cstr s = takeWhile (\<lambda>c. c \<noteq> CHR 0x00) s"

text \<open>\<open>argon params pwd salt room\<close> is the encoded hash, or the error text when the library refuses.\<close>

type_synonym argon_hasher = "argon_params \<Rightarrow> string \<Rightarrow> string \<Rightarrow> nat \<Rightarrow> string + string"

definition hashArgon2id :: "argon_hasher \<Rightarrow> string \<Rightarrow> reply list \<Rightarrow> string outcome" where
  "hashArgon2id argon password rs =
     obind (secureRandomBytes kArgonSalt rs)
       (\<lambda>saltBytes rs'.
          case argon kArgon password saltBytes kEncodedMax of
            Inl err \<Rightarrow> Raised (''argon2id_hash_encoded: '' @ err)
          | Inr encoded \<Rightarrow> Done encoded rs')"

definition verifyArgon2id :: "(string \<Rightarrow> string \<Rightarrow> bool) \<Rightarrow> string \<Rightarrow> string \<Rightarrow> bool" where
  "verifyArgon2id argon_ok password encoded =
     (if encoded = [] then False else argon_ok (cstr encoded) password)"

subsection \<open>Crypt hashes\<close>

text \<open>\<open>crypt pwd setting\<close> is the hash, or None for a null pointer.\<close>

definition cryptWithPrefix ::
  "(string \<Rightarrow> string \<Rightarrow> string option) \<Rightarrow> string \<Rightarrow> string \<Rightarrow> reply list \<Rightarrow> string outcome" where
  "cryptWithPrefix crypt password idPrefix rs =
     obind (salt 16 rs)
       (\<lambda>s rs'. case crypt (cstr password) (cstr (idPrefix @ s)) of
          None \<Rightarrow> Raised ''crypt_r failed''
        | Some out \<Rightarrow> Done out rs')"

definition hashSha512Crypt ::
  "(string \<Rightarrow> string \<Rightarrow> string option) \<Rightarrow> string \<Rightarrow> reply list \<Rightarrow> string outcome" where
  "hashSha512Crypt crypt password rs = cryptWithPrefix crypt password ''$6$'' rs"

definition hashSha256Crypt ::
  "(string \<Rightarrow> string \<Rightarrow> string option) \<Rightarrow> string \<Rightarrow> reply list \<Rightarrow> string outcome" where
  "hashSha256Crypt crypt password rs = cryptWithPrefix crypt password ''$5$'' rs"

definition hashSha256CryptDovecot ::
  "(string \<Rightarrow> string \<Rightarrow> string option) \<Rightarrow> string \<Rightarrow> reply list \<Rightarrow> string outcome" where
  "hashSha256CryptDovecot crypt password rs =
     obind (hashSha256Crypt crypt password rs) (\<lambda>h rs'. Done (dovecot_prefix @ h) rs')"

definition verifyCryptPassword ::
  "(string \<Rightarrow> string \<Rightarrow> string option) \<Rightarrow> string \<Rightarrow> string \<Rightarrow> bool" where
  "verifyCryptPassword crypt password stored =
     (let cryptPart = stripDovecotPrefix stored in
      if \<not> startsWith cryptPart ''$5$'' \<and> \<not> startsWith cryptPart ''$6$'' then False
      else case crypt (cstr password) (cstr cryptPart) of
        None \<Rightarrow> False
      | Some out \<Rightarrow> cryptPart = out)"

subsection \<open>Automatic verification\<close>

record password_verify_result =
  vr_ok :: bool
  vr_needsRehash :: bool
  vr_scheme :: PasswordScheme

text \<open>The three libraries the verification calls.\<close>

record password_lib =
  lib_sha :: "string \<Rightarrow> string"
  lib_argon_ok :: "string \<Rightarrow> string \<Rightarrow> bool"
  lib_crypt :: "string \<Rightarrow> string \<Rightarrow> string option"

definition verifyPasswordAuto ::
  "password_lib \<Rightarrow> string \<Rightarrow> string \<Rightarrow> string \<Rightarrow> string \<Rightarrow> password_verify_result" where
  "verifyPasswordAuto lib email password pepper stored =
     (let sch = detectPasswordScheme stored;
          r = \<lparr>vr_ok = False, vr_needsRehash = False, vr_scheme = sch\<rparr>
      in case sch of
        Argon2id \<Rightarrow> r\<lparr>vr_ok := verifyArgon2id (lib_argon_ok lib) password stored\<rparr>
      | Sha512Crypt \<Rightarrow> r\<lparr>vr_ok := verifyCryptPassword (lib_crypt lib) password stored\<rparr>
      | Sha256Crypt \<Rightarrow> r\<lparr>vr_ok := verifyCryptPassword (lib_crypt lib) password stored\<rparr>
      | LegacyDiterSha256 \<Rightarrow>
          (let okay = verifyLegacyDiterSha256 (lib_sha lib) email password pepper stored
           in r\<lparr>vr_ok := okay, vr_needsRehash := okay\<rparr>)
      | UnknownScheme \<Rightarrow> r\<lparr>vr_ok := False\<rparr>)"

subsection \<open>Lemmas\<close>

lemma cstr_no_zero [simp]: "CHR 0x00 \<notin> set (cstr s)"
  by (auto simp: cstr_def dest: set_takeWhileD)

lemma cstr_id: "CHR 0x00 \<notin> set s \<Longrightarrow> cstr s = s"
  by (auto simp: cstr_def takeWhile_eq_all_conv)

lemma strip_append [simp]: "stripDovecotPrefix (dovecot_prefix @ s) = s"
  by (simp add: stripDovecotPrefix_def)

lemma strip_ne_hd: "s \<noteq> [] \<Longrightarrow> hd s \<noteq> CHR ''{'' \<Longrightarrow> stripDovecotPrefix s = s"
  using startsWith_ne_hd [of s "CHR ''{''"] by (simp add: stripDovecotPrefix_def dovecot_prefix_def)

lemma startsWith_exclusive: "startsWith s p \<Longrightarrow> startsWith s q \<Longrightarrow> prefix p q \<or> prefix q p"
  unfolding startsWith_prefix by (rule prefix_same_cases)

lemma detect_plain:
  assumes "s \<noteq> []" and "hd s \<noteq> CHR ''$''" and "hd s \<noteq> CHR ''{''"
  shows "detectPasswordScheme s = LegacyDiterSha256"
  using assms startsWith_ne_hd [OF assms(1,2)] strip_ne_hd [OF assms(1,3)]
  by (simp add: detectPasswordScheme_def)

lemma detect_argon: "startsWith s ''$argon2'' \<Longrightarrow> detectPasswordScheme s = Argon2id"
  by (auto simp: detectPasswordScheme_def startsWith_def)

lemma detect_crypt:
  assumes "startsWith s ''$6$''"
  shows "detectPasswordScheme s = Sha512Crypt"
proof -
  have "s \<noteq> []" "hd s = CHR ''$''" using assms by (cases s; auto simp: startsWith_prefix)+
  moreover have "\<not> startsWith s ''$argon2''"
    using startsWith_exclusive [OF assms, of "''$argon2''"] by auto
  ultimately show ?thesis using assms by (simp add: detectPasswordScheme_def strip_ne_hd)
qed

lemma detect_crypt5:
  assumes "startsWith (stripDovecotPrefix s) ''$5$''" and "s \<noteq> []"
  shows "detectPasswordScheme s = Sha256Crypt"
proof -
  have "\<not> startsWith s ''$argon2''"
  proof
    assume a: "startsWith s ''$argon2''"
    then have "hd s = CHR ''$''" using assms(2) by (cases s) (auto simp: startsWith_prefix)
    then show False using startsWith_exclusive [OF a, of "''$5$''"] assms by (simp add: strip_ne_hd)
  qed
  moreover have "\<not> startsWith (stripDovecotPrefix s) ''$6$''"
    using startsWith_exclusive [OF assms(1), of "''$6$''"] by auto
  ultimately show ?thesis using assms by (simp add: detectPasswordScheme_def)
qed

lemma alnum_no_marker: "c \<in> set kAlphaNum \<Longrightarrow> c \<noteq> CHR ''$'' \<and> c \<noteq> CHR ''{'' \<and> c \<noteq> CHR 0x00"
  by (auto simp: kAlphaNum_def)

text \<open>What a call of \<^verbatim>\<open>cryptWithPrefix\<close> that returns has computed.\<close>

lemma cryptWithPrefix_Done:
  assumes "cryptWithPrefix crypt password idp rs = Done h rs'" and "CHR 0x00 \<notin> set idp"
  shows "\<exists>s. length s = 16 \<and> CHR 0x00 \<notin> set (idp @ s) \<and> crypt (cstr password) (idp @ s) = Some h"
proof -
  from assms(1) obtain s rs1 where s: "salt 16 rs = Done s rs1"
    and c: "crypt (cstr password) (cstr (idp @ s)) = Some h"
    by (auto simp: cryptWithPrefix_def obind_Done split: option.splits)
  have "CHR 0x00 \<notin> set (idp @ s)" using salt_Done [OF s] alnum_no_marker assms(2) by auto
  then show ?thesis using c salt_Done [OF s] by (auto simp: cstr_id)
qed

text \<open>The documented behaviour of \<^verbatim>\<open>crypt_r\<close>: a hash is its own setting, starts with the scheme of the
  setting it was made from, and has no zero byte.\<close>

definition crypt_contract :: "(string \<Rightarrow> string \<Rightarrow> string option) \<Rightarrow> bool" where
  "crypt_contract crypt \<longleftrightarrow>
     (\<forall>p s h. CHR 0x00 \<notin> set p \<longrightarrow> CHR 0x00 \<notin> set s \<longrightarrow> crypt p s = Some h \<longrightarrow>
        crypt p h = Some h \<and> take 3 h = take 3 s \<and> CHR 0x00 \<notin> set h)"

lemma crypt_hash_facts:
  assumes "crypt_contract crypt" and "cryptWithPrefix crypt password idp rs = Done h rs'"
    and "CHR 0x00 \<notin> set idp" and "length idp = 3"
  shows "startsWith h idp \<and> crypt (cstr password) (cstr h) = Some h"
proof -
  obtain s where s: "length s = 16" "CHR 0x00 \<notin> set (idp @ s)" "crypt (cstr password) (idp @ s) = Some h"
    using cryptWithPrefix_Done [OF assms(2,3)] by blast
  with assms(1) have "crypt (cstr password) h = Some h \<and> take 3 h = take 3 (idp @ s) \<and> CHR 0x00 \<notin> set h"
    unfolding crypt_contract_def by (meson cstr_no_zero)
  moreover have "prefix idp h" using calculation assms(4) take_is_prefix [of 3 h] by simp
  ultimately show ?thesis by (simp add: cstr_id startsWith_prefix)
qed

subsection \<open>Properties\<close>

text \<open>C17. A legacy hash verifies: whatever the random source gave, the stored text
  \<open>hashLegacyDiterSha256\<close> made is recognised as legacy, accepted for the same email, password and
  pepper, and marked for a re-hash.\<close>

theorem legacy_hash_verifies:
  assumes "hashLegacyDiterSha256 (lib_sha lib) email password pepper rs = Done h rs'"
  shows "verifyPasswordAuto lib email password pepper h =
    \<lparr>vr_ok = True, vr_needsRehash = True, vr_scheme = LegacyDiterSha256\<rparr>"
proof -
  from assms obtain s rs1 where s: "salt 17 rs = Done s rs1"
    and h: "h = s @ lib_sha lib (s @ email @ password @ pepper)"
    by (auto simp: hashLegacyDiterSha256_def obind_Done)
  have l: "length s = 17" "set s \<subseteq> set kAlphaNum" using salt_Done [OF s] by auto
  then obtain c t where ct: "s = c # t" by (cases s) auto
  then have "detectPasswordScheme h = LegacyDiterSha256"
    using l(2) alnum_no_marker [of c] h by (intro detect_plain) auto
  then show ?thesis using h l(1) by (simp add: verifyPasswordAuto_def verifyLegacyDiterSha256_def)
qed

lemma dovecot_length: "length dovecot_prefix = 14"
  by (simp add: dovecot_prefix_def)

lemma legacy_accepts:
  "verifyLegacyDiterSha256 sha email password pepper stored \<longleftrightarrow>
     17 \<le> length stored \<and> drop 17 stored = sha (take 17 stored @ email @ password @ pepper)"
proof -
  have "(take 17 stored @ z = stored) = (drop 17 stored = z)" for z
    by (metis append_take_drop_id same_append_eq)
  then show ?thesis by (auto simp: verifyLegacyDiterSha256_def Let_def)
qed

text \<open>C16. Which library accepts a password is decided by the first bytes of the stored text alone: \<open>$argon2\<close>
  sends it to Argon2; else, with Dovecot's \<open>{SHA256-CRYPT}\<close> mark taken off, \<open>$6$\<close> and \<open>$5$\<close> send it to
  \<^verbatim>\<open>crypt_r\<close>, which must give the text back; everything else of at least 17 characters is a salt with the
  legacy hash over salt, email, password and pepper. Nothing else is ever accepted, so not the empty
  text; a re-hash is asked for exactly for an accepted legacy hash; and when two passwords are accepted
  for one stored text, that one library maps them together.\<close>

theorem verifyPasswordAuto_sound:
  "let r = verifyPasswordAuto lib email password pepper stored;
       crypt = (if prefix ''{SHA256-CRYPT}'' stored then drop 14 stored else stored);
       argon = prefix ''$argon2'' stored; crypted = (\<not> argon \<and> (prefix ''$6$'' crypt \<or> prefix ''$5$'' crypt))
   in vr_ok r = (if argon then lib_argon_ok lib (cstr stored) password
        else if crypted then lib_crypt lib (cstr password) (cstr crypt) = Some crypt
        else 17 \<le> length stored \<and> drop 17 stored = lib_sha lib (take 17 stored @ email @ password @ pepper)) \<and>
      vr_needsRehash r = (vr_ok r \<and> \<not> argon \<and> \<not> crypted) \<and>
      vr_scheme r = (if stored = [] then UnknownScheme else if argon then Argon2id
        else if prefix ''$6$'' crypt then Sha512Crypt else if prefix ''$5$'' crypt then Sha256Crypt
        else LegacyDiterSha256) \<and>
      (vr_ok r \<and> vr_ok (verifyPasswordAuto lib email password2 pepper stored) \<longrightarrow>
        (if argon then lib_argon_ok lib (cstr stored) password \<and> lib_argon_ok lib (cstr stored) password2
         else if crypted then lib_crypt lib (cstr password) (cstr crypt) = lib_crypt lib (cstr password2) (cstr crypt)
         else lib_sha lib (take 17 stored @ email @ password @ pepper) =
              lib_sha lib (take 17 stored @ email @ password2 @ pepper)))"
proof -
  let ?crypt = "if prefix ''{SHA256-CRYPT}'' stored then drop 14 stored else stored"
  let ?argon = "prefix ''$argon2'' stored"
  let ?crypted = "\<not> ?argon \<and> (prefix ''$6$'' ?crypt \<or> prefix ''$5$'' ?crypt)"
  have strip: "stripDovecotPrefix stored = ?crypt"
    using dovecot_length by (simp add: stripDovecotPrefix_def startsWith_prefix) (simp add: dovecot_prefix_def)
  have scheme: "detectPasswordScheme stored = (if stored = [] then UnknownScheme else if ?argon then Argon2id
      else if prefix ''$6$'' ?crypt then Sha512Crypt else if prefix ''$5$'' ?crypt then Sha256Crypt
      else LegacyDiterSha256)"
    by (simp only: detectPasswordScheme_def startsWith_prefix strip Let_def)
  have ne: "stored \<noteq> []" if "?argon \<or> ?crypted \<or> 17 \<le> length stored" using that by (auto split: if_splits)
  have ok: "vr_ok (verifyPasswordAuto lib email pw pepper stored) = (if ?argon then lib_argon_ok lib (cstr stored) pw
      else if ?crypted then lib_crypt lib (cstr pw) (cstr ?crypt) = Some ?crypt
      else 17 \<le> length stored \<and> drop 17 stored = lib_sha lib (take 17 stored @ email @ pw @ pepper))" for pw
  proof (cases "stored = []")
    case True
    then show ?thesis by (simp add: verifyPasswordAuto_def detectPasswordScheme_def)
  next
    case False
    then show ?thesis
      by (auto simp: verifyPasswordAuto_def scheme Let_def verifyArgon2id_def verifyCryptPassword_def strip
          startsWith_prefix legacy_accepts split: option.splits)
  qed
  have rest: "vr_scheme (verifyPasswordAuto lib email password pepper stored) = detectPasswordScheme stored"
    "vr_needsRehash (verifyPasswordAuto lib email password pepper stored) =
      (vr_ok (verifyPasswordAuto lib email password pepper stored) \<and> detectPasswordScheme stored = LegacyDiterSha256)"
    by (simp_all add: verifyPasswordAuto_def Let_def split: PasswordScheme.split)
  have "vr_needsRehash (verifyPasswordAuto lib email password pepper stored) =
      (vr_ok (verifyPasswordAuto lib email password pepper stored) \<and> \<not> ?argon \<and> \<not> ?crypted)"
    unfolding rest(2) scheme ok using ne by (cases "stored = []") auto
  then show ?thesis using rest(1) scheme unfolding Let_def ok by (intro conjI impI) (simp_all split del: if_split, auto split: if_splits)
qed

theorem verifyPasswordAuto_sound_witness:
  "let lib = \<lparr>lib_sha = rev, lib_argon_ok = (\<lambda>e p. e = ''$argon2id$'' @ p), lib_crypt = (\<lambda>p s. Some (take 3 s @ p))\<rparr>
   in vr_ok (verifyPasswordAuto lib ''e'' ''pw'' ''x'' ''{SHA256-CRYPT}$5$pw'') \<and>
      \<not> vr_ok (verifyPasswordAuto lib ''e'' ''other'' ''x'' ''{SHA256-CRYPT}$5$pw'') \<and>
      vr_ok (verifyPasswordAuto lib ''e'' ''pw'' ''x'' ''$argon2id$pw'') \<and>
      \<not> vr_ok (verifyPasswordAuto lib ''e'' ''pw'' ''x'' [])"
proof -
  let ?lib = "\<lparr>lib_sha = rev, lib_argon_ok = (\<lambda>e p. e = ''$argon2id$'' @ p), lib_crypt = (\<lambda>p s. Some (take 3 s @ p))\<rparr>"
  note v = verifyPasswordAuto_sound [of ?lib "''e''" _ "''x''", unfolded Let_def, THEN conjunct1]
  show ?thesis unfolding Let_def v by (simp add: cstr_def)
qed

text \<open>Crypt hashes verify: with a \<^verbatim>\<open>crypt_r\<close> that behaves as documented, the three crypt hashers
  (Dovecot's marked form too) produce text that the automatic verification recognises and
  accepts for the same password, without asking for a re-hash.\<close>

theorem crypt_hash_verifies:
  assumes "crypt_contract (lib_crypt lib)"
  shows "(hashSha512Crypt (lib_crypt lib) password rs = Done h rs' \<longrightarrow>
       verifyPasswordAuto lib email password pepper h =
         \<lparr>vr_ok = True, vr_needsRehash = False, vr_scheme = Sha512Crypt\<rparr>) \<and>
    (hashSha256Crypt (lib_crypt lib) password rs = Done h rs' \<or>
       hashSha256CryptDovecot (lib_crypt lib) password rs = Done h rs' \<longrightarrow>
       verifyPasswordAuto lib email password pepper h =
         \<lparr>vr_ok = True, vr_needsRehash = False, vr_scheme = Sha256Crypt\<rparr>)"
proof -
  have five: "stripDovecotPrefix k = k" if "startsWith k ''$5$''" for k
    using that by (intro strip_ne_hd) (cases k; auto simp: startsWith_prefix)+
  have six: "stripDovecotPrefix k = k" if "startsWith k ''$6$''" for k
    using that by (intro strip_ne_hd) (cases k; auto simp: startsWith_prefix)+
  have 6: "verifyPasswordAuto lib email password pepper h =
      \<lparr>vr_ok = True, vr_needsRehash = False, vr_scheme = Sha512Crypt\<rparr>"
    if "hashSha512Crypt (lib_crypt lib) password rs = Done h rs'"
  proof -
    have "startsWith h ''$6$'' \<and> lib_crypt lib (cstr password) (cstr h) = Some h"
      using that by (intro crypt_hash_facts [OF assms]) (auto simp: hashSha512Crypt_def)
    then show ?thesis by (simp add: verifyPasswordAuto_def detect_crypt verifyCryptPassword_def six)
  qed
  have 5: "verifyPasswordAuto lib email password pepper g =
      \<lparr>vr_ok = True, vr_needsRehash = False, vr_scheme = Sha256Crypt\<rparr>"
    if "hashSha256Crypt (lib_crypt lib) password rs = Done k rs'" and "g = k \<or> g = dovecot_prefix @ k" for g k
  proof -
    have k: "startsWith k ''$5$'' \<and> lib_crypt lib (cstr password) (cstr k) = Some k"
      using that(1) by (intro crypt_hash_facts [OF assms]) (auto simp: hashSha256Crypt_def)
    then have g: "stripDovecotPrefix g = k" using that(2) five by auto
    have "g \<noteq> []" using k that(2) by (auto simp: startsWith_prefix)
    then have "detectPasswordScheme g = Sha256Crypt" using k g by (intro detect_crypt5) simp_all
    then show ?thesis using k g by (simp add: verifyPasswordAuto_def verifyCryptPassword_def)
  qed
  show ?thesis using 6 5 by (auto simp: hashSha256CryptDovecot_def obind_Done)
qed

theorem legacy_hash_verifies_witness:
  "\<exists>h rs'. hashLegacyDiterSha256 rev ''e'' ''p'' ''x'' (replicate 17 (Bytes [CHR 0x01, CHR 0x00, CHR 0x00, CHR 0x00])) = Done h rs' \<and>
     verifyPasswordAuto \<lparr>lib_sha = rev, lib_argon_ok = (\<lambda>e p. e = p), lib_crypt = (\<lambda>p s. None)\<rparr> ''e'' ''p'' ''x'' h =
       \<lparr>vr_ok = True, vr_needsRehash = True, vr_scheme = LegacyDiterSha256\<rparr>"
proof -
  let ?lib = "\<lparr>lib_sha = rev, lib_argon_ok = (\<lambda>e p. e = p), lib_crypt = (\<lambda>p s. None)\<rparr> :: password_lib"
  let ?d = "[CHR 0x01, CHR 0x00, CHR 0x00, CHR 0x00]"
  have a: "accepted 62 ?d" by (simp add: accepted_def rejection_limit_def UINT32_MAX_def)
  have l: "length kAlphaNum = 62" by (simp add: kAlphaNum_def)
  then have "\<exists>s rs'. randomString 17 kAlphaNum (map Bytes (replicate 17 ?d)) = Done s rs'"
    using draw_chars_total [of "replicate 17 ?d" kAlphaNum 17] a
    by (auto simp: randomString_def filter_replicate)
  then obtain h rs' where h: "hashLegacyDiterSha256 (lib_sha ?lib) ''e'' ''p'' ''x'' (replicate 17 (Bytes ?d)) = Done h rs'"
    by (auto simp: hashLegacyDiterSha256_def salt_def map_replicate)
  then show ?thesis using legacy_hash_verifies [OF h] by auto
qed

definition toy_crypt :: "string \<Rightarrow> string \<Rightarrow> string option" where
  "toy_crypt p s = (if length s < 3 then None else Some (take 3 s @ p))"

theorem crypt_hash_verifies_witness:
  "\<exists>h rs'. hashSha256CryptDovecot toy_crypt ''pw'' (replicate 16 (Bytes [CHR 0x01, CHR 0x00, CHR 0x00, CHR 0x00])) = Done h rs' \<and>
     verifyPasswordAuto \<lparr>lib_sha = rev, lib_argon_ok = (\<lambda>e p. e = p), lib_crypt = toy_crypt\<rparr> ''e'' ''pw'' ''x'' h =
       \<lparr>vr_ok = True, vr_needsRehash = False, vr_scheme = Sha256Crypt\<rparr>"
proof -
  let ?lib = "\<lparr>lib_sha = rev, lib_argon_ok = (\<lambda>e p. e = p), lib_crypt = toy_crypt\<rparr> :: password_lib"
  let ?d = "[CHR 0x01, CHR 0x00, CHR 0x00, CHR 0x00]"
  have a: "accepted 62 ?d" by (simp add: accepted_def rejection_limit_def UINT32_MAX_def)
  have l: "length kAlphaNum = 62" by (simp add: kAlphaNum_def)
  then have "\<exists>s rs'. salt 16 (map Bytes (replicate 16 ?d)) = Done s rs'"
    using draw_chars_total [of "replicate 16 ?d" kAlphaNum 16] a
    by (auto simp: salt_def randomString_def filter_replicate)
  then obtain h rs' where h: "hashSha256CryptDovecot (lib_crypt ?lib) ''pw'' (replicate 16 (Bytes ?d)) = Done h rs'"
    by (auto simp: hashSha256CryptDovecot_def hashSha256Crypt_def cryptWithPrefix_def map_replicate
          toy_crypt_def cstr_def)
  have c: "crypt_contract (lib_crypt ?lib)"
    by (auto simp: crypt_contract_def toy_crypt_def dest: in_set_takeD split: if_splits)
  show ?thesis using crypt_hash_verifies [OF c, of "''pw''"] h by auto
qed

end
