(* ===== verification/Shutdown.thy ===== *)
theory Shutdown
  imports Prelude "HOL-Library.Multiset"
begin

text \<open>
  \<^verbatim>\<open>thread/shutdown.h\<close> and \<^verbatim>\<open>thread/shutdown.cpp\<close>: the graceful shutdown (the POSIX branch).

  \<open>sd_state\<close> is the leaked \<^verbatim>\<open>State\<close> with the pipe's writing end, the signal handlers and the flags
  of \<^verbatim>\<open>checkHandlers\<close>; \<open>sd_ran\<close> records which callbacks ran. The kernel is a script: what each read,
  poll and clock reading gives. Sequential operations are functions of the state; the threads that
  register, unregister and stop are the step relation \<open>sd_step\<close> over them, with the mutex of the
  registrations in the state.
\<close>

subsection \<open>State\<close>

datatype shutdown_reason = NoReason | BySigterm | BySigint | ByRequest

datatype cb_outcome = Returns | ThrowsStd string | ThrowsOther

text \<open>A callback: which call of \<open>onStop\<close> brought it, and what happens when it runs.\<close>

record callback =
  cb_call :: nat
  cb_outcome :: cb_outcome

datatype disposition = DefaultAction | OnSignal | Foreign

record sd_state =
  sd_stopping :: bool
  sd_installed :: bool
  sd_reason :: shutdown_reason
  sd_deadline :: int
  sd_pipeR :: int
  sd_pipeW :: int
  sd_callbacks :: "(nat \<times> callback) list"
  sd_nextId :: nat
  sd_sigint :: disposition
  sd_sigterm :: disposition
  sd_warned :: "bool \<times> bool"
  sd_ran :: "callback list"

definition sd_init :: sd_state where
  "sd_init = \<lparr>sd_stopping = False, sd_installed = False, sd_reason = NoReason, sd_deadline = 15,
     sd_pipeR = - 1, sd_pipeW = - 1, sd_callbacks = [], sd_nextId = 1,
     sd_sigint = DefaultAction, sd_sigterm = DefaultAction, sd_warned = (False, False), sd_ran = []\<rparr>"

definition SIGINT :: int where "SIGINT = 2"
definition SIGTERM :: int where "SIGTERM = 15"

definition loopSlotCount :: nat where
  "loopSlotCount = 64"

text \<open>365 days in nanoseconds.\<close>

definition maxWait :: int where
  "maxWait = 24 * 365 * 3600 * 1000000000"

definition capWait :: "int \<Rightarrow> int" where
  "capWait d = min (max d 0) maxWait"

definition reasonName :: "shutdown_reason \<Rightarrow> string" where
  "reasonName r = (case r of BySigterm \<Rightarrow> ''SIGTERM'' | BySigint \<Rightarrow> ''SIGINT''
     | ByRequest \<Rightarrow> ''request'' | NoReason \<Rightarrow> ''none'')"

definition requestByte :: int where
  "requestByte = 0"

definition evTimeout :: int where "evTimeout = - 1"
definition evInterrupted :: int where "evInterrupted = - 2"

subsection \<open>Signals, the pipe, fork\<close>

text \<open>The byte the handler writes.\<close>

definition onSignal :: "int \<Rightarrow> int" where
  "onSignal sig = sig mod 256"

definition afterForkInChild :: "sd_state \<Rightarrow> sd_state" where
  "afterForkInChild s = s\<lparr>sd_sigint := DefaultAction, sd_sigterm := DefaultAction,
     sd_installed := False, sd_pipeW := - 1, sd_pipeR := - 1\<rparr>"

text \<open>What the kernel does for one \<open>readEvent\<close>: the byte at hand, else the result of \<^verbatim>\<open>poll\<close>, else a second
  read.\<close>

record pipe_io =
  first_read :: "nat option"
  poll_result :: int
  second_read :: "nat option"

definition readEvent :: "pipe_io \<Rightarrow> int" where
  "readEvent io =
     (case first_read io of
        Some b \<Rightarrow> int b
      | None \<Rightarrow>
          if poll_result io = 0 then evTimeout
          else if poll_result io < 0 then evInterrupted
          else (case second_read io of Some b \<Rightarrow> int b | None \<Rightarrow> evInterrupted))"

definition check_line :: "string \<Rightarrow> string" where
  "check_line sig = ''shutdown: the '' @ sig @
     '' handler was replaced by other code; that signal no longer starts a graceful shutdown''"

text \<open>One signal: warn once when its handler is no longer ours.\<close>

definition check_one :: "disposition \<Rightarrow> bool \<Rightarrow> string \<Rightarrow> bool \<times> string list" where
  "check_one h w sig = (if h \<noteq> OnSignal \<and> \<not> w then (True, [check_line sig]) else (w, []))"

definition checkHandlers :: "sd_state \<Rightarrow> sd_state \<times> string list" where
  "checkHandlers s =
     (let (w0, l0) = check_one (sd_sigint s) (fst (sd_warned s)) ''SIGINT'';
          (w1, l1) = check_one (sd_sigterm s) (snd (sd_warned s)) ''SIGTERM''
      in (s\<lparr>sd_warned := (w0, w1)\<rparr>, l0 @ l1))"

subsection \<open>The forced exit line\<close>

definition forced_cap :: nat where
  "forced_cap = 512"

text \<open>\<open>snprintf\<close> at offset \<open>len\<close> of the buffer: it stores what fits before the final zero and adds the
  full length of the text. \<open>txt\<close> is what the buffer holds before its zero.\<close>

definition snprintf_at :: "string \<times> nat \<Rightarrow> string \<Rightarrow> string \<times> nat" where
  "snprintf_at bl t = (case bl of (txt, len) \<Rightarrow> (txt @ take (forced_cap - len - 1) t, len + length t))"

fun forced_names :: "string option list \<Rightarrow> bool \<Rightarrow> string \<times> nat \<Rightarrow> string \<times> nat" where
  "forced_names [] first bl = bl"
| "forced_names (slot # slots) first bl =
     (case slot of
        Some name \<Rightarrow>
          (if snd bl < forced_cap
           then forced_names slots False
                  (snprintf_at bl ((if first then '''' else '','') @ '' '' @ name))
           else forced_names slots first bl)
      | None \<Rightarrow> forced_names slots first bl)"

definition forced_line :: "nat \<Rightarrow> string option list \<Rightarrow> string" where
  "forced_line elapsed slots =
     (let (txt, len) = forced_names slots True
            (snprintf_at ([], 0) (''shutdown: forced after '' @ show_nat elapsed @ ''s, still running:''))
      in if len < forced_cap - 1 then txt @ [CHR 0x0A]
         else take (forced_cap - 1) txt @ [CHR 0x0A])"

text \<open>How the process ends: by the signal, or by \<open>_exit\<close> when the signal did not kill it.\<close>

definition forced_status :: "int \<Rightarrow> bool \<Rightarrow> int + int" where
  "forced_status sig killed = (if killed then Inl sig else Inr (128 + sig))"

subsection \<open>The watcher\<close>

text \<open>The wait for the first event: the event, the state after the handler checks, the lines logged
  and the rest of the script; None while the script has no event.\<close>

fun first_event :: "sd_state \<Rightarrow> pipe_io list \<Rightarrow> (int \<times> sd_state \<times> string list \<times> pipe_io list) option" where
  "first_event s [] = None"
| "first_event s (io # ios) =
     (let ev = readEvent io in
      if ev < 0 then
        let (s', ls) = (if ev = evTimeout then checkHandlers s else (s, []))
        in map_option (\<lambda>(e, t, ms, r). (e, t, ls @ ms, r)) (first_event s' ios)
      else Some (ev, s, [], ios))"

definition event_reason :: "int \<Rightarrow> shutdown_reason \<times> int" where
  "event_reason ev =
     (if ev = requestByte then (ByRequest, SIGTERM)
      else if ev = SIGINT then (BySigint, ev)
      else (BySigterm, ev))"

definition alarm_seconds :: "sd_state \<Rightarrow> int" where
  "alarm_seconds s = (sd_deadline s + 5) mod 2 ^ 32"

definition mark_stopping :: "int \<Rightarrow> sd_state \<Rightarrow> sd_state" where
  "mark_stopping ev s = s\<lparr>sd_reason := fst (event_reason ev), sd_stopping := True\<rparr>"

definition callback_error :: "callback \<Rightarrow> string" where
  "callback_error cb = (case cb_outcome cb of
      Returns \<Rightarrow> ''''
    | ThrowsStd what \<Rightarrow> ''shutdown: onStop callback threw: '' @ what @ [CHR 0x0A]
    | ThrowsOther \<Rightarrow> ''shutdown: onStop callback threw'' @ [CHR 0x0A])"

text \<open>All callbacks, last registered first; a throw is noted and the loop goes on.\<close>

definition run_callbacks :: "sd_state \<Rightarrow> sd_state \<times> string" where
  "run_callbacks s =
     (let cbs = map snd (rev (sd_callbacks s))
      in (s\<lparr>sd_ran := sd_ran s @ cbs\<rparr>, concat (map callback_error cbs)))"

definition watcher_log :: "shutdown_reason \<Rightarrow> string \<Rightarrow> string list" where
  "watcher_log r errors =
     (''shutdown: '' @ reasonName r @ '' received'') # (if errors \<noteq> [] then [butlast errors] else [])"

text \<open>The wait for the end of the process, in nanoseconds: each round reads the clock and then the
  pipe. The value is how many rounds were read before the forced exit.\<close>

definition ceil_ms :: "int \<Rightarrow> int" where
  "ceil_ms ns = - ((- ns) div 1000000)"

fun deadline_rounds :: "int \<Rightarrow> (int \<times> pipe_io) list \<Rightarrow> nat option" where
  "deadline_rounds end [] = None"
| "deadline_rounds end ((now, io) # rounds) =
     (if ceil_ms (end - now) \<le> 0 then Some 0
      else let ev = readEvent io in
        if ev < 0 \<or> ev = requestByte then map_option Suc (deadline_rounds end rounds)
        else Some 1)"

subsection \<open>The public operations\<close>

text \<open>\<open>pipe\<close> is the result of \<^verbatim>\<open>pipe2\<close>.\<close>

definition install :: "int \<Rightarrow> (int \<times> int) option \<Rightarrow> sd_state \<Rightarrow> bool \<times> sd_state" where
  "install dl pipe s =
     (if sd_installed s then (True, s)
      else case pipe of
        None \<Rightarrow> (False, s)
      | Some (r, w) \<Rightarrow>
          (True, s\<lparr>sd_pipeR := r, sd_pipeW := w, sd_deadline := max dl 1,
                   sd_sigint := OnSignal, sd_sigterm := OnSignal, sd_installed := True\<rparr>))"

definition installed :: "sd_state \<Rightarrow> bool" where "installed s = sd_installed s"
definition running :: "sd_state \<Rightarrow> bool" where "running s = (\<not> sd_stopping s)"
definition reason :: "sd_state \<Rightarrow> shutdown_reason" where "reason s = sd_reason s"

datatype request_effect = Ignored | Wrote int | Killed int

definition request :: "sd_state \<Rightarrow> bool \<Rightarrow> request_effect" where
  "request s wrote =
     (if sd_installed s then
        if sd_stopping s then Ignored
        else if wrote then Wrote requestByte
        else Killed SIGTERM
      else Killed SIGTERM)"

text \<open>A condition variable's \<^verbatim>\<open>wait_until\<close> over the states it sees at its start, at each wake-up and
  at the timeout: the state it returns in.\<close>

fun cv_wait :: "('s \<Rightarrow> bool) \<Rightarrow> 's \<Rightarrow> 's list \<Rightarrow> 's" where
  "cv_wait P s [] = s"
| "cv_wait P s (t # ts) = (if P s then s else cv_wait P t ts)"

definition sleepFor :: "bool \<Rightarrow> bool list \<Rightarrow> bool" where
  "sleepFor stopping seen = (\<not> cv_wait (\<lambda>b. b) stopping seen)"

datatype wake_result = Woken | Timeout | Stopping

text \<open>A \<open>Wakeup\<close> is its flag, seen with the shutdown flag.\<close>

definition notify :: "bool \<times> bool \<Rightarrow> bool \<times> bool" where
  "notify sw = (fst sw, True)"

definition waitFor :: "bool \<times> bool \<Rightarrow> (bool \<times> bool) list \<Rightarrow> wake_result \<times> (bool \<times> bool)" where
  "waitFor now seen =
     (let (stopping, woken) = cv_wait (\<lambda>(st, w). st \<or> w) now seen
      in if stopping then (Stopping, (stopping, woken))
         else if woken then (Woken, (stopping, False))
         else (Timeout, (stopping, woken)))"

text \<open>\<open>onStop\<close> in the two parts its mutex separates: the test, and the registration.\<close>

definition onStop_late :: "callback \<Rightarrow> sd_state \<Rightarrow> sd_state" where
  "onStop_late cb s = s\<lparr>sd_ran := sd_ran s @ [cb]\<rparr>"

definition onStop_add :: "callback \<Rightarrow> sd_state \<Rightarrow> nat \<times> sd_state" where
  "onStop_add cb s =
     (sd_nextId s, s\<lparr>sd_nextId := sd_nextId s + 1, sd_callbacks := sd_callbacks s @ [(sd_nextId s, cb)]\<rparr>)"

definition onStop :: "callback \<Rightarrow> sd_state \<Rightarrow> nat \<times> sd_state" where
  "onStop cb s = (if sd_stopping s then (0, onStop_late cb s) else onStop_add cb s)"

text \<open>A \<open>Registration\<close> is its id, 0 when empty.\<close>

definition reg_reset :: "nat \<Rightarrow> sd_state \<Rightarrow> nat \<times> sd_state" where
  "reg_reset i s =
     (if i = 0 then (0, s)
      else (0, s\<lparr>sd_callbacks := filter (\<lambda>cb. fst cb \<noteq> i) (sd_callbacks s)\<rparr>))"

definition reg_move :: "nat \<Rightarrow> nat \<times> nat" where
  "reg_move other = (other, 0)"

text \<open>Move assignment of two different objects: this, other and the state.\<close>

definition reg_assign :: "nat \<Rightarrow> nat \<Rightarrow> sd_state \<Rightarrow> nat \<times> nat \<times> sd_state" where
  "reg_assign this other s = (let (_, s') = reg_reset this s in (other, 0, s'))"

subsection \<open>Loop guards\<close>

fun first_free :: "'a option list \<Rightarrow> nat option" where
  "first_free [] = None"
| "first_free (x # xs) = (case x of None \<Rightarrow> Some 0 | Some _ \<Rightarrow> map_option Suc (first_free xs))"

text \<open>The guard's slot, -1 when none is free, and the slots with it; and whether this call warns.\<close>

definition loop_enter :: "string \<Rightarrow> string option list \<times> bool \<Rightarrow> int \<times> (string option list \<times> bool) \<times> bool" where
  "loop_enter name sl = (case sl of (slots, warned) \<Rightarrow>
     (case first_free slots of
        Some i \<Rightarrow> (int i, (slots[i := Some name], warned), False)
      | None \<Rightarrow> (- 1, (slots, True), \<not> warned)))"

definition loop_leave :: "int \<Rightarrow> string option list \<Rightarrow> string option list" where
  "loop_leave slot slots = (if slot \<ge> 0 then slots[nat slot := None] else slots)"

definition thread_name :: "string \<Rightarrow> string" where
  "thread_name name = take 15 name"

subsection \<open>The forced line\<close>

text \<open>The text without a buffer.\<close>

fun names_text :: "string option list \<Rightarrow> bool \<Rightarrow> string" where
  "names_text [] first = []"
| "names_text (None # slots) first = names_text slots first"
| "names_text (Some n # slots) first =
     (if first then '''' else '','') @ '' '' @ n @ names_text slots False"

definition live_names :: "string option list \<Rightarrow> string list" where
  "live_names slots = map the (filter (\<lambda>x. x \<noteq> None) slots)"

lemma names_text_later: "names_text slots False = concat (map (\<lambda>n. '', '' @ n) (live_names slots))"
  by (induction slots False rule: names_text.induct) (simp_all add: live_names_def)

lemma names_text_join:
  "names_text slots True = (if live_names slots = [] then '''' else '' '' @ join_with '', '' (live_names slots))"
proof -
  have j: "join_with '', '' (n # ns) = n @ concat (map (\<lambda>n. '', '' @ n) ns)" for n ns
    by (induction ns arbitrary: n) simp_all
  show ?thesis
    by (induction slots True rule: names_text.induct)
       (simp_all add: live_names_def j names_text_later)
qed

lemma snprintf_at_full:
  "length F < forced_cap \<Longrightarrow>
   snprintf_at (take (forced_cap - 1) F, length F) t = (take (forced_cap - 1) (F @ t), length (F @ t))"
  by (cases "length F = forced_cap - 1") (auto simp: snprintf_at_def diff_right_commute)

lemma forced_names_full:
  "\<exists>len. forced_names slots first (take (forced_cap - 1) F, length F) =
     (take (forced_cap - 1) (F @ names_text slots first), len) \<and>
     (len = length (F @ names_text slots first) \<or>
      len \<ge> forced_cap \<and> length (F @ names_text slots first) \<ge> forced_cap)"
proof (induction slots first arbitrary: F rule: names_text.induct)
  case (3 n slots first)
  show ?case
  proof (cases "length F < forced_cap")
    case True
    let ?t = "(if first then '''' else '','') @ '' '' @ n"
    have e: "F @ names_text (Some n # slots) first = (F @ ?t) @ names_text slots False" by simp
    show ?thesis
      unfolding e using 3 [of "F @ ?t"] True snprintf_at_full [OF True, of ?t] by simp
  next
    case False
    have "forced_names sl f (take (forced_cap - 1) F, length F) = (take (forced_cap - 1) F, length F)" for sl f
      using False by (induction sl) (auto split: option.split)
    then show ?thesis using False by simp
  qed
qed auto

lemma forced_line_full:
  "forced_line elapsed slots =
     take 511 (''shutdown: forced after '' @ show_nat elapsed @ ''s, still running:'' @
        (if live_names slots = [] then '''' else '' '' @ join_with '', '' (live_names slots))) @ [CHR 0x0A]"
proof -
  let ?h = "''shutdown: forced after '' @ show_nat elapsed @ ''s, still running:''"
  have "snprintf_at ([], 0) ?h = (take (forced_cap - 1) ?h, length ?h)"
    using snprintf_at_full [of "[]" ?h] by (simp add: forced_cap_def)
  then obtain len where
    n: "forced_names slots True (snprintf_at ([], 0) ?h) = (take (forced_cap - 1) (?h @ names_text slots True), len)"
    and l: "len = length (?h @ names_text slots True) \<or> len \<ge> forced_cap \<and> length (?h @ names_text slots True) \<ge> forced_cap"
    using forced_names_full [of slots True ?h] by metis
  then have "forced_line elapsed slots = take (forced_cap - 1) (?h @ names_text slots True) @ [CHR 0x0A]"
    by (auto simp: forced_line_def Let_def)
  then show ?thesis by (simp add: forced_cap_def names_text_join del: take_append)
qed

subsection \<open>Threads\<close>

text \<open>The world: the state, the watcher's progress, the callback an \<open>onStop\<close> holds between its test and
  its registration (it then holds the mutex), the number of \<open>onStop\<close> calls so far, and the
  callbacks unregistered before they ran.\<close>

datatype watcher_phase = Idle | Marked | Called

record sd_world =
  w_state :: sd_state
  w_phase :: watcher_phase
  w_lock :: "callback option"
  w_calls :: nat
  w_dropped :: "callback list"

definition world_init :: sd_world where
  "world_init = \<lparr>w_state = sd_init, w_phase = Idle, w_lock = None, w_calls = 0, w_dropped = []\<rparr>"

definition not_run :: "sd_world \<Rightarrow> callback list" where
  "not_run w = (if w_phase w = Called then [] else map snd (sd_callbacks (w_state w)))"

definition dropped_by :: "nat \<Rightarrow> sd_world \<Rightarrow> callback list" where
  "dropped_by i w = (if i = 0 \<or> w_phase w = Called then []
     else map snd (filter (\<lambda>cb. fst cb = i) (sd_callbacks (w_state w))))"

inductive sd_step :: "sd_world \<Rightarrow> sd_world \<Rightarrow> bool" where
  on_stop_test: "w_lock w = None \<Longrightarrow> \<not> sd_stopping (w_state w) \<Longrightarrow> cb_call cb = w_calls w \<Longrightarrow>
    sd_step w (w\<lparr>w_lock := Some cb, w_calls := Suc (w_calls w)\<rparr>)"
| on_stop_register: "w_lock w = Some cb \<Longrightarrow>
    sd_step w (w\<lparr>w_lock := None, w_state := snd (onStop_add cb (w_state w))\<rparr>)"
| on_stop_now: "w_lock w = None \<Longrightarrow> sd_stopping (w_state w) \<Longrightarrow> cb_call cb = w_calls w \<Longrightarrow>
    sd_step w (w\<lparr>w_calls := Suc (w_calls w), w_state := onStop_late cb (w_state w)\<rparr>)"
| unregister: "w_lock w = None \<Longrightarrow>
    sd_step w (w\<lparr>w_dropped := w_dropped w @ dropped_by i w, w_state := snd (reg_reset i (w_state w))\<rparr>)"
| watcher_mark: "w_phase w = Idle \<Longrightarrow>
    sd_step w (w\<lparr>w_phase := Marked, w_state := mark_stopping ev (w_state w)\<rparr>)"
| watcher_call: "w_phase w = Marked \<Longrightarrow> w_lock w = None \<Longrightarrow>
    sd_step w (w\<lparr>w_phase := Called, w_state := fst (run_callbacks (w_state w))\<rparr>)"

inductive sd_reach :: "sd_world \<Rightarrow> bool" where
  init: "sd_reach world_init"
| step: "sd_reach w \<Longrightarrow> sd_step w w' \<Longrightarrow> sd_reach w'"

inductive_cases sd_stepE: "sd_step w w'"

lemmas sd_op_defs = onStop_add_def onStop_late_def reg_reset_def mark_stopping_def run_callbacks_def Let_def

text \<open>Every call of \<open>onStop\<close> so far is exactly one of: run, registered and waiting, dropped, or between
  its test and its registration.\<close>

definition accounted :: "sd_world \<Rightarrow> nat list" where
  "accounted w = map cb_call (sd_ran (w_state w) @ not_run w @ w_dropped w @
     (case w_lock w of None \<Rightarrow> [] | Some cb \<Rightarrow> [cb]))"

definition sd_inv :: "sd_world \<Rightarrow> bool" where
  "sd_inv w \<longleftrightarrow>
     (sd_stopping (w_state w) \<longleftrightarrow> w_phase w \<noteq> Idle) \<and>
     (w_phase w = Called \<longrightarrow> w_lock w = None) \<and>
     (sd_ran (w_state w) \<noteq> [] \<longrightarrow> sd_stopping (w_state w)) \<and>
     mset (accounted w) = mset [0..<w_calls w]"

text \<open>Ids: positive, below the next one, in the order of registration.\<close>

definition ids_ok :: "sd_state \<Rightarrow> bool" where
  "ids_ok s \<longleftrightarrow> sorted_wrt (<) (map fst (sd_callbacks s)) \<and>
     (\<forall>i\<in>set (map fst (sd_callbacks s)). 0 < i \<and> i < sd_nextId s) \<and> 0 < sd_nextId s"

lemma ids_ok_init: "ids_ok sd_init"
  by (simp add: ids_ok_def sd_init_def)

lemma ids_ok_add: "ids_ok s \<Longrightarrow> ids_ok (snd (onStop_add cb s))"
  by (auto simp: ids_ok_def onStop_add_def sorted_wrt_append)

lemma ids_ok_filter: "ids_ok s \<Longrightarrow> ids_ok (s\<lparr>sd_callbacks := filter P (sd_callbacks s)\<rparr>)"
  by (auto simp: ids_ok_def sorted_wrt_map intro: sorted_wrt_filter)

lemma ids_ok_reset: "ids_ok s \<Longrightarrow> ids_ok (snd (reg_reset i s))"
  by (simp add: reg_reset_def ids_ok_filter)

lemma ids_ok_unchanged:
  "ids_ok s \<Longrightarrow> sd_callbacks t = sd_callbacks s \<Longrightarrow> sd_nextId t = sd_nextId s \<Longrightarrow> ids_ok t"
  by (simp add: ids_ok_def)

lemma ids_ok_step: "sd_step w w' \<Longrightarrow> ids_ok (w_state w) \<Longrightarrow> ids_ok (w_state w')"
  by (cases rule: sd_step.cases)
     (auto simp: ids_ok_add ids_ok_reset onStop_late_def mark_stopping_def run_callbacks_def Let_def
           elim: ids_ok_unchanged)

lemma filter_partition_mset:
  "mset (map f xs) = mset (map f (filter P xs)) + mset (map f (filter (\<lambda>x. \<not> P x) xs))"
  by (induction xs) auto

lemma sd_inv_init: "sd_inv world_init"
  by (simp add: sd_inv_def world_init_def sd_init_def accounted_def not_run_def)

lemma reset_zero: "snd (reg_reset 0 s) = s"
  by (simp add: reg_reset_def)

lemma sd_inv_unregister:
  assumes "sd_inv w" and "w_lock w = None"
  shows "sd_inv (w\<lparr>w_dropped := w_dropped w @ dropped_by i w, w_state := snd (reg_reset i (w_state w))\<rparr>)"
proof (cases "i = 0 \<or> w_phase w = Called")
  case True
  then show ?thesis using assms
    by (auto simp: sd_inv_def accounted_def not_run_def dropped_by_def reg_reset_def)
next
  case False
  let ?w' = "w\<lparr>w_dropped := w_dropped w @ dropped_by i w, w_state := snd (reg_reset i (w_state w))\<rparr>"
  have "mset (accounted ?w') = mset (accounted w)"
    using assms(2) False filter_partition_mset
      [of "\<lambda>cb. cb_call (snd cb)" "sd_callbacks (w_state w)" "\<lambda>cb. fst cb \<noteq> i"]
    by (simp add: accounted_def not_run_def dropped_by_def reg_reset_def comp_def union_ac
        del: mset_map mset_filter)
  then show ?thesis using assms False by (auto simp: sd_inv_def reg_reset_def)
qed

lemma sd_inv_step: "sd_step w w' \<Longrightarrow> sd_inv w \<Longrightarrow> sd_inv w'"
proof (induction rule: sd_step.induct)
  case (unregister w i)
  then show ?case by (rule sd_inv_unregister [rotated])
next
  case (watcher_call w)
  then show ?case by (simp add: sd_inv_def accounted_def not_run_def run_callbacks_def Let_def rev_map)
qed (auto simp: sd_inv_def accounted_def not_run_def sd_op_defs multiset.map_comp)

lemma sd_inv_reach: "sd_reach w \<Longrightarrow> sd_inv w \<and> ids_ok (w_state w)"
proof (induction rule: sd_reach.induct)
  case init
  show ?case using sd_inv_init ids_ok_init by (simp add: world_init_def)
qed (use sd_inv_step ids_ok_step in blast)

subsection \<open>The contract\<close>

text \<open>What the header promises, as a machine over the numbers of the \<open>onStop\<close> calls, with the runs as a list so
  that a second run of a callback shows: before the stop a callback is promised; after it a new one runs at
  once; a promised one may be dropped; and the watcher passes once, after the stop, and runs what is still
  promised, last registered first.\<close>

record once_state =
  os_calls :: nat
  os_waiting :: "nat list"
  os_fired :: "nat list"
  os_dropped :: "nat list"
  os_stop :: bool
  os_passed :: bool

definition once_init :: once_state where
  "once_init = \<lparr>os_calls = 0, os_waiting = [], os_fired = [], os_dropped = [], os_stop = False, os_passed = False\<rparr>"

inductive once_step :: "once_state \<Rightarrow> once_state \<Rightarrow> bool" where
  promise: "\<not> os_stop a \<Longrightarrow>
    once_step a (a\<lparr>os_calls := Suc (os_calls a), os_waiting := os_waiting a @ [os_calls a]\<rparr>)"
| late: "os_stop a \<Longrightarrow>
    once_step a (a\<lparr>os_calls := Suc (os_calls a), os_fired := os_fired a @ [os_calls a]\<rparr>)"
| drop: "os_waiting a = before @ c # after \<Longrightarrow>
    once_step a (a\<lparr>os_waiting := before @ after, os_dropped := os_dropped a @ [c]\<rparr>)"
| stop: "\<not> os_stop a \<Longrightarrow> once_step a (a\<lparr>os_stop := True\<rparr>)"
| pass: "os_stop a \<Longrightarrow> \<not> os_passed a \<Longrightarrow>
    once_step a (a\<lparr>os_waiting := [], os_fired := os_fired a @ rev (os_waiting a), os_passed := True\<rparr>)"

definition once_abs :: "sd_world \<Rightarrow> once_state" where
  "once_abs w = \<lparr>os_calls = w_calls w,
     os_waiting = map cb_call (not_run w @ (case w_lock w of None \<Rightarrow> [] | Some cb \<Rightarrow> [cb])),
     os_fired = map cb_call (sd_ran (w_state w)), os_dropped = map cb_call (w_dropped w),
     os_stop = sd_stopping (w_state w), os_passed = (w_phase w = Called)\<rparr>"

lemma once_abs_init: "once_abs world_init = once_init"
  by (simp add: once_abs_def once_init_def world_init_def sd_init_def not_run_def)

text \<open>Unregistering takes out the one callback with that id, or nothing.\<close>

lemma filter_one_key:
  assumes "distinct (map fst xs)"
  shows "filter (\<lambda>x. fst x = i) xs = [] \<and> filter (\<lambda>x. fst x \<noteq> i) xs = xs \<or>
    (\<exists>ys c zs. xs = ys @ (i, c) # zs \<and> filter (\<lambda>x. fst x = i) xs = [(i, c)] \<and> filter (\<lambda>x. fst x \<noteq> i) xs = ys @ zs)"
proof (cases "i \<in> fst ` set xs")
  case True
  then obtain c ys zs where x: "xs = ys @ (i, c) # zs" by (metis (no_types, lifting) image_iff prod.collapse split_list)
  have "i \<notin> fst ` set ys" "i \<notin> fst ` set zs" using assms x by auto
  then have "filter (\<lambda>x. fst x = i) ys = []" "filter (\<lambda>x. fst x = i) zs = []"
      "filter (\<lambda>x. fst x \<noteq> i) ys = ys" "filter (\<lambda>x. fst x \<noteq> i) zs = zs"
    by (force simp: filter_empty_conv filter_id_conv)+
  then show ?thesis using x by auto
qed (force simp: filter_empty_conv filter_id_conv)

lemma ids_distinct: "ids_ok s \<Longrightarrow> distinct (map fst (sd_callbacks s))"
  by (simp add: ids_ok_def strict_sorted_iff)

text \<open>The invariant, read as sets: the parts are disjoint and make up all calls.\<close>

lemma inv_parts:
  assumes "sd_inv w"
  shows "distinct (accounted w)" and "set (accounted w) = {..<w_calls w}"
proof -
  have m: "mset (accounted w) = mset [0..<w_calls w]" using assms by (simp add: sd_inv_def)
  show "distinct (accounted w)" using mset_eq_imp_distinct_iff [OF m] by simp
  show "set (accounted w) = {..<w_calls w}" using mset_eq_setD [OF m] by (simp only: set_upt atLeast0LessThan)
qed

lemma inv_sets:
  assumes "sd_inv w"
  shows "cb_call ` set (not_run w) \<subseteq> {..<w_calls w}"
    and "cb_call ` set (sd_ran (w_state w)) \<subseteq> {..<w_calls w}"
    and "cb_call ` set (w_dropped w) \<subseteq> {..<w_calls w}"
    and "cb_call ` set (not_run w) \<inter> cb_call ` set (sd_ran (w_state w)) = {}"
    and "cb_call ` set (not_run w) \<inter> cb_call ` set (w_dropped w) = {}"
    and "cb_call ` set (sd_ran (w_state w)) \<inter> cb_call ` set (w_dropped w) = {}"
    and "distinct (map cb_call (not_run w))" and "distinct (map cb_call (sd_ran (w_state w)))"
    and "w_lock w = None \<Longrightarrow> cb_call ` set (sd_ran (w_state w)) \<union> cb_call ` set (not_run w) \<union>
      cb_call ` set (w_dropped w) = {..<w_calls w}"
  using inv_parts [OF assms] by (auto simp: accounted_def)

text \<open>Every step of the threads is one step of the contract, or none.\<close>

lemma once_simulation:
  assumes "sd_step w w'" and "sd_inv w \<and> ids_ok (w_state w)"
  shows "once_abs w' = once_abs w \<or> once_step (once_abs w) (once_abs w')"
  using assms
proof (induction rule: sd_step.induct)
  case (on_stop_test w cb)
  then show ?case using once_step.promise [of "once_abs w"]
    by (cases "w_phase w = Called") (simp_all add: once_abs_def not_run_def)
next
  case (on_stop_register w cb)
  then show ?case by (auto simp: once_abs_def not_run_def onStop_add_def sd_inv_def)
next
  case (on_stop_now w cb)
  then show ?case using once_step.late [of "once_abs w"]
    by (cases "w_phase w = Called") (simp_all add: once_abs_def not_run_def onStop_late_def)
next
  case (unregister w i)
  let ?cbs = "sd_callbacks (w_state w)"
  show ?case
  proof (cases "i = 0 \<or> w_phase w = Called \<or> filter (\<lambda>x. fst x = i) ?cbs = []")
    case True
    moreover have "filter (\<lambda>x. fst x \<noteq> i) ?cbs = ?cbs" if "filter (\<lambda>x. fst x = i) ?cbs = []"
      using filter_one_key [OF ids_distinct, of "w_state w" i] unregister.prems that by auto
    ultimately show ?thesis by (auto simp: once_abs_def not_run_def dropped_by_def reg_reset_def)
  next
    case False
    then obtain ys c zs where f: "?cbs = ys @ (i, c) # zs" "filter (\<lambda>x. fst x = i) ?cbs = [(i, c)]"
        "filter (\<lambda>x. fst x \<noteq> i) ?cbs = ys @ zs"
      using filter_one_key [OF ids_distinct, of "w_state w" i] unregister.prems by blast
    then have "os_waiting (once_abs w) = map (cb_call \<circ> snd) ys @ cb_call c # map (cb_call \<circ> snd) zs"
      using False unregister.hyps by (simp add: once_abs_def not_run_def)
    from once_step.drop [OF this] show ?thesis
      using False unregister.hyps f(2,3) by (simp add: once_abs_def not_run_def dropped_by_def reg_reset_def)
  qed
next
  case (watcher_mark w ev)
  then have "\<not> os_stop (once_abs w)" by (simp add: once_abs_def sd_inv_def)
  from once_step.stop [OF this] show ?case using watcher_mark.hyps
    by (simp add: once_abs_def not_run_def mark_stopping_def)
next
  case (watcher_call w)
  then have "os_stop (once_abs w)" "\<not> os_passed (once_abs w)" by (simp_all add: once_abs_def sd_inv_def)
  from once_step.pass [OF this] show ?case using watcher_call.hyps
    by (simp add: once_abs_def not_run_def run_callbacks_def Let_def rev_map)
qed

text \<open>Simulation, once for all: what holds of every step of an implementation whose state keeps an
  invariant holds of its runs.\<close>

locale simulation =
  fixes cinit :: 'c
    and cstep :: "'c \<Rightarrow> 'c \<Rightarrow> bool"
    and astep :: "'a \<Rightarrow> 'a \<Rightarrow> bool"
    and absf :: "'c \<Rightarrow> 'a"
    and cinv :: "'c \<Rightarrow> bool"
  assumes inv_init: "cinv cinit"
    and inv_step: "cinv c \<Longrightarrow> cstep c d \<Longrightarrow> cinv d"
    and sim_step: "cinv c \<Longrightarrow> cstep c d \<Longrightarrow> astep\<^sup>*\<^sup>* (absf c) (absf d)"
begin

lemma run_inv: "cstep\<^sup>*\<^sup>* cinit c \<Longrightarrow> cinv c"
  by (induction rule: rtranclp_induct) (auto intro: inv_init inv_step)

lemma run_from_inv: "cstep\<^sup>*\<^sup>* c d \<Longrightarrow> cinv c \<Longrightarrow> cinv d \<and> astep\<^sup>*\<^sup>* (absf c) (absf d)"
  by (induction rule: rtranclp_induct) (auto intro: inv_step dest: sim_step)

lemma refines: "cstep\<^sup>*\<^sup>* cinit c \<Longrightarrow> astep\<^sup>*\<^sup>* (absf cinit) (absf c)"
  using run_from_inv inv_init by blast

end

interpretation sdr: simulation world_init sd_step once_step once_abs "\<lambda>w. sd_inv w \<and> ids_ok (w_state w)"
proof unfold_locales
  show "sd_inv world_init \<and> ids_ok (w_state world_init)" using sd_inv_reach [OF sd_reach.init] .
next
  fix c d
  assume "sd_inv c \<and> ids_ok (w_state c)" and "sd_step c d"
  then show "sd_inv d \<and> ids_ok (w_state d)" and "once_step\<^sup>*\<^sup>* (once_abs c) (once_abs d)"
    using sd_inv_step ids_ok_step once_simulation by (blast, metis r_into_rtranclp rtranclp.rtrancl_refl)
qed

lemma sd_reach_run: "sd_reach w \<longleftrightarrow> sd_step\<^sup>*\<^sup>* world_init w"
proof
  show "sd_reach w \<Longrightarrow> sd_step\<^sup>*\<^sup>* world_init w"
    by (induction rule: sd_reach.induct) auto
  show "sd_step\<^sup>*\<^sup>* world_init w \<Longrightarrow> sd_reach w"
    by (induction rule: rtranclp_induct) (auto intro: sd_reach.intros)
qed

subsection \<open>Waiting\<close>

lemma cv_wait_bool: "cv_wait (\<lambda>b. b) s ss = (s \<or> True \<in> set ss)"
  by (induction ss arbitrary: s) auto

lemma cv_wait_now: "P s \<Longrightarrow> cv_wait P s ss = s"
  by (cases ss) simp_all

lemma cv_wait_fails:
  "\<not> P (cv_wait P s ss) \<Longrightarrow> cv_wait P s ss = last (s # ss) \<and> \<not> P s \<and> (\<forall>t\<in>set ss. \<not> P t)"
proof (induction ss arbitrary: s)
  case (Cons t ss)
  have "\<not> P s" and f: "\<not> P (cv_wait P t ss)" using Cons.prems by (auto split: if_splits)
  with Cons.IH [OF f] show ?case by simp
qed simp

lemma check_one_lines: "snd (check_one h w sig) = (if fst (check_one h w sig) \<and> \<not> w then [check_line sig] else [])"
  by (simp add: check_one_def)

definition warned_by :: "sd_state \<Rightarrow> sd_state \<Rightarrow> string list \<Rightarrow> bool" where
  "warned_by s t ls \<longleftrightarrow>
     sd_callbacks t = sd_callbacks s \<and> sd_stopping t = sd_stopping s \<and>
     (fst (sd_warned s) \<longrightarrow> fst (sd_warned t)) \<and> (snd (sd_warned s) \<longrightarrow> snd (sd_warned t)) \<and>
     count_list ls (check_line ''SIGINT'') = (if fst (sd_warned s) = fst (sd_warned t) then 0 else 1) \<and>
     count_list ls (check_line ''SIGTERM'') = (if snd (sd_warned s) = snd (sd_warned t) then 0 else 1)"

lemma warned_by_refl: "warned_by s s []"
  by (simp add: warned_by_def)

lemma warned_by_trans: "warned_by s t l \<Longrightarrow> warned_by t u m \<Longrightarrow> warned_by s u (l @ m)"
  by (simp add: warned_by_def) presburger

lemma check_lines_differ: "check_line ''SIGTERM'' \<noteq> check_line ''SIGINT''"
  by (simp add: check_line_def)

lemma checkHandlers_warns: "checkHandlers s = (t, l) \<Longrightarrow> warned_by s t l"
  using check_lines_differ check_lines_differ [symmetric]
  by (cases "sd_warned s")
     (auto simp: checkHandlers_def check_one_def warned_by_def Let_def split: if_splits prod.splits)

lemma first_event_step:
  "first_event s ios = Some (ev, t, ls, rest) \<Longrightarrow> 0 \<le> ev \<and> warned_by s t ls \<and> suffix rest ios"
proof (induction s ios arbitrary: ls rule: first_event.induct)
  case (2 s io ios)
  show ?case
  proof (cases "readEvent io < 0")
    case True
    obtain u l where u: "(if readEvent io = evTimeout then checkHandlers s else (s, [])) = (u, l)" by fastforce
    from 2(2) True u obtain ms where f: "first_event u ios = Some (ev, t, ms, rest)" "ls = l @ ms"
      by (auto simp: Let_def)
    have "warned_by s u l" using u checkHandlers_warns warned_by_refl by (auto split: if_splits)
    then show ?thesis using 2(1) [OF refl True u [symmetric] refl f(1)] f(2) warned_by_trans
      by (auto simp: suffix_Cons)
  next
    case False
    then show ?thesis using 2(2) by (auto simp: Let_def suffix_Cons warned_by_refl)
  qed
qed simp

lemma deadline_rounds_reached:
  assumes "now \<ge> end" and "(now, io) \<in> set rounds"
  shows "\<exists>k\<le>length rounds. deadline_rounds end rounds = Some k"
  using assms
proof (induction "end" rounds rule: deadline_rounds.induct)
  case (2 "end" now' io' rounds)
  have z: "ceil_ms (end - now') \<le> 0" if "end \<le> now'" using that by (simp add: ceil_ms_def)
  show ?case
  proof (cases "ceil_ms (end - now') \<le> 0 \<or> \<not> (readEvent io' < 0 \<or> readEvent io' = requestByte)")
    case False
    then have "\<not> end \<le> now'" using z by blast
    then have "(now, io) \<in> set rounds" using 2(2,3) by auto
    then obtain k where "k \<le> length rounds" "deadline_rounds end rounds = Some k"
      using 2(1) [OF _ refl _ 2(2)] False by auto
    then show ?thesis using False by (auto simp: Let_def)
  qed (auto simp: Let_def)
qed simp

lemma first_free_Some: "first_free xs = Some i \<Longrightarrow> i < length xs \<and> xs ! i = None"
proof (induction xs arbitrary: i)
  case (Cons x xs)
  then show ?case by (cases x) auto
qed simp

lemma first_free_None: "first_free xs = None \<longleftrightarrow> None \<notin> set xs"
  by (induction xs) (auto split: option.splits)

subsection \<open>Properties\<close>

text \<open>C2. Every callback runs at most once and none is lost: in every interleaving of threads that
  register and unregister with the watcher, no callback has run twice, none ran before the
  shutdown started or after its registration was dropped, and once the watcher has passed, every
  \<open>onStop\<close> call was either run or dropped.\<close>

theorem shutdown_callbacks_once:
  assumes "sd_reach w"
  shows "distinct (map cb_call (sd_ran (w_state w))) \<and>
    (sd_ran (w_state w) = [] \<or> sd_stopping (w_state w)) \<and>
    cb_call ` set (sd_ran (w_state w)) \<inter> cb_call ` set (w_dropped w) = {} \<and>
    (w_phase w = Called \<longrightarrow>
       cb_call ` set (sd_ran (w_state w)) \<union> cb_call ` set (w_dropped w) = {..<w_calls w})"
proof -
  have i: "sd_inv w" using sd_inv_reach [OF assms] by blast
  have u: "cb_call ` set (sd_ran (w_state w)) \<union> cb_call ` set (w_dropped w) = {..<w_calls w}"
    if "w_phase w = Called"
    using that i inv_sets(9) [OF i] by (simp add: sd_inv_def not_run_def)
  have s: "sd_ran (w_state w) = [] \<or> sd_stopping (w_state w)" using i by (auto simp: sd_inv_def)
  show ?thesis using inv_sets(6,8) [OF i] u s by simp
qed

text \<open>A run: a callback registers, the watcher marks the stop, a second one comes late and runs at
  once, the watcher runs the first.\<close>

lemma sample_run:
  "\<exists>w. sd_reach w \<and> map cb_call (sd_ran (w_state w)) = [1, 0] \<and> w_phase w = Called"
proof -
  let ?c0 = "\<lparr>cb_call = 0, cb_outcome = Returns\<rparr>" and ?c1 = "\<lparr>cb_call = 1, cb_outcome = Returns\<rparr>"
  let ?w1 = "world_init\<lparr>w_lock := Some ?c0, w_calls := 1\<rparr>"
  let ?w2 = "?w1\<lparr>w_lock := None, w_state := snd (onStop_add ?c0 (w_state ?w1))\<rparr>"
  let ?w3 = "?w2\<lparr>w_phase := Marked, w_state := mark_stopping 15 (w_state ?w2)\<rparr>"
  let ?w4 = "?w3\<lparr>w_calls := 2, w_state := onStop_late ?c1 (w_state ?w3)\<rparr>"
  let ?w5 = "?w4\<lparr>w_phase := Called, w_state := fst (run_callbacks (w_state ?w4))\<rparr>"
  note d = world_init_def sd_init_def onStop_add_def mark_stopping_def onStop_late_def run_callbacks_def Let_def
  have "sd_step world_init ?w1" using on_stop_test [of world_init ?c0] by (simp add: d)
  then have 1: "sd_reach ?w1" using sd_reach.init sd_reach.step by blast
  have "sd_step ?w1 ?w2" using on_stop_register [of ?w1 ?c0] by simp
  then have 2: "sd_reach ?w2" using 1 sd_reach.step by blast
  have "sd_step ?w2 ?w3" using watcher_mark [of ?w2 15] by (simp add: d)
  then have 3: "sd_reach ?w3" using 2 sd_reach.step by blast
  have "sd_step ?w3 ?w4" using on_stop_now [of ?w3 ?c1] by (simp add: d numeral_2_eq_2)
  then have 4: "sd_reach ?w4" using 3 sd_reach.step by blast
  have "sd_step ?w4 ?w5" using watcher_call [of ?w4] by (simp add: d)
  then have 5: "sd_reach ?w5" using 4 sd_reach.step by blast
  then show ?thesis by (intro exI [of _ ?w5]) (simp add: d)
qed

theorem shutdown_callbacks_once_witness:
  "\<exists>w. sd_reach w \<and> map cb_call (sd_ran (w_state w)) = [1, 0] \<and> w_phase w = Called \<and>
     distinct (map cb_call (sd_ran (w_state w)))"
proof -
  obtain w where w: "sd_reach w" "map cb_call (sd_ran (w_state w)) = [1, 0]" "w_phase w = Called"
    using sample_run by (elim exE conjE)
  show ?thesis using w shutdown_callbacks_once [OF w(1)] by (intro exI [of _ w] conjI) simp_all
qed

text \<open>C10. The implementation with its mutex, its separate stop flag and its ids refines the contract of the header:
  every run of the threads maps to a run of the machine that numbers the \<open>onStop\<close> calls, in which a call
  before the stop is promised and one after it runs at once, a registration drops the one callback that is
  its own, and the watcher passes once and runs what is still promised, each callback once and in the
  reverse order of registration. The runs are compared as a list, so a callback run twice, lost or run out
  of order has no abstract run.\<close>

theorem shutdown_refines:
  "sd_step\<^sup>*\<^sup>* world_init w \<Longrightarrow> once_step\<^sup>*\<^sup>* once_init (once_abs w)"
  using sdr.refines unfolding once_abs_init .

theorem shutdown_refines_witness:
  "\<exists>w. once_step\<^sup>*\<^sup>* once_init (once_abs w) \<and> os_fired (once_abs w) = [1, 0] \<and> os_passed (once_abs w)"
proof -
  obtain w where w: "sd_reach w" "map cb_call (sd_ran (w_state w)) = [1, 0]" "w_phase w = Called"
    using sample_run by (elim exE conjE)
  have "once_step\<^sup>*\<^sup>* once_init (once_abs w)" using w(1) unfolding sd_reach_run by (rule shutdown_refines)
  moreover have "os_fired (once_abs w) = [1, 0]" "os_passed (once_abs w)" using w(2,3) by (simp_all add: once_abs_def)
  ultimately show ?thesis by (intro exI conjI)
qed

text \<open>Registration ids are well formed: in every reachable state they are positive, increase in
  the order of registration and stay below the next one, so destroying the registration that
  \<open>onStop\<close> just returned removes exactly its callback, and an empty one removes nothing.\<close>

theorem shutdown_ids_wellformed:
  assumes "sd_reach w"
  shows "ids_ok (w_state w) \<and>
    (case onStop_add cb (w_state w) of (i, s) \<Rightarrow>
       i \<noteq> 0 \<and> ids_ok s \<and> sd_callbacks (snd (reg_reset i s)) = sd_callbacks (w_state w)) \<and>
    snd (reg_reset 0 (w_state w)) = w_state w"
proof -
  have o: "ids_ok (w_state w)" using sd_inv_reach [OF assms] by blast
  have "filter (\<lambda>c. fst c \<noteq> sd_nextId (w_state w)) (sd_callbacks (w_state w)) = sd_callbacks (w_state w)"
    using o by (auto simp: ids_ok_def filter_id_conv)
  then show ?thesis using o ids_ok_add [OF o, of cb]
    by (auto simp: onStop_add_def reg_reset_def ids_ok_def)
qed

theorem shutdown_ids_wellformed_witness:
  "ids_ok (w_state world_init)"
  using shutdown_ids_wellformed [OF sd_reach.init] by blast

text \<open>Waits: a notification with nobody waiting makes the next wait return at once, and only that
  one; the stop wins over it; a timeout means that neither flag was seen in any wake-up; and
  \<open>sleepFor\<close> reports false exactly when a stop was seen.\<close>

theorem wait_results:
  "fst (waitFor (notify (st, wk)) seen) = (if st then Stopping else Woken) \<and>
   snd (snd (waitFor (notify (False, wk)) seen)) = False \<and>
   (fst (waitFor now seen) = Timeout) = (\<forall>x\<in>set (now # seen). x = (False, False)) \<and>
   sleepFor st ss = (\<not> st \<and> True \<notin> set ss)"
proof -
  have 1: "cv_wait (\<lambda>(st, w). st \<or> w) (notify (st, wk)) seen = (st, True)" for st
    by (subst cv_wait_now) (auto simp: notify_def)
  let ?P = "\<lambda>x :: bool \<times> bool. case x of (st, w) \<Rightarrow> st \<or> w"
  have 2: "(fst (waitFor now seen) = Timeout) = (\<not> ?P (cv_wait ?P now seen))"
    by (auto simp: waitFor_def Let_def split: prod.splits)
  have 3: "(\<not> ?P (cv_wait ?P now seen)) = (\<forall>x\<in>set (now # seen). x = (False, False))"
  proof
    assume a: "\<not> ?P (cv_wait ?P now seen)"
    then show "\<forall>x\<in>set (now # seen). x = (False, False)"
      using cv_wait_fails [of ?P, OF a] by (auto split: prod.splits)
  next
    assume a: "\<forall>x\<in>set (now # seen). x = (False, False)"
    then have "cv_wait ?P now seen = (False, False)" by (induction seen arbitrary: now) auto
    then show "\<not> ?P (cv_wait ?P now seen)" by simp
  qed
  show ?thesis using 1 2 3 by (simp add: waitFor_def sleepFor_def cv_wait_bool)
qed

theorem wait_results_witness:
  "fst (waitFor (False, False) [(False, False)]) = Timeout"
  using wait_results [where now = "(False, False)" and seen = "[(False, False)]"] by simp

text \<open>The line of a forced exit is the unbounded text cut at 511 characters and closed by a
  newline: with any number of live loop guards and any names the 512-byte buffer is not overrun
  and the names appear in slot order, separated by commas.\<close>

theorem forced_line_bounded:
  "forced_line elapsed slots =
     take 511 (''shutdown: forced after '' @ show_nat elapsed @ ''s, still running:'' @
        (if live_names slots = [] then '''' else '' '' @ join_with '', '' (live_names slots))) @ [CHR 0x0A]
   \<and> length (forced_line elapsed slots) \<le> 512"
  using forced_line_full [of elapsed slots] by simp

text \<open>The forced exit is reached: whatever late requests and interruptions come, the wait ends no
  later than the first clock reading at the deadline; and a second signal ends it at once.\<close>

theorem forced_exit_reached:
  assumes "end \<le> now" and "(now, io) \<in> set rounds"
  shows "(\<exists>k\<le>length rounds. deadline_rounds end rounds = Some k) \<and>
    (0 < readEvent io' \<and> t < end \<longrightarrow> deadline_rounds end ((t, io') # rounds) = Some 1) \<and>
    (end \<le> t \<longrightarrow> deadline_rounds end ((t, io') # rounds) = Some 0)"
proof -
  have "0 < ceil_ms (end - t)" if "t < end"
  proof -
    have "(- (end - t)) div 1000000 < 0" using that by (simp add: div_neg_pos_less0)
    then show ?thesis by (simp add: ceil_ms_def)
  qed
  moreover have "ceil_ms (end - t) \<le> 0" if "end \<le> t" using that by (simp add: ceil_ms_def)
  ultimately show ?thesis using deadline_rounds_reached [OF assms] by (auto simp: requestByte_def)
qed

theorem forced_exit_reached_witness:
  "deadline_rounds 5000000 [(0, \<lparr>first_read = Some 15, poll_result = 1, second_read = None\<rparr>),
      (5000000, \<lparr>first_read = None, poll_result = 0, second_read = None\<rparr>)] = Some 1"
  using forced_exit_reached [of 5000000 5000000 "\<lparr>first_read = None, poll_result = 0, second_read = None\<rparr>"
      "[(5000000, \<lparr>first_read = None, poll_result = 0, second_read = None\<rparr>)]"
      "\<lparr>first_read = Some 15, poll_result = 1, second_read = None\<rparr>" 0]
  by (simp add: readEvent_def)

text \<open>Loop guards: a guard takes a slot nobody holds and changes no other; without a free slot it
  holds none and its end changes nothing; leaving gives back the slots of before.\<close>

theorem loop_guard_slots:
  "case loop_enter name (slots, warned) of (slot, (slots', warned'), warns) \<Rightarrow>
     loop_leave slot slots' = slots \<and> length slots' = length slots \<and>
     (slot = - 1) = (None \<notin> set slots) \<and> warns = (slot = - 1 \<and> \<not> warned) \<and>
     (slot \<ge> 0) = (nat slot < length slots \<and> slots ! nat slot = None \<and> slots' = slots[nat slot := Some name] \<and> slot \<noteq> - 1)"
proof (cases "first_free slots")
  case (Some i)
  have "None \<in> set slots" using first_free_None [of slots] Some by auto
  moreover have "slots[i := None] = slots" using first_free_Some [OF Some] by (metis list_update_id)
  ultimately show ?thesis using first_free_Some [OF Some] Some by (simp add: loop_enter_def loop_leave_def)
next
  case None
  then show ?thesis using first_free_None [of slots] by (auto simp: loop_enter_def loop_leave_def)
qed

end
