(* ===== verification/Apcu.thy ===== *)
theory Apcu
  imports MapExt "HOL-Library.AList"
begin

text \<open>
  \<^verbatim>\<open>caching/apcu2.h\<close>, \<^verbatim>\<open>caching/apcu2.cpp\<close>, \<^verbatim>\<open>caching/cachable.h\<close>: the in-process cache.

  The Boost multi-index container is the association list of its unique key index; the other two
  indexes select rows by type hash and by expiry. A cached object has type \<open>'o\<close>; its virtual
  \<^verbatim>\<open>serialize\<close> and, per class, \<^verbatim>\<open>deserialize\<close>, the type hash and the dynamic cast are
  parameters. The clock is the argument \<open>now\<close>. The file is the value \<^verbatim>\<open>QDataStream\<close> would read
  back. Each operation runs under the cache's lock and is one step.
\<close>

subsection \<open>Rows\<close>

text \<open>What a \<^verbatim>\<open>std::any\<close> of the cache holds: nothing, a \<^verbatim>\<open>QByteArray\<close> or a shared \<^verbatim>\<open>Cachable\<close>.\<close>

datatype 'o any = NoValue | Pod string | Obj 'o

record 'o row =
  typeHashCode :: nat
  expireAt :: int
  persistent :: bool
  any_value :: "'o any"

definition row_default :: "'o row" where
  "row_default = \<lparr>typeHashCode = 0, expireAt = 1, persistent = False, any_value = NoValue\<rparr>"

definition setTTL :: "int \<Rightarrow> int \<Rightarrow> 'o row \<Rightarrow> 'o row" where
  "setTTL now ttl r = r\<lparr>expireAt := now + ttl\<rparr>"

definition expired_now :: "int \<Rightarrow> 'o row \<Rightarrow> bool" where
  "expired_now now r = (now > expireAt r)"

definition expired :: "int \<Rightarrow> 'o row \<Rightarrow> bool" where
  "expired ts r = (if expireAt r \<noteq> 0 then ts > expireAt r else False)"

definition setPOD :: "string \<Rightarrow> 'o row \<Rightarrow> 'o row" where
  "setPOD bytes r = r\<lparr>any_value := Pod bytes\<rparr>"

text \<open>A class of cached objects.\<close>

record 'o cachable =
  cls_hash :: nat
  cls_deserialize :: "string \<Rightarrow> 'o"
  cls_isa :: "'o \<Rightarrow> bool"

definition setValue :: "'o cachable \<Rightarrow> 'o \<Rightarrow> 'o row \<Rightarrow> 'o row" where
  "setValue cls obj r = r\<lparr>typeHashCode := cls_hash cls, any_value := Obj obj\<rparr>"

subsection \<open>The cache\<close>

text \<open>\<open>ap_rows\<close> is None while the cache is disabled (a null pointer).\<close>

record 'o apcu =
  ap_rows :: "(string \<times> 'o row) list option"
  ap_overwrite :: nat
  ap_insert :: nat
  ap_deleted :: nat
  ap_hits :: nat
  ap_miss :: nat

definition fetchInner :: "string \<Rightarrow> 'o apcu \<Rightarrow> 'o any \<times> 'o apcu" where
  "fetchInner key c =
     (case ap_rows c of
        None \<Rightarrow> (NoValue, c)
      | Some rows \<Rightarrow>
          (case map_of rows key of
             Some r \<Rightarrow> (any_value r, c\<lparr>ap_hits := ap_hits c + 1\<rparr>)
           | None \<Rightarrow> (NoValue, c\<lparr>ap_miss := ap_miss c + 1\<rparr>)))"

definition storeRow :: "string \<Rightarrow> 'o row \<Rightarrow> bool \<Rightarrow> 'o apcu \<Rightarrow> 'o apcu" where
  "storeRow key r overwrite c =
     (case ap_rows c of
        None \<Rightarrow> c
      | Some rows \<Rightarrow>
          (case map_of rows key of
             Some _ \<Rightarrow>
               (if overwrite
                then c\<lparr>ap_overwrite := ap_overwrite c + 1, ap_rows := Some (AList.update key r rows)\<rparr>
                else c)
           | None \<Rightarrow> c\<lparr>ap_insert := ap_insert c + 1, ap_rows := Some (AList.update key r rows)\<rparr>))"

definition remove_key :: "string \<Rightarrow> 'o apcu \<Rightarrow> 'o apcu" where
  "remove_key key c =
     (case ap_rows c of
        None \<Rightarrow> c
      | Some rows \<Rightarrow>
          (if map_of rows key \<noteq> None
           then c\<lparr>ap_rows := Some (AList.delete key rows), ap_deleted := ap_deleted c + 1\<rparr>
           else c))"

text \<open>The template \<open>storeInner\<close>: a TTL of 0 means no expiry.\<close>

definition storeInner ::
  "int \<Rightarrow> 'o cachable \<Rightarrow> string \<Rightarrow> 'o \<Rightarrow> bool \<Rightarrow> nat \<Rightarrow> bool \<Rightarrow> 'o apcu \<Rightarrow> 'o apcu" where
  "storeInner now cls key obj overwrite ttl persist c =
     (let expire = (if ttl \<noteq> 0 then now + int ttl else 0);
          r = (setValue cls obj row_default)\<lparr>expireAt := expire, persistent := persist\<rparr>
      in storeRow key r overwrite c)"

definition apcuStore_row :: "string \<Rightarrow> 'o row \<Rightarrow> 'o apcu \<Rightarrow> 'o apcu" where
  "apcuStore_row key r c = storeRow key r True c"

definition apcuStore :: "int \<Rightarrow> 'o cachable \<Rightarrow> string \<Rightarrow> 'o \<Rightarrow> nat \<Rightarrow> bool \<Rightarrow> 'o apcu \<Rightarrow> 'o apcu" where
  "apcuStore now cls key obj ttl persist c = storeInner now cls key obj True ttl persist c"

definition storePOD :: "int \<Rightarrow> string \<Rightarrow> string \<Rightarrow> nat \<Rightarrow> bool \<Rightarrow> 'o apcu \<Rightarrow> 'o apcu" where
  "storePOD now key bytes ttl persist c =
     apcuStore_row key ((setPOD bytes row_default)\<lparr>expireAt := now + int ttl, persistent := persist\<rparr>) c"

definition apcuRemove :: "string \<Rightarrow> 'o apcu \<Rightarrow> 'o apcu" where
  "apcuRemove key c = remove_key key c"

text \<open>Reading: \<^verbatim>\<open>std::bad_any_cast\<close> is an error value.\<close>

definition fetchPOD :: "string \<Rightarrow> 'o apcu \<Rightarrow> (string + string \<times> bool) \<times> 'o apcu" where
  "fetchPOD key c =
     (let (v, c') = fetchInner key c
      in case v of
           NoValue \<Rightarrow> (Inr ([], False), c')
         | Pod b \<Rightarrow> (Inr (b, True), c')
         | Obj _ \<Rightarrow> (Inl ''bad any_cast'', c'))"

text \<open>The value written back through the pointer \<open>fetchInner\<close> gave.\<close>

definition write_back :: "string \<Rightarrow> 'o any \<Rightarrow> 'o apcu \<Rightarrow> 'o apcu" where
  "write_back key v c =
     (case ap_rows c of
        None \<Rightarrow> c
      | Some rows \<Rightarrow>
          (case map_of rows key of
             None \<Rightarrow> c
           | Some r \<Rightarrow> c\<lparr>ap_rows := Some (AList.update key (r\<lparr>any_value := v\<rparr>) rows)\<rparr>))"

definition fetch :: "'o cachable \<Rightarrow> string \<Rightarrow> 'o apcu \<Rightarrow> 'o option \<times> 'o apcu" where
  "fetch cls key c =
     (let (v, c') = fetchInner key c
      in case v of
           NoValue \<Rightarrow> (None, c')
         | Pod b \<Rightarrow> (let o1 = cls_deserialize cls b in (Some o1, write_back key (Obj o1) c'))
         | Obj o1 \<Rightarrow> ((if cls_isa cls o1 then Some o1 else None), c'))"

definition getAllByTypeInner :: "nat \<Rightarrow> 'o apcu \<Rightarrow> 'o any list" where
  "getAllByTypeInner h c =
     (case ap_rows c of
        None \<Rightarrow> []
      | Some rows \<Rightarrow> map (\<lambda>(k, r). any_value r) (filter (\<lambda>(k, r). typeHashCode r = h) rows))"

fun cast_all :: "'o cachable \<Rightarrow> 'o any list \<Rightarrow> string + 'o option list" where
  "cast_all cls [] = Inr []"
| "cast_all cls (v # vs) =
     (case v of
        Obj o1 \<Rightarrow>
          (case cast_all cls vs of
             Inl e \<Rightarrow> Inl e
           | Inr os \<Rightarrow> Inr ((if cls_isa cls o1 then Some o1 else None) # os))
      | _ \<Rightarrow> Inl ''bad any_cast'')"

definition getAllByType :: "'o cachable \<Rightarrow> 'o apcu \<Rightarrow> string + 'o option list" where
  "getAllByType cls c = cast_all cls (getAllByTypeInner (cls_hash cls) c)"

subsection \<open>Garbage collection\<close>

text \<open>One pass: the rows from the lower bound 1 to the upper bound \<open>now\<close> of the expiry index go.\<close>

definition collectable :: "int \<Rightarrow> 'o row \<Rightarrow> bool" where
  "collectable now r = (1 \<le> expireAt r \<and> expireAt r \<le> now)"

definition gc_pass :: "int \<Rightarrow> 'o apcu \<Rightarrow> 'o apcu" where
  "gc_pass now c =
     (case ap_rows c of
        None \<Rightarrow> c
      | Some rows \<Rightarrow>
          c\<lparr>ap_rows := Some (filter (\<lambda>(k, r). \<not> collectable now r) rows),
            ap_deleted := ap_deleted c + length (filter (\<lambda>(k, r). collectable now r) rows)\<rparr>)"

subsection \<open>The disk\<close>

definition apcu_version :: int where
  "apcu_version = 4"

text \<open>The file: the version and, per key, what the stream operators of \<^verbatim>\<open>DiskValue\<close> write, which is the
  expiry on 32 bits and the bytes.\<close>

type_synonym disk_file = "int \<times> (string \<times> int \<times> string) list"

definition disk_row :: "('o \<Rightarrow> string) \<Rightarrow> string \<times> 'o row \<Rightarrow> (string \<times> int \<times> string) list" where
  "disk_row serialize kr = (case kr of (key, r) \<Rightarrow>
     if \<not> persistent r then []
     else case any_value r of
       Pod b \<Rightarrow> [(key, expireAt r mod 2 ^ 32, b)]
     | Obj o1 \<Rightarrow> (if serialize o1 = [] then [] else [(key, expireAt r mod 2 ^ 32, serialize o1)])
     | NoValue \<Rightarrow> [])"

definition diskSyncP2 :: "('o \<Rightarrow> string) \<Rightarrow> 'o apcu \<Rightarrow> disk_file option" where
  "diskSyncP2 serialize c =
     (case ap_rows c of
        None \<Rightarrow> None
      | Some rows \<Rightarrow> Some (apcu_version, concat (map (disk_row serialize) rows)))"

definition loaded_row :: "int \<times> string \<Rightarrow> 'o row" where
  "loaded_row eb = (case eb of (e, b) \<Rightarrow>
     \<lparr>typeHashCode = 0, expireAt = e, persistent = True, any_value = Pod b\<rparr>)"

text \<open>\<open>emplace\<close> keeps the row that is there. None is the exit with status 1.\<close>

definition emplace :: "string \<Rightarrow> 'o row \<Rightarrow> (string \<times> 'o row) list \<Rightarrow> (string \<times> 'o row) list" where
  "emplace key r rows = (if map_of rows key = None then AList.update key r rows else rows)"

definition diskLoad :: "disk_file option \<Rightarrow> (string \<times> 'o row) list \<Rightarrow> (string \<times> 'o row) list option" where
  "diskLoad file rows =
     (case file of
        None \<Rightarrow> Some rows
      | Some (v, disk_lines) \<Rightarrow>
          if v \<noteq> apcu_version then None
          else Some (fold (\<lambda>(key, line). emplace key (loaded_row line)) disk_lines rows))"

definition apcu_start :: "bool \<Rightarrow> disk_file option \<Rightarrow> 'o apcu option" where
  "apcu_start disabled file =
     (let c = \<lparr>ap_rows = None, ap_overwrite = 0, ap_insert = 0, ap_deleted = 0, ap_hits = 0, ap_miss = 0\<rparr>
      in if disabled then Some c
         else map_option (\<lambda>rows. c\<lparr>ap_rows := Some rows\<rparr>) (diskLoad file []))"

text \<open>The save of a collector round: it is due when the period has passed since the last one.\<close>

definition gc_save :: "nat \<Rightarrow> int \<Rightarrow> int \<Rightarrow> bool \<times> int" where
  "gc_save diskSaveTime now lastSync =
     (if diskSaveTime \<noteq> 0 \<and> now > lastSync + int diskSaveTime then (True, now) else (False, lastSync))"

subsection \<open>The cache as a map\<close>

definition apcu_look :: "'o apcu \<Rightarrow> string \<Rightarrow> 'o row option" where
  "apcu_look c key = (case ap_rows c of None \<Rightarrow> None | Some rows \<Rightarrow> map_of rows key)"

text \<open>Enabled, and one row per key.\<close>

definition apcu_ok :: "'o apcu \<Rightarrow> bool" where
  "apcu_ok c = (case ap_rows c of None \<Rightarrow> False | Some rows \<Rightarrow> distinct (map fst rows))"

lemma apcu_okE: "apcu_ok c \<Longrightarrow> \<exists>rows. ap_rows c = Some rows \<and> distinct (map fst rows)"
  by (simp add: apcu_ok_def split: option.splits)

lemma apcu_ok_Some [simp]: "ap_rows c = Some rows \<Longrightarrow> apcu_ok c = distinct (map fst rows)"
  by (simp add: apcu_ok_def)

lemma apcu_look_Some [simp]: "ap_rows c = Some rows \<Longrightarrow> apcu_look c = map_of rows"
  by (simp add: apcu_look_def fun_eq_iff)

lemma storeRow_look:
  assumes "apcu_ok c"
  shows "apcu_look (storeRow key r ow c) =
    (if ow \<or> apcu_look c key = None then (apcu_look c)(key \<mapsto> r) else apcu_look c)"
    and "apcu_ok (storeRow key r ow c)"
  using apcu_okE [OF assms]
  by (auto simp: storeRow_def update_conv' distinct_update split: option.splits)

lemma remove_look:
  assumes "apcu_ok c"
  shows "apcu_look (remove_key key c) = (apcu_look c)(key := None)" and "apcu_ok (remove_key key c)"
proof -
  obtain rows where r: "ap_rows c = Some rows" "distinct (map fst rows)" using apcu_okE [OF assms] by blast
  then show "apcu_look (remove_key key c) = (apcu_look c)(key := None)" and "apcu_ok (remove_key key c)"
    by (cases "map_of rows key = None"; simp add: remove_key_def delete_conv' distinct_delete fun_upd_idem)+
qed

lemma map_of_filter_rows:
  "distinct (map fst rows) \<Longrightarrow>
   map_of (filter (\<lambda>(k, r). P r) rows) k = (case map_of rows k of Some r \<Rightarrow> if P r then Some r else None | None \<Rightarrow> None)"
  by (induction rows) (auto simp: map_of_eq_None_iff image_iff split: option.splits)

lemma gc_look:
  assumes "apcu_ok c"
  shows "apcu_look (gc_pass now c) k =
      (case apcu_look c k of Some r \<Rightarrow> if collectable now r then None else Some r | None \<Rightarrow> None)"
    and "apcu_ok (gc_pass now c)"
  using apcu_okE [OF assms]
  by (auto simp: gc_pass_def map_of_filter_rows distinct_map_filter split: option.splits)

lemma fetchInner_look:
  "apcu_look (snd (fetchInner key c)) = apcu_look c"
  "fst (fetchInner key c) = (case apcu_look c key of None \<Rightarrow> NoValue | Some r \<Rightarrow> any_value r)"
  "ap_rows (snd (fetchInner key c)) = ap_rows c"
  by (auto simp: fetchInner_def apcu_look_def split: option.splits)

lemma write_back_look:
  assumes "apcu_ok c"
  shows "apcu_look (write_back key v c) =
      (apcu_look c)(key := map_option (\<lambda>r. r\<lparr>any_value := v\<rparr>) (apcu_look c key))"
    and "apcu_ok (write_back key v c)"
  using apcu_okE [OF assms]
  by (auto simp: write_back_def update_conv' distinct_update fun_upd_idem split: option.splits)

lemma apcu_ok_rows: "ap_rows c = ap_rows d \<Longrightarrow> apcu_ok c = apcu_ok d"
  by (simp add: apcu_ok_def)

interpretation apcu_map: kv_store apcuStore_row apcu_look apcuRemove apcu_ok
  by unfold_locales (simp_all add: apcuStore_row_def apcuRemove_def storeRow_look remove_look)

lemma emplace_wf: "distinct (map fst rows) \<Longrightarrow> distinct (map fst (emplace key r rows))"
  by (simp add: emplace_def distinct_update)

interpretation disk_map: first_wins_map emplace map_of "\<lambda>rows. distinct (map fst rows)"
proof unfold_locales
  fix k :: string and r :: "'a row" and rows :: "(string \<times> 'a row) list"
  assume "distinct (map fst rows)"
  show "map_of (emplace k r rows) = (map_of rows)(k := Some (case map_of rows k of None \<Rightarrow> r | Some x \<Rightarrow> x))"
    by (auto simp: emplace_def update_conv' fun_eq_iff split: option.splits)
qed (rule emplace_wf)

subsection \<open>The disk\<close>

lemma disk_row_key: "l \<in> set (disk_row ser kr) \<Longrightarrow> fst l = fst kr"
  by (cases kr; cases "any_value (snd kr)") (auto simp: disk_row_def split: if_splits)

lemma disk_rows_keys: "fst ` set (concat (map (disk_row ser) rows)) \<subseteq> fst ` set rows"
proof
  fix k assume "k \<in> fst ` set (concat (map (disk_row ser) rows))"
  then obtain l kr where "k = fst l" "l \<in> set (disk_row ser kr)" "kr \<in> set rows" by auto
  then show "k \<in> fst ` set rows" using disk_row_key [of l ser kr] by auto
qed

lemma map_of_disk_rows:
  "distinct (map fst rows) \<Longrightarrow>
   map_of (concat (map (disk_row ser) rows)) key =
     (case map_of rows key of None \<Rightarrow> None | Some r \<Rightarrow> map_of (disk_row ser (key, r)) key)"
proof (induction rows)
  case (Cons kr rows)
  obtain k r where kr: "kr = (k, r)" by (cases kr)
  have d: "map_of (disk_row ser (k, r)) key = None" if "key \<noteq> k"
    using that by (auto simp: disk_row_def split: any.splits)
  have n: "map_of (concat (map (disk_row ser) rows)) k = None"
    using Cons.prems kr disk_rows_keys [of ser rows] by (auto simp: map_of_eq_None_iff)
  show ?case
    using Cons.IH Cons.prems kr d n by (cases "key = k") (auto simp: map_add_def split: option.splits)
qed simp

lemma start_look:
  fixes c :: "'o apcu"
  assumes "apcu_ok c"
  shows "\<exists>c' :: 'o apcu. apcu_start False (diskSyncP2 ser c) = Some c' \<and> apcu_ok c' \<and>
    (\<forall>key. apcu_look c' key =
       (case apcu_look c key of None \<Rightarrow> None | Some r \<Rightarrow> map_option loaded_row (map_of (disk_row ser (key, r)) key)))"
proof -
  obtain rows where r: "ap_rows c = Some rows" "distinct (map fst rows)" using apcu_okE [OF assms] by blast
  let ?ls = "concat (map (disk_row ser) rows)"
  let ?kvs = "map (\<lambda>(k, l). (k, loaded_row l)) ?ls"
  have f: "fold (\<lambda>(k, l). emplace k (loaded_row l)) ls rs = disk_map.fill (map (\<lambda>(k, l). (k, loaded_row l)) ls) rs" for ls rs
    by (induction ls arbitrary: rs) (auto simp: disk_map.fill_def)
  have l: "map_of (disk_map.fill ?kvs []) key = map_option loaded_row (map_of ?ls key)" for key
    using disk_map.look_fill [of "[]" ?kvs key] by (simp add: map_of_map)
  have "apcu_start False (diskSyncP2 ser c) = Some
     \<lparr>ap_rows = Some (disk_map.fill ?kvs []), ap_overwrite = 0, ap_insert = 0, ap_deleted = 0, ap_hits = 0, ap_miss = 0\<rparr>"
    by (simp add: apcu_start_def diskSyncP2_def diskLoad_def r(1) f)
  moreover have "distinct (map fst (disk_map.fill ?kvs []))" by (rule disk_map.ok_fill) simp
  ultimately show ?thesis using r by (auto simp: l map_of_disk_rows split: option.splits)
qed

subsection \<open>Sequences of operations\<close>

datatype 'o apcu_op =
    OpStore string "'o row" bool
  | OpRemove string
  | OpFetchPod string
  | OpFetch "'o cachable" string
  | OpGc int

fun run_op :: "'o apcu_op \<Rightarrow> 'o apcu \<Rightarrow> 'o apcu" where
  "run_op (OpStore key r ow) c = storeRow key r ow c"
| "run_op (OpRemove key) c = remove_key key c"
| "run_op (OpFetchPod key) c = snd (fetchPOD key c)"
| "run_op (OpFetch cls key) c = snd (fetch cls key c)"
| "run_op (OpGc now) c = gc_pass now c"

definition apcu_size :: "'o apcu \<Rightarrow> nat" where
  "apcu_size c = (case ap_rows c of None \<Rightarrow> 0 | Some rows \<Rightarrow> length rows)"

text \<open>The books: rows plus deletions minus insertions.\<close>

definition balanced :: "'o apcu \<Rightarrow> 'o apcu \<Rightarrow> bool" where
  "balanced c d \<longleftrightarrow> apcu_size d + ap_deleted d + ap_insert c = apcu_size c + ap_insert d + ap_deleted c"

lemma length_update: "length (AList.update k v al) = (if k \<in> fst ` set al then length al else Suc (length al))"
  by (induction al) auto

lemma length_delete:
  "distinct (map fst al) \<Longrightarrow> length (AList.delete k al) = (if k \<in> fst ` set al then length al - 1 else length al)"
proof (induction al)
  case (Cons a al)
  then show ?case by (cases a; cases al) (auto simp: AList.delete_eq)
qed simp

lemma length_filter_split: "length (filter P xs) + length (filter (\<lambda>x. \<not> P x) xs) = length xs"
  by (induction xs) auto

lemma fetchPOD_rows: "ap_rows (snd (fetchPOD key c)) = ap_rows c"
  "ap_insert (snd (fetchPOD key c)) = ap_insert c" "ap_deleted (snd (fetchPOD key c)) = ap_deleted c"
  by (auto simp: fetchPOD_def fetchInner_def Let_def split: option.splits any.splits)

lemma fetchInner_counts:
  "ap_insert (snd (fetchInner key c)) = ap_insert c" "ap_deleted (snd (fetchInner key c)) = ap_deleted c"
  by (auto simp: fetchInner_def split: option.splits)

lemma write_back_counts:
  "ap_insert (write_back key v c) = ap_insert c" "ap_deleted (write_back key v c) = ap_deleted c"
  "apcu_size (write_back key v c) = apcu_size c"
proof -
  have "k \<in> fst ` set rows" if "map_of rows k = Some r" for k r and rows :: "(string \<times> 'a row) list"
    using map_of_SomeD [OF that] by (force simp: image_iff)
  then show "ap_insert (write_back key v c) = ap_insert c" "ap_deleted (write_back key v c) = ap_deleted c"
    "apcu_size (write_back key v c) = apcu_size c"
    by (cases "ap_rows c"; cases "map_of (the (ap_rows c)) key"; simp add: write_back_def apcu_size_def length_update)+
qed

lemma fetch_facts:
  "ap_insert (snd (fetch cls key c)) = ap_insert c" "ap_deleted (snd (fetch cls key c)) = ap_deleted c"
  "apcu_size (snd (fetch cls key c)) = apcu_size c" "apcu_ok c \<Longrightarrow> apcu_ok (snd (fetch cls key c))"
proof -
  obtain v d where vd: "fetchInner key c = (v, d)" by fastforce
  have d: "ap_rows d = ap_rows c" "ap_insert d = ap_insert c" "ap_deleted d = ap_deleted c"
    using fetchInner_look(3) [of key c] fetchInner_counts [of key c] vd by auto
  have ok: "apcu_ok d = apcu_ok c" using d(1) by (rule apcu_ok_rows)
  show "ap_insert (snd (fetch cls key c)) = ap_insert c" "ap_deleted (snd (fetch cls key c)) = ap_deleted c"
    "apcu_size (snd (fetch cls key c)) = apcu_size c" "apcu_ok c \<Longrightarrow> apcu_ok (snd (fetch cls key c))"
  proof -
    show "ap_insert (snd (fetch cls key c)) = ap_insert c"
      by (cases v) (simp_all add: fetch_def vd Let_def write_back_counts d)
    show "ap_deleted (snd (fetch cls key c)) = ap_deleted c"
      by (cases v) (simp_all add: fetch_def vd Let_def write_back_counts d)
    have "apcu_size d = apcu_size c" by (simp add: apcu_size_def d(1))
    then show "apcu_size (snd (fetch cls key c)) = apcu_size c"
      by (cases v) (simp_all add: fetch_def vd Let_def write_back_counts)
    show "apcu_ok (snd (fetch cls key c))" if "apcu_ok c"
    proof -
      have "apcu_ok d" using that ok by blast
      then show ?thesis using write_back_look(2) [of d]
        by (cases v) (simp_all add: fetch_def vd Let_def del: apcu_ok_Some)
    qed
  qed
qed

lemma balanced_op:
  assumes "apcu_ok c"
  shows "apcu_ok (run_op opn c) \<and> balanced c (run_op opn c)"
proof -
  obtain rows where r: "ap_rows c = Some rows" "distinct (map fst rows)" using apcu_okE [OF assms] by blast
  show ?thesis
  proof (cases opn)
    case (OpStore k v ow)
    have "k \<in> fst ` set rows \<longleftrightarrow> map_of rows k \<noteq> None" by (metis map_of_eq_None_iff)
    then show ?thesis using r OpStore storeRow_look(2) [OF assms, of k v ow]
      by (cases "map_of rows k") (simp_all add: balanced_def apcu_size_def storeRow_def length_update)
  next
    case (OpRemove k)
    have "k \<in> fst ` set rows \<longleftrightarrow> map_of rows k \<noteq> None" by (metis map_of_eq_None_iff)
    moreover have "k \<in> fst ` set rows \<Longrightarrow> length rows \<noteq> 0" by auto
    ultimately show ?thesis using r OpRemove remove_look(2) [OF assms, of k]
      by (cases "map_of rows k") (simp_all add: balanced_def apcu_size_def remove_key_def length_delete)
  next
    case (OpFetchPod k)
    then show ?thesis using assms apcu_ok_rows [OF fetchPOD_rows(1), of k c]
      by (simp add: balanced_def apcu_size_def fetchPOD_rows)
  next
    case (OpFetch cls k)
    then show ?thesis using assms by (simp add: balanced_def fetch_facts)
  next
    case (OpGc now)
    have "length (filter (\<lambda>(k, r). collectable now r) rows) + length (filter (\<lambda>(k, r). \<not> collectable now r) rows) = length rows"
      using length_filter_split [of "\<lambda>(k, r). collectable now r" rows] by (simp add: case_prod_unfold)
    then show ?thesis using r OpGc gc_look(2) [OF assms, of now]
      by (simp add: balanced_def apcu_size_def gc_pass_def)
  qed
qed

lemma balanced_run:
  "apcu_ok c \<Longrightarrow> apcu_ok (fold run_op ops c) \<and> balanced c (fold run_op ops c)"
proof (induction ops arbitrary: c)
  case (Cons x xs)
  have b: "apcu_ok (run_op x c)" "balanced c (run_op x c)" using balanced_op [OF Cons.prems, of x] by auto
  then show ?case using Cons.IH [OF b(1)] by (simp add: balanced_def)
qed (simp add: balanced_def)

subsection \<open>Properties\<close>

text \<open>C13. The cache refines a map from keys to rows: storing replaces only when asked to or when the key
  is absent, removing and collecting delete exactly the key and the rows whose expiry lies in
  1..now, reading changes no row's presence, and what is read is the stored value (a byte string
  asked for as an object is deserialised, an object asked for as bytes is an error).\<close>

theorem apcu_refines_map:
  assumes "apcu_ok c"
  shows "apcu_look (storeRow key r ow c) =
      (if ow \<or> apcu_look c key = None then (apcu_look c)(key \<mapsto> r) else apcu_look c) \<and>
    apcu_look (remove_key key c) = (apcu_look c)(key := None) \<and>
    apcu_look (gc_pass now c) k =
      (case apcu_look c k of None \<Rightarrow> None | Some r \<Rightarrow> if 1 \<le> expireAt r \<and> expireAt r \<le> now then None else Some r) \<and>
    dom (apcu_look (snd (fetch cls key c))) = dom (apcu_look c) \<and>
    fst (fetch cls key c) = (case apcu_look c key of None \<Rightarrow> None
      | Some r \<Rightarrow> (case any_value r of NoValue \<Rightarrow> None | Pod b \<Rightarrow> Some (cls_deserialize cls b)
          | Obj x \<Rightarrow> if cls_isa cls x then Some x else None)) \<and>
    fst (fetchPOD key c) = (case apcu_look c key of None \<Rightarrow> Inr ([], False)
      | Some r \<Rightarrow> (case any_value r of NoValue \<Rightarrow> Inr ([], False) | Pod b \<Rightarrow> Inr (b, True)
          | Obj x \<Rightarrow> Inl ''bad any_cast''))"
proof -
  obtain v d where vd: "fetchInner key c = (v, d)" by fastforce
  have d: "apcu_look d = apcu_look c" "apcu_ok d"
    and v: "v = (case apcu_look c key of None \<Rightarrow> NoValue | Some r \<Rightarrow> any_value r)"
    using fetchInner_look [of key c] vd assms apcu_ok_rows [of d c] by auto
  have "dom ((apcu_look c)(key := map_option f (apcu_look c key))) = dom (apcu_look c)" for f
    by (auto simp: dom_def)
  then have "dom (apcu_look (snd (fetch cls key c))) = dom (apcu_look c)"
    using write_back_look(1) [OF d(2)] d(1)
    by (cases v) (simp_all add: fetch_def vd Let_def del: apcu_look_Some)
  moreover have "fst (fetch cls key c) = (case apcu_look c key of None \<Rightarrow> None
      | Some r \<Rightarrow> (case any_value r of NoValue \<Rightarrow> None | Pod b \<Rightarrow> Some (cls_deserialize cls b)
          | Obj x \<Rightarrow> if cls_isa cls x then Some x else None))"
    by (cases "apcu_look c key"; cases v) (use v in \<open>auto simp: fetch_def vd Let_def\<close>)
  moreover have "fst (fetchPOD key c) = (case apcu_look c key of None \<Rightarrow> Inr ([], False)
      | Some r \<Rightarrow> (case any_value r of NoValue \<Rightarrow> Inr ([], False) | Pod b \<Rightarrow> Inr (b, True)
          | Obj x \<Rightarrow> Inl ''bad any_cast''))"
    by (cases "apcu_look c key"; cases v) (use v in \<open>auto simp: fetchPOD_def vd Let_def\<close>)
  ultimately show ?thesis
    using storeRow_look(1) [OF assms, of key r ow] remove_look(1) [OF assms, of key] gc_look(1) [OF assms, of now k, unfolded collectable_def]
    by (simp del: apcu_look_Some)
qed

definition one_row :: "nat apcu" where
  "one_row = \<lparr>ap_rows = Some [(''k'', row_default\<lparr>any_value := Pod ''v''\<rparr>)],
     ap_overwrite = 0, ap_insert = 1, ap_deleted = 0, ap_hits = 0, ap_miss = 0\<rparr>"

theorem apcu_refines_map_witness:
  "apcu_look (remove_key ''k'' one_row) = (apcu_look one_row)(''k'' := None)"
proof -
  have "apcu_ok one_row" by (simp add: apcu_ok_def one_row_def)
  then show ?thesis using apcu_refines_map [of one_row "''k''"] by blast
qed

text \<open>The counters keep the books: after any sequence of operations there is one row per key, and
  the rows and the deletions together grew by exactly the insertions.\<close>

theorem apcu_books:
  assumes "apcu_ok c"
  shows "apcu_ok (fold run_op ops c) \<and>
    apcu_size (fold run_op ops c) + ap_deleted (fold run_op ops c) + ap_insert c =
    apcu_size c + ap_insert (fold run_op ops c) + ap_deleted c"
  using balanced_run [OF assms, of ops] by (simp add: balanced_def)

theorem apcu_books_witness:
  "apcu_ok (fold run_op [OpStore ''a'' row_default False, OpGc 5] one_row)"
proof -
  have "apcu_ok one_row" by (simp add: apcu_ok_def one_row_def)
  then show ?thesis using apcu_books by blast
qed

text \<open>Restart: what a process saved, the next one finds. A persistent object with an expiry that
  fits 32 bits comes back equal on the first typed read, with its expiry; what was not marked
  persistent does not; and since the type hash is not in the file, a search by type finds none
  of the reloaded objects until they are stored again.\<close>

theorem apcu_restart:
  fixes c :: "'o apcu"
  assumes "apcu_ok c" and "apcu_look c key = Some r" and "any_value r = Obj x" and "persistent r"
    and "0 \<le> expireAt r" and "expireAt r < 2 ^ 32" and "serialize x \<noteq> []"
    and "cls_deserialize cls (serialize x) = x" and "cls_hash cls \<noteq> 0"
    and "apcu_look c other = Some r'" and "\<not> persistent r'"
  shows "\<exists>c' :: 'o apcu. apcu_start False (diskSyncP2 serialize c) = Some c' \<and>
    fst (fetch cls key c') = Some x \<and>
    map_option expireAt (apcu_look c' key) = Some (expireAt r) \<and>
    apcu_look c' other = None \<and>
    getAllByType cls c' = Inr []"
proof -
  obtain c' :: "'o apcu" where s: "apcu_start False (diskSyncP2 serialize c) = Some c'" "apcu_ok c'"
    and l: "\<And>k. apcu_look c' k = (case apcu_look c k of None \<Rightarrow> None
        | Some r \<Rightarrow> map_option loaded_row (map_of (disk_row serialize (k, r)) k))"
    using start_look [OF assms(1), of serialize] by blast
  have k: "apcu_look c' key = Some (loaded_row (expireAt r, serialize x))"
    using l [of key] assms by (simp add: disk_row_def)
  have o: "apcu_look c' other = None" using l [of other] assms by (simp add: disk_row_def)
  have f: "fst (fetch cls key c') = Some x"
    using fetchInner_look(2) [of key c'] k assms(8)
    by (cases "fetchInner key c'") (simp add: fetch_def loaded_row_def Let_def)
  obtain rows where r: "ap_rows c' = Some rows" using apcu_okE [OF s(2)] by blast
  have "typeHashCode q = 0" if "(n, q) \<in> set rows" for n q
  proof -
    have "apcu_look c' n = Some q" using s(2) r that by (simp add: map_of_eq_Some_iff)
    then show ?thesis using l [of n] by (auto simp: loaded_row_def split: option.splits prod.splits)
  qed
  then have "getAllByTypeInner (cls_hash cls) c' = []"
    using assms(9) by (auto simp: getAllByTypeInner_def r filter_empty_conv)
  then show ?thesis using s k o f by (auto simp: getAllByType_def loaded_row_def)
qed

theorem apcu_restart_witness:
  "\<exists>c'. apcu_start False (diskSyncP2 (\<lambda>n::nat. show_nat n)
       \<lparr>ap_rows = Some [(''s'', \<lparr>typeHashCode = 9, expireAt = 100, persistent = True, any_value = Obj 42\<rparr>),
          (''t'', row_default)], ap_overwrite = 0, ap_insert = 0, ap_deleted = 0, ap_hits = 0, ap_miss = 0\<rparr>) = Some c' \<and>
     fst (fetch \<lparr>cls_hash = 9, cls_deserialize = read_nat, cls_isa = (\<lambda>_. True)\<rparr> ''s'' c') = Some 42 \<and>
     getAllByType \<lparr>cls_hash = 9, cls_deserialize = read_nat, cls_isa = (\<lambda>_. True)\<rparr> c' = Inr []"
  using apcu_restart [of "\<lparr>ap_rows = Some [(''s'', \<lparr>typeHashCode = 9, expireAt = 100, persistent = True, any_value = Obj 42\<rparr>),
          (''t'', row_default)], ap_overwrite = 0, ap_insert = 0, ap_deleted = 0, ap_hits = 0, ap_miss = 0\<rparr>"
      "''s''" "\<lparr>typeHashCode = 9, expireAt = 100, persistent = True, any_value = Obj 42\<rparr>" 42
      "\<lambda>n::nat. show_nat n" "\<lparr>cls_hash = 9, cls_deserialize = read_nat, cls_isa = (\<lambda>_. True)\<rparr>" "''t''" row_default]
  by (auto simp: apcu_ok_def apcu_look_def row_default_def)

text \<open>A lifetime of 0: an object stored with it never expires, whatever the collector's clock says,
  while a byte string stored with it is gone at the first collection of the same second; any
  other lifetime survives until its second and not past it.\<close>

theorem apcu_lifetimes:
  assumes "apcu_ok c" and "0 \<le> now" and "0 < ttl"
  shows "apcu_look (gc_pass t (apcuStore now cls key x 0 p c)) key \<noteq> None \<and>
    (0 < now \<longrightarrow> apcu_look (gc_pass now (storePOD now key b 0 p c)) key = None) \<and>
    (apcu_look (gc_pass t (apcuStore now cls key x ttl p c)) key \<noteq> None) = (t < now + int ttl) \<and>
    (apcu_look (gc_pass t (storePOD now key b ttl p c)) key \<noteq> None) = (t < now + int ttl)"
proof -
  have g: "apcu_look (gc_pass t (storeRow key r True c)) key = (if collectable t r then None else Some r)" for t r
    using gc_look(1) [OF storeRow_look(2) [OF assms(1)], of t key r True key]
      storeRow_look(1) [OF assms(1), of key r True] by simp
  show ?thesis
    using assms(2,3)
    by (simp add: apcuStore_def storeInner_def storePOD_def apcuStore_row_def g collectable_def Let_def
        setPOD_def setValue_def)
qed

theorem apcu_lifetimes_witness:
  "apcu_look (gc_pass 7 (storePOD 7 ''k'' ''v'' 0 True one_row)) ''k'' = None"
proof -
  have "apcu_ok one_row" by (simp add: apcu_ok_def one_row_def)
  then show ?thesis using apcu_lifetimes [of one_row 7 1] by simp
qed

end
