(* ===== verification/SqlComposer.thy ===== *)
theory SqlComposer
  imports Prelude "HOL-Library.Word"
begin

text \<open>
  \<^verbatim>\<open>minMysql/sqlcomposer.h\<close>, \<^verbatim>\<open>minMysql/sqlcomposer.cpp\<close> and \<^verbatim>\<open>minMysql/sqlbuffering.cpp\<close>: building
  SQL statements from key and value pairs, and sending buffered statements in packets.

  \<^verbatim>\<open>DB::escape\<close> (the server library's escape function) is the parameter \<open>esc\<close>; the database that
  executes a packet is a parameter that says which statement fails. The buffer holds Qt texts, lists of
  UTF-16 units, and Qt's conversions to and from UTF-8 are parameters. Numbers reach the composer as
  the text \<^verbatim>\<open>std::to_chars\<close> made of them.
\<close>

subsection \<open>Columns\<close>

record ssvalue =
  sv_val :: string
  sv_noQuote :: bool
  sv_noEscape :: bool

record sscol =
  sc_aritmetic :: bool
  sc_key :: string
  sc_val :: ssvalue
  sc_verbatim :: bool

definition ss_value :: "string \<Rightarrow> bool \<Rightarrow> bool \<Rightarrow> ssvalue" where
  "ss_value s noQuote noEscape = \<lparr>sv_val = s, sv_noQuote = noQuote, sv_noEscape = noEscape\<rparr>"

text \<open>A column with a text value, with a number (as text), with a prepared value, and from one key.\<close>

definition col_text :: "string \<Rightarrow> string \<Rightarrow> sscol" where
  "col_text k v = \<lparr>sc_aritmetic = False, sc_key = k, sc_val = ss_value v False False, sc_verbatim = False\<rparr>"

definition col_number :: "string \<Rightarrow> string \<Rightarrow> sscol" where
  "col_number k v = \<lparr>sc_aritmetic = True, sc_key = k, sc_val = ss_value v False False, sc_verbatim = False\<rparr>"

definition col_value :: "string \<Rightarrow> ssvalue \<Rightarrow> sscol" where
  "col_value k v = \<lparr>sc_aritmetic = False, sc_key = k, sc_val = v, sc_verbatim = False\<rparr>"

definition col_key :: "string \<Rightarrow> sscol" where
  "col_key k = col_text k k"

subsection \<open>The composer\<close>

text \<open>The part the composer shares with its \<^verbatim>\<open>where\<close>, and the composer.\<close>

record colset =
  cs_cols :: "sscol list"
  cs_longestKey :: nat
  cs_longestVal :: nat
  cs_separator :: string
  cs_joiner :: string

record composer = colset +
  cp_table :: string
  cp_join :: string
  cp_where :: colset

definition where_init :: colset where
  "where_init = \<lparr>cs_cols = [], cs_longestKey = 0, cs_longestVal = 0, cs_separator = '' AND '', cs_joiner = '' = ''\<rparr>"

definition composer_init :: "string \<Rightarrow> composer" where
  "composer_init sep =
     \<lparr>cs_cols = [], cs_longestKey = 0, cs_longestVal = 0,
      cs_separator = filter (\<lambda>c. c \<noteq> CHR '' '') sep, cs_joiner = '' = '',
      cp_table = [], cp_join = [], cp_where = where_init\<rparr>"

fun find_key :: "string \<Rightarrow> sscol list \<Rightarrow> nat option" where
  "find_key k [] = None"
| "find_key k (c # cs) = (if sc_key c = k then Some 0 else map_option Suc (find_key k cs))"

definition pushNoCheck :: "sscol \<Rightarrow> 'a colset_scheme \<Rightarrow> 'a colset_scheme" where
  "pushNoCheck col s = s\<lparr>cs_cols := cs_cols s @ [col],
     cs_longestKey := max (cs_longestKey s) (length (sc_key col)),
     cs_longestVal := max (cs_longestVal s) (length (sv_val (sc_val col)))\<rparr>"

definition erase_at :: "nat \<Rightarrow> 'b list \<Rightarrow> 'b list" where
  "erase_at i xs = take i xs @ drop (Suc i) xs"

definition push :: "sscol \<Rightarrow> bool \<Rightarrow> 'a colset_scheme \<Rightarrow> string + 'a colset_scheme" where
  "push col replaceIf s =
     (case find_key (sc_key col) (cs_cols s) of
        None \<Rightarrow> Inr (pushNoCheck col s)
      | Some i \<Rightarrow>
          (if replaceIf then Inr (pushNoCheck col (s\<lparr>cs_cols := erase_at i (cs_cols s)\<rparr>))
           else Inl (''you are inserting twice the same KEY: '' @ sc_key col @ '', current value is '' @
                  sv_val (sc_val col) @ '', previous value was '' @ sv_val (sc_val (cs_cols s ! i)) @ [CHR 0x0A])))"

definition pushNoEscape :: "sscol \<Rightarrow> bool \<Rightarrow> 'a colset_scheme \<Rightarrow> string + 'a colset_scheme" where
  "pushNoEscape col replaceIf s = push (col\<lparr>sc_val := (sc_val col)\<lparr>sv_noEscape := True\<rparr>\<rparr>) replaceIf s"

definition pushRaw :: "string \<Rightarrow> 'a colset_scheme \<Rightarrow> string + 'a colset_scheme" where
  "pushRaw raw s =
     push \<lparr>sc_aritmetic = False, sc_key = raw, sc_val = ss_value [] False False, sc_verbatim = True\<rparr> False s"

definition pushIfMissing :: "sscol \<Rightarrow> 'a colset_scheme \<Rightarrow> 'a colset_scheme" where
  "pushIfMissing col s = (if find_key (sc_key col) (cs_cols s) = None then pushNoCheck col s else s)"

subsection \<open>Tables\<close>

definition ends_with_dot :: "string \<Rightarrow> bool" where
  "ends_with_dot s = (s \<noteq> [] \<and> last s = CHR ''.'')"

definition setTable1 :: "string \<Rightarrow> composer \<Rightarrow> string + composer" where
  "setTable1 t s = (if t = [] then Inl ''Setting and empty table -.-'' else Inr (s\<lparr>cp_table := t\<rparr>))"

definition setTable_first :: "string \<Rightarrow> composer \<Rightarrow> composer" where
  "setTable_first t s = s\<lparr>cp_table := t\<rparr>"

definition setTable2 :: "string \<Rightarrow> string \<Rightarrow> composer \<Rightarrow> composer" where
  "setTable2 d t s = s\<lparr>cp_table :=
     (if ends_with_dot d then d @ ''`'' @ t @ ''` '' else '' `'' @ d @ ''`.`'' @ t @ ''` '')\<rparr>"

definition setTable3 :: "string \<Rightarrow> string \<Rightarrow> string \<Rightarrow> composer \<Rightarrow> composer" where
  "setTable3 d t alias s = s\<lparr>cp_table :=
     (if ends_with_dot d then '' `'' @ d @ ''``'' @ t @ ''` '' else '' `'' @ d @ ''`.`'' @ t @ ''` '') @
     ''as '' @ alias @ '' ''\<rparr>"

subsection \<open>Composing\<close>

definition padded_key :: "sscol \<Rightarrow> nat \<Rightarrow> string" where
  "padded_key col longestKey =
     (let contentLen = (if sc_verbatim col then length (sc_key col) else length (sc_key col) + 2)
      in (if contentLen < longestKey then replicate (longestKey - contentLen) CHR '' '' else []) @
         (if sc_verbatim col then sc_key col else ''`'' @ sc_key col @ ''`''))"

definition sql_value :: "(string \<Rightarrow> string) \<Rightarrow> sscol \<Rightarrow> string" where
  "sql_value esc col =
     (if sc_aritmetic col \<or> sv_noEscape (sc_val col) \<or> sv_noQuote (sc_val col) \<or> sv_val (sc_val col) = ''NULL''
      then sv_val (sc_val col)
      else [CHR 0x27] @ esc (sv_val (sc_val col)) @ [CHR 0x27])"

definition compose_col :: "(string \<Rightarrow> string) \<Rightarrow> 'a colset_scheme \<Rightarrow> sscol \<Rightarrow> string" where
  "compose_col esc s col =
     padded_key col (cs_longestKey s) @
     (if sc_verbatim col then [] else cs_joiner s @ sql_value esc col) @ [CHR 0x0A]"

fun compose_cols :: "(string \<Rightarrow> string) \<Rightarrow> 'a colset_scheme \<Rightarrow> bool \<Rightarrow> sscol list \<Rightarrow> string" where
  "compose_cols esc s first [] = []"
| "compose_cols esc s first (col # cols) =
     (if first then replicate (length (cs_separator s) + 1) CHR '' '' else cs_separator s @ '' '') @
     compose_col esc s col @ compose_cols esc s False cols"

definition compose :: "(string \<Rightarrow> string) \<Rightarrow> 'a colset_scheme \<Rightarrow> string" where
  "compose esc s = [CHR 0x0A] @ compose_cols esc s True (cs_cols s)"

definition getTable :: "composer \<Rightarrow> string + string" where
  "getTable s = (if cp_table s = [] then Inl ''not table set!'' else Inr (cp_table s))"

definition setIsASelect :: "composer \<Rightarrow> composer" where
  "setIsASelect s = s\<lparr>cs_joiner := '' AS ''\<rparr>"

definition has_where :: "composer \<Rightarrow> bool" where
  "has_where s = (cs_cols (cp_where s) \<noteq> [])"

definition composeWhere :: "(string \<Rightarrow> string) \<Rightarrow> bool \<Rightarrow> composer \<Rightarrow> string + string" where
  "composeWhere esc required s =
     (if required \<and> \<not> has_where s then Inl ''Nervously refusing an update without where condition (I basically saved the day from overwriting a whole table...)''
      else if has_where s then Inr ('' WHERE '' @ compose esc (cp_where s))
      else Inr [])"

definition composeFrom :: "composer \<Rightarrow> string + string" where
  "composeFrom s = (if cp_table s = [] then Inl ''no table set!'' else Inr ('' FROM '' @ cp_table s))"

definition ebind :: "string + 'b \<Rightarrow> ('b \<Rightarrow> string + 'c) \<Rightarrow> string + 'c" where
  "ebind m f = (case m of Inl e \<Rightarrow> Inl e | Inr x \<Rightarrow> f x)"

lemma ebind_simps [simp]: "ebind (Inl e) f = Inl e" "ebind (Inr x) f = f x"
  by (simp_all add: ebind_def)

definition composeSelect0 :: "(string \<Rightarrow> string) \<Rightarrow> composer \<Rightarrow> string" where
  "composeSelect0 esc s = compose esc (setIsASelect s)"

definition composeSelect :: "(string \<Rightarrow> string) \<Rightarrow> string \<Rightarrow> composer \<Rightarrow> string + string" where
  "composeSelect esc fieldList s =
     ebind (getTable s) (\<lambda>_.
       let s' = setIsASelect s in
       ebind (composeFrom s') (\<lambda>from1. ebind (composeWhere esc False s') (\<lambda>wh.
         Inr (''SELECT '' @ fieldList @ from1 @ wh @ cp_join s'))))"

definition composeSelect_V2 :: "(string \<Rightarrow> string) \<Rightarrow> composer \<Rightarrow> string + string" where
  "composeSelect_V2 esc s =
     ebind (getTable s) (\<lambda>_.
       let s' = setIsASelect s in
       ebind (composeFrom s') (\<lambda>from1. ebind (composeWhere esc False s') (\<lambda>wh.
         Inr (''SELECT '' @ compose esc s' @ from1 @ cp_join s' @ wh))))"

definition composeSelectAll :: "(string \<Rightarrow> string) \<Rightarrow> composer \<Rightarrow> string + string" where
  "composeSelectAll esc s =
     ebind (getTable s) (\<lambda>_. ebind (composeFrom s) (\<lambda>from1. ebind (composeWhere esc False s) (\<lambda>wh.
         Inr (''SELECT * '' @ from1 @ wh @ cp_join s))))"

definition composeUpdate :: "(string \<Rightarrow> string) \<Rightarrow> composer \<Rightarrow> string + string" where
  "composeUpdate esc s =
     ebind (getTable s) (\<lambda>_. ebind (composeWhere esc True s) (\<lambda>wh.
       Inr (''UPDATE '' @ cp_table s @ '' SET '' @ compose esc s @ wh @ '';'')))"

definition composeUpsert :: "(string \<Rightarrow> string) \<Rightarrow> bool \<Rightarrow> composer \<Rightarrow> string + string" where
  "composeUpsert esc autoInc s =
     ebind (getTable s) (\<lambda>_.
       if has_where s then Inl ''Refusing an Upsert with where condition''
       else let c = compose esc s;
                inc = (if autoInc then '' ,id = LAST_INSERT_ID(id) '' else [])
            in Inr (''INSERT INTO '' @ cp_table s @ '' SET '' @ c @ '' ON DUPLICATE KEY UPDATE '' @ c @ '' '' @ inc @ '';''))"

definition composeInsert :: "(string \<Rightarrow> string) \<Rightarrow> bool \<Rightarrow> composer \<Rightarrow> string + string" where
  "composeInsert esc ignora s =
     ebind (getTable s) (\<lambda>_.
       if has_where s then Inl ''Refusing an insert with where condition''
       else Inr (''INSERT '' @ (if ignora then '' IGNORE '' else []) @ '' INTO '' @ cp_table s @ '' SET '' @
                 compose esc s @ '' ;''))"

definition composeDelete :: "(string \<Rightarrow> string) \<Rightarrow> composer \<Rightarrow> string + string" where
  "composeDelete esc s =
     ebind (getTable s) (\<lambda>_.
       if \<not> has_where s then Inl ''Refusing a delete with no where condition''
       else Inr (''DELETE FROM '' @ cp_table s @ '' WHERE '' @ compose esc (cp_where s) @ '' ;''))"

subsection \<open>Statement buffering\<close>

text \<open>A \<^verbatim>\<open>QString\<close>: its UTF-16 units, which are what its size counts.\<close>

type_synonym qstring = "16 word list"

definition newline_unit :: "16 word" where "newline_unit = 10"

text \<open>The buffer: \<open>sb_size\<close> 0 never flushes by itself. The connection may be missing.\<close>

record sql_buffer =
  sb_conn :: bool
  sb_size :: nat
  sb_lines :: "qstring list"
  sb_useTRX :: bool

definition buffer_init :: "nat \<Rightarrow> bool \<Rightarrow> sql_buffer" where
  "buffer_init cap trx = \<lparr>sb_conn = True, sb_size = cap, sb_lines = [], sb_useTRX = trx\<rparr>"

text \<open>\<open>size * 1.3 > maxPacket * 0.75\<close> with \<open>maxPacket = 16E6\<close>: the size is the one of the UTF-16 text, before its
  conversion.\<close>

definition packet_full :: "qstring \<Rightarrow> bool" where
  "packet_full q = (length q * 13 > 120000000)"

text \<open>The packets the loop sends, and what it keeps for after it.\<close>

fun packets :: "qstring \<Rightarrow> qstring list \<Rightarrow> qstring list \<times> qstring" where
  "packets cur [] = ([], cur)"
| "packets cur (line # rest) =
     (let cur' = cur @ line @ [newline_unit]
      in if packet_full cur' then (let (ps, r) = packets [] rest in (cur' # ps, r))
         else packets cur' rest)"

text \<open>Sending: \<open>fails n\<close> says whether the connection throws at its \<open>n\<close>-th statement (counted from
  the statements already sent). The result is what reached the server and whether all did.\<close>

fun send :: "(nat \<Rightarrow> bool) \<Rightarrow> string list \<Rightarrow> string list \<Rightarrow> string list \<times> bool" where
  "send fails sent [] = (sent, True)"
| "send fails sent (q # qs) =
     (if fails (length sent) then (sent, False) else send fails (sent @ [q]) qs)"

datatype flush_result = Flushed | FlushThrew

definition start_trx :: string where "start_trx = ''START TRANSACTION;''"
definition commit_trx :: string where "commit_trx = ''COMMIT;''"

text \<open>Every packet is converted to UTF-8, by \<open>utf8\<close>, when it is sent. The buffer is cleared between the loop and the last packet; an exception leaves \<open>flush\<close> where it
  is thrown.\<close>

definition flush :: "(qstring \<Rightarrow> string) \<Rightarrow> (nat \<Rightarrow> bool) \<Rightarrow> string list \<Rightarrow> sql_buffer \<Rightarrow> flush_result \<times> string list \<times> sql_buffer" where
  "flush utf8 fails sent b =
     (if sb_lines b = [] then (Flushed, sent, b)
      else if \<not> sb_conn b then (FlushThrew, sent, b)
      else
        let (ps, rest) = packets [] (sb_lines b);
            (sent1, ok1) = send fails sent ((if sb_useTRX b then [start_trx] else []) @ map utf8 ps)
        in if \<not> ok1 then (FlushThrew, sent1, b)
           else
             let b' = b\<lparr>sb_lines := []\<rparr>;
                 (sent2, ok2) = send fails sent1
                    ((if rest \<noteq> [] then [utf8 rest] else []) @ (if sb_useTRX b then [commit_trx] else []))
             in ((if ok2 then Flushed else FlushThrew), sent2, b'))"

definition append_line :: "(qstring \<Rightarrow> string) \<Rightarrow> (nat \<Rightarrow> bool) \<Rightarrow> string list \<Rightarrow> sql_buffer \<Rightarrow> qstring \<Rightarrow>
    flush_result \<times> string list \<times> sql_buffer" where
  "append_line utf8 fails sent b sql =
     (if sql = [] then (Flushed, sent, b)
      else if sb_size b \<noteq> 0 \<and> length (sb_lines b) \<ge> sb_size b then
        (case flush utf8 fails sent b of
           (Flushed, sent', b') \<Rightarrow> (Flushed, sent', b'\<lparr>sb_lines := sb_lines b' @ [sql]\<rparr>)
         | (FlushThrew, sent', b') \<Rightarrow> (FlushThrew, sent', b'))
      else (Flushed, sent, b\<lparr>sb_lines := sb_lines b @ [sql]\<rparr>))"

text \<open>The overload for a standard string, which is UTF-8 and is converted by \<open>ofUtf8\<close>.\<close>

definition append_std :: "(string \<Rightarrow> qstring) \<Rightarrow> (qstring \<Rightarrow> string) \<Rightarrow> (nat \<Rightarrow> bool) \<Rightarrow> string list \<Rightarrow> sql_buffer \<Rightarrow>
    string \<Rightarrow> flush_result \<times> string list \<times> sql_buffer" where
  "append_std ofUtf8 utf8 fails sent b sql =
     (if sql = [] then (Flushed, sent, b) else append_line utf8 fails sent b (ofUtf8 sql))"

fun append_lines :: "(qstring \<Rightarrow> string) \<Rightarrow> (nat \<Rightarrow> bool) \<Rightarrow> string list \<Rightarrow> sql_buffer \<Rightarrow> qstring list \<Rightarrow>
    flush_result \<times> string list \<times> sql_buffer" where
  "append_lines utf8 fails sent b [] = (Flushed, sent, b)"
| "append_lines utf8 fails sent b (q # qs) =
     (case append_line utf8 fails sent b q of
        (Flushed, sent', b') \<Rightarrow> append_lines utf8 fails sent' b' qs
      | (FlushThrew, sent', b') \<Rightarrow> (FlushThrew, sent', b'))"

definition setUseTRX :: "bool \<Rightarrow> sql_buffer \<Rightarrow> sql_buffer" where
  "setUseTRX t b = b\<lparr>sb_useTRX := t\<rparr>"

definition buffer_clear :: "sql_buffer \<Rightarrow> sql_buffer" where
  "buffer_clear b = b\<lparr>sb_lines := []\<rparr>"

subsection \<open>Lemmas\<close>

lemma find_key_None: "find_key k cs = None \<longleftrightarrow> k \<notin> set (map sc_key cs)"
  by (induction cs) auto

lemma find_key_Some: "find_key k cs = Some i \<Longrightarrow> i < length cs \<and> sc_key (cs ! i) = k"
proof (induction cs arbitrary: i)
  case (Cons c cs)
  then show ?case by (auto split: if_splits)
qed simp

lemma erase_at_split: "i < length xs \<Longrightarrow> xs = take i xs @ xs ! i # drop (Suc i) xs"
  by (simp add: id_take_nth_drop)

lemma keys_erase_at:
  assumes "distinct (map f xs)" and "i < length xs"
  shows "set (map f (erase_at i xs)) = set (map f xs) - {f (xs ! i)}" and "distinct (map f (erase_at i xs))"
proof -
  have s: "map f xs = map f (take i xs) @ f (xs ! i) # map f (drop (Suc i) xs)"
    using arg_cong [OF erase_at_split [OF assms(2)], of "map f"] by simp
  have d: "distinct (map f (take i xs) @ f (xs ! i) # map f (drop (Suc i) xs))"
    using assms(1) unfolding s [symmetric] .
  show "set (map f (erase_at i xs)) = set (map f xs) - {f (xs ! i)}"
    unfolding s using d by (auto simp: erase_at_def)
  show "distinct (map f (erase_at i xs))" using d by (auto simp: erase_at_def)
qed

text \<open>Keys are unique and no longer than the padding width.\<close>

definition cols_ok :: "'a colset_scheme \<Rightarrow> bool" where
  "cols_ok s \<longleftrightarrow> distinct (map sc_key (cs_cols s)) \<and>
     (\<forall>c\<in>set (cs_cols s). length (sc_key c) \<le> cs_longestKey s)"

lemma cols_ok_pushNoCheck:
  "cols_ok s \<Longrightarrow> sc_key col \<notin> set (map sc_key (cs_cols s)) \<Longrightarrow> cols_ok (pushNoCheck col s)"
  by (auto simp: cols_ok_def pushNoCheck_def max_def)

lemma cols_ok_push:
  assumes "cols_ok s" and "push col r s = Inr s'"
  shows "cols_ok s' \<and> (\<exists>cs. cs_cols s' = cs @ [col] \<and>
    set (map sc_key cs) = set (map sc_key (cs_cols s)) - {sc_key col})"
proof (cases "find_key (sc_key col) (cs_cols s)")
  case None
  then have n: "sc_key col \<notin> set (map sc_key (cs_cols s))"
    using find_key_None [of "sc_key col" "cs_cols s"] by simp
  have s': "s' = pushNoCheck col s" using assms(2) None by (simp add: push_def)
  have "cs_cols s' = cs_cols s @ [col]" by (simp add: s' pushNoCheck_def)
  then show ?thesis using cols_ok_pushNoCheck [OF assms(1) n] n s' by auto
next
  case (Some i)
  have i: "i < length (cs_cols s)" "sc_key (cs_cols s ! i) = sc_key col" using find_key_Some [OF Some] by auto
  let ?t = "s\<lparr>cs_cols := erase_at i (cs_cols s)\<rparr>"
  have d: "distinct (map sc_key (cs_cols s))" using assms(1) by (simp add: cols_ok_def)
  have k: "set (map sc_key (cs_cols ?t)) = set (map sc_key (cs_cols s)) - {sc_key col}"
    "distinct (map sc_key (cs_cols ?t))"
    using keys_erase_at [OF d i(1)] i(2) by simp_all
  have "set (erase_at i (cs_cols s)) \<subseteq> set (cs_cols s)"
    by (auto simp: erase_at_def dest: in_set_takeD in_set_dropD)
  then have "cols_ok ?t" using assms(1) k(2) by (auto simp: cols_ok_def)
  then have "cols_ok (pushNoCheck col ?t)" using k(1) by (intro cols_ok_pushNoCheck) auto
  moreover have s': "s' = pushNoCheck col ?t" using assms(2) Some by (simp add: push_def split: if_splits)
  moreover have "cs_cols (pushNoCheck col ?t) = cs_cols ?t @ [col]" by (simp add: pushNoCheck_def)
  ultimately show ?thesis using k(1) by blast
qed

lemma packets_all:
  "packets cur ls = (ps, r) \<Longrightarrow> concat ps @ r = cur @ concat (map (\<lambda>l. l @ [newline_unit]) ls)"
proof (induction cur ls arbitrary: ps r rule: packets.induct)
  case (2 cur line rest)
  then show ?case by (auto simp: Let_def split: if_splits prod.splits)
qed simp

lemma packets_bound:
  "packets cur ls = (ps, r) \<Longrightarrow> length cur * 13 \<le> 120000000 \<Longrightarrow> \<forall>l\<in>set ls. length l < k \<Longrightarrow>
   (\<forall>p\<in>set ps. length p \<le> 9230769 + k) \<and> length r * 13 \<le> 120000000"
proof (induction cur ls arbitrary: ps r rule: packets.induct)
  case (2 cur line rest)
  have c: "length cur \<le> 9230769" using 2(4) by simp
  let ?cur = "cur @ line @ [newline_unit]"
  show ?case
  proof (cases "packet_full ?cur")
    case True
    obtain qs where q: "packets [] rest = (qs, r)" "ps = ?cur # qs"
      using 2(3) True by (auto simp: Let_def split: prod.splits)
    have "length ?cur \<le> 9230769 + k" using c 2(5) by simp
    then show ?thesis using 2(1) [OF refl True q(1)] 2(5) q(2) by simp
  next
    case False
    then have "packets ?cur rest = (ps, r)" using 2(3) by (simp add: Let_def)
    then show ?thesis using 2(2) [OF refl False] False 2(5) by (simp add: packet_full_def)
  qed
qed simp

lemma send_ok: "\<forall>n. \<not> fails n \<Longrightarrow> send fails sent qs = (sent @ qs, True)"
  by (induction qs arbitrary: sent) auto

lemma send_fails:
  "k < length qs \<Longrightarrow> fails (length sent + k) \<Longrightarrow> \<forall>j<k. \<not> fails (length sent + j) \<Longrightarrow>
   send fails sent qs = (sent @ take k qs, False)"
proof (induction qs arbitrary: sent k)
  case (Cons q qs)
  show ?case
  proof (cases k)
    case 0
    then show ?thesis using Cons.prems by simp
  next
    case (Suc j)
    have "\<not> fails (length sent)" using Cons.prems(3) Suc by (metis add.right_neutral zero_less_Suc)
    moreover have "send fails (sent @ [q]) qs = ((sent @ [q]) @ take j qs, False)"
      using Cons.prems Suc by (intro Cons.IH) auto
    ultimately show ?thesis using Suc by simp
  qed
qed simp

subsection \<open>Reading a literal back\<close>

text \<open>What the server library's escape function is documented to do with each character.\<close>

definition documented_escape :: "char \<Rightarrow> string" where
  "documented_escape c =
     (if c = CHR 0x00 then [CHR 0x5C, CHR ''0'']
      else if c = CHR 0x0A then [CHR 0x5C, CHR ''n'']
      else if c = CHR 0x0D then [CHR 0x5C, CHR ''r'']
      else if c = CHR 0x1A then [CHR 0x5C, CHR ''Z'']
      else if c = CHR 0x5C \<or> c = CHR 0x27 \<or> c = CHR 0x22 then [CHR 0x5C, c]
      else [c])"

definition unescape :: "char \<Rightarrow> char" where
  "unescape d = (if d = CHR ''0'' then CHR 0x00 else if d = CHR ''n'' then CHR 0x0A
     else if d = CHR ''r'' then CHR 0x0D else if d = CHR ''Z'' then CHR 0x1A else d)"

text \<open>A reader of the server's string literals after the opening quote: the text and what follows.\<close>

fun read_body :: "string \<Rightarrow> (string \<times> string) option" where
  "read_body [] = None"
| "read_body [c] = (if c = CHR 0x27 then Some ([], []) else None)"
| "read_body (c # d # cs) =
     (if c = CHR 0x27 then
        (if d = CHR 0x27 then map_option (\<lambda>(t, r). (d # t, r)) (read_body cs) else Some ([], d # cs))
      else if c = CHR 0x5C then map_option (\<lambda>(t, r). (unescape d # t, r)) (read_body cs)
      else map_option (\<lambda>(t, r). (c # t, r)) (read_body (d # cs)))"

lemma read_body_char:
  "x \<noteq> [] \<Longrightarrow> read_body (documented_escape c @ x) = map_option (\<lambda>(t, r). (c # t, r)) (read_body x)"
  by (cases x) (auto simp: documented_escape_def unescape_def)

lemma read_body_escape:
  "x \<noteq> [] \<Longrightarrow> read_body (concat (map documented_escape s) @ x) = map_option (\<lambda>(t, r). (s @ t, r)) (read_body x)"
proof (induction s)
  case Nil
  then show ?case by (simp add: option.map_ident)
next
  case (Cons c s)
  then show ?case by (simp add: read_body_char option.map_comp comp_def case_prod_unfold)
qed

definition is_raw :: "sscol \<Rightarrow> bool" where
  "is_raw col = (sc_aritmetic col \<or> sv_noEscape (sc_val col) \<or> sv_noQuote (sc_val col) \<or> sv_val (sc_val col) = ''NULL'')"

subsection \<open>Properties\<close>

text \<open>C12. No update or delete without a condition: a composed \<open>UPDATE\<close> or \<open>DELETE\<close> names the table and
  carries the conditions of a non-empty \<open>where\<close>, an empty one or a missing table is refused, and
  an \<open>INSERT\<close> or upsert that was given conditions is refused instead of dropping them.\<close>

theorem composer_conditions:
  "((\<exists>sql. composeUpdate esc s = Inr sql) = (cs_cols (cp_where s) \<noteq> [] \<and> cp_table s \<noteq> [])) \<and>
   ((\<exists>sql. composeDelete esc s = Inr sql) = (cs_cols (cp_where s) \<noteq> [] \<and> cp_table s \<noteq> [])) \<and>
   ((\<exists>sql. composeInsert esc ig s = Inr sql) = (cs_cols (cp_where s) = [] \<and> cp_table s \<noteq> [])) \<and>
   ((\<exists>sql. composeUpsert esc ai s = Inr sql) = (cs_cols (cp_where s) = [] \<and> cp_table s \<noteq> [])) \<and>
   (composeUpdate esc s = Inr q \<longrightarrow>
      q = ''UPDATE '' @ cp_table s @ '' SET '' @ compose esc s @ '' WHERE '' @ compose esc (cp_where s) @ '';'') \<and>
   (composeDelete esc s = Inr q \<longrightarrow>
      q = ''DELETE FROM '' @ cp_table s @ '' WHERE '' @ compose esc (cp_where s) @ '' ;'')"
  by (auto simp: composeUpdate_def composeDelete_def composeInsert_def composeUpsert_def getTable_def
      composeWhere_def has_where_def Let_def)

theorem composer_conditions_witness:
  "\<exists>q. composeDelete (\<lambda>s. s) ((setTable_first ''t'' (composer_init '',''))
       \<lparr>cp_where := pushNoCheck (col_number ''id'' ''7'') where_init\<rparr>) = Inr q"
  using composer_conditions [of "\<lambda>s. s" "(setTable_first ''t'' (composer_init '',''))
       \<lparr>cp_where := pushNoCheck (col_number ''id'' ''7'') where_init\<rparr>"]
  by (simp add: setTable_first_def composer_init_def pushNoCheck_def where_init_def)

text \<open>C11. Values cannot break out: with the documented escape function, the literal composed for a value
  that is not raw, read by the server, is exactly that value, and reading stops at the end of the
  literal, whatever the value and whatever statement text follows.\<close>

theorem composed_value_reads_back:
  assumes "\<forall>t. esc t = concat (map documented_escape t)" and "\<not> is_raw col" and "\<not> sc_verbatim col"
  shows "\<exists>lit. compose_col esc s col = padded_key col (cs_longestKey s) @ cs_joiner s @ CHR 0x27 # lit \<and>
    read_body (lit @ rest) = Some (sv_val (sc_val col), CHR 0x0A # rest)"
proof -
  let ?lit = "esc (sv_val (sc_val col)) @ [CHR 0x27, CHR 0x0A]"
  have "read_body (?lit @ rest) = Some (sv_val (sc_val col), CHR 0x0A # rest)"
    using read_body_escape [of "[CHR 0x27, CHR 0x0A] @ rest" "sv_val (sc_val col)"] assms(1) by simp
  then show ?thesis using assms(2,3)
    by (intro exI [of _ ?lit]) (simp add: compose_col_def sql_value_def is_raw_def)
qed

theorem composed_value_reads_back_witness:
  "\<exists>lit. compose_col (\<lambda>t. concat (map documented_escape t)) where_init (col_text ''n'' (CHR 0x27 # '' OR 1=1'')) =
       padded_key (col_text ''n'' (CHR 0x27 # '' OR 1=1'')) 0 @ '' = '' @ CHR 0x27 # lit \<and>
     read_body (lit @ '';'') = Some (CHR 0x27 # '' OR 1=1'', CHR 0x0A # '';'')"
  using composed_value_reads_back [of "\<lambda>t. concat (map documented_escape t)"
      "col_text ''n'' (CHR 0x27 # '' OR 1=1'')" where_init "'';''"]
  by (simp add: is_raw_def col_text_def ss_value_def where_init_def)

text \<open>C34. Columns stay well formed: keys are unique and fit the padding width, in a new composer and
  after every push that succeeds; a key pushed again is refused, or with \<open>replaceIf\<close> moves to the
  end with its new value while all other keys stay.\<close>

theorem composer_columns_wellformed:
  assumes "cols_ok s"
  shows "cols_ok (composer_init sep) \<and> cols_ok where_init \<and>
    (push col False s = Inr s' \<longrightarrow> sc_key col \<notin> set (map sc_key (cs_cols s))) \<and>
    (\<exists>t. push col True s = Inr t) \<and>
    (push col r s = Inr s' \<longrightarrow> cols_ok s' \<and>
       (\<exists>cs. cs_cols s' = cs @ [col] \<and> set (map sc_key cs) = set (map sc_key (cs_cols s)) - {sc_key col}))"
proof -
  have 1: "sc_key col \<notin> set (map sc_key (cs_cols s))" if "push col False s = Inr s'"
    using that find_key_None [of "sc_key col" "cs_cols s"] by (simp add: push_def split: option.splits)
  have 2: "\<exists>t. push col True s = Inr t" by (simp add: push_def split: option.splits)
  have 3: "cols_ok (composer_init sep) \<and> cols_ok where_init"
    by (simp add: cols_ok_def composer_init_def where_init_def)
  show ?thesis using 1 2 3 cols_ok_push [OF assms, of col r s'] by blast
qed

theorem composer_columns_wellformed_witness:
  "\<exists>t. push (col_text ''a'' ''2'') True (pushNoCheck (col_text ''a'' ''1'') where_init) = Inr t \<and> cols_ok t"
proof -
  have c: "cols_ok (pushNoCheck (col_text ''a'' ''1'') where_init)"
    by (simp add: cols_ok_def pushNoCheck_def where_init_def col_text_def)
  show ?thesis using composer_columns_wellformed [OF c, of _ "col_text ''a'' ''2''" _ True] by blast
qed

text \<open>C24. Buffered statements all arrive, once and in order: when the database accepts everything, a flush cuts the
  buffered lines, each closed by a newline, into packets of UTF-16 text that together are those lines, and
  sends each packet's UTF-8 form, in this order, between one \<open>START TRANSACTION\<close> and one \<open>COMMIT\<close> when
  transactions are on, and empties the buffer. A packet has at most 9230769 units, three quarters of the packet
  limit over 1.3, and one more line; the bound is on the units of the text, as the code measures it, not
  on the bytes of its UTF-8 form, which may be up to three times as many.\<close>

theorem flush_delivers:
  assumes "\<forall>n. \<not> fails n" and "sb_conn b" and "sb_lines b \<noteq> []" and "\<forall>l\<in>set (sb_lines b). length l < k"
  shows "\<exists>qs. flush utf8 fails sent b =
      (Flushed, sent @ (if sb_useTRX b then [start_trx] @ map utf8 qs @ [commit_trx] else map utf8 qs), b\<lparr>sb_lines := []\<rparr>) \<and>
    concat qs = concat (map (\<lambda>l. l @ [newline_unit]) (sb_lines b)) \<and>
    (\<forall>q\<in>set qs. length q \<le> 9230769 + k)"
proof -
  obtain ps r where p: "packets [] (sb_lines b) = (ps, r)" by fastforce
  let ?qs = "ps @ (if r \<noteq> [] then [r] else [])"
  have c: "concat ?qs = concat (map (\<lambda>l. l @ [newline_unit]) (sb_lines b))"
    using packets_all [OF p] by (cases "r = []") auto
  have "\<forall>q\<in>set ?qs. length q \<le> 9230769 + k"
    using packets_bound [OF p _ assms(4)] by (auto split: if_splits)
  moreover have "flush utf8 fails sent b =
      (Flushed, sent @ (if sb_useTRX b then [start_trx] @ map utf8 ?qs @ [commit_trx] else map utf8 ?qs), b\<lparr>sb_lines := []\<rparr>)"
    using assms(2,3) by (simp add: flush_def p send_ok [OF assms(1)] Let_def)
  ultimately show ?thesis using c by blast
qed

definition sample_utf8 :: "qstring \<Rightarrow> string" where
  "sample_utf8 = concat \<circ> map (\<lambda>u. if u < 128 then [char_of (unat u)] else ''???'')"

theorem flush_delivers_witness:
  "\<exists>qs. flush sample_utf8 (\<lambda>_. False) [] ((buffer_init 10 True)\<lparr>sb_lines := [[97], [0x20AC]]\<rparr>) =
      (Flushed, [start_trx] @ map sample_utf8 qs @ [commit_trx], buffer_init 10 True) \<and>
      concat qs = [97, newline_unit, 0x20AC, newline_unit]"
  using flush_delivers [of "\<lambda>_. False" "(buffer_init 10 True)\<lparr>sb_lines := [[97], [0x20AC]]\<rparr>" 2 sample_utf8 "[]"]
  by (auto simp: buffer_init_def)

text \<open>What a failed flush leaves: if a packet of the loop fails, the packets before it have reached the
  server, yet the whole buffer stays, so the next flush sends them again; if the closing packet or
  the commit fails, the buffer is already empty and nothing is kept. In neither case is a rollback
  sent.\<close>

theorem flush_failure:
  assumes "sb_conn b" and "sb_lines b \<noteq> []" and "packets [] (sb_lines b) = (ps, r)"
    and "pre = (if sb_useTRX b then [start_trx] else [])"
    and "post = (if r \<noteq> [] then [utf8 r] else []) @ (if sb_useTRX b then [commit_trx] else [])"
    and "fails (length sent + k)" and "\<forall>j<k. \<not> fails (length sent + j)"
  shows "(k < length (pre @ map utf8 ps) \<longrightarrow> flush utf8 fails sent b = (FlushThrew, sent @ take k (pre @ map utf8 ps), b)) \<and>
    (length (pre @ map utf8 ps) \<le> k \<and> k < length (pre @ map utf8 ps @ post) \<longrightarrow>
       flush utf8 fails sent b = (FlushThrew, sent @ take k (pre @ map utf8 ps @ post), b\<lparr>sb_lines := []\<rparr>))"
proof (intro conjI impI)
  assume k: "k < length (pre @ map utf8 ps)"
  show "flush utf8 fails sent b = (FlushThrew, sent @ take k (pre @ map utf8 ps), b)"
    using send_fails [OF k assms(6,7)] assms(1-5) by (simp add: flush_def Let_def)
next
  assume k: "length (pre @ map utf8 ps) \<le> k \<and> k < length (pre @ map utf8 ps @ post)"
  let ?a = "pre @ map utf8 ps"
  have s1: "send fails sent ?a = (sent @ ?a, True)"
  proof -
    have "send fails s qs = (s @ qs, True)" if "\<forall>j<length qs. \<not> fails (length s + j)" for s qs
      using that
    proof (induction qs arbitrary: s)
      case (Cons q qs)
      have "\<forall>j<length qs. \<not> fails (length (s @ [q]) + j)"
      proof (intro allI impI)
        fix j assume "j < length qs"
        then show "\<not> fails (length (s @ [q]) + j)" using Cons.prems [rule_format, of "Suc j"] by simp
      qed
      moreover have "\<not> fails (length s)" using Cons.prems [rule_format, of 0] by simp
      ultimately show ?case using Cons.IH by simp
    qed simp
    then show ?thesis using assms(7) k by simp
  qed
  let ?j = "k - length ?a"
  have "send fails (sent @ ?a) post = ((sent @ ?a) @ take ?j post, False)"
  proof (rule send_fails)
    show "?j < length post" using k by auto
    show "fails (length (sent @ ?a) + ?j)" using assms(6) k by simp
    show "\<forall>i<?j. \<not> fails (length (sent @ ?a) + i)"
      using assms(7) k by (auto simp: less_diff_conv add.commute add.left_commute)
  qed
  moreover have "take k (pre @ map utf8 ps @ post) = ?a @ take ?j post"
    using k by (metis append.assoc take_all take_append)
  ultimately show "flush utf8 fails sent b = (FlushThrew, sent @ take k (pre @ map utf8 ps @ post), b\<lparr>sb_lines := []\<rparr>)"
    using s1 assms(1-5) by (simp add: flush_def Let_def)
qed

theorem flush_failure_witness:
  "flush sample_utf8 (\<lambda>n. n = 1) [] ((buffer_init 10 True)\<lparr>sb_lines := [[97]]\<rparr>) =
     (FlushThrew, [start_trx], (buffer_init 10 True)\<lparr>sb_lines := []\<rparr>)"
  using flush_failure [of "(buffer_init 10 True)\<lparr>sb_lines := [[97]]\<rparr>" "[]" "[97, newline_unit]" "[start_trx]"
      "[sample_utf8 [97, newline_unit], commit_trx]" sample_utf8 "\<lambda>n. n = 1" "[]" 1]
  by (simp add: buffer_init_def packet_full_def)

end
