(* ===== verification/SqlQuery.thy ===== *)
theory SqlQuery
  imports Prelude
begin

text \<open>
  \<^verbatim>\<open>minMysql/min_mysql.cpp\<close> (error codes, the deadlock repeater, the file cache, the warning filter),
  \<^verbatim>\<open>serialization/serialize.h\<close>, \<^verbatim>\<open>minMysql/sqlrowv2.h\<close>, \<^verbatim>\<open>misc/swapType.h\<close> (integers),
  \<^verbatim>\<open>minMysql/sqlRow.h\<close> and \<^verbatim>\<open>minMysql/runnable.cpp\<close>.

  The server is a parameter: a query's outcome is a value of \<open>db_result\<close>, the \<open>n\<close>-th attempt of a
  repeated query is \<open>attempt n\<close>. Regular expressions, SHA-1 and Qt's number parsers are parameters.
  Files are a map from names to a change time and the value \<^verbatim>\<open>QDataStream\<close> reads back.
\<close>

subsection \<open>Errors\<close>

datatype db_error = NA | Warning | SchemaError | NoResult | InvalidDB | Duplicate
  | LockWaitTimeout | DeadLock | Connection | InvalidState

definition error_code :: "db_error \<Rightarrow> nat" where
  "error_code e = (case e of NA \<Rightarrow> 0 | Warning \<Rightarrow> 1 | SchemaError \<Rightarrow> 2 | NoResult \<Rightarrow> 3
     | InvalidDB \<Rightarrow> 1049 | Duplicate \<Rightarrow> 1062 | LockWaitTimeout \<Rightarrow> 1205 | DeadLock \<Rightarrow> 1213
     | Connection \<Rightarrow> 2013 | InvalidState \<Rightarrow> 9000)"

definition nr2Enum :: "nat \<Rightarrow> db_error" where
  "nr2Enum n =
     (if n = 1205 then LockWaitTimeout else if n = 1213 then DeadLock else if n = 0 then NA
      else if n = 1 then Warning else if n = 2 then SchemaError else if n = 3 then NoResult
      else if n = 1049 then InvalidDB else if n = 1062 then Duplicate else if n = 2013 then Connection
      else if n = 9000 then InvalidState else NA)"

lemma nr2Enum_code [simp]: "nr2Enum (error_code e) = e"
  by (cases e) (simp_all add: nr2Enum_def error_code_def)

datatype 'r db_result = Res 'r | DbErr db_error string | OtherErr string | Terminated

definition isRetryableLockError :: "db_error \<Rightarrow> bool" where
  "isRetryableLockError e = (case e of LockWaitTimeout \<Rightarrow> True | DeadLock \<Rightarrow> True | _ \<Rightarrow> False)"

definition retryable :: "'r db_result \<Rightarrow> bool" where
  "retryable r = (case r of DbErr e _ \<Rightarrow> isRetryableLockError e | _ \<Rightarrow> False)"

subsection \<open>Repeating after a lock error\<close>

fun repeat_loop :: "(nat \<Rightarrow> 'r db_result) \<Rightarrow> string \<Rightarrow> nat \<Rightarrow> nat \<Rightarrow> db_error \<Rightarrow> 'r db_result" where
  "repeat_loop attempt sql n 0 lastErr = DbErr lastErr (''Retryable lock error for '' @ sql)"
| "repeat_loop attempt sql n (Suc left_tries) lastErr =
     (case attempt n of
        Res r \<Rightarrow> Res r
      | DbErr e m \<Rightarrow>
          (if isRetryableLockError e then repeat_loop attempt sql (Suc n) left_tries e else DbErr e m)
      | OtherErr m \<Rightarrow> OtherErr m
      | Terminated \<Rightarrow> Terminated)"

definition queryDeadlockRepeater :: "(nat \<Rightarrow> 'r list db_result) \<Rightarrow> string \<Rightarrow> nat \<Rightarrow> 'r list db_result" where
  "queryDeadlockRepeater attempt sql maxTry =
     (if sql \<noteq> [] then repeat_loop attempt sql 0 maxTry DeadLock else Res [])"

subsection \<open>Files\<close>

text \<open>\<open>fs_current\<close> is the static \<^verbatim>\<open>currentFile\<close> of \<open>fileSerialize\<close>.\<close>

record 'a file_store =
  fs_files :: "string \<Rightarrow> (int \<times> 'a) option"
  fs_current :: string

definition fileSerialize :: "('a \<Rightarrow> int) \<Rightarrow> int \<Rightarrow> bool \<Rightarrow> bool \<Rightarrow> string \<Rightarrow> 'a \<Rightarrow> 'a file_store \<Rightarrow> int \<times> 'a file_store" where
  "fileSerialize fsize now can_open can_commit name t st =
     (if name = fs_current st then (0, st)
      else
        let st1 = st\<lparr>fs_current := name\<rparr>
        in if \<not> can_open then (0, st1)
           else if \<not> can_commit then (0, st1)
           else (fsize t, st1\<lparr>fs_files := (fs_files st1)(name \<mapsto> (now, t)), fs_current := []\<rparr>))"

text \<open>The value when it is valid: \<open>maxAge\<close> 0 never is, an unreadable or old file is not; \<open>decodes\<close> is the
  stream status after reading.\<close>

definition fileUnSerialize :: "bool \<Rightarrow> int \<Rightarrow> string \<Rightarrow> nat \<Rightarrow> 'a file_store \<Rightarrow> 'a option" where
  "fileUnSerialize decodes now name maxAge st =
     (if maxAge = 0 then None
      else case fs_files st name of
        None \<Rightarrow> None
      | Some (lastEdit, t) \<Rightarrow>
          if lastEdit < now - int maxAge then None
          else if decodes then Some t else None)"

subsection \<open>The query cache\<close>

definition UINT_MAX :: nat where
  "UINT_MAX = 2 ^ 32 - 1"

text \<open>A result: the rows and whether they came from the cache. \<open>cache_io\<close> is the machine around the call.\<close>

record cache_io =
  io_now :: int
  io_open :: bool
  io_commit :: bool
  io_decodes :: bool

type_synonym 'r sql_result = "'r list \<times> bool"

definition cache_name :: "(string \<Rightarrow> string) \<Rightarrow> string \<Rightarrow> string \<Rightarrow> string \<Rightarrow> string" where
  "cache_name sha1 folder cacheId sql = folder @ cacheId @ ''/'' @ sha1 sql"

text \<open>After the query: an empty result is kept out of the cache when the state says so.\<close>

definition store_result :: "('r list \<Rightarrow> int) \<Rightarrow> cache_io \<Rightarrow> bool \<Rightarrow> string \<Rightarrow> 'r list db_result \<Rightarrow> 'r list file_store
    \<Rightarrow> 'r sql_result db_result \<times> 'r list file_store" where
  "store_result fsize io noCacheOnEmpty name res st =
     (case res of
        Res rows \<Rightarrow>
          (if rows = [] \<and> noCacheOnEmpty then (Res (rows, False), st)
           else (Res (rows, False), snd (fileSerialize fsize (io_now io) (io_open io) (io_commit io) name rows st)))
      | DbErr e m \<Rightarrow> (DbErr e m, st)
      | OtherErr m \<Rightarrow> (OtherErr m, st)
      | Terminated \<Rightarrow> (Terminated, st))"

definition plain_result :: "'r list db_result \<Rightarrow> 'r sql_result db_result" where
  "plain_result res = (case res of Res rows \<Rightarrow> Res (rows, False) | DbErr e m \<Rightarrow> DbErr e m
     | OtherErr m \<Rightarrow> OtherErr m | Terminated \<Rightarrow> Terminated)"

text \<open>The flag \<open>noCacheOnEmpty\<close> goes in and comes out false on every path (\<^verbatim>\<open>SetOnExit\<close>).\<close>

definition queryCache2 ::
  "('r list \<Rightarrow> int) \<Rightarrow> cache_io \<Rightarrow> 'r list db_result \<Rightarrow> string \<Rightarrow> string \<Rightarrow> nat \<Rightarrow> bool \<Rightarrow> bool \<times> 'r list file_store
    \<Rightarrow> 'r sql_result db_result \<times> bool \<times> 'r list file_store" where
  "queryCache2 fsize io query_res name sql ttl required fst0 = (case fst0 of (noCacheOnEmpty, st) \<Rightarrow>
     (if ttl \<noteq> 0 then
        (case fileUnSerialize (io_decodes io) (io_now io) name ttl st of
           Some rows \<Rightarrow> (Res (rows, True), False, st)
         | None \<Rightarrow>
             (if ttl = UINT_MAX then
                (if required then (DbErr NoResult (''no result for '' @ sql), False, st) else (Res ([], False), False, st))
              else (case store_result fsize io noCacheOnEmpty name query_res st of (r, st') \<Rightarrow> (r, False, st'))))
      else (plain_result query_res, False, st)))"

definition queryCacheV2 ::
  "('r list \<Rightarrow> int) \<Rightarrow> cache_io \<Rightarrow> 'r list db_result \<Rightarrow> string \<Rightarrow> nat \<Rightarrow> bool \<times> 'r list file_store
    \<Rightarrow> 'r sql_result db_result \<times> bool \<times> 'r list file_store" where
  "queryCacheV2 fsize io query_res name ttl fst0 = (case fst0 of (noCacheOnEmpty, st) \<Rightarrow>
     (if ttl \<noteq> 0 then
        (case fileUnSerialize (io_decodes io) (io_now io) name ttl st of
           Some rows \<Rightarrow> (Res (rows, True), False, st)
         | None \<Rightarrow> (case store_result fsize io noCacheOnEmpty name query_res st of (r, st') \<Rightarrow> (r, False, st')))
      else (plain_result query_res, False, st)))"

text \<open>The one-row reads over a cached result.\<close>

definition cache_line :: "string \<Rightarrow> bool \<Rightarrow> 'r sql_result db_result \<Rightarrow> 'r option db_result" where
  "cache_line sql required res =
     (case res of
        Res (rows, _) \<Rightarrow>
          (if length rows > 1 then OtherErr (''invalid number of row for: '' @ sql)
           else if length rows = 1 then Res (Some (hd rows))
           else if required then DbErr NoResult (''no result for '' @ sql)
           else Res None)
      | DbErr e m \<Rightarrow> DbErr e m
      | OtherErr m \<Rightarrow> OtherErr m
      | Terminated \<Rightarrow> Terminated)"

text \<open>\<open>queryORcache\<close>: the cache of any age when the server cannot be reached. Any other database error
  reaches the bare \<^verbatim>\<open>throw;\<close> outside the handler, which ends the program.\<close>

definition queryORcache ::
  "('r list \<Rightarrow> int) \<Rightarrow> cache_io \<Rightarrow> 'r list db_result \<Rightarrow> string \<Rightarrow> string \<Rightarrow> nat \<Rightarrow> bool \<Rightarrow> bool \<times> 'r list file_store
    \<Rightarrow> 'r sql_result db_result \<times> bool \<times> 'r list file_store" where
  "queryORcache fsize io query_res name sql ttl required fst0 =
     (case queryCache2 fsize io query_res name sql ttl False fst0 of
        (DbErr e m, flag, st) \<Rightarrow>
          (if e = Connection then
             (case fileUnSerialize (io_decodes io) (io_now io) name UINT_MAX st of
                Some rows \<Rightarrow> (Res (rows, True), flag, st)
              | None \<Rightarrow>
                  (if required then (DbErr NoResult (''NO result and NO cache for '' @ sql @ '' Original sql excpetion is '' @ m), flag, st)
                   else (Res ([], False), flag, st)))
           else (Terminated, flag, st))
      | other \<Rightarrow> other)"

subsection \<open>Warnings\<close>

fun warn_copies :: "('x \<Rightarrow> string \<Rightarrow> bool) \<Rightarrow> 'x list \<Rightarrow> string \<Rightarrow> 'r \<Rightarrow> 'r list" where
  "warn_copies hasMatch [] msg row = []"
| "warn_copies hasMatch (rx # rxs) msg row =
     (if hasMatch rx msg then [] else row # warn_copies hasMatch rxs msg row)"

definition getWarning :: "('x \<Rightarrow> string \<Rightarrow> bool) \<Rightarrow> 'x list \<Rightarrow> bool \<Rightarrow> nat \<Rightarrow> ('r \<Rightarrow> string) \<Rightarrow> 'r list \<Rightarrow> 'r list" where
  "getWarning hasMatch suppression useSuppressionList warnCount message res =
     (if warnCount = 0 then []
      else if \<not> useSuppressionList \<or> suppression = [] then res
      else concat (map (\<lambda>row. warn_copies hasMatch suppression (message row) row) res))"

subsection \<open>Rows\<close>

record srow =
  sr_data :: "string list"
  sr_nulls :: "bool list"
  sr_columns :: "(string \<times> nat) list option"

definition fpOpt :: "string \<Rightarrow> srow \<Rightarrow> nat option" where
  "fpOpt key r = (case sr_columns r of None \<Rightarrow> None | Some cols \<Rightarrow> map_of cols key)"

definition S_NULL :: string where "S_NULL = ''NULL''"

datatype 'v row_get = Missing | Got 'v | Threw string

text \<open>\<open>get\<close> of a string, and of a converted value: \<open>conv\<close> is \<open>swapType\<close>, an error or the value; the error
  is caught and the destination \<open>old\<close> stays.\<close>

definition get_string :: "string \<Rightarrow> srow \<Rightarrow> string option" where
  "get_string key r =
     (case fpOpt key r of
        None \<Rightarrow> None
      | Some pos \<Rightarrow> Some (if sr_data r ! pos = S_NULL then [] else sr_data r ! pos))"

definition get_value :: "(string \<Rightarrow> string + 'v) \<Rightarrow> 'v \<Rightarrow> string \<Rightarrow> srow \<Rightarrow> 'v option" where
  "get_value conv old key r =
     (case fpOpt key r of
        None \<Rightarrow> None
      | Some pos \<Rightarrow> (case conv (sr_data r ! pos) of Inr v \<Rightarrow> Some v | Inl _ \<Rightarrow> Some old))"

definition missing_key :: "string \<Rightarrow> string" where
  "missing_key k = ''Key not found in row: '' @ k"

definition rq_string :: "string \<Rightarrow> srow \<Rightarrow> string row_get" where
  "rq_string key r = (case get_string key r of None \<Rightarrow> Threw (missing_key key) | Some v \<Rightarrow> Got v)"

definition rq_value :: "(string \<Rightarrow> string + 'v) \<Rightarrow> 'v \<Rightarrow> string \<Rightarrow> srow \<Rightarrow> 'v row_get" where
  "rq_value conv old key r = (case get_value conv old key r of None \<Rightarrow> Threw (missing_key key) | Some v \<Rightarrow> Got v)"

datatype get_reason = ok | notFound | null | zero | empty

text \<open>\<open>getIf\<close>: the reason with the destination after it, or the rethrown conversion error. \<open>is_zero\<close> and
  \<open>is_empty\<close> say what the destination's type counts as 0 and as empty.\<close>

definition null_at :: "nat \<Rightarrow> srow \<Rightarrow> bool" where
  "null_at pos r = (pos < length (sr_nulls r) \<and> sr_nulls r ! pos)"

definition getIf :: "(string \<Rightarrow> string + 'v) \<Rightarrow> ('v \<Rightarrow> bool) \<Rightarrow> ('v \<Rightarrow> bool) \<Rightarrow> bool \<Rightarrow> bool \<Rightarrow> string \<Rightarrow> srow \<Rightarrow> 'v
    \<Rightarrow> string + get_reason \<times> 'v" where
  "getIf conv is_zero is_empty skip0 skipEmpty key r dest =
     (case fpOpt key r of
        None \<Rightarrow> Inr (notFound, dest)
      | Some pos \<Rightarrow>
          if null_at pos r then Inr (null, dest)
          else (case conv (sr_data r ! pos) of
            Inl e \<Rightarrow> Inl (e @ [CHR 0x0A] @ '' For key '' @ key)
          | Inr tmp \<Rightarrow>
              if skip0 \<and> is_zero tmp then Inr (zero, dest)
              else if skipEmpty \<and> is_empty tmp then Inr (empty, dest)
              else Inr (ok, tmp)))"

definition rqIf :: "(string \<Rightarrow> string + 'v) \<Rightarrow> ('v \<Rightarrow> bool) \<Rightarrow> ('v \<Rightarrow> bool) \<Rightarrow> bool \<Rightarrow> bool \<Rightarrow> string \<Rightarrow> srow \<Rightarrow> 'v
    \<Rightarrow> string + get_reason \<times> 'v" where
  "rqIf conv is_zero is_empty skip0 skipEmpty key r dest =
     (case getIf conv is_zero is_empty skip0 skipEmpty key r dest of
        Inr (notFound, _) \<Rightarrow> Inl (missing_key key)
      | other \<Rightarrow> other)"

definition isNull :: "string \<Rightarrow> srow \<Rightarrow> string + bool" where
  "isNull key r = (case fpOpt key r of None \<Rightarrow> Inl (missing_key key) | Some pos \<Rightarrow> Inr (null_at pos r))"

definition replace_cell :: "string \<Rightarrow> string \<Rightarrow> srow \<Rightarrow> string + srow" where
  "replace_cell key newValue r =
     (case fpOpt key r of
        None \<Rightarrow> Inl (''Key not found : '' @ key)
      | Some pos \<Rightarrow>
          (let nulls = (if pos \<ge> length (sr_nulls r)
                        then sr_nulls r @ replicate (length (sr_data r) - length (sr_nulls r)) False
                        else sr_nulls r)
           in Inr (r\<lparr>sr_data := (sr_data r)[pos := newValue], sr_nulls := nulls[pos := False]\<rparr>)))"

text \<open>A row made from the old kind of row: the text NULL is read as SQL NULL.\<close>

definition row_of_old :: "(string \<times> string) list \<Rightarrow> srow" where
  "row_of_old kvs = \<lparr>sr_data = map snd kvs, sr_nulls = map (\<lambda>kv. snd kv = S_NULL) kvs,
     sr_columns = Some (zip (map fst kvs) [0..<length kvs])\<rparr>"

text \<open>The old row's \<open>rq\<close> with a default: a missing key throws, and a given default replaces what was
  found.\<close>

definition old_rq :: "(string \<Rightarrow> string + 'v) \<Rightarrow> string \<Rightarrow> 'v option \<Rightarrow> (string \<times> string) list \<Rightarrow> 'v row_get" where
  "old_rq conv key dflt row =
     (case map_of row key of
        None \<Rightarrow> Threw (''no key > '' @ key @ '' < and missing default value, what should I do ?'')
      | Some t \<Rightarrow> (case conv t of Inl e \<Rightarrow> Threw e | Inr v \<Rightarrow> (case dflt of None \<Rightarrow> Got v | Some d \<Rightarrow> Got d)))"

subsection \<open>Integers from text\<close>

definition wrap_signed :: "nat \<Rightarrow> int \<Rightarrow> int" where
  "wrap_signed w v = (v + 2 ^ (w - 1)) mod 2 ^ w - 2 ^ (w - 1)"

definition not_a_number :: "string \<Rightarrow> string \<Rightarrow> string" where
  "not_a_number s ty = ''Impossible to convert >>>'' @ s @ ''<<< as a '' @ ty"

text \<open>\<open>parse\<close> is Qt's \<^verbatim>\<open>toLongLong\<close> or \<^verbatim>\<open>toULongLong\<close>. From a byte array or a string view the value is
  narrowed silently; from a \<^verbatim>\<open>QString\<close> a value that does not fit is an error.\<close>

definition unparsed :: "string \<Rightarrow> string \<Rightarrow> string + int" where
  "unparsed s ty = (if s = S_NULL then Inr 0 else if s = [] then Inr 0 else Inl (not_a_number s ty))"

definition swap_signed_bytes :: "(string \<Rightarrow> int option) \<Rightarrow> nat \<Rightarrow> string \<Rightarrow> string \<Rightarrow> string + int" where
  "swap_signed_bytes parse w ty s = (case parse s of Some v \<Rightarrow> Inr (wrap_signed w v) | None \<Rightarrow> unparsed s ty)"

definition swap_unsigned_bytes :: "(string \<Rightarrow> int option) \<Rightarrow> nat \<Rightarrow> string \<Rightarrow> string \<Rightarrow> string + int" where
  "swap_unsigned_bytes parse w ty s = (case parse s of Some v \<Rightarrow> Inr (v mod 2 ^ w) | None \<Rightarrow> unparsed s ty)"

definition out_of_range :: "string \<Rightarrow> string" where
  "out_of_range s = ''Value >>>'' @ s @ ''<<< out of range for the destination type''"

definition swap_signed_qstring :: "(string \<Rightarrow> int option) \<Rightarrow> nat \<Rightarrow> string \<Rightarrow> string + int" where
  "swap_signed_qstring parse w s =
     (case parse s of
        Some v \<Rightarrow> (if w < 64 \<and> (v < - (2 ^ (w - 1)) \<or> v > 2 ^ (w - 1) - 1) then Inl (out_of_range s) else Inr (wrap_signed w v))
      | None \<Rightarrow> unparsed s ''number'')"

definition swap_unsigned_qstring :: "(string \<Rightarrow> int option) \<Rightarrow> nat \<Rightarrow> string \<Rightarrow> string + int" where
  "swap_unsigned_qstring parse w s =
     (case parse s of
        Some v \<Rightarrow> (if w < 64 \<and> v > 2 ^ w - 1 then Inl (out_of_range s) else Inr (v mod 2 ^ w))
      | None \<Rightarrow> unparsed s ''number'')"

definition swap_bool_qstring :: "string \<Rightarrow> string + bool" where
  "swap_bool_qstring s =
     (if s = ''1'' \<or> s = ''true'' \<or> s = ''yes'' then Inr True
      else if s = ''0'' \<or> s = ''false'' \<or> s = ''no'' then Inr False
      else Inl (not_a_number s ''boolean''))"

definition swap_optional :: "(string \<Rightarrow> string + 'v) \<Rightarrow> string \<Rightarrow> string + 'v option" where
  "swap_optional conv s =
     (if s = S_NULL then Inr None else case conv s of Inl e \<Rightarrow> Inl e | Inr v \<Rightarrow> Inr (Some v))"

subsection \<open>Cool-down of recurring jobs\<close>

text \<open>\<open>row\<close> is the latest activation of the key (time, cool-down), if any; \<open>scale\<close> multiplies a
  cool-down in floating point, None when the multiplier is 1. The result says whether to run and the
  row inserted.\<close>

definition runnable_check :: "bool \<Rightarrow> (int \<times> int) option \<Rightarrow> int \<Rightarrow> int \<Rightarrow> (int \<Rightarrow> int) option \<Rightarrow> bool \<times> (int \<times> int) option" where
  "runnable_check forceRunnable row now second scale =
     (if forceRunnable then (True, None)
      else case row of
        None \<Rightarrow> (True, Some (now, second))
      | Some (lastRun, stored) \<Rightarrow>
          (let coolDown = (case scale of None \<Rightarrow> second | Some f \<Rightarrow> f stored)
           in if lastRun + coolDown > now then (False, None) else (True, Some (now, second))))"

text \<open>A call against the table: the activations, and the select of the latest for a key.\<close>

type_synonym activations = "(string \<times> int \<times> int) list"

definition latest :: "string \<Rightarrow> activations \<Rightarrow> (int \<times> int) option" where
  "latest key tbl =
     fold (\<lambda>(k, l, c) best. if k = key then (case best of None \<Rightarrow> Some (l, c)
         | Some (l', c') \<Rightarrow> if l > l' then Some (l, c) else Some (l', c')) else best) tbl None"

definition runnable :: "bool \<Rightarrow> string \<Rightarrow> int \<Rightarrow> int \<Rightarrow> (int \<Rightarrow> int) option \<Rightarrow> activations \<Rightarrow> bool \<times> activations" where
  "runnable forceRunnable key now second scale tbl =
     (case runnable_check forceRunnable (latest key tbl) now second scale of
        (r, None) \<Rightarrow> (r, tbl)
      | (r, Some (l, c)) \<Rightarrow> (r, tbl @ [(key, l, c)]))"

subsection \<open>Lemmas\<close>

lemma isRetryable_iff: "isRetryableLockError e \<longleftrightarrow> e = LockWaitTimeout \<or> e = DeadLock"
  by (cases e) (simp_all add: isRetryableLockError_def)

definition result_error :: "'r db_result \<Rightarrow> db_error" where
  "result_error r = (case r of DbErr e _ \<Rightarrow> e | _ \<Rightarrow> NA)"

lemma repeat_loop_first:
  "repeat_loop attempt sql n k lastErr =
    (case filter (\<lambda>i. \<not> retryable (attempt i)) [n..<n + k] of
       i # _ \<Rightarrow> attempt i
     | [] \<Rightarrow> DbErr (if k = 0 then lastErr else result_error (attempt (n + k - 1))) (''Retryable lock error for '' @ sql))"
proof (induction k arbitrary: n lastErr)
  case (Suc k)
  have u: "[n..<n + Suc k] = n # [Suc n..<Suc n + k]" by (simp add: upt_rec)
  show ?case
  proof (cases "retryable (attempt n)")
    case True
    then obtain e m where a: "attempt n = DbErr e m" "isRetryableLockError e"
      by (cases "attempt n") (auto simp: retryable_def)
    show ?thesis
      unfolding u using Suc.IH [of "Suc n" e] a True
      by (cases k) (auto simp: result_error_def split: list.splits)
  next
    case False
    then have "repeat_loop attempt sql n (Suc k) lastErr = attempt n"
      by (cases "attempt n") (simp_all add: retryable_def)
    then show ?thesis unfolding u using False by simp
  qed
qed simp

lemma warn_copies_count:
  "warn_copies hasMatch rxs msg row = replicate (length (takeWhile (\<lambda>rx. \<not> hasMatch rx msg) rxs)) row"
  by (induction rxs) auto

lemma wrap_signed_range:
  assumes "0 < w"
  shows "- (2 ^ (w - 1)) \<le> wrap_signed w v \<and> wrap_signed w v < 2 ^ (w - 1)"
    and "wrap_signed w v mod 2 ^ w = v mod 2 ^ w"
proof -
  obtain k where w: "w = Suc k" using assms by (cases w) auto
  have "0 \<le> (v + 2 ^ k) mod 2 ^ w \<and> (v + 2 ^ k) mod 2 ^ w < 2 ^ w" by simp
  then show "- (2 ^ (w - 1)) \<le> wrap_signed w v \<and> wrap_signed w v < 2 ^ (w - 1)"
    by (simp add: wrap_signed_def w)
  show "wrap_signed w v mod 2 ^ w = v mod 2 ^ w"
    by (simp add: wrap_signed_def mod_diff_left_eq)
qed

lemma wrap_signed_id:
  assumes "0 < w" and "- (2 ^ (w - 1)) \<le> v" and "v < 2 ^ (w - 1)"
  shows "wrap_signed w v = v"
proof -
  obtain k where w: "w = Suc k" using assms(1) by (cases w) auto
  have "(v + 2 ^ k) mod 2 ^ w = v + 2 ^ k" using assms w by (intro mod_pos_pos_trivial) auto
  then show ?thesis by (simp add: wrap_signed_def w)
qed

lemma latest_append:
  "latest key (tbl @ [(k, l, c)]) =
    (if k = key then (case latest key tbl of None \<Rightarrow> Some (l, c)
       | Some (l', c') \<Rightarrow> if l > l' then Some (l, c) else Some (l', c')) else latest key tbl)"
  by (simp add: latest_def)

lemma latest_max: "(key, l, c) \<in> set tbl \<Longrightarrow> \<exists>l' c'. latest key tbl = Some (l', c') \<and> l \<le> l'"
proof (induction tbl rule: rev_induct)
  case (snoc x tbl)
  obtain k1 l1 c1 where x: "x = (k1, l1, c1)" by (cases x)
  show ?case
  proof (cases "(key, l, c) = x")
    case True
    then show ?thesis using x by (auto simp: latest_append split: option.splits prod.splits)
  next
    case False
    then obtain l' c' where "latest key tbl = Some (l', c')" "l \<le> l'" using snoc by auto
    then show ?thesis using x by (auto simp: latest_append)
  qed
qed simp

lemma latest_None: "latest key tbl = None \<longleftrightarrow> (\<forall>l c. (key, l, c) \<notin> set tbl)"
proof (induction tbl rule: rev_induct)
  case (snoc x tbl)
  obtain k1 l1 c1 where x: "x = (k1, l1, c1)" by (cases x)
  show ?case using snoc x by (auto simp: latest_append split: option.splits)
qed (simp add: latest_def)

text \<open>A sequence of calls for one key.\<close>

fun run_calls :: "string \<Rightarrow> int \<Rightarrow> int list \<Rightarrow> activations \<Rightarrow> bool list \<times> activations" where
  "run_calls key second [] tbl = ([], tbl)"
| "run_calls key second (now # clock) tbl =
     (let (r, tbl') = runnable False key now second None tbl;
          (rs, tbl'') = run_calls key second clock tbl'
      in (r # rs, tbl''))"

lemma runnable_cases:
  "runnable False key now second None tbl =
    (case latest key tbl of
       None \<Rightarrow> (True, tbl @ [(key, now, second)])
     | Some (l, c) \<Rightarrow> if l + second > now then (False, tbl) else (True, tbl @ [(key, now, second)]))"
  by (auto simp: runnable_def runnable_check_def split: option.splits)

text \<open>The activations granted by a sequence of calls are at least the cool-down apart.\<close>

definition granted :: "int list \<Rightarrow> bool list \<Rightarrow> int list" where
  "granted clock rs = map fst (filter snd (zip clock rs))"

lemma run_calls_spaced:
  "run_calls key second clock tbl = (rs, tbl') \<Longrightarrow> 0 \<le> second \<Longrightarrow>
   sorted_wrt (\<lambda>a b. a + second \<le> b) (granted clock rs) \<and>
   (\<forall>t\<in>set (granted clock rs). \<forall>l c. (key, l, c) \<in> set tbl \<longrightarrow> l + second \<le> t) \<and>
   length rs = length clock"
proof (induction key second clock tbl arbitrary: rs tbl' rule: run_calls.induct)
  case (2 key second now clock tbl)
  obtain r t1 where r: "runnable False key now second None tbl = (r, t1)" by fastforce
  obtain rs1 where rs1: "run_calls key second clock t1 = (rs1, tbl')" "rs = r # rs1"
    using 2(2) r by (auto simp: Let_def split: prod.splits)
  note ih = 2(1) [OF r [symmetric] refl rs1(1) 2(3)]
  show ?case
  proof (cases r)
    case False
    then have "t1 = tbl" using r by (auto simp: runnable_cases split: option.splits if_splits)
    then show ?thesis using ih rs1(2) False by (simp add: granted_def)
  next
    case True
    then have t1: "t1 = tbl @ [(key, now, second)]"
      using r by (auto simp: runnable_cases split: option.splits if_splits)
    have n: "l + second \<le> now" if h: "(key, l, c) \<in> set tbl" for l c
    proof -
      obtain l' c' where "latest key tbl = Some (l', c')" "l \<le> l'" using latest_max [OF h] by blast
      then show ?thesis using r True by (auto simp: runnable_cases split: if_splits)
    qed
    show ?thesis using ih rs1(2) True t1 n by (auto simp: granted_def)
  qed
qed (simp add: granted_def)

subsection \<open>Properties\<close>

text \<open>C20. The deadlock repeater is the search for the first attempt that is not a retryable lock error:
  among at most \<open>maxTry\<close> attempts it returns exactly that outcome, success or not, and when all
  were lock errors it raises the last one; an empty statement is not sent.\<close>

theorem repeater_first_decisive:
  "queryDeadlockRepeater attempt sql maxTry =
    (if sql = [] then Res []
     else case filter (\<lambda>i. \<not> retryable (attempt i)) [0..<maxTry] of
       i # _ \<Rightarrow> attempt i
     | [] \<Rightarrow> DbErr (if maxTry = 0 then DeadLock else result_error (attempt (maxTry - 1)))
               (''Retryable lock error for '' @ sql))"
  using repeat_loop_first [of attempt sql 0 maxTry DeadLock]
  by (simp add: queryDeadlockRepeater_def cong: list.case_cong)

text \<open>A query answered from the cache is not sent: after a stored result, every read within its
  lifetime gives the stored rows marked as cached, whatever the server would answer, and a read
  after it gives the server's answer; while the file of a failed save is skipped by the next save
  of the same name.\<close>

theorem cache_hit_and_stuck:
  assumes "0 < ttl" and "name \<noteq> fs_current st"
    and "fileSerialize fsize t0 True True name rows st = (n, st1)"
    and "fileSerialize fsize t0 False True name rows st = (n', st2)"
  shows "(io_decodes io \<and> io_now io \<le> t0 + int ttl \<longrightarrow>
      queryCache2 fsize io answer name sql ttl required (flag, st1) = (Res (rows, True), False, st1)) \<and>
    (t0 + int ttl < io_now io \<and> ttl \<noteq> UINT_MAX \<longrightarrow>
      fst (queryCache2 fsize io answer name sql ttl required (flag, st1)) = plain_result answer) \<and>
    fileSerialize fsize t0 True True name rows' st2 = (0, st2)"
  using assms
  by (auto simp: fileSerialize_def fileUnSerialize_def queryCache2_def store_result_def plain_result_def
      Let_def split: db_result.splits)

theorem cache_hit_and_stuck_witness:
  "\<exists>n st1. fileSerialize (\<lambda>_. 1) 100 True True ''f'' [7::nat] \<lparr>fs_files = (\<lambda>_. None), fs_current = []\<rparr> = (n, st1) \<and>
     queryCache2 (\<lambda>_. 1) \<lparr>io_now = 150, io_open = True, io_commit = True, io_decodes = True\<rparr> (Res [8]) ''f'' ''q'' 60 True (False, st1) =
       (Res ([7], True), False, st1)"
proof -
  let ?st = "\<lparr>fs_files = (\<lambda>_. None), fs_current = []\<rparr> :: nat list file_store"
  obtain n st1 where 1: "fileSerialize (\<lambda>_. 1) 100 True True ''f'' [7::nat] ?st = (n, st1)" by fastforce
  obtain n2 st2 where 2: "fileSerialize (\<lambda>_. 1) 100 False True ''f'' [7::nat] ?st = (n2, st2)" by fastforce
  show ?thesis
    using cache_hit_and_stuck [OF _ _ 1 2, of 60 "\<lparr>io_now = 150, io_open = True, io_commit = True, io_decodes = True\<rparr>"
        "Res [8]" "''q''" True False "[]"] 1 by simp
qed

text \<open>\<open>queryORcache\<close>: when the server cannot be reached, a cached result of any age is given, without
  one the call fails with \<open>NoResult\<close> or gives no rows as asked; an error of any other kind from the
  database does not reach the caller but ends the program, while other exceptions do reach it.\<close>

theorem queryORcache_outcomes:
  assumes "fileUnSerialize (io_decodes io) (io_now io) name ttl st = None" and "ttl \<noteq> UINT_MAX"
  shows "fst (queryORcache fsize io answer name sql ttl required (flag, st)) =
    (case answer of
       Res rows \<Rightarrow> Res (rows, False)
     | DbErr e m \<Rightarrow>
         (if e \<noteq> Connection then Terminated
          else case fileUnSerialize (io_decodes io) (io_now io) name UINT_MAX st of
            Some rows \<Rightarrow> Res (rows, True)
          | None \<Rightarrow> if required then DbErr NoResult (''NO result and NO cache for '' @ sql @ '' Original sql excpetion is '' @ m)
                    else Res ([], False))
     | OtherErr m \<Rightarrow> OtherErr m
     | Terminated \<Rightarrow> Terminated)"
  using assms
  by (cases answer)
     (auto simp: queryORcache_def queryCache2_def store_result_def plain_result_def split: option.splits)

theorem queryORcache_outcomes_witness:
  "fst (queryORcache (\<lambda>_. 1) \<lparr>io_now = 9, io_open = True, io_commit = True, io_decodes = True\<rparr>
      (DbErr Duplicate ''m'' :: nat list db_result) ''f'' ''q'' 60 True (False, \<lparr>fs_files = (\<lambda>_. None), fs_current = []\<rparr>)) = Terminated"
  using queryORcache_outcomes [of "\<lparr>io_now = 9, io_open = True, io_commit = True, io_decodes = True\<rparr>" "''f''" 60
      "\<lparr>fs_files = (\<lambda>_. None), fs_current = []\<rparr>" "\<lambda>_. 1" "DbErr Duplicate ''m''" "''q''" True False]
  by (simp add: fileUnSerialize_def UINT_MAX_def)

text \<open>SQL NULL and the text NULL are told apart: \<open>getIf\<close> and \<open>isNull\<close> follow the null flag alone, a
  cell without it yields its converted text even when that text is NULL, and the destination
  changes only with the reason \<open>ok\<close>; \<open>rq\<close> instead reads both as the empty string, and a failed
  conversion that \<open>getIf\<close> reports leaves \<open>get\<close>'s destination unchanged without a word.\<close>

theorem row_null_distinguished:
  assumes "fpOpt key r = Some pos"
  shows "isNull key r = Inr (null_at pos r) \<and>
    (getIf conv z em s0 se key r dest = Inr (null, dest)) = null_at pos r \<and>
    (\<not> null_at pos r \<longrightarrow> getIf Inr z em False False key r text = Inr (ok, sr_data r ! pos)) \<and>
    (getIf conv z em s0 se key r dest = Inr (why, d) \<longrightarrow> d = dest \<or> why = ok) \<and>
    (sr_data r ! pos = S_NULL \<longrightarrow> rq_string key r = Got []) \<and>
    (conv (sr_data r ! pos) = Inl e \<longrightarrow> get_value conv dest key r = Some dest \<and>
       (\<not> null_at pos r \<longrightarrow> (\<exists>msg. getIf conv z em s0 se key r dest = Inl msg)))"
  using assms
  by (auto simp: isNull_def getIf_def rq_string_def get_string_def get_value_def split: sum.splits if_splits)

theorem row_null_distinguished_witness:
  "getIf Inr (\<lambda>_. False) (\<lambda>t. t = []) False False ''token''
     \<lparr>sr_data = [S_NULL], sr_nulls = [False], sr_columns = Some [(''token'', 0)]\<rparr> [] = Inr (ok, S_NULL)"
  using row_null_distinguished [of "''token''" "\<lparr>sr_data = [S_NULL], sr_nulls = [False], sr_columns = Some [(''token'', 0)]\<rparr>" 0]
  by (simp add: fpOpt_def null_at_def)

text \<open>Integers: from a \<^verbatim>\<open>QString\<close> a signed destination receives the parsed value or an error, never
  another value; from bytes it receives the value reduced to its width, which is in range and
  congruent but, when the value does not fit, different.\<close>

theorem integer_conversion:
  assumes "0 < w" and "w \<le> 64" and "parse s = Some v" and "- (2 ^ 63) \<le> v" and "v < 2 ^ 63"
  shows "(swap_signed_qstring parse w s = Inr v \<or> swap_signed_qstring parse w s = Inl (out_of_range s)) \<and>
    (swap_signed_qstring parse w s = Inr v) = (- (2 ^ (w - 1)) \<le> v \<and> v < 2 ^ (w - 1)) \<and>
    (\<exists>u. swap_signed_bytes parse w ty s = Inr u \<and> - (2 ^ (w - 1)) \<le> u \<and> u < 2 ^ (w - 1) \<and>
       u mod 2 ^ w = v mod 2 ^ w \<and> (u = v) = (- (2 ^ (w - 1)) \<le> v \<and> v < 2 ^ (w - 1)))"
proof -
  have r: "- (2 ^ (w - 1)) \<le> wrap_signed w v \<and> wrap_signed w v < 2 ^ (w - 1)"
    "wrap_signed w v mod 2 ^ w = v mod 2 ^ w" using wrap_signed_range [OF assms(1)] by auto
  have e: "(wrap_signed w v = v) = (- (2 ^ (w - 1)) \<le> v \<and> v < 2 ^ (w - 1))"
    using r(1) wrap_signed_id [OF assms(1)] by metis
  have f: "- (2 ^ (w - 1)) \<le> v \<and> v < 2 ^ (w - 1)" if "\<not> w < 64"
    using that assms by simp
  show ?thesis using r e f assms(3)
    by (auto simp: swap_signed_qstring_def swap_signed_bytes_def)
qed

theorem integer_conversion_witness:
  "swap_signed_qstring (\<lambda>_. Some 3000000000) 32 ''3000000000'' = Inl (out_of_range ''3000000000'') \<and>
   swap_signed_bytes (\<lambda>_. Some 3000000000) 32 ''i'' ''3000000000'' \<noteq> Inr 3000000000"
  using integer_conversion [of 32 "\<lambda>_. Some 3000000000" "''3000000000''" 3000000000 "''i''"] by auto

text \<open>The cool-down holds: over any sequence of calls for one key, whatever their times, two granted
  activations are at least the cool-down apart, and none comes sooner than that after an
  activation the table already held; and a key without activations is granted.\<close>

theorem runnable_spaced:
  assumes "run_calls key second clock tbl = (rs, tbl')" and "0 \<le> second"
  shows "sorted_wrt (\<lambda>a b. a + second \<le> b) (granted clock rs) \<and>
    (\<forall>t\<in>set (granted clock rs). \<forall>l c. (key, l, c) \<in> set tbl \<longrightarrow> l + second \<le> t) \<and>
    ((\<forall>l c. (key, l, c) \<notin> set tbl) \<longrightarrow> fst (runnable False key now second None tbl))"
proof -
  have "fst (runnable False key now second None tbl)" if "\<forall>l c. (key, l, c) \<notin> set tbl"
    using that latest_None [of key tbl] by (simp add: runnable_cases)
  then show ?thesis using run_calls_spaced [OF assms] by simp
qed

theorem runnable_spaced_witness:
  "granted [100, 105, 110, 111] (fst (run_calls ''k'' 10 [100, 105, 110, 111] [])) = [100, 110] \<and>
   sorted_wrt (\<lambda>a b. a + 10 \<le> b) (granted [100, 105, 110, 111] (fst (run_calls ''k'' 10 [100, 105, 110, 111] [])))"
proof -
  obtain rs t where r: "run_calls ''k'' 10 [100, 105, 110, 111] [] = (rs, t)" by fastforce
  have "rs = [True, False, True, False]" using r by (simp add: runnable_cases latest_def)
  then show ?thesis using runnable_spaced [OF r] r by (simp add: granted_def)
qed

text \<open>The warning filter repeats rows: with a suppression list, each warning is reported once per
  expression before the first that matches it; so with one expression it filters, and with several
  a warning that none matches is reported as many times as there are expressions.\<close>

theorem getWarning_copies:
  assumes "warnCount \<noteq> 0" and "suppression \<noteq> []"
  shows "getWarning hasMatch suppression True warnCount message res =
      concat (map (\<lambda>row. replicate (length (takeWhile (\<lambda>rx. \<not> hasMatch rx (message row)) suppression)) row) res) \<and>
    getWarning hasMatch [rx] True warnCount message res = filter (\<lambda>row. \<not> hasMatch rx (message row)) res"
proof -
  have "concat (map (\<lambda>row. warn_copies hasMatch [rx] (message row) row) res) = filter (\<lambda>row. \<not> hasMatch rx (message row)) res"
    by (induction res) auto
  then show ?thesis using assms by (simp add: getWarning_def warn_copies_count)
qed

theorem getWarning_copies_witness:
  "getWarning (\<lambda>rx m. rx = m) [''a'', ''b''] True 1 (\<lambda>m. m) [''c''] = [''c'', ''c'']"
  using getWarning_copies [of 1 "[''a'', ''b'']" "\<lambda>rx m. rx = m" "\<lambda>m. m" "[''c'']"] by simp

end
