(* ===== verification/Utilities.thy ===== *)
theory Utilities
  imports MapExt "HOL-Library.Word" "HOL-Library.AList"
begin

text \<open>
  \<^verbatim>\<open>misc/snowflake.h\<close> and \<^verbatim>\<open>misc/snowflake.cpp\<close> (ids), \<^verbatim>\<open>misc/decimate.h\<close>, the scope guards of
  \<^verbatim>\<open>RAII/resetAfterUse.h\<close> and the per-thread variables of \<^verbatim>\<open>minMysql/MITLS.h\<close>.

  Ids are 64-bit words. Program variables a guard points to are the cells of a store.
\<close>

unbundle bit_operations_syntax

subsection \<open>Snowflake ids\<close>

record adp =
  adp_mask :: "64 word"
  adp_pad :: nat

definition srvIdX :: adp where
  "srvIdX = \<lparr>adp_mask = push_bit 10 (push_bit 8 1 - 1), adp_pad = 10\<rparr>"

definition seqX :: adp where
  "seqX = \<lparr>adp_mask = 1023, adp_pad = 0\<rparr>"

definition msX :: adp where
  "msX = \<lparr>adp_mask = push_bit 18 (push_bit 10 1 - 1), adp_pad = 18\<rparr>"

definition tsX :: adp where
  "tsX = \<lparr>adp_mask = push_bit 28 (push_bit 32 1 - 1), adp_pad = 28\<rparr>"

record snowflake =
  sn_seq :: "64 word"
  sn_srvId :: "64 word"
  sn_ms :: "64 word"
  sn_ts :: "64 word"
  sn_lastUse :: int

definition snowflake_init :: "64 word \<Rightarrow> snowflake" where
  "snowflake_init srv = \<lparr>sn_seq = 0, sn_srvId = srv, sn_ms = 0, sn_ts = 0, sn_lastUse = 0\<rparr>"

definition toUint :: "snowflake \<Rightarrow> 64 word" where
  "toUint s =
     ((push_bit 28 (sn_ts s) OR push_bit 18 (sn_ms s AND 1023)) OR push_bit 10 (sn_srvId s AND 255)) OR (sn_seq s AND 1023)"

definition from_field :: "adp \<Rightarrow> 64 word \<Rightarrow> 64 word" where
  "from_field a v = drop_bit (adp_pad a) (v AND adp_mask a)"

definition fromUint :: "64 word \<Rightarrow> snowflake \<Rightarrow> snowflake" where
  "fromUint v s = s\<lparr>sn_seq := from_field seqX v, sn_srvId := from_field srvIdX v,
     sn_ms := from_field msX v, sn_ts := from_field tsX v\<rparr>"

text \<open>The clock is compared with the last use; the id is made of the fields as they are then.\<close>

definition snowflake_next :: "int \<Rightarrow> snowflake \<Rightarrow> 64 word \<times> snowflake" where
  "snowflake_next t2 s =
     (let s' = (if t2 \<noteq> sn_lastUse s then s\<lparr>sn_lastUse := t2, sn_seq := 0\<rparr>
                else s\<lparr>sn_seq := sn_seq s + 1\<rparr>)
      in (toUint s', s'))"

definition snowflake_eq :: "snowflake \<Rightarrow> snowflake \<Rightarrow> bool" where
  "snowflake_eq i j = (sn_ts i = sn_ts j \<and> sn_ts i = sn_ts j \<and> sn_ts i = sn_ts j \<and> sn_ts i = sn_ts j)"

fun next_ids :: "int list \<Rightarrow> snowflake \<Rightarrow> 64 word list" where
  "next_ids [] s = []"
| "next_ids (t # ts) s = (let (v, s') = snowflake_next t s in v # next_ids ts s')"

lemma masks:
  "(1023::64 word) = mask 10" "(255::64 word) = mask 8"
  "adp_mask srvIdX = push_bit 10 (mask 8)" "adp_mask msX = push_bit 18 (mask 10)"
  "adp_mask tsX = push_bit 28 (mask 32)" "adp_mask seqX = mask 10"
  by (simp_all add: srvIdX_def msX_def tsX_def seqX_def mask_eq_exp_minus_1)

lemma fields_of_toUint:
  "from_field seqX (toUint s) = sn_seq s AND mask 10"
  "from_field srvIdX (toUint s) = sn_srvId s AND mask 8"
  "from_field msX (toUint s) = sn_ms s AND mask 10"
  "from_field tsX (toUint s) = sn_ts s AND mask 32"
proof -
  have p: "adp_pad seqX = 0" "adp_pad srvIdX = 10" "adp_pad msX = 18" "adp_pad tsX = 28"
    by (simp_all add: seqX_def srvIdX_def msX_def tsX_def)
  show "from_field seqX (toUint s) = sn_seq s AND mask 10"
    by (rule bit_word_eqI) (auto simp: from_field_def p masks toUint_def bit_simps)
  show "from_field srvIdX (toUint s) = sn_srvId s AND mask 8"
    by (rule bit_word_eqI) (auto simp: from_field_def p masks toUint_def bit_simps)
  show "from_field msX (toUint s) = sn_ms s AND mask 10"
    by (rule bit_word_eqI) (auto simp: from_field_def p masks toUint_def bit_simps)
  show "from_field tsX (toUint s) = sn_ts s AND mask 32"
    by (rule bit_word_eqI) (auto simp: from_field_def p masks toUint_def bit_simps)
qed

lemma mask_id: "x < 2 ^ n \<Longrightarrow> n < 64 \<Longrightarrow> (x::64 word) AND mask n = x"
  by (metis less_mask_eq take_bit_eq_mask)

subsection \<open>Decimation\<close>

text \<open>The loop with its counter; \<open>skip\<close> 0 keeps everything.\<close>

fun decimate_loop :: "nat \<Rightarrow> nat \<Rightarrow> 'a list \<Rightarrow> 'a list" where
  "decimate_loop skip i [] = []"
| "decimate_loop skip i (x # xs) =
     (if skip = 0 then x # decimate_loop skip i xs
      else if i mod skip = 0 then x # decimate_loop skip (i + 1) xs
      else decimate_loop skip (i + 1) xs)"

text \<open>The comparison of the unsigned size with the signed limit makes a negative limit large; None is the
  division by zero of a limit of 0.\<close>

definition decimate :: "'a list \<Rightarrow> int \<Rightarrow> 'a list option" where
  "decimate input max_count =
     (if int (length input) > max_count mod 2 ^ 64 then
        (if max_count = 0 then None
         else Some (decimate_loop (length input div nat max_count) 0 input))
      else Some (decimate_loop 0 0 input))"

definition decimateIndices :: "nat \<Rightarrow> int \<Rightarrow> nat list" where
  "decimateIndices n max_count =
     (let skip = (if max_count > 0 \<and> int n > max_count then n div nat max_count else 0)
      in decimate_loop skip 0 [0..<n])"

lemma decimate_zero [simp]: "decimate_loop 0 i xs = xs"
  by (induction xs) auto

lemma decimate_map: "decimate_loop skip i (map f xs) = map f (decimate_loop skip i xs)"
  by (induction skip i xs rule: decimate_loop.induct) auto

lemma decimate_length:
  assumes "0 < skip"
  shows "length (decimate_loop skip i xs) = (i + length xs + (skip - 1)) div skip - (i + (skip - 1)) div skip"
  using assms
proof (induction xs arbitrary: i)
  case (Cons x xs)
  have s: "(Suc i + (skip - 1)) div skip = (i + (skip - 1)) div skip + (if i mod skip = 0 then 1 else 0)"
  proof -
    have e: "Suc i + (skip - 1) = i + skip" "skip \<noteq> 0" using Cons.prems by auto
    have "(i + (skip - 1)) div skip = i div skip + (if i mod skip = 0 then 0 else 1)"
    proof (cases "i mod skip = 0")
      case True
      then have "i = skip * (i div skip)" by (metis add.right_neutral mult_div_mod_eq)
      then have "(i + (skip - 1)) div skip = (skip * (i div skip) + (skip - 1)) div skip" by simp
      also have "\<dots> = i div skip" using e(2) by (subst div_mult_self4) simp_all
      finally show ?thesis using True by simp
    next
      case False
      define q where "q = i div skip"
      define r where "r = i mod skip"
      have i: "i = skip * q + r" "0 < r" "r < skip" using False e(2) by (simp_all add: q_def r_def)
      have "i + (skip - 1) = skip * (q + 1) + (r - 1)" using i by (simp add: algebra_simps)
      then have "(i + (skip - 1)) div skip = q + 1"
        using i by (metis add_cancel_right_right div_less div_mult_self4 e(2) less_imp_diff_less)
      then show ?thesis using False by (simp add: q_def)
    qed
    then show ?thesis using e by (simp add: div_add_self2)
  qed
  have m: "(i + (skip - 1)) div skip \<le> (i + length (x # xs) + (skip - 1)) div skip" by (rule div_le_mono) simp
  have m2: "(Suc i + (skip - 1)) div skip \<le> (Suc i + length xs + (skip - 1)) div skip" by (rule div_le_mono) simp
  have l: "length (decimate_loop skip (Suc i) xs) = (Suc i + length xs + (skip - 1)) div skip - (Suc i + (skip - 1)) div skip"
    using Cons.IH Cons.prems by blast
  show ?case using l m m2 s Cons.prems by auto
qed simp

subsection \<open>Scope guards\<close>

text \<open>\<open>ResetOnExit\<close>: the variable it points to (None when it points nowhere) and the value to put back.\<close>

record 'k scope_guard =
  rg_variable :: "nat option"
  rg_oldValue :: "'k option"

definition scope_empty :: "'k scope_guard" where
  "scope_empty = \<lparr>rg_variable = None, rg_oldValue = None\<rparr>"

definition scope_set :: "nat \<Rightarrow> 'k \<Rightarrow> (nat \<Rightarrow> 'k) \<times> 'k scope_guard \<Rightarrow> (nat \<Rightarrow> 'k) \<times> 'k scope_guard" where
  "scope_set key x sg = (case sg of (store, g) \<Rightarrow>
     (store(key := x), \<lparr>rg_variable = Some key, rg_oldValue = Some (store key)\<rparr>))"

definition scope_reset :: "(nat \<Rightarrow> 'k) \<times> 'k scope_guard \<Rightarrow> (nat \<Rightarrow> 'k) \<times> 'k scope_guard" where
  "scope_reset sg = (case sg of (store, g) \<Rightarrow>
     ((case rg_variable g of Some v \<Rightarrow> store(v := the (rg_oldValue g)) | None \<Rightarrow> store),
      g\<lparr>rg_variable := None\<rparr>))"

definition scope_exit :: "(nat \<Rightarrow> 'k) \<times> 'k scope_guard \<Rightarrow> nat \<Rightarrow> 'k" where
  "scope_exit sg = fst (scope_reset sg)"

text \<open>\<open>SetOnExit\<close>: assigns when the scope ends; \<open>OnExit\<close>: calls unless told not to.\<close>

definition set_on_exit :: "nat \<Rightarrow> 'k \<Rightarrow> (nat \<Rightarrow> 'k) \<Rightarrow> nat \<Rightarrow> 'k" where
  "set_on_exit key x store = store(key := x)"

definition on_exit :: "bool \<Rightarrow> ('s \<Rightarrow> 's) \<Rightarrow> 's \<Rightarrow> 's" where
  "on_exit doNotCall f s = (if doNotCall then s else f s)"

text \<open>A scope that sets variables under guards, runs a body and leaves, innermost guard first.\<close>

fun with_guards :: "(nat \<times> 'k) list \<Rightarrow> ((nat \<Rightarrow> 'k) \<Rightarrow> nat \<Rightarrow> 'k) \<Rightarrow> (nat \<Rightarrow> 'k) \<Rightarrow> nat \<Rightarrow> 'k" where
  "with_guards [] body store = body store"
| "with_guards ((key, x) # gs) body store =
     (let (store1, g) = scope_set key x (store, scope_empty)
      in scope_exit (with_guards gs body store1, g))"

fun set_all :: "(nat \<times> 'k) list \<Rightarrow> (nat \<Rightarrow> 'k) \<Rightarrow> nat \<Rightarrow> 'k" where
  "set_all [] store = store"
| "set_all ((key, x) # gs) store = set_all gs (store(key := x))"

lemma with_guards_value:
  "with_guards gs body store v =
    (if v \<in> set (map fst gs) then store v else body (set_all gs store) v)"
proof (induction gs arbitrary: store)
  case (Cons kx gs)
  obtain key x where kx: "kx = (key, x)" by (cases kx)
  have "with_guards ((key, x) # gs) body store v =
      (if v = key then store key else with_guards gs body (store(key := x)) v)"
    by (simp add: scope_set_def scope_exit_def scope_reset_def scope_empty_def)
  then show ?case using Cons kx by (simp del: with_guards.simps)
qed simp

subsection \<open>Per-thread variables\<close>

text \<open>One thread's repository: the flag its destructor clears, the values by instance address, and the
  value handed out after the destructor ran.\<close>

record 'v repo =
  rp_alive :: bool
  rp_map :: "(nat \<times> 'v) list"
  rp_sink :: 'v

definition repo_store :: "nat \<Rightarrow> 'v \<Rightarrow> 'v repo \<Rightarrow> 'v repo" where
  "repo_store inst x r = (if \<not> rp_alive r then r else r\<lparr>rp_map := AList.update inst x (rp_map r)\<rparr>)"

text \<open>\<open>load\<close> is a reference: the value seen through it and the repository after \<open>operator[]\<close> made the
  entry; writing through it is \<open>repo_write\<close>.\<close>

definition repo_load :: "'v \<Rightarrow> nat \<Rightarrow> 'v repo \<Rightarrow> 'v \<times> 'v repo" where
  "repo_load dflt inst r =
     (if \<not> rp_alive r then (rp_sink r, r)
      else case map_of (rp_map r) inst of
        Some x \<Rightarrow> (x, r)
      | None \<Rightarrow> (dflt, r\<lparr>rp_map := AList.update inst dflt (rp_map r)\<rparr>))"

definition repo_write :: "nat \<Rightarrow> 'v \<Rightarrow> 'v repo \<Rightarrow> 'v repo" where
  "repo_write inst x r =
     (if \<not> rp_alive r then r\<lparr>rp_sink := x\<rparr> else r\<lparr>rp_map := AList.update inst x (rp_map r)\<rparr>)"

definition repo_remove :: "nat \<Rightarrow> 'v repo \<Rightarrow> 'v repo" where
  "repo_remove inst r = (if \<not> rp_alive r then r else r\<lparr>rp_map := AList.delete inst (rp_map r)\<rparr>)"

definition repo_end :: "'v repo \<Rightarrow> 'v repo" where
  "repo_end r = r\<lparr>rp_alive := False, rp_map := []\<rparr>"

definition repo_look :: "'v repo \<Rightarrow> nat \<Rightarrow> 'v option" where
  "repo_look r = map_of (rp_map r)"

interpretation tls_map: kv_store repo_store repo_look repo_remove rp_alive
  by unfold_locales (simp_all add: repo_store_def repo_look_def repo_remove_def update_conv' delete_conv')

subsection \<open>Properties\<close>

text \<open>Ids: packing and unpacking give the fields back when they fit, and distinct sequence numbers of
  one clock reading give distinct ids up to 1024 of them; but \<open>next\<close> never stores the clock in the
  time fields, so any two calls at new clock readings give the same id.\<close>

theorem snowflake_ids:
  assumes "sn_seq s < 2 ^ 10" and "sn_srvId s < 2 ^ 8" and "sn_ms s < 2 ^ 10" and "sn_ts s < 2 ^ 32"
  shows "fromUint (toUint s) t = t\<lparr>sn_seq := sn_seq s, sn_srvId := sn_srvId s, sn_ms := sn_ms s, sn_ts := sn_ts s\<rparr> \<and>
    (n < 2 ^ 10 \<and> n \<noteq> sn_seq s \<longrightarrow> toUint (s\<lparr>sn_seq := n\<rparr>) \<noteq> toUint s) \<and>
    (t1 \<noteq> sn_lastUse s \<and> t2 \<noteq> t1 \<longrightarrow> (\<exists>i. next_ids [t1, t2] s = [i, i]))"
proof -
  have f: "fromUint (toUint s) t = t\<lparr>sn_seq := sn_seq s, sn_srvId := sn_srvId s, sn_ms := sn_ms s, sn_ts := sn_ts s\<rparr>"
    using assms by (simp add: fromUint_def fields_of_toUint mask_id)
  have n: "toUint (s\<lparr>sn_seq := n\<rparr>) \<noteq> toUint s" if "n < 2 ^ 10 \<and> n \<noteq> sn_seq s"
  proof
    assume "toUint (s\<lparr>sn_seq := n\<rparr>) = toUint s"
    then have "from_field seqX (toUint (s\<lparr>sn_seq := n\<rparr>)) = from_field seqX (toUint s)" by simp
    then show False using that assms(1) by (simp add: fields_of_toUint mask_id)
  qed
  have "next_ids [t1, t2] s = [toUint (s\<lparr>sn_seq := 0\<rparr>), toUint (s\<lparr>sn_seq := 0\<rparr>)]"
    if "t1 \<noteq> sn_lastUse s \<and> t2 \<noteq> t1"
    using that by (simp add: snowflake_next_def toUint_def Let_def)
  then show ?thesis using f n by blast
qed

theorem snowflake_ids_witness:
  "\<exists>i. next_ids [1001, 1002] (snowflake_init 5) = [i, i]"
  using snowflake_ids [of "snowflake_init 5" _ 0 1001 1002] by (simp add: snowflake_init_def)

text \<open>Decimation: with a positive limit the result has fewer than twice the limit's elements, is
  everything when the input is within the limit, and is the elements at the indices
  \<open>decimateIndices\<close> gives for the same size and limit; a limit of 0 on a non-empty input has no
  result.\<close>

theorem decimate_bounded:
  assumes "0 < m" and "length xs < 2 ^ 63" and "m < 2 ^ 63"
  shows "(\<exists>ys. decimate xs (int m) = Some ys \<and> length ys < 2 * m \<and>
      ys = map (nth xs) (decimateIndices (length xs) (int m)) \<and> (length xs \<le> m \<longrightarrow> ys = xs)) \<and>
    (xs \<noteq> [] \<longrightarrow> decimate xs 0 = None)"
proof -
  let ?n = "length xs"
  have md: "int m mod 2 ^ 64 = int m" using assms(3) by (intro mod_pos_pos_trivial) auto
  have nth: "map (nth xs) [0..<?n] = xs" by (simp add: map_nth)
  show ?thesis
  proof (cases "m < ?n")
    case False
    have "decimate xs (int m) = Some xs" using False md by (simp add: decimate_def)
    moreover have "decimateIndices ?n (int m) = [0..<?n]" using False by (simp add: decimateIndices_def)
    ultimately show ?thesis using False nth assms(1) by (simp add: decimate_def)
  next
    case True
    define k where "k = ?n div m"
    have k: "1 \<le> k" using True assms(1) by (simp add: k_def Suc_leI div_greater_zero_iff)
    let ?ys = "decimate_loop k 0 xs"
    have d: "decimate xs (int m) = Some ?ys" using True md assms(1) by (simp add: decimate_def k_def)
    have i: "?ys = map (nth xs) (decimateIndices ?n (int m))"
      using True assms(1) nth decimate_map [of k 0 "nth xs" "[0..<?n]"]
      by (simp add: decimateIndices_def k_def)
    have b: "?n < (k + 1) * m"
      using dividend_less_div_times [of m ?n] assms(1) by (simp add: k_def algebra_simps)
    obtain a c where mk: "m = Suc a" "k = Suc c" using assms(1) k by (metis Suc_le_D gr0_conv_Suc One_nat_def)
    have "?n + (k - 1) < 2 * m * k" using b unfolding mk by (simp add: algebra_simps)
    then have "(?n + (k - 1)) div k < 2 * m" by (rule less_mult_imp_div_less)
    moreover have "length ?ys = (?n + (k - 1)) div k"
      using decimate_length [of k 0 xs] k by simp
    ultimately show ?thesis using d i True assms(1) by (auto simp: decimate_def)
  qed
qed

theorem decimate_bounded_witness:
  "\<exists>ys. decimate [0..<7] 2 = Some ys \<and> length ys < 4"
  using decimate_bounded [of 2 "[0..<7]"] by auto

text \<open>Scoped assignments are undone: when the scope ends, every guarded variable has the value it had
  before, nested and repeated guards included, and every other variable what the body made of it.\<close>

theorem guards_restore:
  "with_guards gs body store =
    (\<lambda>v. if v \<in> set (map fst gs) then store v else body (set_all gs store) v)"
  using with_guards_value by fastforce

text \<open>Per-thread variables: after any assignments, an instance reads its own last one and no other
  instance's; and once the thread's repository is gone, nothing is stored or removed any more and
  every read gives the spare value.\<close>

theorem tls_isolated:
  assumes "rp_alive r"
  shows "repo_look (tls_map.put_all kvs r) = repo_look r ++ map_of (rev kvs) \<and>
    fst (repo_load dflt inst (repo_store inst x r)) = x \<and>
    (other \<noteq> inst \<longrightarrow> fst (repo_load dflt other (repo_store inst x r)) = fst (repo_load dflt other r)) \<and>
    repo_store inst x (repo_end r) = repo_end r \<and> repo_remove inst (repo_end r) = repo_end r \<and>
    repo_load dflt inst (repo_end r) = (rp_sink r, repo_end r)"
  using tls_map.look_put_all [OF assms, of kvs] assms
  by (simp add: repo_load_def repo_store_def repo_end_def repo_remove_def update_conv' split: option.splits)

theorem tls_isolated_witness:
  "fst (repo_load (0::nat) 7 (repo_store 7 5 \<lparr>rp_alive = True, rp_map = [(8, 1)], rp_sink = 0\<rparr>)) = 5"
  using tls_isolated [of "\<lparr>rp_alive = True, rp_map = [(8, 1)], rp_sink = 0\<rparr> :: nat repo"] by simp

end
