(* ===== verification/CsvReader.thy ===== *)
theory CsvReader
  imports TextUtil
begin

text \<open>
  The CSV row readers of \<^verbatim>\<open>filesystem/filefunction.cpp\<close>: a table-driven state machine over the line,
  against what \<open>escapeForCSV\<close> writes. The positions it stores are those of the code; a
  \<^verbatim>\<open>QStringView\<close> is the text it shows, a character stands for one code unit of the string.
\<close>

subsection \<open>The row readers\<close>

text \<open>Events are 0 separator, 1 escape, 2 new line, 3 any other character, 4 end; the state -1 is the
  end of the row, -2 the end of the text inside quotes.\<close>

definition csv_delta :: "int list list" where
  "csv_delta = [[1, 2, -1, 0, -1], [1, 2, -1, 0, -1], [3, 4, 3, 3, -2], [3, 4, 3, 3, -2], [1, 3, -1, 0, -1]]"

definition csv_next :: "int \<Rightarrow> nat \<Rightarrow> int" where
  "csv_next state event = csv_delta ! nat state ! event"

record csv_block =
  currentBlockStart :: int
  blockEnd :: int
  csv_part :: "string list"

definition csv_start :: csv_block where
  "csv_start = \<lparr>currentBlockStart = -1, blockEnd = 0, csv_part = []\<rparr>"

text \<open>\<^verbatim>\<open>QStringView::mid\<close> from a position of the text: a negative length reaches to the end.\<close>

definition qmid :: "string \<Rightarrow> int \<Rightarrow> int \<Rightarrow> string" where
  "qmid s pos n = (if n < 0 then drop (nat pos) s else take (nat n) (drop (nat pos) s))"

text \<open>The cases -1 and 1 of the switch: a column ends.\<close>

definition store_column :: "string \<Rightarrow> int \<Rightarrow> csv_block \<Rightarrow> csv_block" where
  "store_column line pos b =
     (let e = (if blockEnd b = 0 then pos - 1 else blockEnd b)
      in if currentBlockStart b = -1 then b\<lparr>csv_part := csv_part b @ [[]], blockEnd := 0\<rparr>
         else \<lparr>currentBlockStart = -1, blockEnd = 0,
               csv_part = csv_part b @ [qmid line (currentBlockStart b) (e - currentBlockStart b)]\<rparr>)"

definition csv_switch :: "string \<Rightarrow> int \<Rightarrow> int \<Rightarrow> csv_block \<Rightarrow> csv_block" where
  "csv_switch line state pos b =
     (if state = 4 then b\<lparr>blockEnd := pos - 1\<rparr>
      else if state = 0 \<or> state = 3 then
        (if currentBlockStart b = -1 then b\<lparr>currentBlockStart := pos - 1\<rparr> else b)
      else if state = -1 \<or> state = 1 then store_column line pos b
      else b)"

definition csv_event :: "char \<Rightarrow> char \<Rightarrow> char \<Rightarrow> nat" where
  "csv_event sep esc c =
     (if c = sep then 0 else if c = esc then 1 else if c = CHR 0x0A then 2 else 3)"

text \<open>The loop of \<open>readCSVRow\<close>: the last argument is the text from \<open>pos\<close> on.\<close>

fun csv_scan :: "string \<Rightarrow> char \<Rightarrow> char \<Rightarrow> int \<Rightarrow> int \<Rightarrow> csv_block \<Rightarrow> string \<Rightarrow> int \<times> csv_block" where
  "csv_scan line sep esc state pos b [] =
     (let state' = csv_next state 4 in (state', csv_switch line state' (pos + 1) b))"
| "csv_scan line sep esc state pos b (c # r) =
     (let state' = csv_next state (csv_event sep esc c);
          b' = csv_switch line state' (pos + 1) b
      in if state' < 0 then (state', b') else csv_scan line sep esc state' (pos + 1) b' r)"

definition inside_quotes :: string where
  "inside_quotes = ''Line terminated while inside quotes.''"

definition readCSVRow :: "string \<Rightarrow> char \<Rightarrow> char \<Rightarrow> string + string list" where
  "readCSVRow line sep esc =
     (if line = [] then Inr []
      else case csv_scan line sep esc 0 0 csv_start line of
        (state, b) \<Rightarrow> if state = -2 then Inl inside_quotes else Inr (csv_part b))"

text \<open>\<open>readCSVRowFlexySlow\<close> takes lists of separators and escapes, restarts the block when a quote is
  entered, and does not advance \<open>pos\<close> at the end of the text.\<close>

definition flexy_event :: "string list \<Rightarrow> string list \<Rightarrow> char \<Rightarrow> nat" where
  "flexy_event seps escs c =
     (if [c] \<in> set seps then 0 else if [c] \<in> set escs then 1 else if c = CHR 0x0A then 2 else 3)"

definition flexy_switch :: "string \<Rightarrow> int \<Rightarrow> int \<Rightarrow> csv_block \<Rightarrow> csv_block" where
  "flexy_switch line state pos b =
     (if state = 2 then b\<lparr>currentBlockStart := pos\<rparr> else csv_switch line state pos b)"

fun flexy_scan :: "string \<Rightarrow> string list \<Rightarrow> string list \<Rightarrow> int \<Rightarrow> int \<Rightarrow> csv_block \<Rightarrow> string \<Rightarrow> int \<times> csv_block" where
  "flexy_scan line seps escs state pos b [] =
     (let state' = csv_next state 4 in (state', flexy_switch line state' pos b))"
| "flexy_scan line seps escs state pos b (c # r) =
     (let state' = csv_next state (flexy_event seps escs c);
          b' = flexy_switch line state' (pos + 1) b
      in if state' < 0 then (state', b') else flexy_scan line seps escs state' (pos + 1) b' r)"

definition readCSVRowFlexySlow :: "string \<Rightarrow> string list \<Rightarrow> string list \<Rightarrow> string + string list" where
  "readCSVRowFlexySlow line seps escs =
     (if line = [] then Inr []
      else case flexy_scan line seps escs 0 0 csv_start line of
        (state, b) \<Rightarrow> if state = -2 then Inl inside_quotes else Inr (csv_part b))"

lemma csv_next_simps [simp]:
  "csv_next 0 0 = 1" "csv_next 0 1 = 2" "csv_next 0 2 = -1" "csv_next 0 3 = 0" "csv_next 0 4 = -1"
  "csv_next 1 0 = 1" "csv_next 1 1 = 2" "csv_next 1 2 = -1" "csv_next 1 3 = 0" "csv_next 1 4 = -1"
  "csv_next 2 0 = 3" "csv_next 2 1 = 4" "csv_next 2 2 = 3" "csv_next 2 3 = 3" "csv_next 2 4 = -2"
  "csv_next 3 0 = 3" "csv_next 3 1 = 4" "csv_next 3 2 = 3" "csv_next 3 3 = 3" "csv_next 3 4 = -2"
  "csv_next 4 0 = 1" "csv_next 4 1 = 3" "csv_next 4 2 = -1" "csv_next 4 3 = 0" "csv_next 4 4 = -1"
  by (simp_all add: csv_next_def csv_delta_def)

lemmas csv_next_Suc [simp] = csv_next_simps [unfolded One_nat_def]

subsection \<open>What a row reads as\<close>

text \<open>The text \<open>escapeForCSV\<close> puts between the quotes, and what the reader shows for a field: it
  leaves doubled quotes doubled, and of a leading pair it drops the first.\<close>

definition double_quotes :: "string \<Rightarrow> string" where
  "double_quotes f = concat (map (\<lambda>c. if c = CHR 0x22 then [c, c] else [c]) f)"

definition shown_field :: "string \<Rightarrow> string" where
  "shown_field f =
     (if f \<noteq> [] \<and> hd f = CHR 0x22 then tl (double_quotes f) else double_quotes f)"

lemma double_quotes_simps [simp]:
  "double_quotes [] = []"
  "double_quotes (c # f) = (if c = CHR 0x22 then [c, c] else [c]) @ double_quotes f"
  by (simp_all add: double_quotes_def)

lemma double_quotes_id: "CHR 0x22 \<notin> set f \<Longrightarrow> double_quotes f = f"
  by (induction f) auto

lemma shown_field_id: "CHR 0x22 \<notin> set f \<Longrightarrow> shown_field f = f"
  by (cases f) (auto simp: shown_field_def double_quotes_id)

lemma escapeForCSV_cases:
  obtains "f \<noteq> []" "\<forall>c\<in>set f. \<not> csv_special c" "escapeForCSV f = f" "shown_field f = f"
  | "escapeForCSV f = CHR 0x22 # double_quotes f @ [CHR 0x22]"
proof (cases "list_ex csv_special f \<or> f = []")
  case False
  then have n: "\<forall>c\<in>set f. \<not> csv_special c" "f \<noteq> []" by (auto simp: list_ex_iff)
  then have q: "CHR 0x22 \<notin> set f" by (auto simp: csv_special_def)
  have "escapeForCSV f = f" using False double_quotes_id [OF q, unfolded double_quotes_def]
    by (simp only: escapeForCSV_def Let_def if_False de_Morgan_disj simp_thms)
  then show ?thesis using that(1) n q shown_field_id by blast
next
  case True
  then have "escapeForCSV f = CHR 0x22 # double_quotes f @ [CHR 0x22]"
    by (auto simp: escapeForCSV_def double_quotes_def Let_def)
  then show ?thesis by (rule that(2))
qed

lemma quoted_next:
  "csv_next 2 (csv_event CHR '','' CHR 0x22 c) = (if c = CHR 0x22 then 4 else 3)"
  "csv_next 4 (csv_event CHR '','' CHR 0x22 CHR 0x22) = 3"
  by (simp_all add: csv_event_def)

text \<open>Inside quotes with a block already begun, up to the closing quote.\<close>

lemma scan_quoted:
  assumes "0 \<le> q"
  shows "csv_scan line CHR '','' CHR 0x22 3 p \<lparr>currentBlockStart = q, blockEnd = e, csv_part = ps\<rparr>
      (double_quotes g @ CHR 0x22 # r) =
    csv_scan line CHR '','' CHR 0x22 4 (p + int (length (double_quotes g)) + 1)
      \<lparr>currentBlockStart = q, blockEnd = p + int (length (double_quotes g)), csv_part = ps\<rparr> r"
  using assms
proof (induction g arbitrary: p e)
  case Nil
  then show ?case by (simp add: csv_event_def csv_switch_def)
next
  case (Cons c g)
  then show ?case by (auto simp: csv_event_def csv_switch_def algebra_simps)
qed

text \<open>A bare block already begun, up to the separator or the end.\<close>

lemma scan_bare:
  assumes "0 \<le> q" and "\<forall>c\<in>set g. \<not> csv_special c"
  shows "csv_scan line CHR '','' CHR 0x22 0 p \<lparr>currentBlockStart = q, blockEnd = 0, csv_part = ps\<rparr> (g @ r) =
    csv_scan line CHR '','' CHR 0x22 0 (p + int (length g)) \<lparr>currentBlockStart = q, blockEnd = 0, csv_part = ps\<rparr> r"
  using assms
proof (induction g arbitrary: p)
  case (Cons c g)
  then show ?case by (simp add: csv_event_def csv_switch_def csv_special_def algebra_simps)
qed simp

definition at_field :: "string list \<Rightarrow> csv_block" where
  "at_field ps = \<lparr>currentBlockStart = -1, blockEnd = 0, csv_part = ps\<rparr>"

lemma qmid_middle:
  "qmid (pre @ s @ t) (int (length pre)) (int (length s)) = s"
  by (simp add: qmid_def)

text \<open>A field as \<open>escapeForCSV\<close> writes it, from its first character to the end of the field.\<close>

lemma scan_field:
  assumes line: "line = pre @ escapeForCSV f @ t" and a: "a = 0 \<or> a = 1"
  shows "\<exists>s b. (s = 0 \<or> s = 4) \<and>
    csv_scan line CHR '','' CHR 0x22 a (int (length pre)) (at_field ps) (escapeForCSV f @ t) =
    csv_scan line CHR '','' CHR 0x22 s (int (length (pre @ escapeForCSV f))) b t \<and>
    store_column line (int (length (pre @ escapeForCSV f)) + 1) b = at_field (ps @ [shown_field f])"
proof (cases rule: escapeForCSV_cases [of f])
  case 1
  then obtain c g where f: "f = c # g" "\<not> csv_special c" "\<forall>x\<in>set g. \<not> csv_special x" by (cases f) auto
  let ?p = "int (length pre)" and ?b = "\<lparr>currentBlockStart = int (length pre), blockEnd = 0, csv_part = ps\<rparr>"
  have "csv_scan line CHR '','' CHR 0x22 a ?p (at_field ps) (escapeForCSV f @ t) =
      csv_scan line CHR '','' CHR 0x22 0 (?p + 1) ?b (g @ t)"
    using a f(2) unfolding f(1) 1(3) [unfolded f(1)]
    by (auto simp: csv_event_def csv_switch_def csv_special_def at_field_def)
  also have "\<dots> = csv_scan line CHR '','' CHR 0x22 0 (int (length (pre @ f))) ?b t"
    using f(3) unfolding f(1) by (subst scan_bare) (simp_all add: algebra_simps)
  finally show ?thesis using 1(3,4) line qmid_middle [of pre f t]
    by (intro exI [of _ 0] exI [of _ ?b]) (simp add: store_column_def at_field_def)
next
  case 2
  let ?p = "int (length pre)"
  let ?e = "int (length (pre @ escapeForCSV f))"
  have len: "?e = ?p + int (length (double_quotes f)) + 2" unfolding 2 by simp
  have step1: "csv_scan line CHR '','' CHR 0x22 a ?p (at_field ps) (escapeForCSV f @ t) =
      csv_scan line CHR '','' CHR 0x22 2 (?p + 1) (at_field ps) (double_quotes f @ CHR 0x22 # t)"
    using a unfolding 2 by (auto simp: csv_event_def csv_switch_def)
  show ?thesis
  proof (cases f)
    case Nil
    then show ?thesis using step1 len
      by (intro exI [of _ 4] exI [of _ "\<lparr>currentBlockStart = -1, blockEnd = ?p + 1, csv_part = ps\<rparr>"])
        (simp add: csv_event_def csv_switch_def at_field_def store_column_def shown_field_def add.commute)
  next
    case (Cons c g)
    let ?q = "if c = CHR 0x22 then ?p + 2 else ?p + 1"
    let ?b = "\<lparr>currentBlockStart = ?q, blockEnd = ?e - 1, csv_part = ps\<rparr>"
    have "csv_scan line CHR '','' CHR 0x22 2 (?p + 1) (at_field ps) (double_quotes f @ CHR 0x22 # t) =
        csv_scan line CHR '','' CHR 0x22 4 ?e ?b t"
      unfolding len [unfolded Cons] Cons
      by (cases "c = CHR 0x22")
        (simp_all add: quoted_next csv_switch_def at_field_def scan_quoted algebra_simps)
    moreover have "qmid line ?q (?e - 1 - ?q) = shown_field f"
    proof (cases "c = CHR 0x22")
      case True
      then show ?thesis using qmid_middle [of "pre @ [CHR 0x22, c]" "c # double_quotes g" "CHR 0x22 # t"] line 2 len Cons
        by (simp add: shown_field_def add.commute)
    next
      case False
      then show ?thesis using qmid_middle [of "pre @ [CHR 0x22]" "c # double_quotes g" "CHR 0x22 # t"] line 2 len Cons
        by (simp add: shown_field_def add.commute)
    qed
    ultimately show ?thesis using step1 len
      by (intro exI [of _ 4] exI [of _ ?b]) (auto simp: store_column_def at_field_def)
  qed
qed

lemma scan_row:
  assumes "fs \<noteq> []" and "line = pre @ join_with '','' (map escapeForCSV fs)" and "a = 0 \<or> a = 1"
  shows "csv_scan line CHR '','' CHR 0x22 a (int (length pre)) (at_field ps) (join_with '','' (map escapeForCSV fs)) =
    (-1, at_field (ps @ map shown_field fs))"
  using assms
proof (induction fs arbitrary: pre ps a)
  case (Cons f fs)
  define t where "t = (if fs = [] then [] else CHR '','' # join_with '','' (map escapeForCSV fs))"
  have j: "join_with '','' (map escapeForCSV (f # fs)) = escapeForCSV f @ t"
    by (cases fs) (simp_all add: t_def)
  obtain s b where s: "s = 0 \<or> s = 4"
    and e: "csv_scan line CHR '','' CHR 0x22 a (int (length pre)) (at_field ps) (escapeForCSV f @ t) =
      csv_scan line CHR '','' CHR 0x22 s (int (length (pre @ escapeForCSV f))) b t"
    and c: "store_column line (int (length (pre @ escapeForCSV f)) + 1) b = at_field (ps @ [shown_field f])"
    using scan_field [of line pre f t a ps] Cons.prems j by auto
  show ?case
  proof (cases "fs = []")
    case True
    then show ?thesis using s e c j by (auto simp: t_def csv_switch_def)
  next
    case False
    let ?pre = "pre @ escapeForCSV f @ '',''"
    have "csv_scan line CHR '','' CHR 0x22 a (int (length pre)) (at_field ps) (escapeForCSV f @ t) =
        csv_scan line CHR '','' CHR 0x22 1 (int (length ?pre)) (at_field (ps @ [shown_field f])) (join_with '','' (map escapeForCSV fs))"
      using s c e False by (auto simp: t_def csv_event_def csv_switch_def algebra_simps)
    moreover have "line = ?pre @ join_with '','' (map escapeForCSV fs)"
      using Cons.prems(2) j False by (simp add: t_def)
    ultimately show ?thesis using Cons.IH [of ?pre 1 "ps @ [shown_field f]"] False j by simp
  qed
qed simp

lemma escapeForCSV_nonempty: "escapeForCSV f \<noteq> []"
  by (cases rule: escapeForCSV_cases [of f]) auto

text \<open>Whether the text ends, or its row ends, inside quotes.\<close>

fun ends_quoted :: "char \<Rightarrow> bool \<Rightarrow> string \<Rightarrow> bool" where
  "ends_quoted esc q [] = q"
| "ends_quoted esc q (c # r) =
     (if c = esc then ends_quoted esc (\<not> q) r
      else if c = CHR 0x0A \<and> \<not> q then False else ends_quoted esc q r)"

lemma scan_state:
  assumes "sep \<noteq> esc" and "sep \<noteq> CHR 0x0A" and "esc \<noteq> CHR 0x0A" and "a \<in> {0, 1, 2, 3, 4}"
  shows "fst (csv_scan line sep esc a p b r) = (if ends_quoted esc (a \<in> {2, 3}) r then -2 else -1)"
  using assms(4)
proof (induction r arbitrary: a p b)
  case Nil
  then show ?case by (auto simp: Let_def)
next
  case (Cons c r)
  show ?case using Cons.prems assms(1-3) by (auto simp: csv_event_def Cons.IH Let_def)
qed

lemma flexy_bare:
  assumes "0 \<le> q" and "\<forall>c\<in>set g. \<not> csv_special c"
  shows "flexy_scan line ['',''] [[CHR 0x22]] 0 p \<lparr>currentBlockStart = q, blockEnd = 0, csv_part = ps\<rparr> g =
    (-1, store_column line (p + int (length g)) \<lparr>currentBlockStart = q, blockEnd = 0, csv_part = ps\<rparr>)"
  using assms
proof (induction g arbitrary: p)
  case Nil
  then show ?case by (simp add: flexy_switch_def csv_switch_def)
next
  case (Cons c g)
  then show ?case
    by (simp add: flexy_event_def flexy_switch_def csv_switch_def csv_special_def algebra_simps)
qed

subsection \<open>Properties\<close>

text \<open>C31. A row written with \<open>escapeForCSV\<close> reads back: every field, in order, and exactly as it was
  when it holds no quote; a field with quotes comes back with each one doubled, without the first
  when it begins with one. In particular separators and new lines inside fields do not split.\<close>

theorem csv_row_reads_escaped:
  assumes "fs \<noteq> []"
  shows "readCSVRow (join_with '','' (map escapeForCSV fs)) CHR '','' CHR 0x22 = Inr (map shown_field fs) \<and>
    ((\<forall>f\<in>set fs. CHR 0x22 \<notin> set f) \<longrightarrow> map shown_field fs = fs)"
proof -
  let ?line = "join_with '','' (map escapeForCSV fs)"
  obtain f gs where "fs = f # gs" using assms by (cases fs) auto
  then have "?line \<noteq> []" using escapeForCSV_nonempty [of f] by (cases gs) auto
  moreover have "csv_scan ?line CHR '','' CHR 0x22 0 0 csv_start ?line = (-1, at_field (map shown_field fs))"
    using scan_row [OF assms, of ?line "[]" 0 "[]"] by (simp add: at_field_def csv_start_def)
  ultimately show ?thesis
    using shown_field_id by (auto simp: readCSVRow_def at_field_def intro: map_idI)
qed

theorem csv_row_reads_escaped_witness:
  "readCSVRow (join_with '','' (map escapeForCSV [''a,b'', [], ''c''])) CHR '','' CHR 0x22 = Inr [''a,b'', [], ''c'']"
  using csv_row_reads_escaped [of "[''a,b'', [], ''c'']"] by simp

text \<open>The reader raises exactly on an unclosed quote: when the row's quotes, up to the first new
  line outside of them, are odd in number; every other text gives columns.\<close>

theorem readCSVRow_raises:
  assumes "sep \<noteq> esc" and "sep \<noteq> CHR 0x0A" and "esc \<noteq> CHR 0x0A"
  shows "(if ends_quoted esc False line then readCSVRow line sep esc = Inl inside_quotes
    else \<exists>cols. readCSVRow line sep esc = Inr cols)"
  using scan_state [OF assms, of 0 line 0 csv_start line]
  by (auto simp: readCSVRow_def split: prod.splits if_splits)

theorem readCSVRow_raises_witness:
  "readCSVRow (''a,'' @ [CHR 0x22] @ ''b'') CHR '','' CHR 0x22 = Inl inside_quotes"
  using readCSVRow_raises [of "CHR '',''" "CHR 0x22" "''a,'' @ [CHR 0x22] @ ''b''"] by simp

text \<open>The slow reader loses the last character of a row that is one bare column, because it does not
  advance its position at the end.\<close>

theorem flexy_drops_last:
  assumes "line \<noteq> []" and "\<forall>c\<in>set line. \<not> csv_special c"
  shows "readCSVRowFlexySlow line ['',''] [[CHR 0x22]] = Inr [butlast line]"
proof -
  obtain c g where l: "line = c # g" using assms(1) by (cases line) auto
  have "flexy_scan line ['',''] [[CHR 0x22]] 0 0 csv_start line =
      (-1, store_column line (int (length line)) \<lparr>currentBlockStart = 0, blockEnd = 0, csv_part = []\<rparr>)"
    using assms(2) flexy_bare [of 0 g line 1 "[]"] unfolding l
    by (simp add: flexy_event_def flexy_switch_def csv_switch_def csv_special_def csv_start_def add.commute)
  then show ?thesis using assms(1)
    by (simp add: readCSVRowFlexySlow_def store_column_def qmid_def butlast_conv_take nat_diff_distrib')
qed

theorem flexy_drops_last_witness:
  "readCSVRowFlexySlow ''abc'' ['',''] [[CHR 0x22]] = Inr [''ab'']"
  using flexy_drops_last [of "''abc''"] by (simp add: csv_special_def)

end
