(* ===== verification/FileFunction.thy ===== *)
theory FileFunction
  imports Json
begin

text \<open>
  \<^verbatim>\<open>filesystem/filefunction.h\<close> and \<^verbatim>\<open>filesystem/filefunction.cpp\<close>: reading, writing and appending whole
  files, files with a versioned JSON header, the choice between a file on disk and the embedded
  one, and the lock of a running instance; with \<open>parseJson\<close> (\<^verbatim>\<open>BoostJson/extra.cpp\<close>), \<open>getNumber\<close>
  (\<^verbatim>\<open>BoostJson/extra.h\<close>) and \<open>string_to_number\<close> (\<^verbatim>\<open>number/converter.h\<close>), which the header needs.

  A disk is a map from names to files. The clock and the outcome of each system call are arguments;
  Boost's parser, \<^verbatim>\<open>std::stoll\<close> and Qt's absolute paths are parameters. The left side of a sum is a
  C++ exception. What is only logged is left out, and a file has one time of its last change.
\<close>

subsection \<open>The disk\<close>

record stored_file =
  fl_content :: string
  fl_modified :: int
  fl_readable :: bool

type_synonym disk = "string \<Rightarrow> stored_file option"

text \<open>\<^verbatim>\<open>QFileInfo(name).lastModified().toSecsSinceEpoch()\<close>: 0 for a file that is not there.\<close>

definition lastModified :: "disk \<Rightarrow> string \<Rightarrow> int" where
  "lastModified d name = (case d name of None \<Rightarrow> 0 | Some f \<Rightarrow> fl_modified f)"

definition open_read :: "disk \<Rightarrow> string \<Rightarrow> string option" where
  "open_read d name = (case d name of None \<Rightarrow> None | Some f \<Rightarrow> if fl_readable f then Some (fl_content f) else None)"

text \<open>The three-argument \<open>fileGetContents\<close>: the content and the flag, which is only ever set.\<close>

definition fileGetContents :: "disk \<Rightarrow> string \<Rightarrow> bool \<Rightarrow> string + string \<times> bool" where
  "fileGetContents d name success =
     (if name = [] then Inl ''empty filename !''
      else case open_read d name of None \<Rightarrow> Inr ([], success) | Some x \<Rightarrow> Inr (x, True))"

datatype fg_err = NoErr | NotFound | OpenFailed | TooOld | MissingHeaderEndMarker | InvalidJsonHeader
  | MissingRevision | BadRequiredRevisionParam | RevisionMismatch

record file_get_res =
  fg_content :: string
  fg_exist :: bool
  fg_err :: fg_err
  fg_errMsg :: string

definition fg_empty :: file_get_res where
  "fg_empty = \<lparr>fg_content = [], fg_exist = False, fg_err = NoErr, fg_errMsg = []\<rparr>"

definition fileGetContents2 :: "disk \<Rightarrow> int \<Rightarrow> string \<Rightarrow> nat \<Rightarrow> string + file_get_res" where
  "fileGetContents2 d now name maxAge =
     (if maxAge \<noteq> 0 \<and> now - lastModified d name > int maxAge then Inr fg_empty
      else case fileGetContents d name False of
        Inl e \<Rightarrow> Inl e
      | Inr (x, ok) \<Rightarrow> Inr (fg_empty\<lparr>fg_content := x, fg_exist := ok\<rparr>))"

subsection \<open>The header\<close>

definition parseJson :: "(string \<Rightarrow> string + 'd json) \<Rightarrow> string \<Rightarrow> string + 'd json" where
  "parseJson parse json =
     (let j = rev (dropWhile (\<lambda>c. c = CHR 0x00) (rev json))
      in if j = [] then Inl ''Empty JSON'' else parse j)"

definition string_to_i64 :: "(string \<Rightarrow> string + int) \<Rightarrow> string \<Rightarrow> string + int" where
  "string_to_i64 stoll str =
     (if str = [] then Inr 0
      else case stoll str of
        Inl what \<Rightarrow> Inl (''Failed to convert string '' @ [CHR 0x27] @ str @ [CHR 0x27] @ '' to number: '' @ what)
      | Inr n \<Rightarrow> Inr n)"

text \<open>\<open>to_number\<close> throws on a value that is no number and on one that is not exact as 64-bit integer;
  \<open>exact\<close> says so for a double.\<close>

definition getNumber ::
  "(string \<Rightarrow> string + int) \<Rightarrow> ('d \<Rightarrow> int option) \<Rightarrow> 'd json \<Rightarrow> string \<Rightarrow> int \<Rightarrow> string + bool \<times> int" where
  "getNumber stoll exact v key def =
     (case v of
        JObject kvs \<Rightarrow>
          (case map_of kvs key of
             None \<Rightarrow> Inr (False, def)
           | Some JNull \<Rightarrow> Inr (False, def)
           | Some (JString s) \<Rightarrow> (case string_to_i64 stoll s of Inl e \<Rightarrow> Inl e | Inr n \<Rightarrow> Inr (True, n))
           | Some (JInt64 n) \<Rightarrow> Inr (True, n)
           | Some (JUint64 n) \<Rightarrow> if int n < 2 ^ 63 then Inr (True, int n) else Inl ''not exact''
           | Some (JDouble x) \<Rightarrow> (case exact x of None \<Rightarrow> Inl ''not exact'' | Some n \<Rightarrow> Inr (True, n))
           | Some _ \<Rightarrow> Inl ''not a number'')
      | _ \<Rightarrow> Inl ''not an object'')"

definition kHeaderEndMarker :: string where
  "kHeaderEndMarker = ''__HEADER__END__''"

datatype fgc_mr = Minimum | Exact

definition revisionOk :: "fgc_mr \<Rightarrow> int \<Rightarrow> int \<Rightarrow> bool" where
  "revisionOk mr fileRev reqRev = (case mr of Exact \<Rightarrow> fileRev = reqRev | Minimum \<Rightarrow> fileRev \<ge> reqRev)"

record fgc_param =
  fp_revision :: int
  fp_maxAge :: nat
  fp_mr :: fgc_mr

definition fgc_default :: fgc_param where
  "fgc_default = \<lparr>fp_revision = 0, fp_maxAge = 0, fp_mr = Exact\<rparr>"

text \<open>\<open>trimmed\<close> removes the ASCII white space at both ends.\<close>

definition q_space :: "char \<Rightarrow> bool" where
  "q_space c = (c = CHR '' '' \<or> (9 \<le> (of_char c :: nat) \<and> (of_char c :: nat) \<le> 13))"

definition fg_fail :: "fg_err \<Rightarrow> string \<Rightarrow> file_get_res" where
  "fg_fail err msg = \<lparr>fg_content = [], fg_exist = False, fg_err = err, fg_errMsg = ''fileGetContents3: '' @ msg\<rparr>"

definition fg_ok :: "string \<Rightarrow> file_get_res" where
  "fg_ok body = fg_empty\<lparr>fg_content := body, fg_exist := True\<rparr>"

record 'd header_lib =
  hl_parse :: "string \<Rightarrow> string + 'd json"
  hl_stoll :: "string \<Rightarrow> string + int"
  hl_exact :: "'d \<Rightarrow> int option"
  hl_absolute :: "string \<Rightarrow> string"

text \<open>The part of \<open>fileGetContents3\<close> after the header was parsed.\<close>

definition check_revision :: "'d header_lib \<Rightarrow> string \<Rightarrow> fgc_param \<Rightarrow> 'd json \<Rightarrow> string \<Rightarrow> string + file_get_res" where
  "check_revision L name p json body =
     (case getNumber (hl_stoll L) (hl_exact L) json ''revision'' 0 of
        Inl e \<Rightarrow> Inl e
      | Inr (found, fileRev) \<Rightarrow>
          Inr (if \<not> found \<and> fp_revision p > 0 then fg_fail MissingRevision (''missing revision in header of '' @ name)
            else if fp_revision p > 0 \<and> \<not> revisionOk (fp_mr p) fileRev (fp_revision p)
              then fg_fail RevisionMismatch (''file revision '' @ show_int fileRev @ '' does not satisfy '' @
                (case fp_mr p of Exact \<Rightarrow> ''exact'' | Minimum \<Rightarrow> ''minimum'') @ '' (required '' @ show_int (fp_revision p) @ '') for '' @ name)
            else fg_ok body))"

definition fileGetContents3 :: "'d header_lib \<Rightarrow> disk \<Rightarrow> int \<Rightarrow> string \<Rightarrow> fgc_param \<Rightarrow> string + file_get_res" where
  "fileGetContents3 L d now name p =
     (let age = now - lastModified d name
      in if fp_maxAge p \<noteq> 0 \<and> age > int (fp_maxAge p)
         then Inr (fg_fail TooOld (name @ '' is '' @ show_int age @ ''s old, max age is '' @ show_nat (fp_maxAge p) @ ''s''))
         else case fileGetContents d name False of
           Inl e \<Rightarrow> Inl e
         | Inr (x, ok) \<Rightarrow>
             if \<not> ok then
               Inr (if d name \<noteq> None then fg_fail OpenFailed (''can not open '' @ name @ '' (check permission)'')
                    else fg_fail NotFound (name @ '' not found (absolute path: '' @ hl_absolute L name @ '')''))
             else case find_sub kHeaderEndMarker x of
               None \<Rightarrow> Inr (fg_fail MissingHeaderEndMarker (''missing __HEADER__END__ marker in '' @ name))
             | Some i \<Rightarrow>
                 (let header = trim_by q_space (take i x);
                      body = trim_by q_space (drop (i + length kHeaderEndMarker) x)
                  in case parseJson (hl_parse L) header of
                    Inl e \<Rightarrow> Inr (fg_fail InvalidJsonHeader (''invalid JSON header in '' @ name @ '': '' @ e))
                  | Inr json \<Rightarrow> check_revision L name p json body))"

subsection \<open>Writing\<close>

text \<open>The outcomes of one write: whether the file could be opened, how many bytes were written, whether
  the replacement of the old file succeeded, and the error of the device.\<close>

record write_io =
  wr_open :: bool
  wr_written :: nat
  wr_commit :: bool
  wr_error :: string

definition stored :: "int \<Rightarrow> string \<Rightarrow> string \<Rightarrow> disk \<Rightarrow> disk" where
  "stored now pay name d = d(name \<mapsto> \<lparr>fl_content = pay, fl_modified = now, fl_readable = True\<rparr>)"

text \<open>A \<^verbatim>\<open>QSaveFile\<close> writes to a temporary file; only \<open>commit\<close> replaces the old one, and its result is
  not looked at.\<close>

definition filePutContents :: "write_io \<Rightarrow> int \<Rightarrow> string \<Rightarrow> string \<Rightarrow> disk \<Rightarrow> (bool \<times> string) \<times> disk" where
  "filePutContents io now pay name d =
     (if \<not> wr_open io then ((False, wr_error io), d)
      else if wr_written io \<noteq> length pay then ((False, wr_error io), d)
      else ((True, ''NoError''), if wr_commit io then stored now pay name d else d))"

definition content_of :: "disk \<Rightarrow> string \<Rightarrow> string" where
  "content_of d name = (case d name of None \<Rightarrow> [] | Some f \<Rightarrow> fl_content f)"

definition fileAppendContents :: "write_io \<Rightarrow> int \<Rightarrow> string \<Rightarrow> string \<Rightarrow> disk \<Rightarrow> bool \<times> disk" where
  "fileAppendContents io now pay name d =
     (if \<not> wr_open io then (False, d)
      else (True, d(name \<mapsto> \<lparr>fl_content = content_of d name @ take (wr_written io) pay @ [CHR 0x0A], fl_modified = now,
              fl_readable = (case d name of None \<Rightarrow> True | Some f \<Rightarrow> fl_readable f)\<rparr>)))"

definition logWithTime :: "write_io \<Rightarrow> int \<Rightarrow> string \<Rightarrow> string \<Rightarrow> string \<Rightarrow> disk \<Rightarrow> bool \<times> disk" where
  "logWithTime io now date logFile msg d =
     fileAppendContents io now
       ([CHR 0x0A] @ ''-------------------'' @ [CHR 0x0A] @ date @ '' UTC'' @ [CHR 0x0A] @ msg @ [CHR 0x0A]) logFile d"

definition RotableFile :: "string \<Rightarrow> string \<Rightarrow> string \<Rightarrow> string" where
  "RotableFile isoDate name suff = name @ ''_'' @ isoDate @ (if suff \<noteq> [] then ''.'' @ suff else suff)"

subsection \<open>Files on disk and embedded files\<close>

definition resourceTryDisk :: "disk \<Rightarrow> string \<Rightarrow> string" where
  "resourceTryDisk d name = (if d name \<noteq> None then name else '':/'' @ name)"

datatype file_source = Dynamic | Inner | Missing

record file_res_v2 =
  fr_path :: string
  fr_content :: string
  fr_type :: file_source

definition innerOrDynamic :: "disk \<Rightarrow> int \<Rightarrow> string \<Rightarrow> string \<Rightarrow> bool \<Rightarrow> string + file_res_v2" where
  "innerOrDynamic d now innerPath dynamicPath quiet =
     (case fileGetContents2 d now dynamicPath 0 of
        Inl e \<Rightarrow> Inl e
      | Inr r \<Rightarrow>
          if fg_exist r then Inr \<lparr>fr_path = dynamicPath, fr_content = fg_content r, fr_type = Dynamic\<rparr>
          else case fileGetContents2 d now innerPath 0 of
            Inl e \<Rightarrow> Inl e
          | Inr r2 \<Rightarrow>
              if fg_exist r2 then
                (if fg_content r2 = [] then Inl (''The linkedin file '' @ innerPath @ '' is present by empty! Is probably a bug in the linker -.- provide it manually'')
                 else Inr \<lparr>fr_path = innerPath, fr_content = fg_content r2, fr_type = Inner\<rparr>)
              else if \<not> quiet then Inl (''Both the dynamic '' @ dynamicPath @ '' and static '' @ innerPath @ '' file are missing!'')
              else Inr \<lparr>fr_path = [], fr_content = [], fr_type = Missing\<rparr>)"

subsection \<open>The lock of an instance\<close>

text \<open>What \<^verbatim>\<open>QDataStream\<close> reads into a \<^verbatim>\<open>QByteArray\<close>: a big-endian 32-bit length, all ones for a null
  array, and that many bytes; reading past the end sets its status.\<close>

definition stream_length :: "string \<Rightarrow> nat" where
  "stream_length s = foldl (\<lambda>n c. 256 * n + of_char c) 0 (take 4 s)"

definition stream_bytes :: "string \<Rightarrow> string option" where
  "stream_bytes s =
     (if length s < 4 then None
      else if stream_length s = 2 ^ 32 - 1 then Some []
      else if stream_length s \<le> length s - 4 then Some (take (stream_length s) (drop 4 s))
      else None)"

record unserialize_res =
  ur_fileExists :: bool
  ur_valid :: bool

definition fileUnSerialize_bytes :: "disk \<Rightarrow> int \<Rightarrow> string \<Rightarrow> nat \<Rightarrow> unserialize_res" where
  "fileUnSerialize_bytes d now name maxAge =
     (if maxAge = 0 then \<lparr>ur_fileExists = True, ur_valid = False\<rparr>
      else case open_read d name of
        None \<Rightarrow> \<lparr>ur_fileExists = False, ur_valid = False\<rparr>
      | Some x \<Rightarrow>
          if lastModified d name < now - int maxAge then \<lparr>ur_fileExists = True, ur_valid = False\<rparr>
          else \<lparr>ur_fileExists = True, ur_valid = stream_bytes x \<noteq> None\<rparr>)"

text \<open>\<open>None\<close> is \<^verbatim>\<open>exit(1)\<close>; otherwise the lock is held and the time of the start is left on disk.\<close>

definition checkFileLock :: "bool \<Rightarrow> write_io \<Rightarrow> int \<Rightarrow> string \<Rightarrow> nat \<Rightarrow> disk \<Rightarrow> disk option" where
  "checkFileLock locked io now path minDelay d =
     (if \<not> locked then None
      else let pathTs = path @ ''.lastExec'';
               f = fileUnSerialize_bytes d now pathTs minDelay
           in if minDelay \<noteq> 0 \<and> ur_fileExists f \<and> ur_valid f then None
              else Some (snd (filePutContents io now pathTs pathTs d)))"

subsection \<open>Lemmas\<close>

lemma open_read_stored [simp]: "open_read (stored now pay name d) name = Some pay"
  by (simp add: open_read_def stored_def)

lemma fg_fail_simps [simp]:
  "fg_exist (fg_fail e m) = False" "fg_content (fg_fail e m) = []" "fg_err (fg_fail e m) = e"
  by (simp_all add: fg_fail_def)

lemma fg_ok_simps [simp]:
  "fg_exist (fg_ok c)" "fg_content (fg_ok c) = c" "fg_err (fg_ok c) = NoErr" "(fg_ok c = fg_ok c') = (c = c')"
  by (simp_all add: fg_ok_def fg_empty_def)

lemma fg_fail_not_ok [simp]: "fg_fail e m \<noteq> fg_ok c"
  by (metis fg_fail_simps(1) fg_ok_simps(1))

lemma check_revision_consistent:
  "check_revision L name p json body = Inr r \<Longrightarrow>
    fg_exist r = (fg_err r = NoErr) \<and> (\<not> fg_exist r \<longrightarrow> fg_content r = [])"
  by (auto simp: check_revision_def split: sum.splits if_splits)

lemma check_revision_ok:
  "check_revision L name p json body = Inr (fg_ok c) \<longleftrightarrow>
    c = body \<and> (\<exists>found rev. getNumber (hl_stoll L) (hl_exact L) json ''revision'' 0 = Inr (found, rev) \<and>
      (fp_revision p > 0 \<longrightarrow> found \<and> revisionOk (fp_mr p) rev (fp_revision p)))"
  by (auto simp: check_revision_def split: sum.splits)

lemma stream_length_4:
  "stream_length (a # b # c # d # r) = ((of_char a * 256 + of_char b) * 256 + of_char c) * 256 + of_char d"
  by (simp add: stream_length_def algebra_simps)

lemma be32_bound:
  "a \<noteq> 255 \<Longrightarrow> a < 256 \<Longrightarrow> b < 256 \<Longrightarrow> c < 256 \<Longrightarrow> d < 256 \<Longrightarrow>
    ((a * 256 + b) * 256 + c) * 256 + d < (4278190080 :: nat)"
proof -
  assume "a \<noteq> 255" "a < 256" "b < 256" "c < 256" "d < 256"
  then have "a \<le> 254" "b \<le> 255" "c \<le> 255" "d \<le> 255" by simp_all
  then show ?thesis by (simp add: algebra_simps)
qed

text \<open>A text that begins with a byte other than 0 and 255 is no saved array unless it is very long.\<close>

lemma stream_bytes_text:
  assumes "s \<noteq> []" and "of_char (hd s) \<notin> {0 :: nat, 255}" and "length s < 2 ^ 24"
  shows "stream_bytes s = None"
proof (cases "length s < 4")
  case False
  have byte: "of_char c < (256 :: nat)" for c :: char
    by (rule nat_of_char_less_256)
  have "Suc (Suc (Suc (Suc 0))) \<le> length s" using False by simp
  then obtain a b c d r where s: "s = a # b # c # d # r" by (auto simp: Suc_le_length_iff)
  have h: "0 < (of_char a :: nat)" "of_char a \<noteq> (255 :: nat)" using assms(2) s by auto
  have "16777216 \<le> stream_length s" using h(1) unfolding s stream_length_4 by simp
  moreover have "stream_length s < 4278190080"
    using h(2) byte [of a] byte [of b] byte [of c] byte [of d] unfolding s stream_length_4
    by (intro be32_bound) simp_all
  ultimately have "\<not> stream_length s \<le> length s - 4" "stream_length s \<noteq> 2 ^ 32 - 1" using assms(3) by auto
  then show ?thesis by (simp add: stream_bytes_def)
qed (simp add: stream_bytes_def)

fun append_all :: "int \<Rightarrow> string \<Rightarrow> string list \<Rightarrow> disk \<Rightarrow> disk" where
  "append_all now name [] d = d"
| "append_all now name (pay # pays) d =
     append_all now name pays (snd (fileAppendContents
       \<lparr>wr_open = True, wr_written = length pay, wr_commit = True, wr_error = []\<rparr> now pay name d))"

lemma append_all_content:
  "content_of (append_all now name pays d) name = content_of d name @ concat (map (\<lambda>p. p @ [CHR 0x0A]) pays)"
  by (induction pays arbitrary: d) (simp_all add: fileAppendContents_def content_of_def)

lemma append_all_frame: "other \<noteq> name \<Longrightarrow> append_all now name pays d other = d other"
  by (induction pays arbitrary: d) (simp_all add: fileAppendContents_def)

lemma read_ok_iff:
  "fileGetContents3 L d now name p = Inr (fg_ok c) \<longleftrightarrow>
    name \<noteq> [] \<and> (fp_maxAge p = 0 \<or> now - lastModified d name \<le> int (fp_maxAge p)) \<and>
    (\<exists>x i json found rev. open_read d name = Some x \<and> find_sub kHeaderEndMarker x = Some i \<and>
      parseJson (hl_parse L) (trim_by q_space (take i x)) = Inr json \<and>
      getNumber (hl_stoll L) (hl_exact L) json ''revision'' 0 = Inr (found, rev) \<and>
      (fp_revision p > 0 \<longrightarrow> found \<and> revisionOk (fp_mr p) rev (fp_revision p)) \<and>
      c = trim_by q_space (drop (i + length kHeaderEndMarker) x))"
  by (auto simp: fileGetContents3_def fileGetContents_def Let_def check_revision_ok
      split: option.splits sum.splits)

lemma read_consistent:
  "fileGetContents3 L d now name p = Inr r \<Longrightarrow>
    fg_exist r = (fg_err r = NoErr) \<and> (fg_err r \<noteq> NoErr \<longrightarrow> fg_content r = [])"
  using check_revision_consistent [of L name p _ _ r]
  by (auto simp: fileGetContents3_def fileGetContents_def Let_def split: option.splits sum.splits if_splits)

subsection \<open>Properties\<close>

text \<open>A file with a versioned header is delivered exactly when it is fresh enough, can be opened,
  holds the marker, its header parses and, when a revision is asked for, has one that satisfies
  the request; what is delivered is the trimmed text after the first marker. In every other case
  the result says so: it carries an error and no content.\<close>

theorem versioned_file_read:
  "(fileGetContents3 L d now name p = Inr (fg_ok c) \<longleftrightarrow>
    name \<noteq> [] \<and> (fp_maxAge p = 0 \<or> now - lastModified d name \<le> int (fp_maxAge p)) \<and>
    (\<exists>x i json found rev. open_read d name = Some x \<and> find_sub kHeaderEndMarker x = Some i \<and>
      parseJson (hl_parse L) (trim_by q_space (take i x)) = Inr json \<and>
      getNumber (hl_stoll L) (hl_exact L) json ''revision'' 0 = Inr (found, rev) \<and>
      (fp_revision p > 0 \<longrightarrow> found \<and> revisionOk (fp_mr p) rev (fp_revision p)) \<and>
      c = trim_by q_space (drop (i + length kHeaderEndMarker) x))) \<and>
  (fileGetContents3 L d now name p = Inr r \<longrightarrow>
    fg_exist r = (fg_err r = NoErr) \<and> (fg_err r \<noteq> NoErr \<longrightarrow> fg_content r = []))"
  by (rule conjI [OF read_ok_iff impI [OF read_consistent]])

definition sample_lib :: "nat header_lib" where
  "sample_lib = \<lparr>hl_parse = (\<lambda>_. Inr (JObject [(''revision'', JInt64 7)])), hl_stoll = (\<lambda>_. Inl ''stoll''),
     hl_exact = (\<lambda>_. None), hl_absolute = id\<rparr>"

theorem versioned_file_read_witness:
  "fileGetContents3 sample_lib
     (\<lambda>_. Some \<lparr>fl_content = ''{}__HEADER__END__ hi'', fl_modified = 90, fl_readable = True\<rparr>) 100 ''f''
     \<lparr>fp_revision = 7, fp_maxAge = 60, fp_mr = Exact\<rparr> = Inr (fg_ok ''hi'')"
  by (rule versioned_file_read [THEN conjunct1, THEN iffD2])
    (simp add: sample_lib_def lastModified_def open_read_def kHeaderEndMarker_def parseJson_def trim_by_def
      q_space_def getNumber_def revisionOk_def, blast)

text \<open>The delay between two starts never applies: the file that should hold the time of the last
  start holds its own name as plain text, which is not what the reader of the delay expects, so
  with a free lock every start goes on, and leaves the file as it was for the next one.\<close>

theorem lock_delay_never_applies:
  assumes "path \<noteq> []" and "of_char (hd path) \<notin> {0 :: nat, 255}" and "length path \<le> 4096"
    and "\<forall>f. d (path @ ''.lastExec'') = Some f \<longrightarrow> fl_content f = path @ ''.lastExec''"
  shows "\<exists>d'. checkFileLock True io now path minDelay d = Some d' \<and>
    (\<forall>f. d' (path @ ''.lastExec'') = Some f \<longrightarrow> fl_content f = path @ ''.lastExec'')"
proof -
  have "stream_bytes (path @ ''.lastExec'') = None"
    using assms(1-3) by (intro stream_bytes_text) simp_all
  then have "\<not> ur_valid (fileUnSerialize_bytes d now (path @ ''.lastExec'') minDelay)"
    using assms(4) by (auto simp: fileUnSerialize_bytes_def open_read_def split: option.splits if_splits)
  then show ?thesis using assms(4)
    by (auto simp: checkFileLock_def filePutContents_def stored_def Let_def)
qed

theorem lock_delay_never_applies_witness:
  "\<exists>d'. checkFileLock True \<lparr>wr_open = True, wr_written = 14, wr_commit = True, wr_error = []\<rparr> 100 ''/lock'' 5
     (\<lambda>n. if n = ''/lock.lastExec'' then Some \<lparr>fl_content = ''/lock.lastExec'', fl_modified = 99, fl_readable = True\<rparr> else None) = Some d'"
  using lock_delay_never_applies [of "''/lock''" "\<lambda>n. if n = ''/lock.lastExec'' then Some \<lparr>fl_content = ''/lock.lastExec'', fl_modified = 99, fl_readable = True\<rparr> else None"]
  by fastforce

text \<open>Writing is all or nothing: either the disk is unchanged or the file holds exactly the new bytes
  and every other file is as before; and what was written is what is read. But success is also
  reported when the replacement failed and nothing changed.\<close>

theorem filePutContents_atomic:
  "(case filePutContents io now pay name d of ((ok, _), d') \<Rightarrow>
     (d' = d \<or> (ok \<and> d' name = Some \<lparr>fl_content = pay, fl_modified = now, fl_readable = True\<rparr> \<and>
                (\<forall>n. n \<noteq> name \<longrightarrow> d' n = d n))) \<and>
     (ok \<and> wr_commit io \<and> name \<noteq> [] \<longrightarrow> fileGetContents d' name False = Inr (pay, True)) \<and>
     (\<not> wr_commit io \<longrightarrow> d' = d \<and> ok = (wr_open io \<and> wr_written io = length pay)))"
  by (auto simp: filePutContents_def fileGetContents_def stored_def open_read_def)

text \<open>Appending keeps the lines: after any sequence of complete appends the file holds what it held,
  then every payload closed by a new line, in order, and no other file changed.\<close>

theorem append_keeps_lines:
  "content_of (append_all now name pays d) name = content_of d name @ concat (map (\<lambda>p. p @ [CHR 0x0A]) pays) \<and>
   (other \<noteq> name \<longrightarrow> append_all now name pays d other = d other)"
  using append_all_content append_all_frame by blast

end
