(* ===== verification/Monitoring.thy ===== *)
theory Monitoring
  imports MapExt "HOL-Library.Multiset"
begin

text \<open>
  \<^verbatim>\<open>thread/statusProbes.cpp\<close>, \<^verbatim>\<open>thread/tmonitoring.cpp\<close> and \<^verbatim>\<open>thread/threadstatush.cpp\<close>: the readers behind the
  status page and the request counters.

  The probes are functions of the text of the \<^verbatim>\<open>/proc\<close> file they read and of the messages the kernel sends
  over netlink; the layout of the kernel's own structs is a parameter. The HTML around the values is
  left out. Times are integers, in the unit of the clock that gives them.
\<close>

subsection \<open>Text\<close>

definition isWs :: "char \<Rightarrow> bool" where
  "isWs c = (c = CHR '' '' \<or> c = CHR 0x09 \<or> c = CHR 0x0A)"

definition ws_trim :: "string \<Rightarrow> string" where
  "ws_trim s = trim_by isWs s"

function splitWs :: "string \<Rightarrow> string list" where
  "splitWs s =
     (let t = dropWhile isWs s
      in if t = [] then [] else takeWhile (\<lambda>c. \<not> isWs c) t # splitWs (dropWhile (\<lambda>c. \<not> isWs c) t))"
  by pat_completeness auto

termination splitWs
proof (relation "measure length", simp)
  fix s t :: string
  assume t: "t = dropWhile isWs s" and n: "t \<noteq> []"
  then have "\<not> isWs (hd t)" by (simp add: hd_dropWhile)
  then have "length (dropWhile (\<lambda>c. \<not> isWs c) t) < length t"
    using n by (cases t) (simp_all add: length_dropWhile_le le_imp_less_Suc)
  moreover have "length t \<le> length s" using t by (simp add: length_dropWhile_le)
  ultimately show "(dropWhile (\<lambda>c. \<not> isWs c) t, s) \<in> measure length" by simp
qed

declare splitWs.simps [simp del]

text \<open>The lines \<open>forEachLine\<close> calls its function with: a trailing newline opens no empty line.\<close>

definition forEachLine :: "string \<Rightarrow> string list" where
  "forEachLine text =
     (let ls = split_on (CHR 0x0A) text in if last ls = [] then butlast ls else ls)"

text \<open>\<open>from_chars\<close> into a 64-bit value: the longest run of digits, an error when there is none or when it
  does not fit.\<close>

definition toU64 :: "string \<Rightarrow> nat option" where
  "toU64 s =
     (let ds = takeWhile is_digit s
      in if ds = [] \<or> read_nat ds \<ge> 2 ^ 64 then None else Some (read_nat ds))"

text \<open>\<open>toI64\<close> gives 0 where \<open>from_chars\<close> reports an error.\<close>

definition toI64 :: "string \<Rightarrow> int" where
  "toI64 s =
     (let neg = (s \<noteq> [] \<and> hd s = CHR ''-'');
          ds = takeWhile is_digit (if neg then tl s else s);
          v = (if neg then - int (read_nat ds) else int (read_nat ds))
      in if ds = [] \<or> v < - (2 ^ 63) \<or> v \<ge> 2 ^ 63 then 0 else v)"

definition field_line :: "string \<Rightarrow> string \<Rightarrow> bool" where
  "field_line key l =
     (length key < length l \<and> prefix key l \<and> l ! length key \<in> {CHR '':'', CHR '' '', CHR 0x09, CHR ''=''})"

definition field :: "string \<Rightarrow> string \<Rightarrow> nat option" where
  "field text key =
     (case filter (field_line key) (forEachLine text) of
        [] \<Rightarrow> None
      | l # _ \<Rightarrow> toU64 (ws_trim (drop (length key + 1) l)))"

text \<open>\<open>parsePairs\<close>: a line of names, then a line of values that begins with the same word.\<close>

definition remove_colon :: "string \<Rightarrow> string" where
  "remove_colon s = (if s \<noteq> [] \<and> last s = CHR '':'' then butlast s else s)"

fun pair_lines :: "string list \<Rightarrow> (string \<times> int) list \<Rightarrow> (string \<times> int) list" where
  "pair_lines (l1 # l2 # ls) out =
     (let names = splitWs l1; vals = splitWs l2
      in if names = [] \<or> vals = [] \<or> hd names \<noteq> hd vals then pair_lines (l2 # ls) out
         else pair_lines ls
           (fold (\<lambda>(n, v) m. (remove_colon (hd names) @ ''.'' @ n, toI64 v) # m) (zip (tl names) (tl vals)) out))"
| "pair_lines _ out = out"

definition parsePairs :: "string \<Rightarrow> string \<rightharpoonup> int" where
  "parsePairs text = map_of (pair_lines (filter (\<lambda>l. l \<noteq> []) (forEachLine text)) [])"

definition u64_or_0 :: "string \<Rightarrow> nat" where
  "u64_or_0 s = (case toU64 s of None \<Rightarrow> 0 | Some n \<Rightarrow> n)"

text \<open>\<open>sockstatMap\<close>: keys and values alternate after the protocol's name.\<close>

fun alternate :: "string list \<Rightarrow> (string \<times> nat) list" where
  "alternate (k # v # r) = (k, u64_or_0 v) # alternate r"
| "alternate _ = []"

definition sockstatMap :: "string \<Rightarrow> string \<Rightarrow> string \<rightharpoonup> nat" where
  "sockstatMap text proto =
     map_of (rev (concat (map (\<lambda>f. alternate (tl f))
       (filter (\<lambda>f. f \<noteq> [] \<and> hd f = proto) (map splitWs (forEachLine text))))))"

text \<open>\<open>grouped\<close>: a separator before every group of three digits.\<close>

definition group_sep :: string where
  "group_sep = ''&#8239;''"

fun group_digits :: "nat \<Rightarrow> string \<Rightarrow> string" where
  "group_digits i [] = []"
| "group_digits i (c # s) =
     (if i > 0 \<and> (length s + 1) mod 3 = 0 then group_sep @ [c] else [c]) @ group_digits (i + 1) s"

definition grouped :: "nat \<Rightarrow> string" where
  "grouped v = group_digits 0 (show_nat v)"

definition pad2 :: "nat \<Rightarrow> string" where
  "pad2 n = (if n < 10 then ''0'' @ show_nat n else show_nat n)"

definition duration :: "nat \<Rightarrow> string" where
  "duration s =
     show_nat (s div 86400) @ ''d '' @ pad2 ((s mod 86400) div 3600) @ ''h '' @ pad2 ((s mod 3600) div 60) @ ''m''"

definition formatUptime :: "nat \<Rightarrow> string" where
  "formatUptime s = show_nat (s div 3600) @ ''h '' @ pad2 ((s mod 3600) div 60) @ ''m '' @ pad2 (s mod 60) @ ''s''"

definition ageAgo :: "int \<Rightarrow> int \<Rightarrow> string" where
  "ageAgo nowMs atMs =
     (if atMs \<le> 0 then ''never''
      else let sec = (nowMs - atMs) div 1000
           in if sec < 1 then ''just now'' else formatUptime (nat sec) @ '' ago'')"

subsection \<open>The state of a thread\<close>

record thread_kernel =
  tk_state :: char
  tk_core :: int
  tk_ticks :: nat
  tk_sched :: "(nat \<times> nat) option"
  tk_comm :: string

text \<open>The line of \<^verbatim>\<open>/proc/self/task/TID/stat\<close>: the name is between the first opening and the last closing
  parenthesis, the fields from the third on follow. The two clock tick fields are added; \<^verbatim>\<open>schedstat\<close>,
  where the kernel has it, gives the nanoseconds on a core and waiting for one instead.\<close>

definition threadKernel :: "int \<Rightarrow> string \<Rightarrow> string \<Rightarrow> thread_kernel option" where
  "threadKernel tid stat sched =
     (if tid \<le> 0 then None
      else case (find_sub ''('' stat, after_last (CHR '')'') stat) of
        (Some open, Some rest) \<Rightarrow>
          (let close = length stat - length rest - 1; f = splitWs rest
           in if open > close \<or> length f < 37 then None
              else Some \<lparr>tk_state = hd (f ! 0), tk_core = toI64 (f ! 36),
                     tk_ticks = (u64_or_0 (f ! 11) + u64_or_0 (f ! 12)) mod 2 ^ 64,
                     tk_sched = (case splitWs sched of a # b # _ \<Rightarrow> Some (u64_or_0 a, u64_or_0 b) | _ \<Rightarrow> None),
                     tk_comm = take (close - open - 1) (drop (open + 1) stat)\<rparr>)
      | _ \<Rightarrow> None)"

subsection \<open>Netlink messages\<close>

text \<open>A message is a list of bytes; numbers in it are little endian, as on the machines the program runs
  on. The contents of \<^verbatim>\<open>inet_diag_msg\<close>, \<^verbatim>\<open>tcp_info\<close> and the memory counters are read by the parameters of
  \<open>diag_abi\<close>; an attribute is its type and its payload.\<close>

definition le16 :: "string \<Rightarrow> nat \<Rightarrow> nat" where
  "le16 buf off = of_char (buf ! off) + 256 * of_char (buf ! (off + 1))"

definition le32 :: "string \<Rightarrow> nat \<Rightarrow> nat" where
  "le32 buf off = le16 buf off + 65536 * le16 buf (off + 2)"

definition align4 :: "nat \<Rightarrow> nat" where
  "align4 n = (n + 3) div 4 * 4"

record diag_sock =
  ds_family :: nat
  ds_state :: nat
  ds_sport :: nat
  ds_dport :: nat
  ds_inode :: nat
  ds_rq :: nat
  ds_wq :: nat
  ds_hasInfo :: bool
  ds_retransmits :: nat
  ds_rttUs :: nat
  ds_lastRecvMs :: nat
  ds_totalRetrans :: nat
  ds_unacked :: nat
  ds_bufMem :: nat
  ds_drops :: nat

record diag_abi =
  abi_msg :: "string \<Rightarrow> diag_sock"
  abi_info :: "string \<Rightarrow> diag_sock \<Rightarrow> diag_sock"
  abi_mem :: "string \<Rightarrow> diag_sock \<Rightarrow> diag_sock"

definition sizeof_nlmsghdr :: nat where "sizeof_nlmsghdr = 16"

definition sizeof_rtattr :: nat where "sizeof_rtattr = 4"

definition inet_diag_length :: nat where "inet_diag_length = 88"

text \<open>The loop of \<open>parseDiag\<close>: offset, length and type of each attribute of a message of length \<open>limit\<close>.\<close>

function rta_walk :: "string \<Rightarrow> nat \<Rightarrow> nat \<Rightarrow> (nat \<times> nat \<times> nat) list" where
  "rta_walk buf limit off =
     (if off + sizeof_rtattr \<le> limit then
        (let len = le16 buf off
         in if len < sizeof_rtattr \<or> off + len > limit then []
            else (off, len, le16 buf (off + 2)) # rta_walk buf limit (off + align4 len))
      else [])"
  by pat_completeness auto

lemma align4_ge: "n \<le> align4 n"
  unfolding align4_def by presburger

termination rta_walk
proof (relation "measure (\<lambda>(buf, limit, off). limit - off)", simp)
  fix buf limit off len
  assume a: "off + sizeof_rtattr \<le> limit" "len = le16 buf off" "\<not> (len < sizeof_rtattr \<or> limit < off + len)"
  have "0 < align4 len" using a align4_ge [of len] by (simp add: sizeof_rtattr_def)
  then show "((buf, limit, off + align4 len), buf, limit, off) \<in> measure (\<lambda>(buf, limit, off). limit - off)"
    using a(1) by (simp add: sizeof_rtattr_def)
qed

declare rta_walk.simps [simp del]

definition INET_DIAG_INFO :: nat where "INET_DIAG_INFO = 2"

definition INET_DIAG_SKMEMINFO :: nat where "INET_DIAG_SKMEMINFO = 7"

definition apply_attr :: "diag_abi \<Rightarrow> string \<Rightarrow> nat \<times> nat \<times> nat \<Rightarrow> diag_sock \<Rightarrow> diag_sock" where
  "apply_attr A buf a s =
     (case a of (off, len, mtype) \<Rightarrow>
        (let payload = take (len - sizeof_rtattr) (drop (off + sizeof_rtattr) buf)
         in if mtype = INET_DIAG_INFO then abi_info A payload (s\<lparr>ds_hasInfo := True\<rparr>)
            else if mtype = INET_DIAG_SKMEMINFO then abi_mem A payload s else s))"

text \<open>\<open>parseDiag\<close> on the bytes of one message, whose first four are its length.\<close>

definition parseDiag :: "diag_abi \<Rightarrow> string \<Rightarrow> diag_sock" where
  "parseDiag A msg = fold (apply_attr A msg) (rta_walk msg (le32 msg 0) inet_diag_length) (abi_msg A msg)"

text \<open>One buffer of \<open>diagDump\<close>: the sockets found, and whether the dump goes on, is done, or failed.\<close>

datatype dump_status = MoreMessages | DumpDone | DumpFailed string

definition NLMSG_ERROR :: nat where "NLMSG_ERROR = 2"

definition NLMSG_DONE :: nat where "NLMSG_DONE = 3"

definition SOCK_DIAG_BY_FAMILY :: nat where "SOCK_DIAG_BY_FAMILY = 20"

definition EPROTO :: nat where "EPROTO = 71"

definition AF_INET6 :: nat where "AF_INET6 = 10"

text \<open>The errno of an error message is stored negated; \<^verbatim>\<open>ENOENT\<close> is 2 and \<^verbatim>\<open>EAFNOSUPPORT\<close> 97.\<close>

definition error_code_of :: "string \<Rightarrow> nat \<Rightarrow> nat \<Rightarrow> nat" where
  "error_code_of buf off len =
     (if len \<ge> 36 then (2 ^ 32 - le32 buf (off + sizeof_nlmsghdr)) mod 2 ^ 32 else EPROTO)"

function msg_walk :: "diag_abi \<Rightarrow> (nat \<Rightarrow> string) \<Rightarrow> nat \<Rightarrow> string \<Rightarrow> nat \<Rightarrow> diag_sock list \<times> dump_status" where
  "msg_walk A strerr family buf off =
     (if off + sizeof_nlmsghdr \<le> length buf then
        (let len = le32 buf off; mtype = le16 buf (off + 4)
         in if len < sizeof_nlmsghdr \<or> off + len > length buf then ([], MoreMessages)
            else if mtype = NLMSG_DONE then ([], DumpDone)
            else if mtype = NLMSG_ERROR then
              (let code = error_code_of buf off len
               in if family = AF_INET6 \<and> (code = 2 \<or> code = 97) then ([], DumpDone)
                  else ([], DumpFailed (''sock_diag: '' @ strerr code)))
            else (case msg_walk A strerr family buf (off + align4 len) of (ss, st) \<Rightarrow>
              ((if mtype = SOCK_DIAG_BY_FAMILY \<and> len \<ge> inet_diag_length then [parseDiag A (take len (drop off buf))] else []) @ ss, st)))
      else ([], MoreMessages))"
  by pat_completeness auto

termination msg_walk
proof (relation "measure (\<lambda>(A, strerr, family, buf, off). length buf - off)", simp)
  fix A strerr family off and buf :: string and len mtype
  assume a: "off + sizeof_nlmsghdr \<le> length buf" "len = le32 buf off"
    "\<not> (len < sizeof_nlmsghdr \<or> length buf < off + len)"
  have "0 < align4 len" using a align4_ge [of len] by (simp add: sizeof_nlmsghdr_def)
  then show "((A, strerr, family, buf, off + align4 len), A, strerr, family, buf, off)
      \<in> measure (\<lambda>(A, strerr, family, buf, off). length buf - off)"
    using a(1) by (simp add: sizeof_nlmsghdr_def)
qed

declare msg_walk.simps [simp del]

text \<open>The receive loop over the answers of \<^verbatim>\<open>recv\<close>; \<open>None\<close> when it still waits at the end of the script.\<close>

datatype recv_answer = Received string | Interrupted | RecvFailed nat

fun dump_loop ::
  "diag_abi \<Rightarrow> (nat \<Rightarrow> string) \<Rightarrow> nat \<Rightarrow> recv_answer list \<Rightarrow> diag_sock list \<Rightarrow> (bool \<times> diag_sock list \<times> string) option" where
  "dump_loop A strerr family [] out = None"
| "dump_loop A strerr family (a # as) out =
     (case a of
        Interrupted \<Rightarrow> dump_loop A strerr family as out
      | RecvFailed e \<Rightarrow> Some (False, out, ''sock_diag recv: '' @ strerr e)
      | Received buf \<Rightarrow>
          if buf = [] then Some (True, out, [])
          else (case msg_walk A strerr family buf 0 of (ss, st) \<Rightarrow>
            (case st of
               MoreMessages \<Rightarrow> dump_loop A strerr family as (out @ ss)
             | DumpDone \<Rightarrow> Some (True, out @ ss, [])
             | DumpFailed e \<Rightarrow> Some (False, out @ ss, e))))"

definition diagDump ::
  "diag_abi \<Rightarrow> (nat \<Rightarrow> string) \<Rightarrow> nat \<Rightarrow> nat option \<Rightarrow> nat option \<Rightarrow> recv_answer list \<Rightarrow> diag_sock list
    \<Rightarrow> (bool \<times> diag_sock list \<times> string) option" where
  "diagDump A strerr family socket_err send_err answers out =
     (case socket_err of
        Some e \<Rightarrow> Some (False, out, ''socket(NETLINK_SOCK_DIAG): '' @ strerr e)
      | None \<Rightarrow>
          (case send_err of
             Some e \<Rightarrow> Some (False, out, ''sock_diag send: '' @ strerr e)
           | None \<Rightarrow> dump_loop A strerr family answers out))"

subsection \<open>The sockets of the process\<close>

text \<open>TCP states by their number in the kernel.\<close>

definition tcpStateName :: "nat \<Rightarrow> string" where
  "tcpStateName s =
     (let names = [''?'', ''ESTABLISHED'', ''SYN_SENT'', ''SYN_RECV'', ''FIN_WAIT1'', ''FIN_WAIT2'', ''TIME_WAIT'',
        ''CLOSE'', ''CLOSE_WAIT'', ''LAST_ACK'', ''LISTEN'', ''CLOSING'', ''NEW_SYN_RECV'']
      in if s < length names then names ! s else ''?'')"

definition TCP_ESTABLISHED :: nat where "TCP_ESTABLISHED = 1"
definition TCP_SYN_RECV :: nat where "TCP_SYN_RECV = 3"
definition TCP_TIME_WAIT :: nat where "TCP_TIME_WAIT = 6"
definition TCP_LISTEN :: nat where "TCP_LISTEN = 10"

definition flushing_states :: "nat list" where
  "flushing_states = [4, 5, 9, 11]"

record sock_sum =
  byState :: "nat list"
  nsTimeWait :: nat
  ourTimeWait :: nat
  ourSynRecv :: nat
  ourOrphans :: nat
  notAccepted :: nat
  listeners :: "diag_sock list"
  inbound :: "diag_sock list"
  conns :: "diag_sock list"
  outbound :: "(nat, diag_sock list) omap"

definition sock_sum_init :: sock_sum where
  "sock_sum_init = \<lparr>byState = replicate 13 0, nsTimeWait = 0, ourTimeWait = 0, ourSynRecv = 0, ourOrphans = 0,
     notAccepted = 0, listeners = [], inbound = [], conns = [], outbound = []\<rparr>"

definition listenPorts :: "nat set \<Rightarrow> diag_sock list \<Rightarrow> nat set" where
  "listenPorts own all = set (map ds_sport (filter (\<lambda>s. ds_state s = TCP_LISTEN \<and> ds_inode s \<in> own) all))"

definition count_if :: "bool \<Rightarrow> nat" where
  "count_if b = (if b then 1 else 0)"

text \<open>The end of the loop's body, for a socket that is ours.\<close>

definition file_socket :: "nat set \<Rightarrow> diag_sock \<Rightarrow> sock_sum \<Rightarrow> sock_sum" where
  "file_socket ports s r =
     (let r = (if ds_state s < length (byState r)
               then r\<lparr>byState := (byState r)[ds_state s := byState r ! ds_state s + 1]\<rparr> else r)
      in if ds_state s = TCP_LISTEN then r\<lparr>listeners := listeners r @ [s]\<rparr>
         else let r = r\<lparr>conns := conns r @ [s]\<rparr>
              in if ds_sport s \<in> ports then r\<lparr>inbound := inbound r @ [s]\<rparr>
                 else r\<lparr>outbound := map_assign (ds_dport s)
                        ((case map_of (outbound r) (ds_dport s) of None \<Rightarrow> [] | Some v \<Rightarrow> v) @ [s]) (outbound r)\<rparr>)"

text \<open>The body of the loop over all sockets of the namespace.\<close>

definition classify :: "nat set \<Rightarrow> nat set \<Rightarrow> diag_sock \<Rightarrow> sock_sum \<Rightarrow> sock_sum" where
  "classify own ports s r =
     (if ds_state s = TCP_TIME_WAIT then
        r\<lparr>nsTimeWait := nsTimeWait r + 1, ourTimeWait := ourTimeWait r + count_if (ds_sport s \<in> ports)\<rparr>
      else if ds_inode s = 0 \<and> ds_state s = TCP_SYN_RECV then
        r\<lparr>ourSynRecv := ourSynRecv r + count_if (ds_sport s \<in> ports)\<rparr>
      else if ds_inode s = 0 then
        (if ds_sport s \<notin> ports then r
         else if ds_state s \<in> set flushing_states then file_socket ports s (r\<lparr>ourOrphans := ourOrphans r + 1\<rparr>)
         else file_socket ports s (r\<lparr>notAccepted := notAccepted r + 1\<rparr>))
      else if ds_inode s \<notin> own then r
      else file_socket ports s r)"

definition socket_summary :: "nat set \<Rightarrow> diag_sock list \<Rightarrow> sock_sum" where
  "socket_summary own all = fold (classify own (listenPorts own all)) all sock_sum_init"

text \<open>\<open>percentiles\<close>: \<open>at q n\<close> is the truncated product of the quantile with \<open>n\<close>.\<close>

record 'a pct =
  p50 :: 'a
  p90 :: 'a
  p99 :: 'a
  pmax :: 'a

definition percentiles :: "(nat \<Rightarrow> nat \<Rightarrow> nat) \<Rightarrow> 'a::linorder list \<Rightarrow> 'a pct option" where
  "percentiles at xs =
     (if xs = [] then None
      else let v = sort xs; n = length v - 1
           in Some \<lparr>p50 = v ! at 50 n, p90 = v ! at 90 n, p99 = v ! at 99 n, pmax = last v\<rparr>)"

record group =
  gr_n :: nat
  gr_sendQ :: nat
  gr_sendQMax :: nat
  gr_recvQ :: nat
  gr_recvQMax :: nat
  gr_retrans :: nat
  gr_retransNow :: nat
  gr_unacked :: nat
  gr_mem :: nat
  gr_drops :: nat
  gr_est :: nat
  gr_rttUs :: "nat list"
  gr_idleMs :: "nat list"

definition group_add :: "diag_sock \<Rightarrow> group \<Rightarrow> group" where
  "group_add s g =
     (let g = g\<lparr>gr_n := gr_n g + 1, gr_sendQ := gr_sendQ g + ds_wq s, gr_sendQMax := max (gr_sendQMax g) (ds_wq s),
            gr_recvQ := gr_recvQ g + ds_rq s, gr_recvQMax := max (gr_recvQMax g) (ds_rq s),
            gr_mem := gr_mem g + ds_bufMem s, gr_drops := gr_drops g + ds_drops s,
            gr_est := gr_est g + count_if (ds_state s = TCP_ESTABLISHED)\<rparr>
      in if \<not> ds_hasInfo s then g
         else let g = g\<lparr>gr_retrans := gr_retrans g + ds_totalRetrans s,
                gr_retransNow := gr_retransNow g + count_if (ds_retransmits s > 0), gr_unacked := gr_unacked g + ds_unacked s\<rparr>
              in if ds_state s = TCP_ESTABLISHED
                 then g\<lparr>gr_rttUs := gr_rttUs g @ [ds_rttUs s], gr_idleMs := gr_idleMs g @ [ds_lastRecvMs s]\<rparr> else g)"

subsection \<open>Open files\<close>

datatype fd_kind = FdSocket | FdPipe | FdFile | FdDev | FdAnon string | FdOther

text \<open>The link text of a descriptor that is neither socket nor pipe.\<close>

definition link_kind :: "string \<Rightarrow> fd_kind" where
  "link_kind l =
     (if prefix ''anon_inode:'' l then
        (let k = drop 11 l
         in FdAnon (if k \<noteq> [] \<and> hd k = CHR ''['' \<and> last k = CHR '']'' then take (length k - 2) (drop 1 k) else k))
      else if prefix ''/dev/'' l then FdDev
      else if prefix ''/'' l then FdFile
      else FdOther)"

subsection \<open>Timers\<close>

text \<open>\<open>ElapsedTimerV2\<close>: \<open>et_started\<close> is the start of the Qt timer inside, none when it is not valid.\<close>

record elapsed_timer =
  et_started :: "int option"
  et_paused :: bool
  et_total :: int

definition elapsed_init :: elapsed_timer where
  "elapsed_init = \<lparr>et_started = None, et_paused = True, et_total = 0\<rparr>"

definition elapsed_start :: "int \<Rightarrow> elapsed_timer \<Rightarrow> elapsed_timer" where
  "elapsed_start now e = e\<lparr>et_paused := False, et_started := Some now\<rparr>"

definition elapsed_pause :: "int \<Rightarrow> elapsed_timer \<Rightarrow> elapsed_timer \<times> (string + int)" where
  "elapsed_pause now e =
     (let e = e\<lparr>et_paused := True\<rparr>
      in case et_started e of
           None \<Rightarrow> (e, Inl ''invalid timer ? there must be some logic bug somewhere'')
         | Some t \<Rightarrow> (e\<lparr>et_total := et_total e + (now - t)\<rparr>, Inr (et_total e + (now - t))))"

definition nsecsElapsed :: "int \<Rightarrow> elapsed_timer \<Rightarrow> int" where
  "nsecsElapsed now e =
     (if et_paused e then et_total e else et_total e + (case et_started e of None \<Rightarrow> 0 | Some t \<Rightarrow> now - t))"

record timing =
  tm_timer :: elapsed_timer
  tm_clickHouse :: elapsed_timer
  tm_IO :: elapsed_timer
  tm_flush :: int
  tm_sqlImmediate :: int
  tm_sqlDeferred :: int
  tm_curlImmediate :: int
  tm_curlDeferred :: int

definition timing_reset :: "int \<Rightarrow> timing" where
  "timing_reset now = \<lparr>tm_timer = elapsed_start now elapsed_init, tm_clickHouse = elapsed_init, tm_IO = elapsed_init,
     tm_flush = 0, tm_sqlImmediate = 0, tm_sqlDeferred = 0, tm_curlImmediate = 0, tm_curlDeferred = 0\<rparr>"

definition addSqlTime :: "int \<Rightarrow> timing \<Rightarrow> timing" where
  "addSqlTime t m = (if tm_flush m \<noteq> 0 then m\<lparr>tm_sqlDeferred := tm_sqlDeferred m + t\<rparr>
     else m\<lparr>tm_sqlImmediate := tm_sqlImmediate m + t\<rparr>)"

definition addCurlTime :: "int \<Rightarrow> timing \<Rightarrow> timing" where
  "addCurlTime t m = (if tm_flush m \<noteq> 0 then m\<lparr>tm_curlDeferred := tm_curlDeferred m + t\<rparr>
     else m\<lparr>tm_curlImmediate := tm_curlImmediate m + t\<rparr>)"

definition timing_total :: "int \<Rightarrow> timing \<Rightarrow> int" where
  "timing_total now m = nsecsElapsed now (tm_timer m)"

definition execution :: "int \<Rightarrow> timing \<Rightarrow> int" where
  "execution now m = timing_total now m -
     (tm_curlDeferred m + tm_curlImmediate m + tm_sqlDeferred m + tm_sqlImmediate m +
      nsecsElapsed now (tm_IO m) + nsecsElapsed now (tm_clickHouse m))"

definition registerFlushTime :: "int \<Rightarrow> timing \<Rightarrow> int \<times> timing" where
  "registerFlushTime now m =
     (let m' = (if et_started (tm_timer m) \<noteq> None then m\<lparr>tm_flush := nsecsElapsed now (tm_timer m)\<rparr> else m)
      in (tm_flush m', m'))"

subsection \<open>Request counters\<close>

record a_timing =
  at_total :: int
  at_flush :: int
  at_sqlFetch :: int
  at_sqlServer :: int
  at_sqlDone :: int
  at_sqlReconnect :: int

definition a_timing_clear :: a_timing where
  "a_timing_clear = \<lparr>at_total = 0, at_flush = 0, at_sqlFetch = 0, at_sqlServer = 0, at_sqlDone = 0, at_sqlReconnect = 0\<rparr>"

text \<open>The totals the main connection keeps for the calling thread.\<close>

record db_totals =
  db_fetch :: int
  db_server :: int
  db_done :: int
  db_reconnect :: int

definition syncFromDk_S7Db :: "int \<Rightarrow> timing \<Rightarrow> db_totals \<Rightarrow> a_timing" where
  "syncFromDk_S7Db now m st = \<lparr>at_total = timing_total now m, at_flush = tm_flush m, at_sqlFetch = db_fetch st,
     at_sqlServer = db_server st, at_sqlDone = db_done st, at_sqlReconnect = db_reconnect st\<rparr>"

record averager =
  av_blockSize :: int
  av_restartedOn :: int
  av_resetAfter :: int
  av_request :: int
  av_timing :: a_timing

definition averager_init :: "int \<Rightarrow> averager" where
  "averager_init bs = \<lparr>av_blockSize = bs, av_restartedOn = 0, av_resetAfter = 0, av_request = 0, av_timing = a_timing_clear\<rparr>"

definition av_restart :: "int \<Rightarrow> averager \<Rightarrow> averager" where
  "av_restart now a =
     a\<lparr>av_restartedOn := now, av_resetAfter := (now div av_blockSize a + 1) * av_blockSize a, av_request := 0,
       av_timing := a_timing_clear\<rparr>"

definition bump :: "int \<Rightarrow> averager \<Rightarrow> averager" where
  "bump now a =
     (let a = (if now > av_resetAfter a then av_restart now a else a)
      in a\<lparr>av_request := av_request a + 1\<rparr>)"

text \<open>The state the two ends of a request share: the free workers, all requests, the four slots.\<close>

record load =
  ld_free :: int
  ld_request :: nat
  ld_slots :: "averager list"

definition load_init :: "int \<Rightarrow> load" where
  "load_init workers = \<lparr>ld_free = workers, ld_request = 0, ld_slots = map averager_init [60, 300, 60 * 30, 60 * 300]\<rparr>"

datatype thread_state = Idle | Beast | Immediate | Deferred | MyQuery | MyCache | ClickHouse | CURL

record worker =
  wk_state :: thread_state
  wk_time :: timing

definition requestBeging :: "int \<Rightarrow> int \<Rightarrow> load \<times> worker \<Rightarrow> load \<times> worker" where
  "requestBeging now_s now_ns lw = (case lw of (l, w) \<Rightarrow>
     (l\<lparr>ld_free := ld_free l - 1, ld_request := (ld_request l + 1) mod 2 ^ 32, ld_slots := map (bump now_s) (ld_slots l)\<rparr>,
      w\<lparr>wk_state := Beast, wk_time := timing_reset now_ns\<rparr>))"

definition requestEnd :: "int \<Rightarrow> db_totals \<Rightarrow> load \<times> worker \<Rightarrow> load \<times> worker" where
  "requestEnd now_ns st lw = (case lw of (l, w) \<Rightarrow>
     (let m = wk_time w;
          m' = (if et_started (tm_timer m) \<noteq> None then m\<lparr>tm_timer := fst (elapsed_pause now_ns (tm_timer m))\<rparr> else m)
      in (l\<lparr>ld_free := ld_free l + 1,
            ld_slots := map (\<lambda>a. a\<lparr>av_timing := syncFromDk_S7Db now_ns m' st\<rparr>) (ld_slots l)\<rparr>, w\<lparr>wk_state := Idle, wk_time := m'\<rparr>)))"

text \<open>\<open>meminfoKb\<close>: the second word of the first line with the key as prefix.\<close>

definition meminfoKb :: "string \<Rightarrow> string \<Rightarrow> nat" where
  "meminfoKb text key =
     (case filter (prefix key) (forEachLine text) of
        [] \<Rightarrow> 0
      | l # _ \<Rightarrow> (case splitWs l of _ # kb # _ \<Rightarrow> u64_or_0 kb | _ \<Rightarrow> 0))"

subsection \<open>Lemmas\<close>

lemma splitWs_Nil [simp]: "splitWs [] = []"
  by (simp add: splitWs.simps)

lemma splitWs_skip: "isWs c \<Longrightarrow> splitWs (c # s) = splitWs s"
  by (subst (1 2) splitWs.simps) simp

lemma splitWs_blank: "\<forall>c\<in>set s. isWs c \<Longrightarrow> splitWs s = []"
  by (induction s) (simp_all add: splitWs_skip)

lemma splitWs_word:
  assumes "w \<noteq> []" and "\<forall>c\<in>set w. \<not> isWs c" and "r = [] \<or> isWs (hd r)"
  shows "splitWs (w @ r) = w # splitWs r"
proof -
  have "dropWhile isWs (w @ r) = w @ r" using assms(1,2) by (cases w) auto
  moreover have "takeWhile (\<lambda>c. \<not> isWs c) (w @ r) = w"
    using assms(2,3) by (cases r) (auto simp: takeWhile_append)
  moreover have "dropWhile (\<lambda>c. \<not> isWs c) (w @ r) = r"
    using assms(2,3) by (cases r) (auto simp: dropWhile_append)
  ultimately show ?thesis using assms(1) by (subst splitWs.simps) simp
qed

lemma splitWs_join:
  assumes "\<forall>w\<in>set ws. w \<noteq> [] \<and> (\<forall>c\<in>set w. \<not> isWs c)" and "\<forall>c\<in>set tail. isWs c"
  shows "splitWs (join_with '' '' ws @ tail) = ws"
  using assms(1)
proof (induction ws)
  case Nil
  then show ?case using assms(2) by (simp add: splitWs_blank)
next
  case (Cons w ws)
  show ?case
  proof (cases "ws = []")
    case True
    have "tail = [] \<or> isWs (hd tail)" using assms(2) by (cases tail) auto
    then show ?thesis using True Cons.prems splitWs_word [of w tail] splitWs_blank [OF assms(2)] by simp
  next
    case False
    have "splitWs (w @ CHR '' '' # join_with '' '' ws @ tail) = w # splitWs (CHR '' '' # join_with '' '' ws @ tail)"
      using Cons.prems by (intro splitWs_word) (auto simp: isWs_def)
    then show ?thesis using Cons False by (simp add: join_with_Cons splitWs_skip isWs_def)
  qed
qed

text \<open>Grouping only inserts separators.\<close>

fun ungroup :: "string \<Rightarrow> string" where
  "ungroup [] = []"
| "ungroup (c # s) = (if prefix group_sep (c # s) then ungroup (drop 6 s) else c # ungroup s)"

lemma ungroup_group: "CHR ''&'' \<notin> set s \<Longrightarrow> ungroup (group_digits i s) = s"
proof (induction s arbitrary: i)
  case (Cons c s)
  then have "c \<noteq> CHR ''&''" by auto
  then show ?case using Cons by (simp add: group_sep_def)
qed simp

lemma rta_walk_bounds:
  "(o', l, t) \<in> set (rta_walk buf limit off) \<Longrightarrow> off \<le> o' \<and> sizeof_rtattr \<le> l \<and> o' + l \<le> limit"
proof (induction buf limit off rule: rta_walk.induct)
  case (1 buf limit off)
  have a: "le16 buf off \<le> align4 (le16 buf off)" by (rule align4_ge)
  show ?case using 1 a unfolding rta_walk.simps [of buf limit off]
    by (auto simp: Let_def split: if_splits dest: 1(1) [OF _ refl])
qed

lemma rta_walk_disjoint:
  "sorted_wrt (\<lambda>a b. fst a + fst (snd a) \<le> fst b) (rta_walk buf limit off)"
proof (induction buf limit off rule: rta_walk.induct)
  case (1 buf limit off)
  show ?case
  proof (cases "off + sizeof_rtattr \<le> limit \<and> \<not> (le16 buf off < sizeof_rtattr \<or> limit < off + le16 buf off)")
    case True
    let ?rest = "rta_walk buf limit (off + align4 (le16 buf off))"
    have "sorted_wrt (\<lambda>a b. fst a + fst (snd a) \<le> fst b) ?rest" using 1 True by simp
    moreover have "off + le16 buf off \<le> fst a" if "a \<in> set ?rest" for a
      using rta_walk_bounds [of "fst a" "fst (snd a)" "snd (snd a)"] that align4_ge [of "le16 buf off"] by fastforce
    ultimately show ?thesis using True by (subst rta_walk.simps) (auto simp: Let_def)
  next
    case False
    then show ?thesis by (subst rta_walk.simps) (auto simp: Let_def)
  qed
qed

lemma msg_walk_count:
  "inet_diag_length * length (fst (msg_walk A strerr family buf off)) \<le> length buf - off"
proof (induction A strerr family buf off rule: msg_walk.induct)
  case (1 A strerr family buf off)
  let ?len = "le32 buf off"
  show ?case
  proof (cases "off + sizeof_nlmsghdr \<le> length buf \<and> \<not> (?len < sizeof_nlmsghdr \<or> length buf < off + ?len) \<and>
      le16 buf (off + 4) \<noteq> NLMSG_DONE \<and> le16 buf (off + 4) \<noteq> NLMSG_ERROR")
    case False
    then show ?thesis by (subst msg_walk.simps) (auto simp: Let_def)
  next
    case True
    obtain ss st where r: "msg_walk A strerr family buf (off + align4 ?len) = (ss, st)" by fastforce
    have "inet_diag_length * length ss \<le> length buf - (off + align4 ?len)"
      using 1 [OF _ refl refl] True r by auto
    moreover have "?len \<le> align4 ?len" by (rule align4_ge)
    ultimately show ?thesis using True r
      by (subst msg_walk.simps) (auto simp: Let_def algebra_simps)
  qed
qed

text \<open>The outbound map: a socket appended under its port.\<close>

lemma mset_append_at:
  "map_wf m \<Longrightarrow> mset (concat (map snd (map_assign k
     ((case map_of m k of None \<Rightarrow> [] | Some v \<Rightarrow> v) @ [s]) m))) = add_mset s (mset (concat (map snd m)))"
proof (induction m)
  case (Cons p m)
  obtain k' v' where p: "p = (k', v')" by fastforce
  have wf: "map_wf m" using Cons.prems by (simp add: map_wf_def)
  have lt: "\<forall>x\<in>fst ` set m. k' < x" using Cons.prems p by (auto simp: map_wf_def)
  show ?case
  proof (cases "k < k'")
    case True
    then have "map_of m k = None" using lt by (auto simp: map_of_eq_None_iff)
    then show ?thesis using True p by (simp add: less_not_refl2 [symmetric] less_imp_neq)
  next
    case False
    then show ?thesis using Cons.IH [OF wf] p by (cases "k = k'") auto
  qed
qed simp

text \<open>Which sockets of the namespace are filed: those with a descriptor of ours, and those without any
  on a port we listen on, handshakes and \<^verbatim>\<open>TIME_WAIT\<close> excepted.\<close>

definition is_filed :: "nat set \<Rightarrow> nat set \<Rightarrow> diag_sock \<Rightarrow> bool" where
  "is_filed own ports s =
     (ds_state s \<noteq> TCP_TIME_WAIT \<and>
      (if ds_inode s = 0 then ds_state s \<noteq> TCP_SYN_RECV \<and> ds_sport s \<in> ports else ds_inode s \<in> own))"

definition filed_ok :: "nat set \<Rightarrow> sock_sum \<Rightarrow> bool" where
  "filed_ok ports r =
     (map_wf (outbound r) \<and> length (byState r) = 13 \<and>
      mset (conns r) = mset (inbound r) + mset (concat (map snd (outbound r))) \<and>
      (\<forall>s\<in>set (inbound r). ds_sport s \<in> ports) \<and>
      (\<forall>s\<in>set (listeners r). ds_state s = TCP_LISTEN))"

lemma filed_ok_init: "filed_ok ports sock_sum_init"
  by (simp add: filed_ok_def sock_sum_init_def map_wf_def)

lemma sum_list_update_Suc: "i < length xs \<Longrightarrow> sum_list (xs[i := xs ! i + 1]) = sum_list xs + (1::nat)"
  by (simp add: sum_list_update)

lemma file_socket_ok:
  assumes "filed_ok ports r"
  shows "filed_ok ports (file_socket ports s r)"
    and "mset (listeners (file_socket ports s r)) + mset (conns (file_socket ports s r)) =
      add_mset s (mset (listeners r) + mset (conns r))"
    and "ds_state s < 13 \<Longrightarrow> sum_list (byState (file_socket ports s r)) = sum_list (byState r) + 1"
    and "nsTimeWait (file_socket ports s r) = nsTimeWait r" "ourSynRecv (file_socket ports s r) = ourSynRecv r"
proof -
  have wf: "map_wf (outbound r)" and l: "length (byState r) = 13"
    and c: "mset (conns r) = mset (inbound r) + mset (concat (map snd (outbound r)))"
    and i: "\<forall>s\<in>set (inbound r). ds_sport s \<in> ports" and t: "\<forall>s\<in>set (listeners r). ds_state s = TCP_LISTEN"
    using assms by (auto simp: filed_ok_def)
  show "filed_ok ports (file_socket ports s r)"
    using wf l c i t mset_append_at [OF wf, of "ds_dport s" s]
    by (simp add: filed_ok_def file_socket_def Let_def map_wf_assign)
  show "mset (listeners (file_socket ports s r)) + mset (conns (file_socket ports s r)) =
      add_mset s (mset (listeners r) + mset (conns r))"
    by (simp add: file_socket_def Let_def)
  show "sum_list (byState (file_socket ports s r)) = sum_list (byState r) + 1" if "ds_state s < 13"
    using that l sum_list_update_Suc [of "ds_state s" "byState r"] by (auto simp: file_socket_def Let_def)
  show "nsTimeWait (file_socket ports s r) = nsTimeWait r" "ourSynRecv (file_socket ports s r) = ourSynRecv r"
    by (simp_all add: file_socket_def Let_def)
qed

lemma classify_ok:
  assumes "filed_ok ports r"
  shows "filed_ok ports (classify own ports s r)"
    and "mset (listeners (classify own ports s r)) + mset (conns (classify own ports s r)) =
      mset (listeners r) + mset (conns r) + (if is_filed own ports s then {#s#} else {#})"
    and "ds_state s < 13 \<Longrightarrow> sum_list (byState (classify own ports s r)) =
      sum_list (byState r) + (if is_filed own ports s then 1 else 0)"
proof -
  have o: "filed_ok ports (r\<lparr>ourOrphans := ourOrphans r + 1\<rparr>)" "filed_ok ports (r\<lparr>notAccepted := notAccepted r + 1\<rparr>)"
    using assms by (simp_all add: filed_ok_def)
  note f = file_socket_ok [OF assms, of s] file_socket_ok [OF o(1), of s] file_socket_ok [OF o(2), of s]
  show "filed_ok ports (classify own ports s r)"
    using f(1,6,11) assms by (simp add: classify_def filed_ok_def)
  show "mset (listeners (classify own ports s r)) + mset (conns (classify own ports s r)) =
      mset (listeners r) + mset (conns r) + (if is_filed own ports s then {#s#} else {#})"
    using f(2,7,12) by (simp add: classify_def is_filed_def)
  show "sum_list (byState (classify own ports s r)) =
      sum_list (byState r) + (if is_filed own ports s then 1 else 0)" if "ds_state s < 13"
    using f(3,8,13) [OF that] by (simp add: classify_def is_filed_def)
qed

lemma fold_classify:
  "filed_ok ports r \<Longrightarrow> \<forall>s\<in>set all. ds_state s < 13 \<Longrightarrow>
    filed_ok ports (fold (classify own ports) all r) \<and>
    mset (listeners (fold (classify own ports) all r)) + mset (conns (fold (classify own ports) all r)) =
      mset (listeners r) + mset (conns r) + mset (filter (is_filed own ports) all) \<and>
    sum_list (byState (fold (classify own ports) all r)) = sum_list (byState r) + length (filter (is_filed own ports) all)"
proof (induction all arbitrary: r)
  case (Cons s all)
  have s: "ds_state s < 13" using Cons.prems(2) by simp
  show ?case using Cons.IH [OF classify_ok(1) [OF Cons.prems(1), where own = own and s = s]] Cons.prems(2)
    classify_ok(2) [OF Cons.prems(1), where own = own and s = s]
    classify_ok(3) [OF Cons.prems(1) s, where own = own] by simp
qed simp

text \<open>Timers and slots.\<close>

fun timed :: "(int \<times> int) list \<Rightarrow> elapsed_timer \<Rightarrow> elapsed_timer" where
  "timed [] e = e"
| "timed ((a, b) # is) e = timed is (fst (elapsed_pause b (elapsed_start a e)))"

lemma timed_total:
  "nsecsElapsed now (timed is e) = (if is = [] then nsecsElapsed now e else et_total e + (\<Sum>(a, b)\<leftarrow>is. b - a))"
proof (induction "is" arbitrary: e)
  case (Cons i "is")
  obtain a b where "i = (a, b)" by fastforce
  then show ?case using Cons.IH by (simp add: elapsed_pause_def elapsed_start_def nsecsElapsed_def)
qed simp

definition slot_ok :: "int list \<Rightarrow> averager \<Rightarrow> bool" where
  "slot_ok ts a =
     (av_blockSize a dvd av_resetAfter a \<and>
      av_restartedOn a < av_resetAfter a \<and> av_resetAfter a \<le> av_restartedOn a + av_blockSize a \<and>
      av_request a = int (length (filter (\<lambda>t. av_restartedOn a \<le> t) ts)) \<and>
      (\<forall>t\<in>set ts. t \<le> av_resetAfter a) \<and> av_restartedOn a \<in> set ts)"

lemma restart_span:
  assumes "0 < (b :: int)"
  shows "now < (now div b + 1) * b \<and> (now div b + 1) * b \<le> now + b"
proof -
  have "now = now div b * b + now mod b" by simp
  moreover have "0 \<le> now mod b" "now mod b < b" using assms by simp_all
  ultimately show ?thesis unfolding distrib_right by linarith
qed

lemma slot_ok_bump:
  assumes "slot_ok ts a" and "0 < av_blockSize a" and "\<forall>t\<in>set ts. t \<le> now"
  shows "slot_ok (ts @ [now]) (bump now a)"
proof (cases "av_resetAfter a < now")
  case True
  have "filter (\<lambda>t. now \<le> t) ts = []" using assms(1) True by (auto simp: slot_ok_def filter_empty_conv)
  then show ?thesis using True assms restart_span [OF assms(2), of now]
    by (auto simp: slot_ok_def bump_def av_restart_def Let_def)
next
  case False
  then show ?thesis using assms by (auto simp: slot_ok_def bump_def Let_def)
qed

lemma bump_block [simp]: "av_blockSize (bump now a) = av_blockSize a"
  by (simp add: bump_def av_restart_def Let_def)

lemma slot_ok_first:
  assumes "0 < b" and "0 < now"
  shows "slot_ok [now] (bump now (averager_init b))"
  using assms restart_span [OF assms(1), of now]
  by (simp add: slot_ok_def bump_def averager_init_def av_restart_def Let_def)

lemma slot_ok_run:
  "0 < b \<Longrightarrow> 0 < t \<Longrightarrow> sorted (t # ts) \<Longrightarrow> slot_ok (t # ts) (fold bump (t # ts) (averager_init b))
     \<and> av_blockSize (fold bump (t # ts) (averager_init b)) = b"
proof (induction ts rule: rev_induct)
  case Nil
  then show ?case using slot_ok_first [of b t] by (simp add: averager_init_def)
next
  case (snoc now ts)
  have s: "sorted (t # ts)" and l: "\<forall>x\<in>set (t # ts). x \<le> now" using snoc.prems(3) by (auto simp: sorted_append)
  then show ?case using snoc slot_ok_bump [of "t # ts" "fold bump (t # ts) (averager_init b)" now] by simp
qed

subsection \<open>Properties\<close>

text \<open>C32. Reading a netlink message stays inside it: every attribute that is looked at begins after the
  fixed part, is at least a header long, ends within the message and overlaps no other, whatever
  lengths the message claims; and a buffer yields no more sockets than fit into it.\<close>

theorem netlink_in_bounds:
  "(\<forall>(off', len, _)\<in>set (rta_walk buf limit off). off \<le> off' \<and> sizeof_rtattr \<le> len \<and> off' + len \<le> limit) \<and>
   sorted_wrt (\<lambda>a b. fst a + fst (snd a) \<le> fst b) (rta_walk buf limit off) \<and>
   inet_diag_length * length (fst (msg_walk A strerr family msgs 0)) \<le> length msgs"
  using rta_walk_bounds [of _ _ _ buf limit off] rta_walk_disjoint [of buf limit off]
    msg_walk_count [of A strerr family msgs 0] by auto

theorem netlink_in_bounds_witness:
  "rta_walk (map char_of [8 :: nat, 0, 2, 0, 1, 1, 1, 1, 255, 0, 7, 0]) 12 0 = [(0, 8, 2)] \<and>
   sorted_wrt (\<lambda>a b. fst a + fst (snd a) \<le> fst b) [(0 :: nat, 8 :: nat, 2 :: nat)]"
proof -
  have "rta_walk (map char_of [8 :: nat, 0, 2, 0, 1, 1, 1, 1, 255, 0, 7, 0]) 12 0 = [(0, 8, 2)]"
    by (simp add: rta_walk.simps sizeof_rtattr_def le16_def align4_def Let_def)
  then show ?thesis using netlink_in_bounds [of "map char_of [8 :: nat, 0, 2, 0, 1, 1, 1, 1, 255, 0, 7, 0]" 12 0] by metis
qed

text \<open>The socket table of the process is complete and counts nothing twice: the listed sockets are
  exactly those of the namespace that have a descriptor of the process, or none and one of its
  listening ports, each as listener or as connection; connections are split into inbound ones, on a
  listening port, and outbound ones; and the numbers per state add up to the table.\<close>

theorem sockets_partitioned:
  assumes "\<forall>s\<in>set all. ds_state s < 13"
  shows "case socket_summary own all of r \<Rightarrow>
    mset (listeners r) + mset (conns r) = mset (filter (is_filed own (listenPorts own all)) all) \<and>
    mset (conns r) = mset (inbound r) + mset (concat (map snd (outbound r))) \<and>
    (\<forall>s\<in>set (inbound r). ds_sport s \<in> listenPorts own all) \<and> (\<forall>s\<in>set (listeners r). ds_state s = TCP_LISTEN) \<and>
    sum_list (byState r) = length (listeners r) + length (conns r)"
proof -
  let ?r = "socket_summary own all"
  have a: "mset (listeners ?r) + mset (conns ?r) = mset (filter (is_filed own (listenPorts own all)) all)"
    and b: "filed_ok (listenPorts own all) ?r"
    and c: "sum_list (byState ?r) = length (filter (is_filed own (listenPorts own all)) all)"
    using fold_classify [OF filed_ok_init assms, of "listenPorts own all" own]
    by (simp_all add: socket_summary_def) (simp_all add: sock_sum_init_def)
  have "length (listeners ?r) + length (conns ?r) = length (filter (is_filed own (listenPorts own all)) all)"
    using arg_cong [OF a, of size] by (simp del: mset_filter)
  then show ?thesis using a b c by (simp add: filed_ok_def)
qed

definition sample_sock :: "nat \<Rightarrow> nat \<Rightarrow> nat \<Rightarrow> nat \<Rightarrow> diag_sock" where
  "sample_sock st sport dport inode = \<lparr>ds_family = 2, ds_state = st, ds_sport = sport, ds_dport = dport, ds_inode = inode,
     ds_rq = 0, ds_wq = 0, ds_hasInfo = False, ds_retransmits = 0, ds_rttUs = 0, ds_lastRecvMs = 0,
     ds_totalRetrans = 0, ds_unacked = 0, ds_bufMem = 0, ds_drops = 0\<rparr>"

theorem sockets_partitioned_witness:
  "sum_list (byState (socket_summary {5, 6} [sample_sock 10 80 0 5, sample_sock 1 80 4000 6, sample_sock 6 80 1 0])) =
   length (listeners (socket_summary {5, 6} [sample_sock 10 80 0 5, sample_sock 1 80 4000 6, sample_sock 6 80 1 0])) +
   length (conns (socket_summary {5, 6} [sample_sock 10 80 0 5, sample_sock 1 80 4000 6, sample_sock 6 80 1 0]))"
  using sockets_partitioned [of "[sample_sock 10 80 0 5, sample_sock 1 80 4000 6, sample_sock 6 80 1 0]" "{5, 6}"]
  by (simp add: sample_sock_def)

text \<open>A slot of the request table counts what it says: after any requests at times that do not go
  back, the count is the number of requests since the slot began, no request lies after the slot's
  end, the slot is at most one block long and ends at a multiple of the block.\<close>

theorem slot_counts:
  assumes "0 < b" and "0 < t" and "sorted (t # ts)"
  shows "case fold bump (t # ts) (averager_init b) of a \<Rightarrow>
    av_request a = int (length (filter (\<lambda>x. av_restartedOn a \<le> x) (t # ts))) \<and>
    (\<forall>x\<in>set (t # ts). x \<le> av_resetAfter a) \<and> av_restartedOn a \<in> set (t # ts) \<and>
    av_restartedOn a < av_resetAfter a \<and> av_resetAfter a \<le> av_restartedOn a + b \<and> b dvd av_resetAfter a"
proof -
  define a where "a = fold bump (t # ts) (averager_init b)"
  have "slot_ok (t # ts) a" "av_blockSize a = b" using slot_ok_run [OF assms] by (simp_all only: a_def)
  then show ?thesis unfolding a_def [symmetric] by (auto simp: slot_ok_def)
qed

theorem slot_counts_witness:
  "av_request (fold bump [59, 60, 61, 62] (averager_init 60)) = 2"
  using slot_counts [of 60 59 "[60, 61, 62]"] by (simp add: bump_def averager_init_def av_restart_def Let_def)

text \<open>The state of a thread is read whatever its name: the name may hold spaces and parentheses, and
  the fields after it are those the kernel wrote.\<close>

theorem thread_stat_read:
  assumes "0 < tid" and "CHR ''('' \<notin> set pre" and "37 \<le> length fs"
    and "\<forall>f\<in>set fs. f \<noteq> [] \<and> (\<forall>c\<in>set f. \<not> isWs c \<and> c \<noteq> CHR '')'')"
  shows "\<exists>k. threadKernel tid (pre @ CHR ''('' # comm @ CHR '')'' # CHR '' '' # join_with '' '' fs @ [CHR 0x0A]) sched = Some k \<and>
    tk_comm k = comm \<and> tk_state k = hd (fs ! 0) \<and> tk_core k = toI64 (fs ! 36)"
proof -
  let ?rest = "CHR '' '' # join_with '' '' fs @ [CHR 0x0A]"
  let ?s = "pre @ CHR ''('' # comm @ CHR '')'' # ?rest"
  have o: "find_sub ''('' (pre @ CHR ''('' # x) = Some (length pre)" for x
    using assms(2) by (induction pre) auto
  have "set (join_with '' '' fs) \<subseteq> insert (CHR '' '') (\<Union>f\<in>set fs. set f)"
    by (induction "'' ''" fs rule: join_with.induct) auto
  then have n: "CHR '')'' \<notin> set ?rest" using assms(4) by auto
  have c: "after_last (CHR '')'') ?s = Some ?rest"
    using after_last_append [OF n, of "pre @ CHR ''('' # comm"] by simp
  have w: "splitWs ?rest = fs"
    using assms(4) splitWs_join [of fs "[CHR 0x0A]"] by (simp add: splitWs_skip isWs_def)
  show ?thesis using assms(1,3) o c w by (simp add: threadKernel_def Let_def)
qed

theorem thread_stat_read_witness:
  "\<exists>k. threadKernel 7 (''7 '' @ CHR ''('' # ''a) (b'' @ CHR '')'' # CHR '' '' # join_with '' '' (replicate 37 ''S'') @ [CHR 0x0A]) [] = Some k \<and>
     tk_comm k = ''a) (b''"
  using thread_stat_read [of 7 "''7 ''" "replicate 37 ''S''" "''a) (b''" "[]"] by (simp add: isWs_def) blast

text \<open>The timer of a request adds up its intervals, but a second pause without a start in between counts
  the whole time since the start again.\<close>

theorem timer_adds_up:
  "nsecsElapsed now (timed is elapsed_init) = (\<Sum>(a, b)\<leftarrow>is. b - a) \<and>
   nsecsElapsed now (fst (elapsed_pause c (fst (elapsed_pause b (elapsed_start a elapsed_init))))) = (b - a) + (c - a)"
  using timed_total [of now "is" elapsed_init]
  by (auto simp: elapsed_init_def nsecsElapsed_def elapsed_pause_def elapsed_start_def)

text \<open>Grouping a number in threes loses nothing.\<close>

theorem grouped_roundtrip:
  "ungroup (grouped v) = show_nat v \<and> read_nat (ungroup (grouped v)) = v"
proof -
  have "CHR ''&'' \<notin> set (show_nat v)" using show_nat_digits [of "CHR ''&''" v] by (auto simp: is_digit_def)
  then show ?thesis by (simp add: grouped_def ungroup_group)
qed

text \<open>The percentiles are values of the sample and in order.\<close>

theorem percentiles_ordered:
  assumes "xs \<noteq> []" and "at 50 (length xs - 1) \<le> at 90 (length xs - 1)"
    and "at 90 (length xs - 1) \<le> at 99 (length xs - 1)" and "at 99 (length xs - 1) \<le> length xs - 1"
  shows "\<exists>p. percentiles at xs = Some p \<and> p50 p \<le> p90 p \<and> p90 p \<le> p99 p \<and> p99 p \<le> pmax p \<and>
    {p50 p, p90 p, p99 p, pmax p} \<subseteq> set xs \<and> (\<forall>x\<in>set xs. x \<le> pmax p)"
proof -
  let ?v = "sort xs" and ?n = "length xs - 1"
  have i: "at 99 ?n < length ?v" "at 90 ?n < length ?v" "at 50 ?n < length ?v" "?n < length ?v"
    using assms by (cases xs; simp)+
  have l: "last ?v = ?v ! ?n" using assms(1) by (simp add: last_conv_nth flip: length_greater_0_conv)
  have "x \<le> last ?v" if "x \<in> set xs" for x
    using that sorted_sort [of xs] by (metis l length_sort i(4) in_set_conv_nth set_sort Suc_pred' assms(1)
      less_Suc_eq_le length_greater_0_conv sorted_iff_nth_mono)
  moreover have "{?v ! at 50 ?n, ?v ! at 90 ?n, ?v ! at 99 ?n, last ?v} \<subseteq> set ?v"
    using i nth_mem [of _ ?v] by (simp add: l)
  moreover have "?v ! at 50 ?n \<le> ?v ! at 90 ?n" "?v ! at 90 ?n \<le> ?v ! at 99 ?n" "?v ! at 99 ?n \<le> last ?v"
    using assms i unfolding l by (auto intro!: sorted_nth_mono)
  ultimately show ?thesis using assms(1) by (simp add: percentiles_def Let_def)
qed

theorem percentiles_ordered_witness:
  "\<exists>p. percentiles (\<lambda>q n. q * n div 100) [3, 1, 2 :: nat] = Some p \<and> p50 p \<le> p90 p"
  using percentiles_ordered [of "[3, 1, 2 :: nat]" "\<lambda>q n. q * n div 100"] by auto

text \<open>A request gives its worker back and is counted in every slot; but a slot's times are those of the
  last request that ended, not sums.\<close>

theorem request_counted:
  assumes "requestEnd t2 st (requestBeging now t1 (l, w)) = (l', w')" and "t1 \<le> t2"
  shows "ld_free l' = ld_free l \<and> ld_request l' = (ld_request l + 1) mod 2 ^ 32 \<and> wk_state w' = Idle \<and>
    map av_request (ld_slots l') = map (av_request \<circ> bump now) (ld_slots l) \<and>
    (\<forall>a\<in>set (ld_slots l'). at_total (av_timing a) = t2 - t1 \<and> at_sqlDone (av_timing a) = db_done st)"
  using assms
  by (auto simp: requestEnd_def requestBeging_def timing_reset_def elapsed_start_def elapsed_init_def
      elapsed_pause_def syncFromDk_S7Db_def timing_total_def nsecsElapsed_def Let_def)

theorem request_counted_witness:
  "ld_free (fst (requestEnd 9 \<lparr>db_fetch = 0, db_server = 0, db_done = 3, db_reconnect = 0\<rparr>
     (requestBeging 100 2 (load_init 4, \<lparr>wk_state = Idle, wk_time = timing_reset 0\<rparr>)))) = 4"
proof -
  obtain l' w' where r: "requestEnd 9 \<lparr>db_fetch = 0, db_server = 0, db_done = 3, db_reconnect = 0\<rparr>
     (requestBeging 100 2 (load_init 4, \<lparr>wk_state = Idle, wk_time = timing_reset 0\<rparr>)) = (l', w')" by fastforce
  show ?thesis using request_counted [OF r] r by (simp add: load_init_def)
qed

end
