(* ===== verification/CheckSchema.thy ===== *)
theory CheckSchema
  imports MapExt FileFunction SqlComposer SqlQuery
begin

text \<open>
  \<^verbatim>\<open>minMysql/checkschema.cpp\<close>: the schema and the reference data of tables, saved on the developer's
  machine and compared with the database of each machine at start. A row (\<open>sqlRow\<close>, a \<open>QMapV2\<close>) is
  a map from column names to values, and a result is a list of rows.

  The database is the parameter \<open>cl_query\<close>, with the exception of a failed query on the left;
  \<^verbatim>\<open>QDataStream\<close>'s coding of results and schemas, \<^verbatim>\<open>DB::escape\<close> and Qt's \<^verbatim>\<open>toULongLong\<close> are
  parameters too. A message for the log is a \<open>report\<close> that carries what the message says, with the
  SQL of the proposed fix when the message has one.
\<close>

subsection \<open>Data\<close>

type_synonym sqlRow = "(string, string) omap"

datatype db_table = DbTable (dt_database: string) (dt_table: string)

text \<open>The defaulted \<^verbatim>\<open>operator<=>\<close> of the key: member by member. It is the order of the type.\<close>

definition table_key_le :: "db_table \<Rightarrow> db_table \<Rightarrow> bool" where
  "table_key_le a b \<longleftrightarrow> dt_database a < dt_database b \<or> (dt_database a = dt_database b \<and> dt_table a \<le> dt_table b)"

definition table_key_less :: "db_table \<Rightarrow> db_table \<Rightarrow> bool" where
  "table_key_less a b \<longleftrightarrow> dt_database a < dt_database b \<or> (dt_database a = dt_database b \<and> dt_table a < dt_table b)"

instantiation db_table :: linorder
begin

definition less_eq_db_table :: "db_table \<Rightarrow> db_table \<Rightarrow> bool" where
  "less_eq_db_table a b \<longleftrightarrow> table_key_le a b"

definition less_db_table :: "db_table \<Rightarrow> db_table \<Rightarrow> bool" where
  "less_db_table a b \<longleftrightarrow> table_key_less a b"

instance
  by standard (auto simp: less_eq_db_table_def less_db_table_def table_key_le_def table_key_less_def intro: db_table.expand)

end

type_synonym schemas = "(db_table, sqlRow list) omap"

record table_data =
  td_sql :: string
  td_name :: string
  td_pk :: string

datatype origin = MachineDb | DiskData | RefreshDb

record check_lib =
  cl_esc :: "string \<Rightarrow> string"
  cl_query :: "string \<Rightarrow> string + sqlRow list"
  cl_encode :: "sqlRow list \<Rightarrow> string"
  cl_decode :: "string \<Rightarrow> sqlRow list option"
  cl_encodeSchemas :: "schemas \<Rightarrow> string"
  cl_decodeSchemas :: "string \<Rightarrow> schemas option"
  cl_toULongLong :: "string \<Rightarrow> int option"

text \<open>\<open>rq\<close> and \<open>get\<close> of a \<open>QMapV2\<close> without a default.\<close>

definition row_rq :: "sqlRow \<Rightarrow> string \<Rightarrow> string + string" where
  "row_rq r k =
     (case map_of r k of
        Some v \<Rightarrow> Inr v
      | None \<Rightarrow> Inl (''no key > '' @ k @ '' < and missing default value, what should I do ?''))"

text \<open>The value of a non-constant \<open>operator[]\<close>, which inserts an empty value for a new key.\<close>

definition row_at :: "sqlRow \<Rightarrow> string \<Rightarrow> string" where
  "row_at r k = (case map_of r k of Some v \<Rightarrow> v | None \<Rightarrow> [])"

definition trimmed :: "string \<Rightarrow> string" where
  "trimmed = trim_by q_space"

subsection \<open>Reports\<close>

datatype report =
    NoKeyColumn origin
  | KeyBlanks string string "string option"
  | KeyRepeated string
  | TailBlanks string string nat "string option"
  | RowMissing string
  | CellDiffers string string "string option"
  | ColumnMissing string
  | NoReference
  | CorruptReference string
  | QueryFailed string

definition update_sql :: "check_lib \<Rightarrow> string \<Rightarrow> string \<Rightarrow> string \<Rightarrow> string \<Rightarrow> string \<Rightarrow> string" where
  "update_sql L table col val pk key =
     ''UPDATE '' @ table @ '' SET '' @ cl_esc L col @ '' = '' @ [CHR 0x22] @ cl_esc L val @ [CHR 0x22]
       @ '' WHERE '' @ cl_esc L pk @ '' = '' @ [CHR 0x22] @ cl_esc L key @ [CHR 0x22] @ '';'' @ [CHR 0x0A]"

definition update_lines :: "check_lib \<Rightarrow> string \<Rightarrow> string \<Rightarrow> string \<Rightarrow> string \<Rightarrow> string \<Rightarrow> string" where
  "update_lines L table col val pk key =
     ''UPDATE '' @ table @ [CHR 0x0A] @ ''SET '' @ cl_esc L col @ '' = '' @ [CHR 0x22] @ cl_esc L val @ [CHR 0x22]
       @ [CHR 0x0A] @ ''WHERE '' @ cl_esc L pk @ '' = '' @ [CHR 0x22] @ cl_esc L key @ [CHR 0x22] @ [CHR 0x0A]
       @ '';'' @ [CHR 0x0A]"

subsection \<open>White space and keys\<close>

text \<open>\<open>trailingBlanks\<close>: the spaces and tabs at the end of a value; the placeholder has none.\<close>

definition placeholders :: "string list" where
  "placeholders = ['' - '']"

definition trailingBlanks :: "string \<Rightarrow> nat" where
  "trailingBlanks v =
     (if v \<in> set placeholders then 0
      else length (takeWhile (\<lambda>c. c = CHR '' '' \<or> c = CHR 0x09) (rev v)))"

definition hasKeyColumn :: "sqlRow list \<Rightarrow> table_data \<Rightarrow> bool" where
  "hasKeyColumn raw t = (case raw of [] \<Rightarrow> True | r # _ \<Rightarrow> map_of r (td_pk t) \<noteq> None)"

definition key_reports :: "check_lib \<Rightarrow> table_data \<Rightarrow> origin \<Rightarrow> string list \<Rightarrow> string \<Rightarrow> report list" where
  "key_reports L t org seen key =
     (if trimmed key \<noteq> key
      then [KeyBlanks key (trimmed key)
              (if org \<noteq> DiskData then Some (update_sql L (td_name t) (td_pk t) (trimmed key) (td_pk t) key) else None)]
      else [])
     @ (if trimmed key \<in> set seen then [KeyRepeated (trimmed key)] else [])"

definition tail_reports :: "check_lib \<Rightarrow> table_data \<Rightarrow> origin \<Rightarrow> string \<Rightarrow> sqlRow \<Rightarrow> report list" where
  "tail_reports L t org key r =
     (if org = MachineDb then []
      else concat (map (\<lambda>(col, v).
             if col = td_pk t \<or> trailingBlanks v = 0 then []
             else [TailBlanks col (trimmed key) (trailingBlanks v)
                     (if org = RefreshDb \<and> \<not> length v > 255
                      then Some (update_sql L (td_name t) col (take (length v - trailingBlanks v) v) (td_pk t) key)
                      else None)]) r))"

fun check_rows :: "check_lib \<Rightarrow> table_data \<Rightarrow> origin \<Rightarrow> string list \<Rightarrow> sqlRow list \<Rightarrow> string + bool \<times> report list" where
  "check_rows L t org seen [] = Inr (True, [])"
| "check_rows L t org seen (r # rs) =
     ebind (row_rq r (td_pk t)) (\<lambda>key.
     ebind (check_rows L t org (trimmed key # seen) rs) (\<lambda>(clean, reps).
       Inr (trimmed key = key \<and> trimmed key \<notin> set seen \<and> clean,
            key_reports L t org seen key @ tail_reports L t org key r @ reps)))"

definition checkWhitespace :: "check_lib \<Rightarrow> sqlRow list \<Rightarrow> table_data \<Rightarrow> origin \<Rightarrow> string + bool \<times> report list" where
  "checkWhitespace L raw t org = check_rows L t org [] raw"

fun reMap_rows :: "string \<Rightarrow> sqlRow list \<Rightarrow> (string, sqlRow) omap \<Rightarrow> string + (string, sqlRow) omap" where
  "reMap_rows pk [] m = Inr m"
| "reMap_rows pk (r # rs) m = ebind (row_rq r pk) (\<lambda>key. reMap_rows pk rs (map_assign (trimmed key) r m))"

definition reMap :: "sqlRow list \<Rightarrow> string \<Rightarrow> string + (string, sqlRow) omap" where
  "reMap raw pk = reMap_rows pk raw []"


subsection \<open>The check of the reference data\<close>

text \<open>One row of the reference with its row in the database: whether every column agrees, the reports
  and the columns the database does not have.\<close>

fun compare_cells :: "check_lib \<Rightarrow> table_data \<Rightarrow> string \<Rightarrow> string \<Rightarrow> sqlRow \<Rightarrow> sqlRow \<Rightarrow> bool \<times> report list \<times> string list" where
  "compare_cells L t pk dbKey dbRow [] = (True, [], [])"
| "compare_cells L t pk dbKey dbRow ((col, vDisk) # cells) =
     (case compare_cells L t pk dbKey dbRow cells of (same, reps, missing) \<Rightarrow>
        if col = td_pk t then (same, reps, missing)
        else case map_of dbRow col of
          None \<Rightarrow> (False, reps, col # missing)
        | Some vRow \<Rightarrow>
            if vRow \<noteq> vDisk
            then (False,
                  CellDiffers col pk
                    (if trailingBlanks vDisk \<noteq> 0 then None
                     else Some (update_lines L (td_name t) col vDisk (td_pk t) dbKey)) # reps,
                  missing)
            else (same, reps, missing))"

fun compare_rows :: "check_lib \<Rightarrow> table_data \<Rightarrow> (string, sqlRow) omap \<Rightarrow> (string, sqlRow) omap
  \<Rightarrow> string + bool \<times> report list \<times> string list" where
  "compare_rows L t dbData [] = Inr (True, [], [])"
| "compare_rows L t dbData ((pk, diskRow) # rest) =
     ebind
       (case map_of dbData pk of
          None \<Rightarrow> Inr (False, [RowMissing pk], [])
        | Some dbRow \<Rightarrow>
            ebind (row_rq dbRow (td_pk t)) (\<lambda>dbKey. Inr (compare_cells L t pk dbKey dbRow diskRow)))
       (\<lambda>(same, reps, missing).
     ebind (compare_rows L t dbData rest) (\<lambda>(same', reps', missing').
       Inr (same \<and> same', reps @ reps', missing @ missing')))"

text \<open>The body of the loop from the two results on; \<open>missingCols\<close> is a \<^verbatim>\<open>std::set\<close>, printed in order.\<close>

definition compare_data :: "check_lib \<Rightarrow> table_data \<Rightarrow> sqlRow list \<Rightarrow> sqlRow list \<Rightarrow> string + bool \<times> report list" where
  "compare_data L t dbRaw diskRaw =
     (if \<not> hasKeyColumn dbRaw t then Inr (False, [NoKeyColumn MachineDb])
      else if \<not> hasKeyColumn diskRaw t then Inr (False, [NoKeyColumn DiskData])
      else
        ebind (checkWhitespace L dbRaw t MachineDb) (\<lambda>(cleanDb, reps1).
        ebind (checkWhitespace L diskRaw t DiskData) (\<lambda>(cleanDisk, reps2).
        ebind (reMap dbRaw (td_pk t)) (\<lambda>dbData.
        ebind (reMap diskRaw (td_pk t)) (\<lambda>diskData.
        ebind (compare_rows L t dbData diskData) (\<lambda>(same, reps3, missing).
          Inr (cleanDb \<and> cleanDisk \<and> same,
               reps1 @ reps2 @ reps3 @ map ColumnMissing (remdups (sort missing)))))))))"

definition inner_path :: "string \<Rightarrow> string" where
  "inner_path name = '':/db/'' @ name"

definition dynamic_path :: "string \<Rightarrow> string \<Rightarrow> string" where
  "dynamic_path base name = base @ ''/db/'' @ name"

text \<open>The query and the body's use of its result; the exception of the query alone is caught.\<close>

definition check_table :: "check_lib \<Rightarrow> string \<Rightarrow> disk \<Rightarrow> int \<Rightarrow> table_data \<Rightarrow> string + bool \<times> report list" where
  "check_table L base d now t =
     ebind (innerOrDynamic d now (inner_path (td_name t)) (dynamic_path base (td_name t)) True) (\<lambda>file.
       if fr_type file = file_source.Missing then Inr (True, [NoReference])
       else case cl_decode L (fr_content file) of
         None \<Rightarrow> Inr (False, [CorruptReference (fr_path file)])
       | Some diskRaw \<Rightarrow>
           (case cl_query L (td_sql t) of
              Inl e \<Rightarrow> Inr (False, [QueryFailed e])
            | Inr dbRaw \<Rightarrow> compare_data L t dbRaw diskRaw))"

fun checkTableData :: "check_lib \<Rightarrow> string \<Rightarrow> disk \<Rightarrow> int \<Rightarrow> table_data list
  \<Rightarrow> string + bool \<times> (string \<times> report list) list" where
  "checkTableData L base d now [] = Inr (True, [])"
| "checkTableData L base d now (t # ts) =
     ebind (check_table L base d now t) (\<lambda>(good, reps).
     ebind (checkTableData L base d now ts) (\<lambda>(good', reps').
       Inr (good \<and> good', (td_name t, reps) # reps')))"

subsection \<open>Saving the reference data\<close>

text \<open>The first loop: every query, and whether all keys are sound. A failed query ends the function
  with its exception.\<close>

definition save_check :: "check_lib \<Rightarrow> table_data \<Rightarrow> sqlRow list \<Rightarrow> string + bool \<times> report list" where
  "save_check L t res =
     (if \<not> hasKeyColumn res t then Inr (False, [NoKeyColumn RefreshDb]) else checkWhitespace L res t RefreshDb)"

fun save_collect :: "check_lib \<Rightarrow> table_data list \<Rightarrow> string + bool \<times> sqlRow list list \<times> report list" where
  "save_collect L [] = Inr (True, [], [])"
| "save_collect L (t # ts) =
     ebind (cl_query L (td_sql t)) (\<lambda>res.
     ebind (save_check L t res) (\<lambda>(good, reps).
     ebind (save_collect L ts) (\<lambda>(good', results, reps').
       Inr (good \<and> good', res # results, reps @ reps'))))"

text \<open>A \<^verbatim>\<open>QSaveFile\<close> that could not be opened, or whose write failed, commits nothing; the result of
  \<open>commit\<close> is not looked at.\<close>

definition save_file :: "write_io \<Rightarrow> int \<Rightarrow> string \<Rightarrow> string \<Rightarrow> disk \<Rightarrow> disk" where
  "save_file io now pay name d =
     (if wr_open io \<and> wr_written io = length pay \<and> wr_commit io then stored now pay name d else d)"

fun save_tables :: "check_lib \<Rightarrow> string \<Rightarrow> (string \<Rightarrow> write_io) \<Rightarrow> int \<Rightarrow> (table_data \<times> sqlRow list) list \<Rightarrow> disk \<Rightarrow> disk" where
  "save_tables L base io now [] d = d"
| "save_tables L base io now ((t, res) # rest) d =
     save_tables L base io now rest
       (save_file (io (dynamic_path base (td_name t))) now (cl_encode L res) (dynamic_path base (td_name t)) d)"

definition saveTableData :: "check_lib \<Rightarrow> string \<Rightarrow> (string \<Rightarrow> write_io) \<Rightarrow> int \<Rightarrow> table_data list \<Rightarrow> disk
  \<Rightarrow> string + (bool \<times> report list) \<times> disk" where
  "saveTableData L base io now td d =
     ebind (save_collect L td) (\<lambda>(good, results, reps).
       if \<not> good then Inr ((False, reps), d)
       else Inr ((True, reps), save_tables L base io now (zip td results) d))"



subsection \<open>The schema\<close>

text \<open>The three queries of one database: its tables, its views and its columns.\<close>

definition tables_sql :: "string \<Rightarrow> string" where
  "tables_sql dbName = ''SELECT * FROM information_schema.`TABLES` WHERE `TABLE_SCHEMA` = '' @ [CHR 0x27] @ dbName @ [CHR 0x27]"

definition views_sql :: "string \<Rightarrow> string" where
  "views_sql dbName =
     [CHR 0x0A] @ ''SELECT TABLE_NAME,VIEW_DEFINITION,ALGORITHM'' @ [CHR 0x0A]
     @ ''FROM information_schema.VIEWS'' @ [CHR 0x0A] @ ''WHERE table_schema='' @ [CHR 0x27] @ dbName @ [CHR 0x27]"

definition schema_columns :: "string list" where
  "schema_columns = [
    ''TABLE_CATALOG'', ''TABLE_SCHEMA'', ''TABLE_NAME'', ''COLUMN_NAME'', ''ORDINAL_POSITION'',
    ''COLUMN_DEFAULT'', ''IS_NULLABLE'', ''DATA_TYPE'', ''CHARACTER_MAXIMUM_LENGTH'',
    ''CHARACTER_OCTET_LENGTH'', ''NUMERIC_PRECISION'', ''NUMERIC_SCALE'', ''DATETIME_PRECISION'',
    ''CHARACTER_SET_NAME'', ''COLLATION_NAME'', ''COLUMN_TYPE'', ''COLUMN_KEY'', ''EXTRA'',
    ''COLUMN_COMMENT'', ''IS_GENERATED'', ''GENERATION_EXPRESSION'']"

definition columns_sql :: "string \<Rightarrow> string" where
  "columns_sql dbName =
     [CHR 0x0A] @ ''SELECT'' @ [CHR 0x0A, CHR 0x09] @ hd schema_columns
     @ concat (map (\<lambda>c. [CHR 0x0A, CHR 0x09] @ '','' @ c) (tl schema_columns)) @ [CHR 0x0A]
     @ ''FROM information_schema.columns '' @ [CHR 0x0A]
     @ ''WHERE table_schema='' @ [CHR 0x27] @ dbName @ [CHR 0x27] @ [CHR 0x0A]
     @ ''ORDER BY `ORDINAL_POSITION` ASC''"

fun check_types :: "string \<Rightarrow> sqlRow list \<Rightarrow> string + unit" where
  "check_types dbName [] = Inr ()"
| "check_types dbName (r # rs) =
     ebind (row_rq r ''TABLE_NAME'') (\<lambda>tableName.
     ebind (row_rq r ''TABLE_TYPE'') (\<lambda>type.
       if type \<noteq> ''BASE TABLE'' \<and> type \<noteq> ''VIEW''
       then Inl (''Unhandled table type '' @ type @ '' in '' @ dbName)
       else check_types dbName rs))"

definition full_name :: "string \<Rightarrow> string \<Rightarrow> string" where
  "full_name dbName tableName = dbName @ ''.'' @ tableName"

fun add_views :: "string \<Rightarrow> sqlRow list \<Rightarrow> string list \<Rightarrow> string + string list" where
  "add_views dbName [] views = Inr views"
| "add_views dbName (r # rs) views =
     ebind (row_rq r ''TABLE_NAME'') (\<lambda>tableName. add_views dbName rs (views @ [full_name dbName tableName]))"

definition push_schema :: "db_table \<Rightarrow> sqlRow \<Rightarrow> schemas \<Rightarrow> schemas" where
  "push_schema k r s = map_assign k ((case map_of s k of Some rs \<Rightarrow> rs | None \<Rightarrow> []) @ [r]) s"

fun add_columns :: "string \<Rightarrow> string list \<Rightarrow> sqlRow list \<Rightarrow> schemas \<Rightarrow> string + schemas" where
  "add_columns dbName views [] s = Inr s"
| "add_columns dbName views (r # rs) s =
     ebind (row_rq r ''TABLE_NAME'') (\<lambda>tableName.
       add_columns dbName views rs
         (push_schema (DbTable dbName tableName)
            (map_assign ''isView'' (if full_name dbName tableName \<in> set views then ''1'' else ''0'') r) s))"

fun read_databases :: "check_lib \<Rightarrow> string list \<Rightarrow> string list \<Rightarrow> schemas \<Rightarrow> string + schemas" where
  "read_databases L [] views s = Inr s"
| "read_databases L (dbName # dbs) views s =
     ebind (cl_query L (tables_sql dbName)) (\<lambda>tables.
     ebind (check_types dbName tables) (\<lambda>_.
     ebind (cl_query L (views_sql dbName)) (\<lambda>viewRows.
     ebind (add_views dbName viewRows views) (\<lambda>views'.
     ebind (cl_query L (columns_sql dbName)) (\<lambda>columns.
     ebind (add_columns dbName views' columns s) (\<lambda>s'.
       read_databases L dbs views' s'))))))"

definition getDbSchema :: "check_lib \<Rightarrow> string list \<Rightarrow> string + schemas" where
  "getDbSchema L databases = read_databases L databases [] []"

definition schema_path :: "string \<Rightarrow> string" where
  "schema_path base = base @ ''/db/schema''"

definition saveSchema :: "check_lib \<Rightarrow> string \<Rightarrow> bool \<Rightarrow> write_io \<Rightarrow> int \<Rightarrow> string list \<Rightarrow> disk \<Rightarrow> string + disk" where
  "saveSchema L base mkdirOk io now databases d =
     (if \<not> mkdirOk then Inl (''impossible creare la cartella!'' @ base @ ''/db'')
      else if \<not> wr_open io then Inl (''impossible to save schema: '' @ wr_error io @ '' in '' @ schema_path base)
      else ebind (getDbSchema L databases) (\<lambda>s. Inr (save_file io now (cl_encodeSchemas L s) (schema_path base) d)))"

text \<open>The schema of the file or, without a readable file, the one in the binary (empty when the build
  had none). An exception is \<open>Thrown\<close>; the process ends with \<open>Aborted\<close> when there is no schema or
  it does not decode.\<close>

datatype failure = Thrown string | Aborted

definition lift_error :: "string + 'a \<Rightarrow> failure + 'a" where
  "lift_error m = (case m of Inl e \<Rightarrow> Inl (Thrown e) | Inr x \<Rightarrow> Inr x)"

definition loadSchemaInner :: "string \<Rightarrow> string \<Rightarrow> disk \<Rightarrow> int \<Rightarrow> string + string" where
  "loadSchemaInner embedded base d now =
     ebind (fileGetContents2 d now (schema_path base) 0) (\<lambda>res.
       Inr (if fg_exist res then fg_content res else embedded))"

definition loadSchema :: "check_lib \<Rightarrow> string \<Rightarrow> string \<Rightarrow> disk \<Rightarrow> int \<Rightarrow> failure + schemas" where
  "loadSchema L embedded base d now =
     (case loadSchemaInner embedded base d now of
        Inl e \<Rightarrow> Inl (Thrown e)
      | Inr schema \<Rightarrow>
          if schema = [] then Inl Aborted
          else case cl_decodeSchemas L schema of None \<Rightarrow> Inl Aborted | Some m \<Rightarrow> Inr m)"

subsection \<open>The check of the schema\<close>

datatype schema_report =
    LinesDiffer db_table "(string \<times> string) list"
  | ColumnDiffers db_table string "(string \<times> string \<times> string) list"
  | UnknownTables "db_table list"

text \<open>\<open>value(i).value(key, default)\<close>: a row past the end is empty, and \<open>QMap::value\<close> gives the default
  for a column the row does not have.\<close>

definition column_name :: "sqlRow list \<Rightarrow> nat \<Rightarrow> string" where
  "column_name rows i =
     (case map_of (if i < length rows then rows ! i else []) ''COLUMN_NAME'' of
        Some v \<Rightarrow> v | None \<Rightarrow> ''***NOTHING***'')"

text \<open>The name a report gives a row: \<open>getIfNotNull\<close> of the table's name and then of the column's, which
  keeps the name it has when the value is absent or \<open>NULL\<close> in any case of letters.\<close>

definition ascii_upper :: "char \<Rightarrow> char" where
  "ascii_upper c = (if 97 \<le> (of_char c :: nat) \<and> (of_char c :: nat) \<le> 122 then char_of ((of_char c :: nat) - 32) else c)"

definition getIfNotNull :: "string \<Rightarrow> sqlRow \<Rightarrow> string \<Rightarrow> string" where
  "getIfNotNull key r dest =
     (case map_of r key of None \<Rightarrow> dest | Some v \<Rightarrow> if map ascii_upper v = S_NULL then dest else v)"

definition row_label :: "sqlRow \<Rightarrow> string" where
  "row_label r = getIfNotNull ''COLUMN_NAME'' r (getIfNotNull ''TABLE_NAME'' r [])"

text \<open>The names of the columns side by side, for the log.\<close>

definition side_by_side :: "sqlRow list \<Rightarrow> sqlRow list \<Rightarrow> (string \<times> string) list" where
  "side_by_side disk db =
     map (\<lambda>i. (column_name disk i, column_name db i)) [0..<max (length disk) (length db)]"

definition skipMe :: "string list" where
  "skipMe = [''COLUMN_DEFAULT'', ''IS_NULLABLE'']"

definition is_view :: "check_lib \<Rightarrow> sqlRow \<Rightarrow> string + bool" where
  "is_view L r =
     ebind (row_rq r ''isView'') (\<lambda>v.
     ebind (swap_unsigned_bytes (cl_toULongLong L) 8 ''unsigned char'' v) (\<lambda>n. Inr (n \<noteq> 0)))"

definition diff_line :: "bool \<Rightarrow> sqlRow \<Rightarrow> sqlRow \<Rightarrow> (string \<times> string \<times> string) list" where
  "diff_line view diskLine dbLine =
     concat (map (\<lambda>(p, v).
       if view \<and> p \<in> set skipMe then [] else if v = row_at dbLine p then [] else [(p, v, row_at dbLine p)]) diskLine)"

fun diff_lines :: "check_lib \<Rightarrow> db_table \<Rightarrow> sqlRow list \<Rightarrow> sqlRow list \<Rightarrow> string + bool \<times> schema_report list" where
  "diff_lines L t (ds # disk) (bs # db) =
     ebind (is_view L bs) (\<lambda>view.
     ebind (diff_lines L t disk db) (\<lambda>(dirty, reps).
       Inr (diff_line view ds bs \<noteq> [] \<or> dirty,
            (if diff_line view ds bs \<noteq> [] then [ColumnDiffers t (row_label ds) (diff_line view ds bs)] else []) @ reps)))"
| "diff_lines L t _ _ = Inr (False, [])"

text \<open>One table of the database with the entry taken from the saved schema, empty when there was none.\<close>

definition check_schema_table :: "check_lib \<Rightarrow> db_table \<Rightarrow> sqlRow list \<Rightarrow> sqlRow list \<Rightarrow> string + bool \<times> schema_report list" where
  "check_schema_table L t disk db =
     (if disk = db then Inr (False, [])
      else if length disk \<noteq> length db then Inr (True, [LinesDiffer t (side_by_side disk db)])
      else diff_lines L t disk db)"

fun check_schemas :: "check_lib \<Rightarrow> schemas \<Rightarrow> schemas \<Rightarrow> string + bool \<times> schema_report list" where
  "check_schemas L disk [] =
     Inr (disk \<noteq> [], if disk \<noteq> [] then [UnknownTables (map fst disk)] else [])"
| "check_schemas L disk ((t, db) # rest) =
     ebind (check_schema_table L t (case map_of disk t of Some rs \<Rightarrow> rs | None \<Rightarrow> []) db) (\<lambda>(dirty, reps).
     ebind (check_schemas L (map_erase t disk) rest) (\<lambda>(dirty', reps').
       Inr (dirty \<or> dirty', reps @ reps')))"

definition checkDbSchema :: "check_lib \<Rightarrow> string \<Rightarrow> string \<Rightarrow> disk \<Rightarrow> int \<Rightarrow> string list
  \<Rightarrow> failure + bool \<times> schema_report list" where
  "checkDbSchema L embedded base d now databases =
     (case loadSchema L embedded base d now of
        Inl e \<Rightarrow> Inl e
      | Inr disk \<Rightarrow>
          lift_error (ebind (getDbSchema L databases) (\<lambda>db.
            ebind (check_schemas L disk db) (\<lambda>(dirty, reps). Inr (\<not> dirty, reps)))))"


subsection \<open>Keys\<close>

lemma ebind_Inr_iff: "ebind m f = Inr y \<longleftrightarrow> (\<exists>x. m = Inr x \<and> f x = Inr y)"
  by (cases m) auto

lemma row_rq_Inr [simp]: "row_rq r k = Inr v \<longleftrightarrow> map_of r k = Some v"
  by (simp add: row_rq_def split: option.split)

lemma row_at_Some [simp]: "map_of r k = Some v \<Longrightarrow> row_at r k = v"
  by (simp add: row_at_def)

lemma map_wf_distinct: "map_wf m \<Longrightarrow> distinct (map fst m)"
  by (simp add: map_wf_def strict_sorted_iff)

lemma map_wf_entry: "map_wf m \<Longrightarrow> (k, v) \<in> set m \<longleftrightarrow> map_of m k = Some v"
  by (simp add: map_wf_distinct)

text \<open>Every row has the key column, no key has white space around it, and no two rows have one key.\<close>

definition sound_keys :: "string \<Rightarrow> sqlRow list \<Rightarrow> bool" where
  "sound_keys pk rows \<longleftrightarrow>
     list_all (\<lambda>r. map_of r pk \<noteq> None \<and> trimmed (row_at r pk) = row_at r pk) rows
     \<and> distinct (map (\<lambda>r. row_at r pk) rows)"

lemma sound_keys_trimmed:
  "sound_keys pk rows \<longleftrightarrow>
     (\<forall>r\<in>set rows. map_of r pk \<noteq> None) \<and> (\<forall>r\<in>set rows. trimmed (row_at r pk) = row_at r pk)
     \<and> distinct (map (\<lambda>r. trimmed (row_at r pk)) rows)"
proof -
  have "map (\<lambda>r. trimmed (row_at r pk)) rows = map (\<lambda>r. row_at r pk) rows"
    if "\<forall>r\<in>set rows. trimmed (row_at r pk) = row_at r pk"
    using that by simp
  then show ?thesis
    unfolding sound_keys_def list_all_iff by (metis (no_types, lifting))
qed

lemma check_rows_result:
  "(\<exists>reps. check_rows L t org seen rows = Inr (b, reps)) \<longleftrightarrow>
     (\<forall>r\<in>set rows. map_of r (td_pk t) \<noteq> None)
     \<and> b = ((\<forall>r\<in>set rows. trimmed (row_at r (td_pk t)) = row_at r (td_pk t) \<and> trimmed (row_at r (td_pk t)) \<notin> set seen)
            \<and> distinct (map (\<lambda>r. trimmed (row_at r (td_pk t))) rows))"
proof (induction rows arbitrary: seen b)
  case Nil
  then show ?case by auto
next
  case (Cons r rs)
  show ?case
  proof (cases "map_of r (td_pk t)")
    case None
    then show ?thesis by (auto simp: row_rq_def)
  next
    case (Some key)
    have "(\<exists>reps. check_rows L t org seen (r # rs) = Inr (b, reps)) \<longleftrightarrow>
        (\<exists>c reps. check_rows L t org (trimmed key # seen) rs = Inr (c, reps)
           \<and> b = (trimmed key = key \<and> trimmed key \<notin> set seen \<and> c))"
      using Some by (auto simp: row_rq_def ebind_Inr_iff)
    also have "\<dots> \<longleftrightarrow> (\<exists>c. (\<exists>reps. check_rows L t org (trimmed key # seen) rs = Inr (c, reps))
           \<and> b = (trimmed key = key \<and> trimmed key \<notin> set seen \<and> c))"
      by blast
    finally show ?thesis
      unfolding Cons.IH using Some by auto
  qed
qed

lemma checkWhitespace_result:
  "checkWhitespace L rows t org = Inr (b, reps) \<Longrightarrow> b \<longleftrightarrow> sound_keys (td_pk t) rows"
  using check_rows_result [of L t org "[]" rows b]
  by (auto simp: checkWhitespace_def sound_keys_trimmed)

lemma checkWhitespace_runs:
  "\<forall>r\<in>set rows. map_of r (td_pk t) \<noteq> None \<Longrightarrow>
     \<exists>reps. checkWhitespace L rows t org = Inr (sound_keys (td_pk t) rows, reps)"
  using check_rows_result [of L t org "[]" rows "sound_keys (td_pk t) rows"]
  by (auto simp: checkWhitespace_def sound_keys_trimmed)

lemma checkWhitespace_keys:
  "checkWhitespace L rows t org = Inr x \<Longrightarrow> r \<in> set rows \<Longrightarrow> map_of r (td_pk t) \<noteq> None"
  using check_rows_result [of L t org "[]" rows "fst x"]
  by (cases x) (auto simp: checkWhitespace_def)

lemma reMap_rows_result:
  "map_wf m \<Longrightarrow> \<forall>r\<in>set rows. map_of r pk \<noteq> None \<Longrightarrow>
     \<exists>m'. reMap_rows pk rows m = Inr m' \<and> map_wf m'
        \<and> map_of m' = map_of m ++ map_of (rev (map (\<lambda>r. (trimmed (row_at r pk), r)) rows))"
proof (induction rows arbitrary: m)
  case Nil
  then show ?case by simp
next
  case (Cons r rs)
  then obtain key where key: "map_of r pk = Some key" by auto
  have "map_wf (map_assign (trimmed key) r m)" using Cons.prems(1) by simp
  have rest: "\<forall>r\<in>set rs. map_of r pk \<noteq> None" using Cons.prems(2) by simp
  obtain m' where m': "reMap_rows pk rs (map_assign (trimmed key) r m) = Inr m'" "map_wf m'"
    "map_of m' = (map_of m)(trimmed key \<mapsto> r) ++ map_of (rev (map (\<lambda>r. (trimmed (row_at r pk), r)) rs))"
    using Cons.IH [OF \<open>map_wf (map_assign (trimmed key) r m)\<close> rest]
    unfolding map_of_assign [OF Cons.prems(1)] by blast
  have "map_of m' = map_of m ++ map_of (rev (map (\<lambda>r. (trimmed (row_at r pk), r)) (r # rs)))"
    using key m'(3) by simp
  with key m'(1,2) show ?case by (simp add: row_rq_def)
qed


lemma reMap_result:
  "\<forall>r\<in>set rows. map_of r pk \<noteq> None \<Longrightarrow>
     \<exists>m. reMap rows pk = Inr m \<and> map_wf m \<and> map_of m = map_of (rev (map (\<lambda>r. (trimmed (row_at r pk), r)) rows))"
  using reMap_rows_result [of "[]" rows pk] by (simp add: reMap_def)

lemma reMap_entry_row:
  assumes "reMap rows pk = Inr m" and "\<forall>r\<in>set rows. map_of r pk \<noteq> None" and "map_of m k = Some r"
  shows "r \<in> set rows \<and> trimmed (row_at r pk) = k"
proof -
  have "map_of (rev (map (\<lambda>r. (trimmed (row_at r pk), r)) rows)) k = Some r"
    using reMap_result [OF assms(2)] assms(1,3) by auto
  from map_of_SomeD [OF this] show ?thesis by auto
qed

text \<open>With sound keys every row is in the map, under its own key.\<close>

lemma reMap_sound:
  assumes "reMap rows pk = Inr m" and "sound_keys pk rows"
  shows "map_wf m" and "map_of m k = Some r \<longleftrightarrow> r \<in> set rows \<and> row_at r pk = k"
proof -
  have keys: "\<forall>r\<in>set rows. map_of r pk \<noteq> None" and same: "\<forall>r\<in>set rows. trimmed (row_at r pk) = row_at r pk"
    and dist: "distinct (map (\<lambda>r. trimmed (row_at r pk)) rows)"
    using assms(2) by (auto simp: sound_keys_trimmed)
  have m: "map_wf m" "map_of m = map_of (rev (map (\<lambda>r. (trimmed (row_at r pk), r)) rows))"
    using reMap_result [OF keys] assms(1) by auto
  show "map_wf m" by (rule m(1))
  have "distinct (map fst (rev (map (\<lambda>r. (trimmed (row_at r pk), r)) rows)))"
    using dist by (simp add: rev_map [symmetric] comp_def)
  then have "map_of m k = Some r \<longleftrightarrow> (k, r) \<in> set (rev (map (\<lambda>r. (trimmed (row_at r pk), r)) rows))"
    unfolding m(2) by (rule map_of_eq_Some_iff)
  with same show "map_of m k = Some r \<longleftrightarrow> r \<in> set rows \<and> row_at r pk = k"
    by (auto simp: image_iff)
qed

subsection \<open>What the check of the reference data decides\<close>

definition cells_agree :: "string \<Rightarrow> sqlRow \<Rightarrow> sqlRow \<Rightarrow> bool" where
  "cells_agree pk diskRow dbRow \<longleftrightarrow> list_all (\<lambda>(c, v). c = pk \<or> map_of dbRow c = Some v) diskRow"

text \<open>The abstract contract: both sides have sound keys, and every row of the reference has a row with
  its key in the database that agrees in every other column of the reference.\<close>

definition data_agrees :: "string \<Rightarrow> sqlRow list \<Rightarrow> sqlRow list \<Rightarrow> bool" where
  "data_agrees pk dbRaw diskRaw \<longleftrightarrow>
     sound_keys pk dbRaw \<and> sound_keys pk diskRaw
     \<and> list_all (\<lambda>ds. list_ex (\<lambda>bs. row_at bs pk = row_at ds pk \<and> cells_agree pk ds bs) dbRaw) diskRaw"

definition table_agrees :: "check_lib \<Rightarrow> string \<Rightarrow> disk \<Rightarrow> int \<Rightarrow> table_data \<Rightarrow> bool" where
  "table_agrees L base d now t \<longleftrightarrow>
     (case innerOrDynamic d now (inner_path (td_name t)) (dynamic_path base (td_name t)) True of
        Inl e \<Rightarrow> False
      | Inr file \<Rightarrow>
          fr_type file = file_source.Missing
          \<or> (case (cl_decode L (fr_content file), cl_query L (td_sql t)) of
               (Some diskRaw, Inr dbRaw) \<Rightarrow> data_agrees (td_pk t) dbRaw diskRaw
             | _ \<Rightarrow> False))"

lemma compare_cells_result: "fst (compare_cells L t pk key dbRow cells) = cells_agree (td_pk t) cells dbRow"
  by (induction L t pk key dbRow cells rule: compare_cells.induct)
    (auto simp: cells_agree_def split: option.splits prod.splits)

lemma compare_rows_result:
  "compare_rows L t dbData diskData = Inr (b, x) \<Longrightarrow>
     b \<longleftrightarrow> (\<forall>(k, ds)\<in>set diskData. \<exists>bs. map_of dbData k = Some bs \<and> cells_agree (td_pk t) ds bs)"
proof (induction diskData arbitrary: b x)
  case Nil
  then show ?case by simp
next
  case (Cons p rest)
  obtain k ds where p: "p = (k, ds)" by (cases p)
  from Cons.prems obtain b1 x1 b2 x2 where
    one: "(case map_of dbData k of None \<Rightarrow> Inr (False, [RowMissing k], [])
        | Some dbRow \<Rightarrow> ebind (row_rq dbRow (td_pk t)) (\<lambda>dbKey. Inr (compare_cells L t k dbKey dbRow ds))) = Inr (b1, x1)"
    and rest: "compare_rows L t dbData rest = Inr (b2, x2)" and b: "b = (b1 \<and> b2)"
    by (fastforce simp: p ebind_Inr_iff split: prod.splits)
  have "b1 \<longleftrightarrow> (\<exists>bs. map_of dbData k = Some bs \<and> cells_agree (td_pk t) ds bs)"
  proof (cases "map_of dbData k")
    case (Some bs)
    then obtain key where "compare_cells L t k key bs ds = (b1, x1)"
      using one by (auto simp: ebind_Inr_iff)
    then show ?thesis using Some compare_cells_result [of L t k key bs ds] by simp
  qed (use one in simp)
  with Cons.IH [OF rest] show ?case by (simp add: p b)
qed

lemma compare_rows_runs:
  "(\<And>k bs. map_of dbData k = Some bs \<Longrightarrow> map_of bs (td_pk t) \<noteq> None) \<Longrightarrow>
     \<exists>x. compare_rows L t dbData diskData = Inr x"
proof (induction diskData)
  case (Cons p rest)
  obtain k ds where p: "p = (k, ds)" by (cases p)
  obtain b2 r2 m2 where rest: "compare_rows L t dbData rest = Inr (b2, r2, m2)"
    using Cons by (metis prod_cases3)
  show ?case
  proof (cases "map_of dbData k")
    case (Some bs)
    then obtain key where "map_of bs (td_pk t) = Some key" using Cons.prems by fastforce
    then show ?thesis
      using Some rest by (cases "compare_cells L t k key bs ds") (simp add: p row_rq_def)
  next
    case None
    then have "compare_rows L t dbData (p # rest) = Inr (False, RowMissing k # r2, m2)"
      by (simp add: p rest)
    then show ?thesis by (rule exI)
  qed
next
  case Nil
  show ?case by (rule exI, rule compare_rows.simps(1))
qed


lemma hasKeyColumn_if: "\<forall>r\<in>set rows. map_of r (td_pk t) \<noteq> None \<Longrightarrow> hasKeyColumn rows t"
  by (auto simp: hasKeyColumn_def split: list.split)

lemma sound_keys_column: "sound_keys pk rows \<Longrightarrow> \<forall>r\<in>set rows. map_of r pk \<noteq> None"
  by (simp add: sound_keys_trimmed)

text \<open>The comparison decides the contract; with sound keys it cannot throw.\<close>

lemma compare_sound:
  assumes db: "sound_keys (td_pk t) dbRaw" and disk: "sound_keys (td_pk t) diskRaw"
    and m: "reMap dbRaw (td_pk t) = Inr dbData" "reMap diskRaw (td_pk t) = Inr diskData"
  shows "(\<forall>(k, ds)\<in>set diskData. \<exists>bs. map_of dbData k = Some bs \<and> cells_agree (td_pk t) ds bs)
      \<longleftrightarrow> data_agrees (td_pk t) dbRaw diskRaw"
proof -
  note db' = reMap_sound [OF m(1) db] and disk' = reMap_sound [OF m(2) disk]
  have entries: "(k, ds) \<in> set diskData \<longleftrightarrow> ds \<in> set diskRaw \<and> row_at ds (td_pk t) = k" for k ds
    unfolding map_wf_entry [OF disk'(1)] by (rule disk'(2))
  have "(\<forall>(k, ds)\<in>set diskData. \<exists>bs. map_of dbData k = Some bs \<and> cells_agree (td_pk t) ds bs)
      \<longleftrightarrow> (\<forall>ds\<in>set diskRaw. \<exists>bs. map_of dbData (row_at ds (td_pk t)) = Some bs \<and> cells_agree (td_pk t) ds bs)"
    unfolding Ball_def split_paired_All case_prod_conv entries by metis
  also have "\<dots> \<longleftrightarrow> (\<forall>ds\<in>set diskRaw. \<exists>bs\<in>set dbRaw. row_at bs (td_pk t) = row_at ds (td_pk t) \<and> cells_agree (td_pk t) ds bs)"
    unfolding db'(2) Bex_def by (simp only: conj_assoc)
  finally show ?thesis
    using db disk by (simp add: data_agrees_def list_all_iff list_ex_iff)
qed

lemma compare_data_result:
  assumes "compare_data L t dbRaw diskRaw = Inr (b, reps)"
  shows "b \<longleftrightarrow> data_agrees (td_pk t) dbRaw diskRaw"
proof (cases "hasKeyColumn dbRaw t \<and> hasKeyColumn diskRaw t")
  case False
  then have "\<not> b" using assms by (auto simp: compare_data_def split: if_splits)
  moreover have "\<not> data_agrees (td_pk t) dbRaw diskRaw"
    using False hasKeyColumn_if sound_keys_column by (auto simp: data_agrees_def)
  ultimately show ?thesis by simp
next
  case True
  with assms obtain b1 r1 b2 r2 dbData diskData b3 x where
    steps: "checkWhitespace L dbRaw t MachineDb = Inr (b1, r1)" "checkWhitespace L diskRaw t DiskData = Inr (b2, r2)"
      "reMap dbRaw (td_pk t) = Inr dbData" "reMap diskRaw (td_pk t) = Inr diskData"
      "compare_rows L t dbData diskData = Inr (b3, x)"
    and b: "b = (b1 \<and> b2 \<and> b3)"
    by (fastforce simp: compare_data_def ebind_Inr_iff split: prod.splits)
  note clean = checkWhitespace_result [OF steps(1)] checkWhitespace_result [OF steps(2)]
  show ?thesis
  proof (cases "b1 \<and> b2")
    case True
    then show ?thesis
      using clean compare_sound [OF _ _ steps(3,4)] compare_rows_result [OF steps(5)] by (simp add: b)
  qed (use clean in \<open>auto simp: b data_agrees_def\<close>)
qed

lemma compare_data_runs:
  assumes "sound_keys (td_pk t) dbRaw" and "sound_keys (td_pk t) diskRaw"
  shows "\<exists>reps. compare_data L t dbRaw diskRaw = Inr (data_agrees (td_pk t) dbRaw diskRaw, reps)"
proof -
  note keys = sound_keys_column [OF assms(1)] sound_keys_column [OF assms(2)]
  obtain dbData diskData where m: "reMap dbRaw (td_pk t) = Inr dbData" "reMap diskRaw (td_pk t) = Inr diskData"
    using reMap_result [OF keys(1)] reMap_result [OF keys(2)] by auto
  have "map_of bs (td_pk t) \<noteq> None" if "map_of dbData k = Some bs" for k bs
    using reMap_sound(2) [OF m(1) assms(1)] that keys(1) by auto
  then obtain b x y where cmp: "compare_rows L t dbData diskData = Inr (b, x, y)"
    using compare_rows_runs by (metis prod_cases3)
  obtain r1 r2 where "checkWhitespace L dbRaw t MachineDb = Inr (True, r1)"
    "checkWhitespace L diskRaw t DiskData = Inr (True, r2)"
    using checkWhitespace_runs [OF keys(1), of L MachineDb] checkWhitespace_runs [OF keys(2), of L DiskData] assms by auto
  then have "\<exists>b reps. compare_data L t dbRaw diskRaw = Inr (b, reps)"
    using hasKeyColumn_if [OF keys(1)] hasKeyColumn_if [OF keys(2)] m cmp by (simp add: compare_data_def)
  then show ?thesis using compare_data_result by blast
qed


lemma check_table_result:
  "check_table L base d now t = Inr (b, reps) \<Longrightarrow> b \<longleftrightarrow> table_agrees L base d now t"
  by (auto simp: check_table_def table_agrees_def ebind_Inr_iff
      split: if_splits option.splits sum.splits dest: compare_data_result)

text \<open>C26. The check of the reference data decides its contract: when it returns, the answer is true
  exactly when, for each table whose reference file exists, that file decodes, the query succeeds, both
  sides have keys without surrounding white space and without repetition, and every reference row has a
  row with its key in the database that agrees in each other column of the reference. One report list
  is made for every table, in order, so that no failure hides a later table.\<close>

theorem checkTableData_decides:
  assumes "checkTableData L base d now td = Inr (passed, reps)"
  shows "(passed \<longleftrightarrow> list_all (table_agrees L base d now) td) \<and> map fst reps = map td_name td"
  using assms
proof (induction td arbitrary: passed reps)
  case Nil
  then show ?case by simp
next
  case (Cons t ts)
  then show ?case
    using check_table_result by (auto simp: ebind_Inr_iff)
qed

subsection \<open>Saving and checking again\<close>

lemma checkWhitespace_save:
  assumes "save_check L t rows = Inr (b, reps)"
  shows "b \<longleftrightarrow> sound_keys (td_pk t) rows"
proof (cases "hasKeyColumn rows t")
  case False
  then have "\<not> sound_keys (td_pk t) rows" using hasKeyColumn_if sound_keys_column by blast
  with False assms show ?thesis by (simp add: save_check_def)
next
  case True
  then show ?thesis using assms by (auto simp: save_check_def dest: checkWhitespace_result)
qed

lemma save_collect_result:
  "save_collect L td = Inr (b, results, reps) \<Longrightarrow>
     map (\<lambda>t. cl_query L (td_sql t)) td = map Inr results
     \<and> (b \<longleftrightarrow> list_all2 (\<lambda>t rows. sound_keys (td_pk t) rows) td results)"
  by (induction td arbitrary: b results reps)
    (auto simp: ebind_Inr_iff dest: checkWhitespace_save)

lemma dynamic_path_eq [simp]: "dynamic_path base a = dynamic_path base b \<longleftrightarrow> a = b"
  by (simp add: dynamic_path_def)

lemma save_file_other [simp]: "p \<noteq> name \<Longrightarrow> save_file io now pay name d p = d p"
  by (simp add: save_file_def stored_def)

lemma save_tables_other:
  "\<forall>(t, rows)\<in>set trs. p \<noteq> dynamic_path base (td_name t) \<Longrightarrow> save_tables L base io now trs d p = d p"
  by (induction L base io now trs d rule: save_tables.induct) auto

definition file_saved :: "write_io \<Rightarrow> string \<Rightarrow> bool" where
  "file_saved io pay \<longleftrightarrow> wr_open io \<and> wr_written io = length pay \<and> wr_commit io"

lemma save_tables_stored:
  "distinct (map (td_name \<circ> fst) trs) \<Longrightarrow> (t, rows) \<in> set trs \<Longrightarrow>
   file_saved (io (dynamic_path base (td_name t))) (cl_encode L rows) \<Longrightarrow>
     save_tables L base io now trs d (dynamic_path base (td_name t))
     = Some \<lparr>fl_content = cl_encode L rows, fl_modified = now, fl_readable = True\<rparr>"
proof (induction trs arbitrary: d)
  case Nil
  then show ?case by simp
next
  case (Cons p trs)
  obtain t' rows' where p: "p = (t', rows')" by (cases p)
  show ?case
  proof (cases "(t, rows) = (t', rows')")
    case True
    have "\<forall>(u, r)\<in>set trs. dynamic_path base (td_name t) \<noteq> dynamic_path base (td_name u)"
      using Cons.prems(1) True by (force simp: p)
    from save_tables_other [OF this] show ?thesis
      using Cons.prems(3) True by (simp add: p save_file_def file_saved_def stored_def)
  qed (use Cons in \<open>auto simp: p\<close>)
qed

text \<open>C27. Saving the reference data is all or nothing in its keys: the answer is true exactly when every
  query's rows have sound keys, an answer of false leaves every file as it was, and whatever the answer
  no file but those of the tables is touched.\<close>

theorem saveTableData_all_or_nothing:
  assumes "saveTableData L base io now td d = Inr ((saved, reps), d')"
  shows "(saved \<longleftrightarrow> list_all (\<lambda>t. case cl_query L (td_sql t) of Inr rows \<Rightarrow> sound_keys (td_pk t) rows | Inl _ \<Rightarrow> False) td)
    \<and> (saved \<or> d' = d)
    \<and> (p \<in> set (map (dynamic_path base \<circ> td_name) td) \<or> d' p = d p)"
proof -
  from assms obtain good results reps' where c: "save_collect L td = Inr (good, results, reps')"
    and res: "saved = good" "d' = (if good then save_tables L base io now (zip td results) d else d)"
    by (auto simp: saveTableData_def ebind_Inr_iff split: if_splits)
  note r = save_collect_result [OF c]
  have "list_all2 (\<lambda>t rows. cl_query L (td_sql t) = Inr rows) td results"
    using r by (auto simp: list_all2_conv_all_nth list_eq_iff_nth_eq)
  then have "list_all2 (\<lambda>t rows. sound_keys (td_pk t) rows) td results
      \<longleftrightarrow> list_all (\<lambda>t. case cl_query L (td_sql t) of Inr rows \<Rightarrow> sound_keys (td_pk t) rows | Inl _ \<Rightarrow> False) td"
    by (induction rule: list_all2_induct) auto
  moreover have "d' p = d p" if "p \<notin> set (map (dynamic_path base \<circ> td_name) td)"
    using that save_tables_other [of "zip td results" p base L io now d]
    by (auto simp: res(2) dest: set_zip_leftD)
  moreover have "saved \<or> d' = d" by (simp add: res)
  ultimately show ?thesis using r res(1) by blast
qed


lemma cells_agree_refl: "map_wf r \<Longrightarrow> cells_agree pk r r"
  by (auto simp: cells_agree_def list_all_iff map_wf_distinct)

lemma data_agrees_refl:
  "sound_keys pk rows \<Longrightarrow> list_all map_wf rows \<Longrightarrow> data_agrees pk rows rows"
  by (auto simp: data_agrees_def list_all_iff list_ex_iff intro: cells_agree_refl)

lemma innerOrDynamic_stored:
  "d' (dynamic_path base name) = Some f \<Longrightarrow> fl_readable f \<Longrightarrow>
     innerOrDynamic d' now (inner_path name) (dynamic_path base name) True
     = Inr \<lparr>fr_path = dynamic_path base name, fr_content = fl_content f, fr_type = Dynamic\<rparr>"
  by (simp add: innerOrDynamic_def fileGetContents2_def fileGetContents_def open_read_def fg_empty_def
      dynamic_path_def)

lemma checkTableData_all:
  "list_all (\<lambda>t. \<exists>reps. check_table L base d now t = Inr (True, reps)) td \<Longrightarrow>
     \<exists>reps. checkTableData L base d now td = Inr (True, reps)"
  by (induction td) auto

text \<open>The three facts about the environment that make a refresh complete: every file is written, the
  coding of a result reads back, and a row of the server is a map.\<close>

definition refresh_env :: "check_lib \<Rightarrow> string \<Rightarrow> (string \<Rightarrow> write_io) \<Rightarrow> table_data list \<Rightarrow> bool" where
  "refresh_env L base io td \<longleftrightarrow>
     list_all (\<lambda>t. case cl_query L (td_sql t) of
         Inl _ \<Rightarrow> True
       | Inr rows \<Rightarrow>
           file_saved (io (dynamic_path base (td_name t))) (cl_encode L rows)
           \<and> cl_decode L (cl_encode L rows) = Some rows \<and> list_all map_wf rows) td"

text \<open>C25. A refresh makes a reference that its own database passes: when the save answers true, every
  file could be written and the names of the tables differ, checking the saved files against the same
  database does not throw and answers true. This is the round trip the notes of the component ask for.\<close>

theorem refresh_then_check:
  assumes save: "saveTableData L base io now td d = Inr ((True, reps), d')"
    and env: "refresh_env L base io td" and names: "distinct (map td_name td)"
  shows "\<exists>reps'. checkTableData L base d' later td = Inr (True, reps')"
proof -
  from save obtain results reps0 where c: "save_collect L td = Inr (True, results, reps0)"
    and d': "d' = save_tables L base io now (zip td results) d"
    by (auto simp: saveTableData_def ebind_Inr_iff split: if_splits)
  note r = save_collect_result [OF c]
  have len: "length td = length results" using r by (auto dest: list_all2_lengthD)
  have "\<exists>reps. check_table L base d' later t = Inr (True, reps)" if t: "t \<in> set td" for t
  proof -
    obtain i where i: "i < length td" "td ! i = t" using t by (auto simp: in_set_conv_nth)
    define rows where "rows = results ! i"
    have q: "cl_query L (td_sql t) = Inr rows"
      using r i len unfolding rows_def by (auto simp: list_eq_iff_nth_eq)
    have sound: "sound_keys (td_pk t) rows"
      using r i unfolding rows_def by (auto simp: list_all2_conv_all_nth)
    have e: "file_saved (io (dynamic_path base (td_name t))) (cl_encode L rows)"
      "cl_decode L (cl_encode L rows) = Some rows" "list_all map_wf rows"
      using env t q by (auto simp: refresh_env_def list_all_iff)
    have "(t, rows) \<in> set (zip td results)"
      using i len unfolding rows_def by (auto simp: set_zip)
    moreover have "map (td_name \<circ> fst) (zip td results) = map td_name td"
      using len by (simp only: map_map [symmetric] map_fst_zip)
    ultimately have f: "d' (dynamic_path base (td_name t))
        = Some \<lparr>fl_content = cl_encode L rows, fl_modified = now, fl_readable = True\<rparr>"
      unfolding d' using names e(1) by (intro save_tables_stored) simp_all
    from innerOrDynamic_stored [where d' = d' and base = base and name = "td_name t" and now = later, OF f]
    have "check_table L base d' later t = compare_data L t rows rows"
      by (simp add: check_table_def e(2) q)
    then show ?thesis
      using compare_data_runs [OF sound sound] data_agrees_refl [OF sound e(3)] by simp
  qed
  then show ?thesis by (intro checkTableData_all) (simp add: list_all_iff)
qed

subsection \<open>What the check of the schema decides\<close>

text \<open>The parts of two rows that count: in a view some columns are not compared, and a column the
  database does not have reads as empty. Columns only the database has are not looked at.\<close>

definition lines_agree :: "check_lib \<Rightarrow> sqlRow \<Rightarrow> sqlRow \<Rightarrow> bool" where
  "lines_agree L diskLine dbLine \<longleftrightarrow>
     list_all (\<lambda>(p, v). (is_view L dbLine = Inr True \<and> p \<in> set skipMe) \<or> v = row_at dbLine p) diskLine"

definition table_lines :: "schemas \<Rightarrow> db_table \<Rightarrow> sqlRow list" where
  "table_lines s t = (case map_of s t of Some rows \<Rightarrow> rows | None \<Rightarrow> [])"

definition table_same :: "check_lib \<Rightarrow> sqlRow list \<Rightarrow> sqlRow list \<Rightarrow> bool" where
  "table_same L disk db \<longleftrightarrow> disk = db \<or> list_all2 (lines_agree L) disk db"

lemma diff_line_empty:
  "is_view L bs = Inr view \<Longrightarrow> diff_line view ds bs = [] \<longleftrightarrow> lines_agree L ds bs"
  by (auto simp: diff_line_def lines_agree_def list_all_iff split: if_splits)

lemma diff_lines_result:
  "diff_lines L t disk db = Inr (dirty, reps) \<Longrightarrow> length disk = length db \<Longrightarrow>
     \<not> dirty \<longleftrightarrow> list_all2 (lines_agree L) disk db"
  by (induction L t disk db arbitrary: dirty reps rule: diff_lines.induct)
    (auto simp: ebind_Inr_iff diff_line_empty)

lemma check_schema_table_result:
  "check_schema_table L t disk db = Inr (dirty, reps) \<Longrightarrow> \<not> dirty \<longleftrightarrow> table_same L disk db"
  by (auto simp: check_schema_table_def table_same_def split: if_splits
      dest: diff_lines_result list_all2_lengthD)


lemma table_lines_erase [simp]: "t' \<noteq> t \<Longrightarrow> table_lines (map_erase t s) t' = table_lines s t'"
  by (simp add: table_lines_def)

lemma keys_erase: "fst ` set (map_erase t s) = fst ` set s - {t}"
  by (auto simp: map_erase_def)

lemma check_schemas_result:
  "check_schemas L disk db = Inr (dirty, reps) \<Longrightarrow> distinct (map fst db) \<Longrightarrow>
     \<not> dirty \<longleftrightarrow> (\<forall>(t, rows)\<in>set db. table_same L (table_lines disk t) rows) \<and> fst ` set disk \<subseteq> fst ` set db"
proof (induction db arbitrary: disk dirty reps)
  case Nil
  then show ?case by auto
next
  case (Cons p db)
  obtain t rows where p: "p = (t, rows)" by (cases p)
  from Cons.prems(1) obtain b1 r1 b2 r2 where
    one: "check_schema_table L t (table_lines disk t) rows = Inr (b1, r1)"
    and rest: "check_schemas L (map_erase t disk) db = Inr (b2, r2)" and dirty: "dirty = (b1 \<or> b2)"
    by (auto simp: p ebind_Inr_iff table_lines_def)
  have t: "t \<notin> fst ` set db" and dist: "distinct (map fst db)" using Cons.prems(2) by (auto simp: p)
  have "table_lines (map_erase t disk) t' = table_lines disk t'" if "(t', rows') \<in> set db" for t' rows'
    using that t by (force intro: table_lines_erase)
  then have same: "(\<forall>(t', rows')\<in>set db. table_same L (table_lines (map_erase t disk) t') rows')
      \<longleftrightarrow> (\<forall>(t', rows')\<in>set db. table_same L (table_lines disk t') rows')"
    by (force simp del: table_lines_erase)
  have "fst ` set (map_erase t disk) \<subseteq> fst ` set db \<longleftrightarrow> fst ` set disk \<subseteq> fst ` set (p # db)"
    using t by (auto simp: keys_erase p)
  then show ?case
    using Cons.IH [OF rest dist] check_schema_table_result [OF one] same by (auto simp: dirty p)
qed

lemma push_schema_wf [simp]: "map_wf s \<Longrightarrow> map_wf (push_schema k r s)"
  by (simp add: push_schema_def)

lemma add_columns_wf: "add_columns dbName views rs s = Inr s' \<Longrightarrow> map_wf s \<Longrightarrow> map_wf s'"
  by (induction dbName views rs s rule: add_columns.induct) (auto simp: ebind_Inr_iff)

lemma read_databases_wf: "read_databases L dbs views s = Inr s' \<Longrightarrow> map_wf s \<Longrightarrow> map_wf s'"
  by (induction dbs arbitrary: views s) (auto simp: ebind_Inr_iff dest: add_columns_wf)

lemma getDbSchema_wf: "getDbSchema L dbs = Inr s \<Longrightarrow> map_wf s"
  unfolding getDbSchema_def by (drule read_databases_wf) simp_all

text \<open>The check of the schema decides its contract: when it returns, the saved schema was loaded and
  the database's was read, and the answer is true exactly when every table of the database has the same
  lines in the saved schema and the saved schema has no other table.\<close>

theorem checkDbSchema_decides:
  assumes "checkDbSchema L embedded base d now databases = Inr (passed, reps)"
  shows "\<exists>disk db. loadSchema L embedded base d now = Inr disk \<and> getDbSchema L databases = Inr db
    \<and> (passed \<longleftrightarrow> list_all (\<lambda>(t, rows). table_same L (table_lines disk t) rows) db
                  \<and> fst ` set disk \<subseteq> fst ` set db)"
proof -
  from assms obtain disk db dirty where
    disk: "loadSchema L embedded base d now = Inr disk" and db: "getDbSchema L databases = Inr db"
    and c: "check_schemas L disk db = Inr (dirty, reps)" and passed: "passed = (\<not> dirty)"
    by (auto simp: checkDbSchema_def lift_error_def ebind_Inr_iff split: sum.splits)
  have "distinct (map fst db)" by (rule map_wf_distinct [OF getDbSchema_wf [OF db]])
  from check_schemas_result [OF c this] disk db passed show ?thesis
    by (simp add: list_all_iff)
qed

lemma check_schemas_same:
  "distinct (map fst db) \<Longrightarrow> (\<And>t rows. (t, rows) \<in> set db \<Longrightarrow> table_lines disk t = rows) \<Longrightarrow>
   fst ` set disk = fst ` set db \<Longrightarrow> check_schemas L disk db = Inr (False, [])"
proof (induction db arbitrary: disk)
  case (Cons p db)
  obtain t rows where p: "p = (t, rows)" by (cases p)
  have t: "t \<notin> fst ` set db" using Cons.prems(1) by (simp add: p)
  have "table_lines (map_erase t disk) t' = rows'" if "(t', rows') \<in> set db" for t' rows'
    using that t Cons.prems(2) by (subst table_lines_erase) (force simp: p)+
  moreover have "fst ` set (map_erase t disk) = fst ` set db"
    using Cons.prems(3) t by (auto simp: keys_erase p)
  ultimately have "check_schemas L (map_erase t disk) db = Inr (False, [])"
    using Cons.prems(1) by (intro Cons.IH) (simp_all add: p)
  moreover have "table_lines disk t = rows" using Cons.prems(2) by (simp add: p)
  ultimately show ?case
    by (simp add: p check_schema_table_def table_lines_def)
qed simp

text \<open>A saved schema passes on the database it was saved from: when the save succeeds, the file was
  written and its coding reads back, the check of the same databases does not abort or throw, answers
  true and reports nothing.\<close>

theorem saved_schema_passes:
  assumes save: "saveSchema L base mk io now databases d = Inr d'"
    and s: "getDbSchema L databases = Inr s"
    and written: "file_saved io (cl_encodeSchemas L s)"
    and coded: "cl_decodeSchemas L (cl_encodeSchemas L s) = Some s" "cl_encodeSchemas L s \<noteq> []"
  shows "checkDbSchema L embedded base d' later databases = Inr (True, [])"
proof -
  note wf = getDbSchema_wf [OF s]
  have d': "d' = stored now (cl_encodeSchemas L s) (schema_path base) d"
    using save written s
    by (auto simp: saveSchema_def save_file_def file_saved_def split: if_splits)
  have "loadSchema L embedded base d' later = Inr s"
    using coded
    by (simp add: loadSchema_def loadSchemaInner_def fileGetContents2_def fileGetContents_def d' fg_empty_def
        schema_path_def)
  moreover have "check_schemas L s s = Inr (False, [])"
  proof (rule check_schemas_same)
    show "distinct (map fst s)" by (rule map_wf_distinct [OF wf])
    show "table_lines s t = rows" if "(t, rows) \<in> set s" for t rows
      using that map_wf_entry [OF wf, of t rows] by (simp only: table_lines_def option.case)
  qed (rule refl)
  ultimately show ?thesis
    by (simp add: checkDbSchema_def s lift_error_def)
qed


subsection \<open>The proposed fixes\<close>

lemma compare_cells_fix:
  "CellDiffers col k (Some sql) \<in> set (fst (snd (compare_cells L t pk dbKey dbRow cells))) \<Longrightarrow>
     \<exists>v. (col, v) \<in> set cells \<and> trailingBlanks v = 0 \<and> k = pk \<and> map_of dbRow col \<noteq> Some v
       \<and> sql = update_lines L (td_name t) col v (td_pk t) dbKey"
proof (induction L t pk dbKey dbRow cells rule: compare_cells.induct)
  case (2 L t pk dbKey dbRow c vDisk cells)
  obtain same reps missing where r: "compare_cells L t pk dbKey dbRow cells = (same, reps, missing)"
    by (metis prod_cases3)
  show ?case
  proof (cases "CellDiffers col k (Some sql) \<in> set reps")
    case True
    then show ?thesis using 2(1) by (auto simp: r)
  next
    case False
    then show ?thesis using 2(2) by (auto simp: r split: if_splits option.splits)
  qed
qed simp

lemma compare_rows_fix:
  "compare_rows L t dbData diskData = Inr (b, reps, missing) \<Longrightarrow> CellDiffers col pk (Some sql) \<in> set reps \<Longrightarrow>
     \<exists>ds bs v key. (pk, ds) \<in> set diskData \<and> map_of dbData pk = Some bs \<and> map_of bs (td_pk t) = Some key
       \<and> (col, v) \<in> set ds \<and> trailingBlanks v = 0 \<and> map_of bs col \<noteq> Some v
       \<and> sql = update_lines L (td_name t) col v (td_pk t) key"
proof (induction diskData arbitrary: b reps missing)
  case Nil
  then show ?case by simp
next
  case (Cons p rest)
  obtain k ds where p: "p = (k, ds)" by (cases p)
  from Cons.prems(1) obtain b1 r1 m1 b2 r2 m2 where
    one: "(case map_of dbData k of None \<Rightarrow> Inr (False, [RowMissing k], [])
        | Some dbRow \<Rightarrow> ebind (row_rq dbRow (td_pk t)) (\<lambda>dbKey. Inr (compare_cells L t k dbKey dbRow ds))) = Inr (b1, r1, m1)"
    and rest: "compare_rows L t dbData rest = Inr (b2, r2, m2)" and reps: "reps = r1 @ r2"
    by (fastforce simp: p ebind_Inr_iff split: prod.splits)
  show ?case
  proof (cases "CellDiffers col pk (Some sql) \<in> set r2")
    case True
    from Cons.IH [OF rest this] show ?thesis by (auto simp: p)
  next
    case False
    then have r1: "CellDiffers col pk (Some sql) \<in> set r1" using Cons.prems(2) reps by auto
    show ?thesis
    proof (cases "map_of dbData k")
      case None
      then show ?thesis using one r1 by auto
    next
      case (Some bs)
      then obtain key where key: "map_of bs (td_pk t) = Some key" "compare_cells L t k key bs ds = (b1, r1, m1)"
        using one by (auto simp: ebind_Inr_iff)
      then show ?thesis using compare_cells_fix [of col pk sql L t k key bs ds] r1 Some by (auto simp: p)
    qed
  qed
qed

lemma check_rows_no_cell:
  "check_rows L t org seen rows = Inr (b, reps) \<Longrightarrow> CellDiffers col pk fx \<notin> set reps"
proof (induction rows arbitrary: seen b reps)
  case (Cons r rs)
  have "CellDiffers col pk fx \<notin> set (key_reports L t org seen key)"
    "CellDiffers col pk fx \<notin> set (tail_reports L t org key r)" for key
    by (auto simp: key_reports_def tail_reports_def)
  with Cons show ?case by (fastforce simp: ebind_Inr_iff)
qed simp

text \<open>The SQL that the check proposes for a differing cell copies a value of the reference, one that
  has no white space at its end, into a row that really differs, under the key exactly as the database
  has it; a reference value that is itself wrong is never proposed.\<close>

theorem proposed_fix_sound:
  assumes "compare_data L t dbRaw diskRaw = Inr (passed, reps)" and "CellDiffers col pk (Some sql) \<in> set reps"
  shows "\<exists>ds bs v key. ds \<in> set diskRaw \<and> bs \<in> set dbRaw \<and> map_of bs (td_pk t) = Some key
    \<and> trimmed key = pk \<and> trimmed (row_at ds (td_pk t)) = pk
    \<and> (col, v) \<in> set ds \<and> trailingBlanks v = 0 \<and> map_of bs col \<noteq> Some v
    \<and> sql = update_lines L (td_name t) col v (td_pk t) key"
proof -
  have "hasKeyColumn dbRaw t" "hasKeyColumn diskRaw t"
    using assms by (auto simp: compare_data_def split: if_splits)
  with assms(1) obtain b1 r1 b2 r2 dbData diskData b3 r3 missing where
    w1: "checkWhitespace L dbRaw t MachineDb = Inr (b1, r1)"
    and w2: "checkWhitespace L diskRaw t DiskData = Inr (b2, r2)"
    and m: "reMap dbRaw (td_pk t) = Inr dbData" "reMap diskRaw (td_pk t) = Inr diskData"
    and cmp: "compare_rows L t dbData diskData = Inr (b3, r3, missing)"
    and reps: "reps = r1 @ r2 @ r3 @ map ColumnMissing (remdups (sort missing))"
    by (fastforce simp: compare_data_def ebind_Inr_iff split: prod.splits)
  have "CellDiffers col pk (Some sql) \<notin> set r1 \<union> set r2"
    using check_rows_no_cell w1 w2 by (auto simp: checkWhitespace_def)
  then have "CellDiffers col pk (Some sql) \<in> set r3" using assms(2) by (auto simp: reps)
  from compare_rows_fix [OF cmp this] obtain ds bs v key where
    f: "(pk, ds) \<in> set diskData" "map_of dbData pk = Some bs" "map_of bs (td_pk t) = Some key"
      "(col, v) \<in> set ds" "trailingBlanks v = 0" "map_of bs col \<noteq> Some v"
      "sql = update_lines L (td_name t) col v (td_pk t) key"
    by blast
  have k: "\<forall>r\<in>set dbRaw. map_of r (td_pk t) \<noteq> None" "\<forall>r\<in>set diskRaw. map_of r (td_pk t) \<noteq> None"
    using checkWhitespace_keys [OF w1] checkWhitespace_keys [OF w2] by blast+
  have "map_wf diskData" using reMap_result [OF k(2)] m(2) by auto
  from map_wf_entry [OF this] have "map_of diskData pk = Some ds" using f(1) by (rule iffD1)
  from reMap_entry_row [OF m(2) k(2) this] reMap_entry_row [OF m(1) k(1) f(2)] f(3) have
    "ds \<in> set diskRaw" "trimmed (row_at ds (td_pk t)) = pk" "bs \<in> set dbRaw" "trimmed key = pk"
    by simp_all
  with f(3-7) show ?thesis by blast
qed

text \<open>A file that cannot be opened does not change the answer of a save.\<close>

theorem save_answer_ignores_files:
  assumes "saveTableData L base io now td d = Inr ((saved, reps), d')"
  shows "\<exists>d''. saveTableData L base io' now td d = Inr ((saved, reps), d'')"
proof -
  from assms obtain results where "save_collect L td = Inr (saved, results, reps)"
    by (auto simp: saveTableData_def ebind_Inr_iff split: if_splits)
  then show ?thesis by (cases saved) (simp_all add: saveTableData_def)
qed


subsection \<open>Witnesses\<close>

definition sample_rows :: "sqlRow list" where
  "sample_rows = [[(''id'', ''a''), (''v'', ''1'')], [(''id'', ''b''), (''v'', ''2'')]]"

definition sample_table :: table_data where
  "sample_table = \<lparr>td_sql = ''SELECT id,v FROM t'', td_name = ''t'', td_pk = ''id''\<rparr>"

definition sample_columns :: "sqlRow list" where
  "sample_columns = [[(''COLUMN_NAME'', ''id''), (''TABLE_NAME'', ''t'')], [(''COLUMN_NAME'', ''v''), (''TABLE_NAME'', ''t'')]]"

definition sample_schema :: schemas where
  "sample_schema = [(DbTable ''db'' ''t'', map (map_assign ''isView'' ''0'') sample_columns)]"

definition sample_check :: check_lib where
  "sample_check = \<lparr>cl_esc = id,
     cl_query = (\<lambda>q. if q = ''SELECT id,v FROM t'' then Inr sample_rows
                    else if q = tables_sql ''db'' then Inr [[(''TABLE_NAME'', ''t''), (''TABLE_TYPE'', ''BASE TABLE'')]]
                    else if q = columns_sql ''db'' then Inr sample_columns
                    else if q = views_sql ''db'' then Inr [] else Inl ''no such query''),
     cl_encode = (\<lambda>rows. if rows = sample_rows then ''R'' else ''?''),
     cl_decode = (\<lambda>x. if x = ''R'' then Some sample_rows else None),
     cl_encodeSchemas = (\<lambda>s. if s = sample_schema then ''S'' else ''?''),
     cl_decodeSchemas = (\<lambda>x. if x = ''S'' then Some sample_schema else None),
     cl_toULongLong = (\<lambda>x. if x = ''1'' then Some 1 else if x = ''0'' then Some 0 else None)\<rparr>"

definition good_io :: "nat \<Rightarrow> write_io" where
  "good_io n = \<lparr>wr_open = True, wr_written = n, wr_commit = True, wr_error = []\<rparr>"

lemma trimmed_letters [simp]: "trimmed ''a'' = ''a''" "trimmed ''b'' = ''b''"
  by code_simp+

lemma sample_check_simps [simp]:
  "cl_query sample_check (td_sql sample_table) = Inr sample_rows"
  "cl_encode sample_check sample_rows = ''R''" "cl_decode sample_check ''R'' = Some sample_rows"
  "td_pk sample_table = ''id''" "td_name sample_table = ''t''"
  by (simp_all add: sample_check_def sample_table_def)

lemma sample_sound [simp]: "sound_keys ''id'' sample_rows"
  by (simp add: sound_keys_def sample_rows_def row_at_def)

lemma sample_wf: "list_all map_wf sample_rows"
  by code_simp

definition sample_disk :: disk where
  "sample_disk = save_file (good_io 1) 7 ''R'' (dynamic_path ''/src'' ''t'') (\<lambda>_. None)"

lemma sample_save:
  "saveTableData sample_check ''/src'' (\<lambda>_. good_io 1) 7 [sample_table] (\<lambda>_. None) = Inr ((True, []), sample_disk)"
proof -
  have "check_rows sample_check sample_table RefreshDb [] sample_rows = Inr (True, [])"
    by (simp add: sample_rows_def sample_table_def row_rq_def key_reports_def tail_reports_def trailingBlanks_def
        placeholders_def)
  then have "save_check sample_check sample_table sample_rows = Inr (True, [])"
    by (simp add: save_check_def hasKeyColumn_def checkWhitespace_def sample_rows_def)
  then show ?thesis by (simp add: saveTableData_def sample_disk_def)
qed


theorem saveTableData_all_or_nothing_witness:
  "sample_disk (dynamic_path ''/src'' ''u'') = None \<and> sound_keys ''id'' sample_rows"
  using saveTableData_all_or_nothing [OF sample_save, of "dynamic_path ''/src'' ''u''"] by simp

theorem refresh_then_check_witness:
  "\<exists>reps. checkTableData sample_check ''/src'' sample_disk 9 [sample_table] = Inr (True, reps)"
  by (rule refresh_then_check [OF sample_save])
    (simp_all add: refresh_env_def sample_wf file_saved_def good_io_def)

definition stale_rows :: "sqlRow list" where
  "stale_rows = [[(''id'', ''a''), (''v'', ''1'')], [(''id'', ''b''), (''v'', ''3'')]]"

definition stale_check :: check_lib where
  "stale_check = sample_check\<lparr>cl_query := (\<lambda>q. Inr stale_rows)\<rparr>"

lemma stale_run:
  "checkTableData stale_check ''/src'' sample_disk 9 [sample_table]
   = Inr (False, [(''t'', [CellDiffers ''v'' ''b'' (Some (update_lines stale_check ''t'' ''v'' ''2'' ''id'' ''b''))])])"
proof -
  have dyn: "innerOrDynamic sample_disk 9 (inner_path ''t'') (dynamic_path ''/src'' ''t'') True
      = Inr \<lparr>fr_path = dynamic_path ''/src'' ''t'', fr_content = ''R'', fr_type = Dynamic\<rparr>"
    by (simp add: innerOrDynamic_def fileGetContents2_def fileGetContents_def open_read_def fg_empty_def
        dynamic_path_def sample_disk_def save_file_def good_io_def stored_def)
  have "compare_data stale_check sample_table stale_rows sample_rows
      = Inr (False, [CellDiffers ''v'' ''b'' (Some (update_lines stale_check ''t'' ''v'' ''2'' ''id'' ''b''))])"
    by (simp add: compare_data_def hasKeyColumn_def checkWhitespace_def reMap_def stale_rows_def sample_rows_def
        row_rq_def key_reports_def tail_reports_def trailingBlanks_def placeholders_def)
  then show ?thesis
    by (simp add: check_table_def dyn) (simp add: stale_check_def)
qed

theorem checkTableData_decides_witness:
  "\<not> list_all (table_agrees stale_check ''/src'' sample_disk 9) [sample_table]"
  using checkTableData_decides [OF stale_run] by simp

theorem proposed_fix_sound_witness:
  "\<exists>ds\<in>set sample_rows. \<exists>v. (''v'', v) \<in> set ds \<and> trailingBlanks v = 0"
proof -
  have "compare_data stale_check sample_table stale_rows sample_rows
      = Inr (False, [CellDiffers ''v'' ''b'' (Some (update_lines stale_check ''t'' ''v'' ''2'' ''id'' ''b''))])"
    by (simp add: compare_data_def hasKeyColumn_def checkWhitespace_def reMap_def stale_rows_def sample_rows_def
        row_rq_def key_reports_def tail_reports_def trailingBlanks_def placeholders_def)
  from proposed_fix_sound [OF this] show ?thesis by fastforce
qed

lemma sample_schema_read: "getDbSchema sample_check [''db''] = Inr sample_schema"
proof -
  have q: "cl_query sample_check (tables_sql ''db'') = Inr [[(''TABLE_NAME'', ''t''), (''TABLE_TYPE'', ''BASE TABLE'')]]"
    "cl_query sample_check (views_sql ''db'') = Inr []" "cl_query sample_check (columns_sql ''db'') = Inr sample_columns"
    by (simp_all add: sample_check_def tables_sql_def views_sql_def columns_sql_def schema_columns_def)
  have "add_columns ''db'' [] sample_columns [] = Inr sample_schema"
    by (simp add: sample_columns_def sample_schema_def row_rq_def push_schema_def full_name_def)
  then show ?thesis by (simp add: getDbSchema_def q row_rq_def)
qed

lemma sample_schema_codec:
  "cl_encodeSchemas sample_check sample_schema = ''S''" "cl_decodeSchemas sample_check ''S'' = Some sample_schema"
  by (simp_all add: sample_check_def)

definition schema_disk :: disk where
  "schema_disk = save_file (good_io 1) 7 ''S'' (schema_path ''/src'') (\<lambda>_. None)"

theorem saved_schema_passes_witness:
  "checkDbSchema sample_check [] ''/src'' schema_disk 9 [''db''] = Inr (True, [])"
proof (rule saved_schema_passes [OF _ sample_schema_read])
  show "saveSchema sample_check ''/src'' True (good_io 1) 7 [''db''] (\<lambda>_. None) = Inr schema_disk"
    by (simp add: saveSchema_def sample_schema_read schema_disk_def sample_schema_codec) (simp add: good_io_def)
qed (simp_all add: sample_schema_codec file_saved_def good_io_def)

text \<open>The same schema with one more saved table: the check reports it.\<close>

definition larger_check :: check_lib where
  "larger_check = sample_check\<lparr>cl_decodeSchemas := (\<lambda>_. Some (sample_schema @ [(DbTable ''db'' ''u'', [])]))\<rparr>"

theorem checkDbSchema_decides_witness:
  "checkDbSchema larger_check ''S'' ''/src'' (\<lambda>_. None) 9 [''db''] = Inr (False, [UnknownTables [DbTable ''db'' ''u'']])
   \<and> getDbSchema larger_check [''db''] = Inr sample_schema"
proof -
  have "cl_query larger_check = cl_query sample_check" by (simp add: larger_check_def)
  then have "read_databases larger_check dbs = read_databases sample_check dbs" for dbs
    by (induction dbs) (rule ext, rule ext, simp)+
  then have g: "getDbSchema larger_check [''db''] = Inr sample_schema"
    using sample_schema_read by (simp only: getDbSchema_def)
  have "cl_decodeSchemas larger_check ''S'' = Some (sample_schema @ [(DbTable ''db'' ''u'', [])])"
    by (simp add: larger_check_def)
  moreover have "check_schemas larger_check (sample_schema @ [(DbTable ''db'' ''u'', [])]) sample_schema
      = Inr (True, [UnknownTables [DbTable ''db'' ''u'']])"
    by (simp add: sample_schema_def check_schema_table_def map_erase_def)
  ultimately have "checkDbSchema larger_check ''S'' ''/src'' (\<lambda>_. None) 9 [''db'']
      = Inr (False, [UnknownTables [DbTable ''db'' ''u'']])"
    by (simp add: checkDbSchema_def loadSchema_def loadSchemaInner_def fileGetContents2_def fileGetContents_def
        open_read_def fg_empty_def schema_path_def g lift_error_def)
  from checkDbSchema_decides [OF this] this g show ?thesis by simp
qed

end
