(* ===== verification/Mustache.thy ===== *)
theory Mustache
  imports FileFunction TextUtil
begin

text \<open>
  \<^verbatim>\<open>mustache/renderer.cpp\<close>, the template renderer (a changed copy of a Boost candidate), and the
  functions of \<^verbatim>\<open>mustache/extra.cpp\<close> that call it. The record \<open>rst\<close> is the class \<open>renderer\<close>, with the
  text written so far in place of the \<open>output_ref\<close>; a handler takes the state and the rest of the input
  and returns both, as in the code.

  \<open>handle_tag\<close> renders partials and section bodies through \<open>render_some\<close>, which calls the handlers
  again: the handlers take that function as a parameter, and \<open>render_loop\<close> and \<open>render_full\<close> close the knot
  over a fuel. \<open>Fault\<close> is a failed \<^verbatim>\<open>BOOST_ASSERT\<close>. Boost's serializer, the C library's \<^verbatim>\<open>%.16g\<close> and the
  comparison of a double with 0 are parameters. An object keeps each key once, as Boost's does.
\<close>

subsection \<open>State\<close>

datatype rstate = LeadingWsp | StartDelim | InTag | EndDelim | EndTriple | Passthrough | Standalone | Standalone2

record 'd rst =
  r_context :: "'d json list"
  r_state :: rstate
  r_in_section :: bool
  r_whitespace :: string
  r_standalone :: bool
  r_had_cr :: bool
  r_start_delim :: string
  r_end_delim :: string
  r_delim_index :: nat
  r_tag :: string
  r_section_stack :: "string list"
  r_inverted :: bool
  r_section_context :: "'d json option"
  r_section_text :: string
  r_partial_lwsp :: string
  r_out :: string

record 'd mlib =
  ml_serialize :: "'d json \<Rightarrow> string"
  ml_double :: "'d \<Rightarrow> string"
  ml_nonzero :: "'d \<Rightarrow> bool"
  ml_partials :: "'d jobject"

datatype 'a run = Done 'a | Fault | NoFuel

definition rbind :: "'a run \<Rightarrow> ('a \<Rightarrow> 'b run) \<Rightarrow> 'b run" where
  "rbind m f = (case m of Done x \<Rightarrow> f x | Fault \<Rightarrow> Fault | NoFuel \<Rightarrow> NoFuel)"

lemma rbind_simps [simp]: "rbind (Done x) f = f x" "rbind Fault f = Fault" "rbind NoFuel f = NoFuel"
  by (simp_all add: rbind_def)

lemma rbind_Done [simp]: "rbind m Done = m"
  by (cases m) simp_all

definition renderer :: "'d json \<Rightarrow> 'd rst" where
  "renderer data = \<lparr>r_context = [data], r_state = LeadingWsp, r_in_section = False, r_whitespace = [],
     r_standalone = False, r_had_cr = False, r_start_delim = ''{{'', r_end_delim = ''}}'',
     r_delim_index = 0, r_tag = [], r_section_stack = [], r_inverted = False,
     r_section_context = None, r_section_text = [], r_partial_lwsp = [], r_out = []\<rparr>"

subsection \<open>Text\<close>

definition blank :: "char \<Rightarrow> bool" where
  "blank c \<longleftrightarrow> c = CHR '' '' \<or> c = CHR 0x09"

definition trim_leading_whitespace :: "string \<Rightarrow> string" where
  "trim_leading_whitespace sv = dropWhile blank sv"

definition trim_trailing_whitespace :: "string \<Rightarrow> string" where
  "trim_trailing_whitespace sv = rev (dropWhile blank (rev sv))"

definition trim_whitespace :: "string \<Rightarrow> string" where
  "trim_whitespace sv = trim_trailing_whitespace (trim_leading_whitespace sv)"

definition get_leading_token :: "string \<Rightarrow> string" where
  "get_leading_token sv =
     takeWhile (\<lambda>c. c \<noteq> CHR '' '' \<and> c \<noteq> CHR 0x09 \<and> c \<noteq> CHR 0x0D \<and> c \<noteq> CHR 0x0A) sv"

text \<open>\<open>output_ref::write\<close>: to the buffered section text when the handler was entered in a section.\<close>

definition put :: "bool \<Rightarrow> string \<Rightarrow> 'd rst \<Rightarrow> 'd rst" where
  "put to_section s st =
     (if to_section then st\<lparr>r_section_text := r_section_text st @ s\<rparr> else st\<lparr>r_out := r_out st @ s\<rparr>)"

definition is_tag_standalone :: "string \<Rightarrow> bool" where
  "is_tag_standalone tag =
     (case trim_leading_whitespace tag of
        [] \<Rightarrow> False
      | c # _ \<Rightarrow> c \<in> {CHR ''!'', CHR ''='', CHR ''>'', CHR ''#'', CHR ''^'', CHR ''/''})"

subsection \<open>Values\<close>

definition quoted_char :: "char \<Rightarrow> string" where
  "quoted_char c =
     (if c = CHR ''<'' then ''&lt;'' else if c = CHR ''>'' then ''&gt;''
      else if c = CHR 0x22 then ''&quot;'' else if c = CHR ''&'' then ''&amp;'' else [c])"

definition quoted_write :: "string \<Rightarrow> string" where
  "quoted_write sv = concat (map quoted_char sv)"

definition maybe_quoted_write :: "string \<Rightarrow> bool \<Rightarrow> string" where
  "maybe_quoted_write sv quoted = (if quoted then quoted_write sv else sv)"

definition output_value :: "'d mlib \<Rightarrow> 'd json \<Rightarrow> bool \<Rightarrow> string" where
  "output_value M jv quoted =
     (case jv of
        JNull \<Rightarrow> []
      | JBool b \<Rightarrow> maybe_quoted_write (if b then ''true'' else ''false'') quoted
      | JInt64 i \<Rightarrow> maybe_quoted_write (show_int i) quoted
      | JUint64 n \<Rightarrow> maybe_quoted_write (show_nat n) quoted
      | JDouble d \<Rightarrow> maybe_quoted_write (ml_double M d) quoted
      | JString s \<Rightarrow> maybe_quoted_write s quoted
      | _ \<Rightarrow> maybe_quoted_write (ml_serialize M jv) quoted)"

definition is_value_true :: "'d mlib \<Rightarrow> 'd json \<Rightarrow> bool" where
  "is_value_true M jv =
     (case jv of
        JNull \<Rightarrow> False
      | JBool b \<Rightarrow> b
      | JInt64 i \<Rightarrow> i \<noteq> 0
      | JUint64 n \<Rightarrow> n \<noteq> 0
      | JDouble d \<Rightarrow> ml_nonzero M d
      | JString s \<Rightarrow> s \<noteq> []
      | JArray xs \<Rightarrow> xs \<noteq> []
      | JObject _ \<Rightarrow> True)"

definition if_contains :: "'d json \<Rightarrow> string \<Rightarrow> 'd json option" where
  "if_contains jv n = (case jv of JObject fs \<Rightarrow> map_of fs n | _ \<Rightarrow> None)"

text \<open>\<open>lookup_value\<close>: the part of the name before the first dot in the innermost context that has it,
  then the other parts in the value found.\<close>

fun find_in_contexts :: "'d json list \<Rightarrow> string \<Rightarrow> 'd json option" where
  "find_in_contexts [] n = None"
| "find_in_contexts (c # cs) n = (case if_contains c n of Some v \<Rightarrow> Some v | None \<Rightarrow> find_in_contexts cs n)"

fun find_path :: "'d json \<Rightarrow> string list \<Rightarrow> 'd json option" where
  "find_path r [] = Some r"
| "find_path r (n # ns) = (case if_contains r n of Some v \<Rightarrow> find_path v ns | None \<Rightarrow> None)"

definition lookup_value :: "'d rst \<Rightarrow> string \<Rightarrow> 'd json option" where
  "lookup_value st name =
     (if name = ''.'' then Some (last (r_context st))
      else case split_on CHR ''.'' name of
          [] \<Rightarrow> None
        | n # ns \<Rightarrow> (case find_in_contexts (rev (r_context st)) n of None \<Rightarrow> None | Some r \<Rightarrow> find_path r ns))"


subsection \<open>Tags\<close>

type_synonym 'd render = "'d rst \<Rightarrow> string \<Rightarrow> 'd rst run"

definition handle_interpolation_tag :: "'d mlib \<Rightarrow> string \<Rightarrow> bool \<Rightarrow> 'd rst \<Rightarrow> 'd rst" where
  "handle_interpolation_tag M tag quoted st =
     (case lookup_value st (trim_whitespace tag) of
        None \<Rightarrow> st
      | Some jv \<Rightarrow> put False (output_value M jv quoted) st)"

definition handle_section_tag :: "string \<Rightarrow> bool \<Rightarrow> 'd rst \<Rightarrow> 'd rst" where
  "handle_section_tag tag inverted st =
     st\<lparr>r_section_stack := [trim_whitespace tag], r_inverted := inverted,
        r_section_context := lookup_value st (trim_whitespace tag),
        r_section_text := [], r_in_section := True\<rparr>"

definition handle_delimiter_tag :: "string \<Rightarrow> 'd rst \<Rightarrow> 'd rst" where
  "handle_delimiter_tag tag st =
     (let tag = trim_leading_whitespace tag; d1 = get_leading_token tag;
          tag = trim_leading_whitespace (drop (length d1) tag); d2 = get_leading_token tag;
          tag = trim_leading_whitespace (drop (length d2) tag)
      in if d1 = [] \<or> d2 = [] \<or> tag \<noteq> [] then st
         else st\<lparr>r_start_delim := d1, r_end_delim := d2\<rparr>)"

definition handle_partial_tag :: "'d mlib \<Rightarrow> 'd render \<Rightarrow> string \<Rightarrow> string \<Rightarrow> 'd rst \<Rightarrow> 'd rst run" where
  "handle_partial_tag M R tag old_wsp st =
     (case map_of (ml_partials M) (trim_whitespace tag) of
        Some (JString txt) \<Rightarrow>
          rbind
            (R (st\<lparr>r_start_delim := ''{{'', r_end_delim := ''}}'', r_partial_lwsp := old_wsp,
                   r_whitespace := (if r_state st = LeadingWsp then old_wsp else r_whitespace st)\<rparr>) txt)
            (\<lambda>st'. Done (st'\<lparr>
               r_whitespace := (if r_state st' = LeadingWsp \<and> r_whitespace st' = r_partial_lwsp st'
                                then r_partial_lwsp st else r_whitespace st'),
               r_start_delim := r_start_delim st, r_end_delim := r_end_delim st,
               r_partial_lwsp := r_partial_lwsp st\<rparr>))
      | _ \<Rightarrow> Done st)"

text \<open>The loop over the items of an array: the context is replaced on top of the stack, the state of the
  machine is put back after each item.\<close>

fun render_items :: "'d render \<Rightarrow> string \<Rightarrow> rstate \<Rightarrow> 'd json list \<Rightarrow> 'd rst \<Rightarrow> 'd rst run" where
  "render_items R tmp st0 [] st = Done st"
| "render_items R tmp st0 (item # items) st =
     rbind (R (st\<lparr>r_context := butlast (r_context st) @ [item]\<rparr>) tmp)
       (\<lambda>st'. render_items R tmp st0 items (st'\<lparr>r_state := st0\<rparr>))"

definition pop_context :: "'d rst \<Rightarrow> 'd rst" where
  "pop_context st = st\<lparr>r_context := butlast (r_context st)\<rparr>"

definition render_section :: "'d mlib \<Rightarrow> 'd render \<Rightarrow> 'd rst \<Rightarrow> 'd rst run" where
  "render_section M R st =
     (let tmp = r_section_text st
      in if r_inverted st then
           (case r_section_context st of
              Some jv \<Rightarrow> if is_value_true M jv then Done st else R st tmp
            | None \<Rightarrow> R st tmp)
         else
           (case r_section_context st of
              None \<Rightarrow> Done st
            | Some jv \<Rightarrow>
                if \<not> is_value_true M jv then Done st
                else (case jv of
                    JArray items \<Rightarrow>
                      rbind (render_items R tmp (r_state st) items (st\<lparr>r_context := r_context st @ [JNull]\<rparr>))
                        (\<lambda>st'. Done (pop_context st'))
                  | _ \<Rightarrow>
                      rbind (R (st\<lparr>r_context := r_context st @ [jv]\<rparr>) tmp) (\<lambda>st'. Done (pop_context st')))))"

text \<open>The part of \<open>handle_tag\<close> inside a section: only the nesting is followed, and every tag but the
  closing one is put back into the text.\<close>

definition buffered_tag :: "string \<Rightarrow> 'd rst \<Rightarrow> string" where
  "buffered_tag tag st =
     (if r_standalone st then r_whitespace st else [])
     @ r_start_delim st @ tag @ r_end_delim st
     @ (if r_standalone st then (if r_had_cr st then [CHR 0x0D] else []) @ [CHR 0x0A] else [])"

definition handle_tag_in_section :: "'d mlib \<Rightarrow> 'd render \<Rightarrow> string \<Rightarrow> 'd rst \<Rightarrow> 'd rst run" where
  "handle_tag_in_section M R tag st =
     (let keep = (\<lambda>st'. Done (st'\<lparr>r_section_text := r_section_text st' @ buffered_tag tag st'\<rparr>))
      in case tag of
           [] \<Rightarrow> keep st
         | ch # rest \<Rightarrow>
             if ch = CHR ''#'' \<or> ch = CHR ''^''
             then keep (st\<lparr>r_section_stack := r_section_stack st @ [trim_whitespace rest]\<rparr>)
             else if ch = CHR ''/'' then
               (if r_section_stack st = [] then Fault
                else let stack = (if last (r_section_stack st) = trim_whitespace rest
                                  then butlast (r_section_stack st) else r_section_stack st)
                     in if stack = []
                        then render_section M R (st\<lparr>r_section_stack := stack, r_in_section := False\<rparr>)
                        else keep (st\<lparr>r_section_stack := stack\<rparr>))
             else keep st)"

definition handle_tag :: "'d mlib \<Rightarrow> 'd render \<Rightarrow> string \<Rightarrow> string \<Rightarrow> 'd rst \<Rightarrow> 'd rst run" where
  "handle_tag M R tag old_wsp st =
     (if r_in_section st then handle_tag_in_section M R tag st
      else case tag of
          [] \<Rightarrow> Done (handle_interpolation_tag M [] True st)
        | ch # rest \<Rightarrow>
            if ch = CHR ''!'' then Done st
            else if ch = CHR ''>'' then handle_partial_tag M R rest old_wsp st
            else if ch = CHR ''#'' then Done (handle_section_tag rest False st)
            else if ch = CHR ''^'' then Done (handle_section_tag rest True st)
            else if ch = CHR ''&'' then Done (handle_interpolation_tag M rest False st)
            else if ch = CHR ''='' \<and> length tag \<ge> 2 \<and> last tag = CHR ''=''
              then Done (handle_delimiter_tag (butlast rest) st)
            else if ch = CHR ''{'' \<and> length tag \<ge> 2 \<and> last tag = CHR ''}''
              then Done (handle_interpolation_tag M (butlast rest) False st)
            else Done (handle_interpolation_tag M tag True st))"

text \<open>\<open>handle_tag(tag_, out2, old_wsp); tag_.clear();\<close>\<close>

definition take_tag :: "'d mlib \<Rightarrow> 'd render \<Rightarrow> string \<Rightarrow> 'd rst \<Rightarrow> 'd rst run" where
  "take_tag M R old_wsp st = rbind (handle_tag M R (r_tag st) old_wsp st) (\<lambda>st'. Done (st'\<lparr>r_tag := []\<rparr>))"


subsection \<open>The state machine\<close>

definition handle_state_leading_wsp :: "'d rst \<Rightarrow> string \<Rightarrow> 'd rst \<times> string" where
  "handle_state_leading_wsp st inp =
     (let ws = r_whitespace st @ takeWhile blank inp; rest = dropWhile blank inp;
          st1 = st\<lparr>r_whitespace := ws\<rparr>
      in case rest of
           [] \<Rightarrow> (st1, rest)
         | c # _ \<Rightarrow>
             if c = hd (r_start_delim st)
             then (st1\<lparr>r_standalone := True, r_state := StartDelim, r_delim_index := 0\<rparr>, rest)
             else ((put (r_in_section st) ws st1)\<lparr>r_whitespace := [], r_state := Passthrough\<rparr>, rest))"

definition finish_state_leading_wsp :: "'d rst \<Rightarrow> 'd rst" where
  "finish_state_leading_wsp st =
     (if r_in_section st then st\<lparr>r_in_section := False\<rparr>
      else if r_whitespace st \<noteq> r_partial_lwsp st
      then (put False (r_whitespace st) st)\<lparr>r_whitespace := [], r_state := Passthrough\<rparr>
      else st)"

text \<open>The delimiters are matched from \<open>delim_index_\<close> on, so a delimiter may be split between two inputs.\<close>

definition handle_state_start_delim :: "'d rst \<Rightarrow> string \<Rightarrow> 'd rst \<times> string" where
  "handle_state_start_delim st inp =
     (let k = length (longest_common_prefix (drop (r_delim_index st) (r_start_delim st)) inp);
          index = r_delim_index st + k; rest = drop k inp; st1 = st\<lparr>r_delim_index := index\<rparr>
      in if index = length (r_start_delim st) then (st1\<lparr>r_state := InTag, r_tag := []\<rparr>, rest)
         else if rest \<noteq> []
         then ((put (r_in_section st) (r_whitespace st @ take index (r_start_delim st)) st1)
                 \<lparr>r_whitespace := [], r_state := Passthrough\<rparr>, rest)
         else (st1, rest))"

definition finish_state_start_delim :: "'d rst \<Rightarrow> 'd rst" where
  "finish_state_start_delim st =
     (if r_in_section st then st\<lparr>r_in_section := False\<rparr>
      else put False (r_whitespace st @ take (r_delim_index st) (r_start_delim st)) st)
       \<lparr>r_whitespace := [], r_state := Passthrough\<rparr>"

definition handle_state_tag :: "'d rst \<Rightarrow> string \<Rightarrow> 'd rst \<times> string" where
  "handle_state_tag st inp =
     (let e = hd (r_end_delim st); rest = dropWhile (\<lambda>c. c \<noteq> e) inp;
          st1 = st\<lparr>r_tag := r_tag st @ takeWhile (\<lambda>c. c \<noteq> e) inp\<rparr>
      in if rest \<noteq> [] then (st1\<lparr>r_state := EndDelim, r_delim_index := 0\<rparr>, rest) else (st1, rest))"

text \<open>The end of the input in \<open>state_tag\<close> and in \<open>state_end_delim\<close>: the unfinished tag is dropped.\<close>

definition finish_state_tag :: "'d rst \<Rightarrow> 'd rst" where
  "finish_state_tag st =
     (if r_in_section st then st\<lparr>r_in_section := False\<rparr> else put False (r_whitespace st) st)
       \<lparr>r_whitespace := [], r_state := Passthrough\<rparr>"

definition finish_state_end_delim :: "'d rst \<Rightarrow> 'd rst" where
  "finish_state_end_delim st =
     (if r_in_section st then st\<lparr>r_in_section := False\<rparr> else put False (r_whitespace st) st)
       \<lparr>r_whitespace := [], r_state := Passthrough\<rparr>"

definition handle_state_end_delim :: "'d mlib \<Rightarrow> 'd render \<Rightarrow> 'd rst \<Rightarrow> string \<Rightarrow> ('d rst \<times> string) run" where
  "handle_state_end_delim M R st inp =
     (let k = length (longest_common_prefix (drop (r_delim_index st) (r_end_delim st)) inp);
          index = r_delim_index st + k; rest = drop k inp; st1 = st\<lparr>r_delim_index := index\<rparr>
      in if index = length (r_end_delim st) then
           (let st2 = (if r_standalone st1 \<and> \<not> is_tag_standalone (r_tag st1)
                       then st1\<lparr>r_standalone := False\<rparr> else st1)
            in if r_end_delim st2 = ''}}'' \<and> r_tag st2 \<noteq> [] \<and> hd (r_tag st2) = CHR ''{''
               then Done (st2\<lparr>r_state := EndTriple\<rparr>, rest)
               else if r_standalone st2 then Done (st2\<lparr>r_state := Standalone\<rparr>, rest)
               else rbind
                 (take_tag M R [] ((put (r_in_section st) (r_whitespace st2) st2)
                    \<lparr>r_whitespace := [], r_state := Passthrough\<rparr>))
                 (\<lambda>st'. Done (st', rest)))
         else if rest \<noteq> []
         then Done (st1\<lparr>r_tag := r_tag st1 @ take index (r_end_delim st1), r_state := InTag\<rparr>, rest)
         else Done (st1, rest))"

definition handle_state_end_triple :: "'d mlib \<Rightarrow> 'd render \<Rightarrow> 'd rst \<Rightarrow> string \<Rightarrow> ('d rst \<times> string) run" where
  "handle_state_end_triple M R st inp =
     (case inp of
        [] \<Rightarrow> Fault
      | c # cs \<Rightarrow>
          let more = (c = CHR ''}'');
              st1 = (if more then st\<lparr>r_tag := r_tag st @ [CHR ''}'']\<rparr> else st)
          in rbind
               (take_tag M R [] ((put (r_in_section st) (r_whitespace st1) st1)
                  \<lparr>r_whitespace := [], r_state := Passthrough\<rparr>))
               (\<lambda>st'. Done (st', if more then cs else inp)))"

definition finish_state_end_triple :: "'d mlib \<Rightarrow> 'd render \<Rightarrow> 'd rst \<Rightarrow> 'd rst run" where
  "finish_state_end_triple M R st =
     (if r_in_section st
      then Done (st\<lparr>r_in_section := False, r_whitespace := [], r_state := Passthrough\<rparr>)
      else take_tag M R [] ((put False (r_whitespace st) st)\<lparr>r_whitespace := [], r_state := Passthrough\<rparr>))"

text \<open>\<open>find_char\<close>: the scalar loop, and the two vector versions, which compare a block of \<open>w\<close> bytes at
  once and take the lowest set bit of the mask of matches.\<close>

definition find_char :: "string \<Rightarrow> char \<Rightarrow> nat" where
  "find_char p delimiter = length (takeWhile (\<lambda>c. c \<noteq> delimiter) p)"

definition handle_state_passthrough :: "'d rst \<Rightarrow> string \<Rightarrow> 'd rst \<times> string" where
  "handle_state_passthrough st inp =
     (let k = find_char inp (hd (r_start_delim st)); rest = drop k inp;
          st1 = put (r_in_section st) (take k inp) st
      in if rest \<noteq> []
         then (st1\<lparr>r_standalone := False, r_state := StartDelim, r_delim_index := 0\<rparr>, rest)
         else (st1, rest))"

definition finish_state_passthrough :: "'d rst \<Rightarrow> 'd rst" where
  "finish_state_passthrough st = st\<lparr>r_in_section := False\<rparr>"

definition handle_state_standalone :: "'d mlib \<Rightarrow> 'd render \<Rightarrow> 'd rst \<Rightarrow> string \<Rightarrow> ('d rst \<times> string) run" where
  "handle_state_standalone M R st inp =
     (case inp of
        [] \<Rightarrow> Fault
      | c # cs \<Rightarrow>
          if c = CHR 0x0D then Done (st\<lparr>r_had_cr := True, r_state := Standalone2\<rparr>, cs)
          else if c = CHR 0x0A then
            rbind (take_tag M R (r_whitespace st)
                (st\<lparr>r_had_cr := False, r_state := LeadingWsp, r_whitespace := r_partial_lwsp st\<rparr>))
              (\<lambda>st'. Done (st', cs))
          else
            rbind (take_tag M R [] ((put (r_in_section st) (r_whitespace st) (st\<lparr>r_had_cr := False\<rparr>))
                \<lparr>r_whitespace := [], r_state := Passthrough\<rparr>))
              (\<lambda>st'. Done (st', inp)))"

definition finish_state_standalone :: "'d mlib \<Rightarrow> 'd render \<Rightarrow> 'd rst \<Rightarrow> 'd rst run" where
  "finish_state_standalone M R st =
     rbind (take_tag M R (r_whitespace st) (st\<lparr>r_state := LeadingWsp, r_whitespace := r_partial_lwsp st\<rparr>))
       (\<lambda>st'. Done (st'\<lparr>r_in_section := False\<rparr>))"

definition handle_state_standalone_2 :: "'d mlib \<Rightarrow> 'd render \<Rightarrow> 'd rst \<Rightarrow> string \<Rightarrow> ('d rst \<times> string) run" where
  "handle_state_standalone_2 M R st inp =
     (case inp of
        [] \<Rightarrow> Fault
      | c # cs \<Rightarrow>
          if c = CHR 0x0A then
            rbind (take_tag M R (r_whitespace st)
                (st\<lparr>r_state := LeadingWsp, r_whitespace := r_partial_lwsp st\<rparr>))
              (\<lambda>st'. Done (st', cs))
          else
            rbind (take_tag M R [] ((put (r_in_section st) (r_whitespace st) st)
                \<lparr>r_whitespace := [], r_state := Passthrough\<rparr>))
              (\<lambda>st'. Done (put (r_in_section st) [CHR 0x0D] st', inp)))"

definition finish_state_standalone_2 :: "'d mlib \<Rightarrow> 'd render \<Rightarrow> 'd rst \<Rightarrow> 'd rst run" where
  "finish_state_standalone_2 M R st =
     (if r_in_section st then
        rbind (take_tag M R [] (st\<lparr>r_whitespace := [], r_state := Passthrough\<rparr>))
          (\<lambda>st'. Done (st'\<lparr>r_in_section := False\<rparr>))
      else
        rbind (take_tag M R [] ((put False (r_whitespace st) st)\<lparr>r_whitespace := [], r_state := Passthrough\<rparr>))
          (\<lambda>st'. Done (put False [CHR 0x0D] st')))"

definition handle_state :: "'d mlib \<Rightarrow> 'd render \<Rightarrow> 'd rst \<Rightarrow> string \<Rightarrow> ('d rst \<times> string) run" where
  "handle_state M R st inp =
     (case r_state st of
        LeadingWsp \<Rightarrow> Done (handle_state_leading_wsp st inp)
      | StartDelim \<Rightarrow> Done (handle_state_start_delim st inp)
      | InTag \<Rightarrow> Done (handle_state_tag st inp)
      | EndDelim \<Rightarrow> handle_state_end_delim M R st inp
      | EndTriple \<Rightarrow> handle_state_end_triple M R st inp
      | Passthrough \<Rightarrow> Done (handle_state_passthrough st inp)
      | Standalone \<Rightarrow> handle_state_standalone M R st inp
      | Standalone2 \<Rightarrow> handle_state_standalone_2 M R st inp)"

definition finish :: "'d mlib \<Rightarrow> 'd render \<Rightarrow> 'd rst \<Rightarrow> 'd rst run" where
  "finish M R st =
     (case r_state st of
        LeadingWsp \<Rightarrow> Done (finish_state_leading_wsp st)
      | StartDelim \<Rightarrow> Done (finish_state_start_delim st)
      | InTag \<Rightarrow> Done (finish_state_tag st)
      | EndDelim \<Rightarrow> Done (finish_state_end_delim st)
      | EndTriple \<Rightarrow> finish_state_end_triple M R st
      | Passthrough \<Rightarrow> Done (finish_state_passthrough st)
      | Standalone \<Rightarrow> finish_state_standalone M R st
      | Standalone2 \<Rightarrow> finish_state_standalone_2 M R st)"

text \<open>\<open>render_loop\<close> is \<open>render_some\<close>; \<open>render_full\<close> is \<open>render_some\<close> and then \<open>finish\<close>, as every caller has them.\<close>

fun render_loop :: "nat \<Rightarrow> 'd mlib \<Rightarrow> 'd render" and render_full :: "nat \<Rightarrow> 'd mlib \<Rightarrow> 'd render" where
  "render_loop 0 M st inp = NoFuel"
| "render_loop (Suc n) M st inp =
     (if inp = [] then Done st
      else rbind (handle_state M (render_full n M) st inp) (\<lambda>(st', rest). render_loop n M st' rest))"
| "render_full 0 M st inp = NoFuel"
| "render_full (Suc n) M st inp = rbind (render_loop n M st inp) (finish M (render_full n M))"

text \<open>\<open>mustache(raw, json)\<close> of \<^verbatim>\<open>extra.cpp\<close>, which passes no partials.\<close>

definition no_partials :: "'d mlib \<Rightarrow> 'd mlib" where
  "no_partials M = M\<lparr>ml_partials := []\<rparr>"

definition mustache :: "nat \<Rightarrow> 'd mlib \<Rightarrow> string \<Rightarrow> 'd json \<Rightarrow> string run" where
  "mustache fuel M raw data =
     rbind (render_full fuel (no_partials M) (renderer data) raw) (\<lambda>st. Done (r_out st))"


subsection \<open>Rendering ends\<close>

text \<open>A run over the fuel that is, from some fuel on, one result, which satisfies \<open>Q\<close>.\<close>

definition ends :: "(nat \<Rightarrow> 'a run) \<Rightarrow> ('a \<Rightarrow> bool) \<Rightarrow> bool" where
  "ends f Q \<longleftrightarrow> (\<exists>x. Q x \<and> (\<exists>N. \<forall>n\<ge>N. f n = Done x))"

lemma ends_Done [simp]: "ends (\<lambda>n. Done x) Q \<longleftrightarrow> Q x"
  by (auto simp: ends_def)

lemma ends_bind:
  assumes "ends f Q" and "\<And>x. Q x \<Longrightarrow> ends (\<lambda>n. g n x) P"
  shows "ends (\<lambda>n. rbind (f n) (g n)) P"
proof -
  obtain x N where x: "Q x" "\<forall>n\<ge>N. f n = Done x" using assms(1) by (auto simp: ends_def)
  obtain y N' where y: "P y" "\<forall>n\<ge>N'. g n x = Done y" using assms(2) [OF x(1)] by (auto simp: ends_def)
  have "\<forall>n\<ge>max N N'. rbind (f n) (g n) = Done y" using x y by simp
  with y(1) show ?thesis unfolding ends_def by blast
qed

lemma ends_map: "ends f (\<lambda>x. P (g x)) \<Longrightarrow> ends (\<lambda>n. rbind (f n) (\<lambda>x. Done (g x))) P"
  by (erule ends_bind) simp

lemma ends_mono: "ends f Q \<Longrightarrow> (\<And>x. Q x \<Longrightarrow> P x) \<Longrightarrow> ends f P"
  by (auto simp: ends_def)

lemma ends_Suc:
  assumes "ends (\<lambda>n. f (Suc n)) Q"
  shows "ends f Q"
proof -
  obtain x N where x: "Q x" "\<forall>n\<ge>N. f (Suc n) = Done x" using assms by (auto simp: ends_def)
  have "f n = Done x" if "n \<ge> Suc N" for n using x(2) that by (cases n) auto
  with x(1) show ?thesis unfolding ends_def by blast
qed

text \<open>What every handler keeps: the delimiters are not empty, no partial is being rendered, a section has
  a name to close, and a matched part of a delimiter is not the whole of it.\<close>

definition ok_state :: "'d rst \<Rightarrow> bool" where
  "ok_state st \<longleftrightarrow> r_start_delim st \<noteq> [] \<and> r_end_delim st \<noteq> [] \<and> r_partial_lwsp st = [] \<and> r_context st \<noteq> []
     \<and> (r_in_section st \<longrightarrow> r_section_stack st \<noteq> [])
     \<and> (r_state st = StartDelim \<longrightarrow> r_delim_index st < length (r_start_delim st))
     \<and> (r_state st = EndDelim \<longrightarrow> r_delim_index st < length (r_end_delim st))
     \<and> (r_state st \<in> {Standalone, Standalone2} \<longrightarrow> r_standalone st)"

text \<open>The text that a state still holds, with a credit of two characters where a tag may yet be buffered with
  a line end that its input does not have.\<close>

definition held :: "'d rst \<Rightarrow> nat" where
  "held st =
     (case r_state st of
        LeadingWsp \<Rightarrow> 0
      | Passthrough \<Rightarrow> 0
      | StartDelim \<Rightarrow> r_delim_index st
      | InTag \<Rightarrow> length (r_start_delim st) + length (r_tag st)
      | EndDelim \<Rightarrow> length (r_start_delim st) + length (r_tag st) + r_delim_index st
      | Standalone2 \<Rightarrow> length (r_start_delim st) + length (r_tag st) + length (r_end_delim st) + 1
      | _ \<Rightarrow> length (r_start_delim st) + length (r_tag st) + length (r_end_delim st))"

definition credit :: "'d rst \<Rightarrow> nat" where
  "credit st =
     (if r_state st = LeadingWsp \<or> (r_standalone st \<and> r_state st \<noteq> Passthrough) then 2 else 0)"

definition burden :: "'d rst \<Rightarrow> nat" where
  "burden st =
     (if r_in_section st then length (r_section_text st) + length (r_whitespace st) + credit st else 0) + held st"

text \<open>The order of the states that follow each other without consuming input.\<close>

definition rank :: "'d rst \<Rightarrow> nat" where
  "rank st =
     (case r_state st of
        Passthrough \<Rightarrow> 2
      | InTag \<Rightarrow> 2
      | StartDelim \<Rightarrow> (if r_delim_index st = 0 then 1 else 3)
      | EndDelim \<Rightarrow> (if r_delim_index st = 0 then 1 else 3)
      | LeadingWsp \<Rightarrow> 3
      | _ \<Rightarrow> 4)"

definition at_delim :: "'d rst \<Rightarrow> string \<Rightarrow> bool" where
  "at_delim st inp \<longleftrightarrow>
     (r_state st = StartDelim \<and> r_delim_index st = 0 \<longrightarrow> inp = [] \<or> hd inp = hd (r_start_delim st))
     \<and> (r_state st = EndDelim \<and> r_delim_index st = 0 \<longrightarrow> inp = [] \<or> hd inp = hd (r_end_delim st))"

definition at_rest :: "'d rst \<Rightarrow> bool" where
  "at_rest st \<longleftrightarrow> r_state st \<in> {LeadingWsp, Passthrough}"

definition quiet :: "'d rst \<Rightarrow> bool" where
  "quiet st \<longleftrightarrow> at_rest st \<and> (r_in_section st \<longrightarrow> r_section_text st = [] \<and> r_whitespace st = [])"

definition rendered :: "'d rst \<Rightarrow> 'd rst \<Rightarrow> bool" where
  "rendered st st' \<longleftrightarrow> ok_state st' \<and> r_context st' = r_context st \<and> quiet st'"

text \<open>The hypothesis of the induction: texts whose weight is below the bound render.\<close>

definition renders_below :: "'d mlib \<Rightarrow> nat \<Rightarrow> bool" where
  "renders_below M b \<longleftrightarrow>
     (\<forall>st txt. ok_state st \<and> at_rest st \<and> burden st + length txt < b
        \<longrightarrow> ends (\<lambda>n. render_full n M st txt) (rendered st))"

lemma put_simps [simp]:
  "r_context (put b s st) = r_context st" "r_state (put b s st) = r_state st"
  "r_in_section (put b s st) = r_in_section st" "r_whitespace (put b s st) = r_whitespace st"
  "r_standalone (put b s st) = r_standalone st" "r_had_cr (put b s st) = r_had_cr st"
  "r_start_delim (put b s st) = r_start_delim st" "r_end_delim (put b s st) = r_end_delim st"
  "r_delim_index (put b s st) = r_delim_index st" "r_tag (put b s st) = r_tag st"
  "r_section_stack (put b s st) = r_section_stack st" "r_partial_lwsp (put b s st) = r_partial_lwsp st"
  "r_section_text (put b s st) = r_section_text st @ (if b then s else [])"
  "r_out (put b s st) = r_out st @ (if b then [] else s)"
  "r_inverted (put b s st) = r_inverted st" "r_section_context (put b s st) = r_section_context st"
  by (simp_all add: put_def)

lemma ok_state_context: "ok_state st \<Longrightarrow> c \<noteq> [] \<Longrightarrow> ok_state (st\<lparr>r_context := c\<rparr>)"
  by (simp add: ok_state_def)

lemma ok_state_rest: "ok_state st \<Longrightarrow> s \<in> {LeadingWsp, Passthrough} \<Longrightarrow> ok_state (st\<lparr>r_state := s\<rparr>)"
  by (auto simp: ok_state_def)

lemma render_items_ends:
  assumes below: "renders_below M b" and room: "length tmp + 2 < b" and st0: "st0 \<in> {LeadingWsp, Passthrough}"
  shows "ok_state st \<Longrightarrow> quiet st \<Longrightarrow>
     ends (\<lambda>n. render_items (render_full n M) tmp st0 items st)
       (\<lambda>st'. ok_state st' \<and> quiet st' \<and> butlast (r_context st') = butlast (r_context st) \<and> r_context st' \<noteq> [])"
proof (induction items arbitrary: st)
  case Nil
  then show ?case by (simp add: ok_state_def)
next
  case (Cons item items)
  let ?st = "st\<lparr>r_context := butlast (r_context st) @ [item]\<rparr>"
  have ok: "ok_state ?st" using Cons.prems(1) by (intro ok_state_context) simp_all
  have "burden ?st \<le> 2" using Cons.prems(2)
    by (auto simp: burden_def quiet_def at_rest_def held_def credit_def)
  then have "burden ?st + length tmp < b" using room by linarith
  moreover have "at_rest ?st" using Cons.prems(2) by (simp add: quiet_def at_rest_def)
  ultimately have "ends (\<lambda>n. render_full n M ?st tmp) (rendered ?st)"
    using below ok unfolding renders_below_def by blast
  then show ?case
    unfolding render_items.simps
  proof (rule ends_bind)
    fix st' assume st': "rendered ?st st'"
    have "ok_state (st'\<lparr>r_state := st0\<rparr>)" using st' st0 by (intro ok_state_rest) (simp_all add: rendered_def)
    moreover have "quiet (st'\<lparr>r_state := st0\<rparr>)"
      using st' st0 by (auto simp: rendered_def quiet_def at_rest_def)
    ultimately have "ends (\<lambda>n. render_items (render_full n M) tmp st0 items (st'\<lparr>r_state := st0\<rparr>))
        (\<lambda>st''. ok_state st'' \<and> quiet st'' \<and> butlast (r_context st'') = butlast (r_context (st'\<lparr>r_state := st0\<rparr>))
           \<and> r_context st'' \<noteq> [])"
      by (rule Cons.IH)
    then show "ends (\<lambda>n. render_items (render_full n M) tmp st0 items (st'\<lparr>r_state := st0\<rparr>))
        (\<lambda>st''. ok_state st'' \<and> quiet st'' \<and> butlast (r_context st'') = butlast (r_context st) \<and> r_context st'' \<noteq> [])"
      using st' by (simp add: rendered_def)
  qed
qed

lemma quiet_below:
  "renders_below M b \<Longrightarrow> ok_state st \<Longrightarrow> quiet st \<Longrightarrow> length txt + 2 < b \<Longrightarrow>
     ends (\<lambda>n. render_full n M st txt) (rendered st)"
proof -
  assume a: "renders_below M b" "ok_state st" "quiet st" "length txt + 2 < b"
  then have "burden st \<le> 2" by (auto simp: burden_def quiet_def at_rest_def held_def credit_def)
  with a have "burden st + length txt < b" "at_rest st" by (auto simp: quiet_def)
  with a show ?thesis unfolding renders_below_def by blast
qed

lemma render_section_ends:
  assumes below: "renders_below M b" and room: "length (r_section_text st) + 2 < b"
    and ok: "ok_state st" and quiet: "quiet st"
  shows "ends (\<lambda>n. render_section M (render_full n M) st) (rendered st)"
proof -
  have here: "ends (\<lambda>n. render_full n M st (r_section_text st)) (rendered st)"
    by (rule quiet_below [OF below ok quiet room])
  have stay: "rendered st st" using ok quiet by (simp add: rendered_def)
  have push: "ends (\<lambda>n. rbind (render_full n M (st\<lparr>r_context := r_context st @ [jv]\<rparr>) (r_section_text st))
      (\<lambda>st'. Done (pop_context st'))) (rendered st)" for jv
  proof (rule ends_map, rule ends_mono)
    have "ok_state (st\<lparr>r_context := r_context st @ [jv]\<rparr>)" using ok by (intro ok_state_context) simp_all
    moreover have "quiet (st\<lparr>r_context := r_context st @ [jv]\<rparr>)" using quiet by (simp add: quiet_def at_rest_def)
    ultimately show "ends (\<lambda>n. render_full n M (st\<lparr>r_context := r_context st @ [jv]\<rparr>) (r_section_text st))
        (rendered (st\<lparr>r_context := r_context st @ [jv]\<rparr>))"
      using room by (intro quiet_below [OF below]) simp_all
    show "rendered st (pop_context st')" if "rendered (st\<lparr>r_context := r_context st @ [jv]\<rparr>) st'" for st'
      using that ok by (auto simp: rendered_def pop_context_def ok_state_def quiet_def at_rest_def)
  qed
  have items: "ends (\<lambda>n. rbind (render_items (render_full n M) (r_section_text st) (r_state st) items
        (st\<lparr>r_context := r_context st @ [JNull]\<rparr>)) (\<lambda>st'. Done (pop_context st'))) (rendered st)" for items
  proof (rule ends_map, rule ends_mono)
    have st0: "r_state st \<in> {LeadingWsp, Passthrough}" using quiet by (simp add: quiet_def at_rest_def)
    have "ok_state (st\<lparr>r_context := r_context st @ [JNull]\<rparr>)" using ok by (intro ok_state_context) simp_all
    moreover have "quiet (st\<lparr>r_context := r_context st @ [JNull]\<rparr>)" using quiet by (simp add: quiet_def at_rest_def)
    ultimately show "ends (\<lambda>n. render_items (render_full n M) (r_section_text st) (r_state st) items
          (st\<lparr>r_context := r_context st @ [JNull]\<rparr>))
        (\<lambda>st'. ok_state st' \<and> quiet st' \<and> butlast (r_context st') = butlast (r_context (st\<lparr>r_context := r_context st @ [JNull]\<rparr>))
           \<and> r_context st' \<noteq> [])"
      by (rule render_items_ends [OF below room st0])
    show "rendered st (pop_context st')"
      if "ok_state st' \<and> quiet st' \<and> butlast (r_context st') = butlast (r_context (st\<lparr>r_context := r_context st @ [JNull]\<rparr>))
        \<and> r_context st' \<noteq> []" for st'
      using that ok by (auto simp: rendered_def pop_context_def ok_state_def quiet_def at_rest_def)
  qed
  show ?thesis
  proof (cases "r_section_context st")
    case None
    then show ?thesis using here stay by (cases "r_inverted st") (simp_all add: render_section_def Let_def)
  next
    case (Some jv)
    show ?thesis
    proof (cases "r_inverted st \<or> \<not> is_value_true M jv")
      case True
      then show ?thesis
        using here stay Some
        by (cases "r_inverted st"; cases "is_value_true M jv") (simp_all add: render_section_def Let_def)
    next
      case False
      then show ?thesis
        using Some push [of jv] items by (cases jv) (simp_all add: render_section_def)
    qed
  qed
qed

text \<open>What a taken tag leaves: the tag buffered in the section it is in, or nothing buffered.\<close>

definition tag_taken :: "'d rst \<Rightarrow> 'd rst \<Rightarrow> bool" where
  "tag_taken st st' \<longleftrightarrow> ok_state st' \<and> at_rest st' \<and> r_context st' = r_context st
     \<and> (r_in_section st' \<longrightarrow> r_whitespace st' = []
         \<and> (r_section_text st' = []
            \<or> r_in_section st \<and> r_state st' = r_state st
              \<and> r_section_text st' = r_section_text st @ buffered_tag (r_tag st) st))"

lemma rendered_taken: "rendered st st' \<Longrightarrow> tag_taken st (st'\<lparr>r_tag := []\<rparr>)"
  by (auto simp: rendered_def tag_taken_def quiet_def at_rest_def ok_state_def)

lemma take_tag_in_section:
  assumes below: "renders_below M b" and ok: "ok_state st" and rest: "at_rest st" and ws: "r_whitespace st = []"
    and sec: "r_in_section st" and room: "r_tag st \<noteq> [] \<longrightarrow> length (r_section_text st) + 2 < b"
  shows "ends (\<lambda>n. take_tag M (render_full n M) w st) (tag_taken st)"
proof -
  have keep: "tag_taken st (st\<lparr>r_section_stack := stack,
      r_section_text := r_section_text st @ buffered_tag (r_tag st) (st\<lparr>r_section_stack := stack\<rparr>), r_tag := []\<rparr>)"
    if "stack \<noteq> []" for stack
    using that ok rest ws sec by (auto simp: tag_taken_def at_rest_def ok_state_def buffered_tag_def)
  have keep0: "tag_taken st (st\<lparr>r_section_text := r_section_text st @ buffered_tag (r_tag st) st, r_tag := []\<rparr>)"
    using ok rest ws sec by (auto simp: tag_taken_def at_rest_def ok_state_def)
  have stack: "r_section_stack st \<noteq> []" using ok sec by (simp add: ok_state_def)
  show ?thesis
  proof (cases "r_tag st")
    case Nil
    then show ?thesis
      using sec keep0 by (simp add: take_tag_def handle_tag_def handle_tag_in_section_def)
  next
    case (Cons ch rest')
    let ?stack = "if last (r_section_stack st) = trim_whitespace rest' then butlast (r_section_stack st) else r_section_stack st"
    show ?thesis
    proof (cases "ch = CHR ''/'' \<and> ?stack = []")
      case True
      let ?st = "st\<lparr>r_section_stack := [], r_in_section := False\<rparr>"
      have sub: "ends (\<lambda>n. render_section M (render_full n M) ?st) (rendered ?st)"
        using ok rest room Cons by (intro render_section_ends [OF below])
          (auto simp: ok_state_def quiet_def at_rest_def)
      have "ends (\<lambda>n. rbind (render_section M (render_full n M) ?st) (\<lambda>st'. Done (st'\<lparr>r_tag := []\<rparr>))) (tag_taken st)"
      proof (rule ends_map, rule ends_mono [OF sub])
        show "tag_taken st (st'\<lparr>r_tag := []\<rparr>)" if "rendered ?st st'" for st'
          using rendered_taken [OF that] by (auto simp: tag_taken_def)
      qed
      moreover have "handle_tag_in_section M R (r_tag st) st = render_section M R ?st" for R
        using True Cons stack by (auto simp: handle_tag_in_section_def Let_def split: if_splits)
      ultimately show ?thesis
        using sec by (simp add: take_tag_def handle_tag_def)
    next
      case False
      have "\<exists>s. s \<noteq> [] \<and> (\<forall>R. handle_tag_in_section M R (r_tag st) st
          = Done (st\<lparr>r_section_stack := s,
              r_section_text := r_section_text st @ buffered_tag (r_tag st) (st\<lparr>r_section_stack := s\<rparr>)\<rparr>))"
      proof (cases "ch = CHR ''/''")
        case True
        with False have "?stack \<noteq> []" by simp
        then show ?thesis
          using True Cons stack by (intro exI [of _ ?stack]) (auto simp: handle_tag_in_section_def Let_def)
      next
        case no_close: False
        show ?thesis
        proof (cases "ch = CHR ''#'' \<or> ch = CHR ''^''")
          case True
          then show ?thesis
            using Cons by (intro exI [of _ "r_section_stack st @ [trim_whitespace rest']"])
              (auto simp: handle_tag_in_section_def Let_def)
        next
          case False
          then show ?thesis
            using no_close Cons stack by (intro exI [of _ "r_section_stack st"]) (auto simp: handle_tag_in_section_def Let_def)
        qed
      qed
      then obtain s where "s \<noteq> []" "\<And>R. handle_tag_in_section M R (r_tag st) st
          = Done (st\<lparr>r_section_stack := s,
              r_section_text := r_section_text st @ buffered_tag (r_tag st) (st\<lparr>r_section_stack := s\<rparr>)\<rparr>)"
        by blast
      then show ?thesis
        using sec keep [of s] by (simp add: take_tag_def handle_tag_def)
    qed
  qed
qed

lemma ends_if: "ends (\<lambda>n. if c then f n else g n) Q \<longleftrightarrow> (if c then ends f Q else ends g Q)"
  by simp

lemma take_tag_outside:
  assumes M: "ml_partials M = []" and ok: "ok_state st" and rest: "at_rest st" and ws: "r_whitespace st = []"
    and sec: "\<not> r_in_section st"
  shows "ends (\<lambda>n. take_tag M (render_full n M) w st) (tag_taken st)"
proof -
  have same: "tag_taken st (st\<lparr>r_tag := []\<rparr>)" using ok rest sec by (auto simp: tag_taken_def ok_state_def at_rest_def)
  have inter: "tag_taken st (handle_interpolation_tag M tag q st\<lparr>r_tag := []\<rparr>)" for tag q
    using ok rest sec
    by (auto simp: handle_interpolation_tag_def tag_taken_def ok_state_def at_rest_def split: option.split)
  have sect: "tag_taken st (handle_section_tag tag i st\<lparr>r_tag := []\<rparr>)" for tag i
    using ok rest ws by (auto simp: handle_section_tag_def tag_taken_def ok_state_def at_rest_def)
  have delim: "tag_taken st (handle_delimiter_tag tag st\<lparr>r_tag := []\<rparr>)" for tag
    using ok rest sec by (auto simp: handle_delimiter_tag_def Let_def tag_taken_def ok_state_def at_rest_def)
  have "ends (\<lambda>n. handle_tag M (render_full n M) (r_tag st) w st) (\<lambda>st'. tag_taken st (st'\<lparr>r_tag := []\<rparr>))"
    using sec same inter sect delim
    by (cases "r_tag st") (simp_all add: handle_tag_def handle_partial_tag_def M ends_if)
  then show ?thesis unfolding take_tag_def by (rule ends_map)
qed

lemma take_tag_ends:
  assumes "ml_partials M = []" and "renders_below M b" and "ok_state st" and "at_rest st" and "r_whitespace st = []"
    and "r_in_section st \<Longrightarrow> r_tag st \<noteq> [] \<Longrightarrow> length (r_section_text st) + 2 < b"
  shows "ends (\<lambda>n. take_tag M (render_full n M) w st) (tag_taken st)"
  using assms take_tag_in_section take_tag_outside by (cases "r_in_section st") blast+

lemma taken_load:
  assumes "tag_taken st st'"
  shows "burden st' \<le> 2 \<or> r_in_section st \<and>
    burden st' \<le> length (r_section_text st) + length (buffered_tag (r_tag st) st) + (if r_state st = LeadingWsp then 2 else 0)"
  using assms by (auto simp: tag_taken_def burden_def at_rest_def held_def credit_def)

lemma taken_rank: "tag_taken st st' \<Longrightarrow> rank st' \<le> 3"
  by (auto simp: tag_taken_def at_rest_def rank_def)

lemma taken_at_delim: "tag_taken st st' \<Longrightarrow> at_delim st' inp"
  by (auto simp: tag_taken_def at_rest_def at_delim_def)

definition stepped :: "'d rst \<Rightarrow> string \<Rightarrow> 'd rst \<times> string \<Rightarrow> bool" where
  "stepped st inp out \<longleftrightarrow>
     (case out of (st', rest) \<Rightarrow>
        ok_state st' \<and> r_context st' = r_context st \<and> at_delim st' rest
        \<and> burden st' + length rest \<le> burden st + length inp
        \<and> 5 * length rest + rank st' < 5 * length inp + rank st)"

lemma common_prefix_length:
  "length (longest_common_prefix xs ys) \<le> length xs" "length (longest_common_prefix xs ys) \<le> length ys"
  by (simp_all add: prefix_length_le longest_common_prefix_prefix1 longest_common_prefix_prefix2)

lemma common_prefix_head:
  "xs \<noteq> [] \<Longrightarrow> ys \<noteq> [] \<Longrightarrow> hd xs = hd ys \<Longrightarrow> 0 < length (longest_common_prefix xs ys)"
  by (cases xs; cases ys) auto

lemma blank_length: "length (takeWhile P xs) + length (dropWhile P xs) = length xs"
  by (metis length_append takeWhile_dropWhile_id)

lemma dropWhile_all: "\<forall>x\<in>set xs. P x \<Longrightarrow> dropWhile P xs = []"
  by simp

lemma dropWhile_absent: "a \<notin> set xs \<Longrightarrow> dropWhile (\<lambda>c. c \<noteq> a) xs = []"
  by auto

lemma stepped_leading_wsp:
  assumes "ok_state st" and "r_state st = LeadingWsp" and "inp \<noteq> []"
  shows "stepped st inp (handle_state_leading_wsp st inp)"
  using assms blank_length [of blank inp]
  by (auto simp: handle_state_leading_wsp_def Let_def stepped_def ok_state_def at_delim_def burden_def held_def
      credit_def rank_def dropWhile_all split: list.split)

lemma stepped_passthrough:
  assumes "ok_state st" and "r_state st = Passthrough" and "inp \<noteq> []"
  shows "stepped st inp (handle_state_passthrough st inp)"
proof -
  let ?P = "\<lambda>c. c \<noteq> hd (r_start_delim st)"
  have d: "drop (find_char inp (hd (r_start_delim st))) inp = dropWhile ?P inp"
    "take (find_char inp (hd (r_start_delim st))) inp = takeWhile ?P inp"
    by (simp_all add: find_char_def dropWhile_eq_drop takeWhile_eq_take [symmetric])
  have "dropWhile ?P inp \<noteq> [] \<Longrightarrow> hd (dropWhile ?P inp) = hd (r_start_delim st)"
    using hd_dropWhile [of ?P inp] by blast
  with assms blank_length [of ?P inp] show ?thesis
    unfolding handle_state_passthrough_def Let_def d
    by (auto simp: stepped_def ok_state_def at_delim_def burden_def held_def credit_def rank_def dropWhile_absent)
qed

lemma stepped_tag:
  assumes "ok_state st" and "r_state st = InTag" and "inp \<noteq> []"
  shows "stepped st inp (handle_state_tag st inp)"
proof -
  let ?P = "\<lambda>c. c \<noteq> hd (r_end_delim st)"
  have "dropWhile ?P inp \<noteq> [] \<Longrightarrow> hd (dropWhile ?P inp) = hd (r_end_delim st)"
    using hd_dropWhile [of ?P inp] by blast
  with assms blank_length [of ?P inp] show ?thesis
    by (auto simp: handle_state_tag_def Let_def stepped_def ok_state_def at_delim_def burden_def held_def credit_def rank_def
        dropWhile_absent)
qed

lemma stepped_start_delim:
  assumes ok: "ok_state st" and st: "r_state st = StartDelim" and inp: "inp \<noteq> []" "at_delim st inp"
  shows "stepped st inp (handle_state_start_delim st inp)"
proof -
  define k where "k = length (longest_common_prefix (drop (r_delim_index st) (r_start_delim st)) inp)"
  have idx: "r_delim_index st < length (r_start_delim st)" using ok st by (simp add: ok_state_def)
  then have sd: "0 < length (r_start_delim st)" by linarith
  have k: "r_delim_index st + k \<le> length (r_start_delim st)" "k \<le> length inp"
    using common_prefix_length [of "drop (r_delim_index st) (r_start_delim st)" inp] idx unfolding k_def by auto
  have pos: "0 < k" if "r_delim_index st = 0"
    using that inp st ok unfolding k_def by (intro common_prefix_head) (auto simp: at_delim_def ok_state_def)
  show ?thesis
    using ok st inp(1) idx k pos sd unfolding handle_state_start_delim_def Let_def k_def [symmetric]
    by (auto simp: stepped_def ok_state_def at_delim_def burden_def held_def credit_def rank_def
        simp del: length_greater_0_conv)
qed

lemma load_state_less:
  "r_in_section st \<Longrightarrow> length (r_section_text st) + length (r_whitespace st) + held st \<le> burden st"
  by (simp add: burden_def)

text \<open>The four handlers that take a tag; in each the weight of the tag pays for the nested rendering.\<close>

lemma put_Nil [simp]: "put b [] st = st"
  by (simp add: put_def)

lemma put_keeps: "ok_state (put c x st) = ok_state st" "at_rest (put c x st) = at_rest st" "rank (put c x st) = rank st"
  "at_delim (put c x st) inp = at_delim st inp" "burden (put c x st) \<le> burden st + length x"
  by (cases "r_state st"; simp add: ok_state_def at_rest_def rank_def at_delim_def burden_def held_def credit_def)+

lemma taken_step:
  assumes M: "ml_partials M = []" and below: "renders_below M b"
    and ok: "ok_state st1" and rest: "at_rest st1" and ws: "r_whitespace st1 = []"
    and room: "r_in_section st1 \<Longrightarrow> r_tag st1 \<noteq> [] \<Longrightarrow> length (r_section_text st1) + 2 < b"
    and ctx: "r_context st1 = r_context st"
    and load2: "2 + length x + length inp' \<le> burden st + length inp"
    and load1: "r_in_section st1 \<Longrightarrow> length (r_section_text st1) + length (buffered_tag (r_tag st1) st1)
      + (if r_state st1 = LeadingWsp then 2 else 0) + length x + length inp' \<le> burden st + length inp"
    and steps: "5 * length inp' + 3 < 5 * length inp + rank st"
  shows "ends (\<lambda>n. rbind (take_tag M (render_full n M) w st1) (\<lambda>st'. Done (put c x st', inp'))) (stepped st inp)"
proof (rule ends_map, rule ends_mono [OF take_tag_ends [OF M below ok rest ws room]])
  fix st' assume t: "tag_taken st1 st'"
  show "stepped st inp (put c x st', inp')"
    using t taken_load [OF t] taken_rank [OF t] taken_at_delim [OF t] ctx load1 load2 steps put_keeps(5) [of c x st']
    by (auto simp: stepped_def tag_taken_def put_keeps(1-4))
qed

lemmas taken_step0 = taken_step [where x = "[]", simplified put_Nil]

lemma stepped_end_delim:
  assumes M: "ml_partials M = []" and below: "renders_below M b"
    and ok: "ok_state st" and st: "r_state st = EndDelim" and inp: "inp \<noteq> []" "at_delim st inp"
    and b: "burden st + length inp \<le> b"
  shows "ends (\<lambda>n. handle_state_end_delim M (render_full n M) st inp) (stepped st inp)"
proof -
  define k where "k = length (longest_common_prefix (drop (r_delim_index st) (r_end_delim st)) inp)"
  have idx: "r_delim_index st < length (r_end_delim st)" using ok st by (simp add: ok_state_def)
  then have ed: "0 < length (r_end_delim st)" by linarith
  have sd: "0 < length (r_start_delim st)" using ok by (simp add: ok_state_def)
  have k: "r_delim_index st + k \<le> length (r_end_delim st)" "k \<le> length inp"
    using common_prefix_length [of "drop (r_delim_index st) (r_end_delim st)" inp] idx unfolding k_def by auto
  have pos: "0 < k" if "r_delim_index st = 0"
    using that inp st ok unfolding k_def by (intro common_prefix_head) (auto simp: at_delim_def ok_state_def)
  show ?thesis
  proof (cases "r_delim_index st + k = length (r_end_delim st)")
    case False
    then show ?thesis
      using ok st inp(1) idx k pos ed unfolding handle_state_end_delim_def Let_def k_def [symmetric]
      by (auto simp: ends_if stepped_def ok_state_def at_delim_def burden_def held_def credit_def rank_def
          simp del: length_greater_0_conv)
  next
    case True
    then have pos: "0 < k" using idx by linarith
    define st2 where "st2 = (if r_standalone st \<and> \<not> is_tag_standalone (r_tag st)
      then st\<lparr>r_delim_index := r_delim_index st + k, r_standalone := False\<rparr>
      else st\<lparr>r_delim_index := r_delim_index st + k\<rparr>)"
    have st2: "r_context st2 = r_context st" "r_in_section st2 = r_in_section st" "r_whitespace st2 = r_whitespace st"
      "r_start_delim st2 = r_start_delim st" "r_end_delim st2 = r_end_delim st" "r_tag st2 = r_tag st"
      "r_section_stack st2 = r_section_stack st" "r_section_text st2 = r_section_text st"
      "r_partial_lwsp st2 = r_partial_lwsp st" "r_standalone st2 \<longrightarrow> r_standalone st" "r_state st2 = EndDelim"
      by (simp_all add: st2_def st)
    let ?st3 = "(put (r_in_section st) (r_whitespace st2) st2)\<lparr>r_whitespace := [], r_state := Passthrough\<rparr>"
    have keep: "stepped st inp (st2\<lparr>r_state := s\<rparr>, drop k inp)"
      if "s = EndTriple \<or> s = Standalone \<and> r_standalone st2" for s
      using that ok st k pos ed True unfolding stepped_def
      by (auto simp: ok_state_def at_delim_def burden_def held_def credit_def rank_def st2
          simp del: length_greater_0_conv)
    have tag: "ends (\<lambda>n. rbind (take_tag M (render_full n M) [] ?st3) (\<lambda>st'. Done (st', drop k inp))) (stepped st inp)"
      if "\<not> r_standalone st2"
    proof (rule taken_step0 [OF M below])
      show "ok_state ?st3" using ok by (simp add: ok_state_def st2)
      show "at_rest ?st3" by (simp add: at_rest_def)
      show "length (r_section_text ?st3) + 2 < b" if "r_in_section ?st3" "r_tag ?st3 \<noteq> []"
      proof -
        have "r_tag st \<noteq> []" "r_in_section st" using that by (simp_all add: st2)
        then have "0 < length (r_tag st)" by simp
        then show ?thesis
          using b k pos sd True load_state_less [OF \<open>r_in_section st\<close>] that st by (simp add: held_def st2 del: length_greater_0_conv)
      qed
      show "2 + length ([] :: string) + length (drop k inp) \<le> burden st + length inp"
        using st pos k ed sd by (simp add: burden_def held_def del: length_greater_0_conv)
      show "length (r_section_text ?st3) + length (buffered_tag (r_tag ?st3) ?st3)
          + (if r_state ?st3 = LeadingWsp then 2 else 0) + length ([] :: string) + length (drop k inp) \<le> burden st + length inp"
        if "r_in_section ?st3"
        using that \<open>\<not> r_standalone st2\<close> k True st by (simp add: buffered_tag_def st2 burden_def held_def)
    qed (use pos k st2 in simp_all)
    show ?thesis
      using True keep [of EndTriple] keep [of Standalone] tag
      unfolding handle_state_end_delim_def Let_def k_def [symmetric]
      by (simp add: ends_if st2_def)
  qed
qed

lemma held_room:
  assumes ok: "ok_state st" and st: "r_state st \<in> {EndTriple, Standalone, Standalone2}"
  shows "held st + 2 \<le> burden st + 2" and "2 \<le> held st" and "r_state st = Standalone2 \<Longrightarrow> 3 \<le> held st"
    and "r_in_section st \<Longrightarrow> burden st + n \<le> b \<Longrightarrow> 0 < n \<Longrightarrow> length (r_section_text st) + length (r_whitespace st) + 2 < b"
proof -
  obtain n1 n2 where pos: "length (r_start_delim st) = Suc n1" "length (r_end_delim st) = Suc n2"
    using ok by (cases "r_start_delim st"; cases "r_end_delim st") (auto simp: ok_state_def)
  show "2 \<le> held st" "r_state st = Standalone2 \<Longrightarrow> 3 \<le> held st" using st pos by (auto simp: held_def)
  then show "r_in_section st \<Longrightarrow> burden st + n \<le> b \<Longrightarrow> 0 < n \<Longrightarrow> length (r_section_text st) + length (r_whitespace st) + 2 < b"
    using load_state_less [of st] by linarith
qed (simp add: burden_def)

lemma stepped_end_triple:
  assumes M: "ml_partials M = []" and below: "renders_below M b"
    and ok: "ok_state st" and st: "r_state st = EndTriple" and inp: "inp \<noteq> []" and b: "burden st + length inp \<le> b"
  shows "ends (\<lambda>n. handle_state_end_triple M (render_full n M) st inp) (stepped st inp)"
proof -
  obtain c cs where inp': "inp = c # cs" using inp by (cases inp) auto
  define st1 where "st1 = (if c = CHR ''}'' then st\<lparr>r_tag := r_tag st @ [CHR ''}'']\<rparr> else st)"
  have st1: "r_context st1 = r_context st" "r_in_section st1 = r_in_section st" "r_whitespace st1 = r_whitespace st"
    "r_start_delim st1 = r_start_delim st" "r_end_delim st1 = r_end_delim st" "r_standalone st1 = r_standalone st"
    "r_section_stack st1 = r_section_stack st" "r_section_text st1 = r_section_text st"
    "r_partial_lwsp st1 = r_partial_lwsp st" "r_state st1 = EndTriple" "r_had_cr st1 = r_had_cr st"
    "length (r_tag st1) = length (r_tag st) + (if c = CHR ''}'' then 1 else 0)"
    by (simp_all add: st1_def st)
  have "r_state st \<in> {EndTriple, Standalone, Standalone2}" using st by simp
  note room = held_room [OF ok this]
  let ?st3 = "(put (r_in_section st) (r_whitespace st1) st1)\<lparr>r_whitespace := [], r_state := Passthrough\<rparr>"
  have "ends (\<lambda>n. rbind (take_tag M (render_full n M) [] ?st3) (\<lambda>st'. Done (st', if c = CHR ''}'' then cs else inp))) (stepped st inp)"
  proof (rule taken_step0 [OF M below])
    show "ok_state ?st3" using ok by (simp add: ok_state_def st1)
    show "at_rest ?st3" by (simp add: at_rest_def)
    show "length (r_section_text ?st3) + 2 < b" if "r_in_section ?st3"
      using that room(4) [of "length inp" b] b inp by (simp add: st1)
    show "2 + length ([] :: string) + length (if c = CHR ''}'' then cs else inp) \<le> burden st + length inp"
      using room(1,2) by (simp add: inp')
    show "length (r_section_text ?st3) + length (buffered_tag (r_tag ?st3) ?st3)
        + (if r_state ?st3 = LeadingWsp then 2 else 0) + length ([] :: string)
        + length (if c = CHR ''}'' then cs else inp) \<le> burden st + length inp" if "r_in_section ?st3"
      using that st by (simp add: buffered_tag_def st1 burden_def held_def credit_def inp')
  qed (use st st1 in \<open>simp_all add: inp' rank_def\<close>)
  then show ?thesis
    unfolding handle_state_end_triple_def inp' list.case Let_def st1_def by (simp only: list.case)
qed

lemma standalone_line:
  assumes M: "ml_partials M = []" and below: "renders_below M b"
    and ok: "ok_state st" and st: "r_state st = Standalone \<and> h = False \<or> r_state st = Standalone2 \<and> h = r_had_cr st"
    and b: "burden st + Suc (length cs) \<le> b"
  shows "ends (\<lambda>n. rbind (take_tag M (render_full n M) (r_whitespace st)
      (st\<lparr>r_had_cr := h, r_state := LeadingWsp, r_whitespace := r_partial_lwsp st\<rparr>)) (\<lambda>st'. Done (st', cs))) (stepped st (c # cs))"
proof (rule taken_step0 [OF M below])
  let ?st = "st\<lparr>r_had_cr := h, r_state := LeadingWsp, r_whitespace := r_partial_lwsp st\<rparr>"
  have "r_state st \<in> {EndTriple, Standalone, Standalone2}" using st by auto
  note room = held_room [OF ok this]
  have line: "r_standalone st" "r_partial_lwsp st = []" using ok st by (auto simp: ok_state_def)
  show "ok_state ?st" using ok by (simp add: ok_state_def)
  show "length (r_section_text ?st) + 2 < b" if "r_in_section ?st"
    using that room(4) [of "Suc (length cs)" b] b by simp
  show "2 + length ([] :: string) + length cs \<le> burden st + length (c # cs)"
    using room(1,2) by simp
  show "length (r_section_text ?st) + length (buffered_tag (r_tag ?st) ?st)
      + (if r_state ?st = LeadingWsp then 2 else 0) + length ([] :: string) + length cs \<le> burden st + length (c # cs)"
    if "r_in_section ?st"
    using that st line by (auto simp: buffered_tag_def burden_def held_def credit_def)
qed (use ok st in \<open>auto simp: at_rest_def ok_state_def rank_def\<close>)

lemma standalone_text:
  assumes M: "ml_partials M = []" and below: "renders_below M b"
    and ok: "ok_state st"
    and st: "r_state st = Standalone \<and> h = False \<and> x = [] \<or> r_state st = Standalone2 \<and> h = r_had_cr st \<and> length x = 1"
    and inp: "inp \<noteq> []" and b: "burden st + length inp \<le> b"
  shows "ends (\<lambda>n. rbind (take_tag M (render_full n M) []
      ((put (r_in_section st) (r_whitespace st) (st\<lparr>r_had_cr := h\<rparr>))\<lparr>r_whitespace := [], r_state := Passthrough\<rparr>))
      (\<lambda>st'. Done (put (r_in_section st) x st', inp))) (stepped st inp)"
proof (rule taken_step [OF M below])
  let ?st = "(put (r_in_section st) (r_whitespace st) (st\<lparr>r_had_cr := h\<rparr>))\<lparr>r_whitespace := [], r_state := Passthrough\<rparr>"
  have "r_state st \<in> {EndTriple, Standalone, Standalone2}" using st by auto
  note room = held_room [OF ok this]
  have line: "r_standalone st" using ok st by (auto simp: ok_state_def)
  show "ok_state ?st" using ok by (simp add: ok_state_def)
  show "length (r_section_text ?st) + 2 < b" if "r_in_section ?st"
    using that room(4) [of "length inp" b] b inp by simp
  show "2 + length x + length inp \<le> burden st + length inp"
    using room(1-3) st by auto
  show "length (r_section_text ?st) + length (buffered_tag (r_tag ?st) ?st)
      + (if r_state ?st = LeadingWsp then 2 else 0) + length x + length inp \<le> burden st + length inp"
    if "r_in_section ?st"
    using that st line by (auto simp: buffered_tag_def burden_def held_def credit_def)
qed (use ok st in \<open>auto simp: at_rest_def ok_state_def rank_def\<close>)

lemma stepped_standalone:
  assumes M: "ml_partials M = []" and below: "renders_below M b"
    and ok: "ok_state st" and st: "r_state st = Standalone" and inp: "inp \<noteq> []" and b: "burden st + length inp \<le> b"
  shows "ends (\<lambda>n. handle_state_standalone M (render_full n M) st inp) (stepped st inp)"
proof -
  obtain c cs where inp': "inp = c # cs" using inp by (cases inp) auto
  have cr: "stepped st inp (st\<lparr>r_had_cr := True, r_state := Standalone2\<rparr>, cs)"
    using ok st by (auto simp: inp' stepped_def ok_state_def at_delim_def burden_def held_def credit_def rank_def)
  show ?thesis
    using cr standalone_line [OF M below ok, of False cs c] standalone_text [OF M below ok, of False "[]" inp] st b inp
    by (auto simp: handle_state_standalone_def inp' ends_if)
qed

lemma had_cr_same: "st\<lparr>r_had_cr := r_had_cr st\<rparr> = st"
  by simp

lemma stepped_standalone_2:
  assumes M: "ml_partials M = []" and below: "renders_below M b"
    and ok: "ok_state st" and st: "r_state st = Standalone2" and inp: "inp \<noteq> []" and b: "burden st + length inp \<le> b"
  shows "ends (\<lambda>n. handle_state_standalone_2 M (render_full n M) st inp) (stepped st inp)"
proof -
  obtain c cs where inp': "inp = c # cs" using inp by (cases inp) auto
  show ?thesis
    using standalone_line [OF M below ok, of "r_had_cr st" cs c] standalone_text [OF M below ok, of "r_had_cr st" "[CHR 0x0D]" inp]
      st b inp
    by (auto simp: handle_state_standalone_2_def inp' ends_if)
qed

lemma handle_state_steps:
  assumes M: "ml_partials M = []" and below: "renders_below M b"
    and ok: "ok_state st" and inp: "inp \<noteq> []" "at_delim st inp" and b: "burden st + length inp \<le> b"
  shows "ends (\<lambda>n. handle_state M (render_full n M) st inp) (stepped st inp)"
  using stepped_leading_wsp [OF ok _ inp(1)] stepped_start_delim [OF ok _ inp] stepped_tag [OF ok _ inp(1)]
    stepped_end_delim [OF M below ok _ inp b] stepped_end_triple [OF M below ok _ inp(1) b]
    stepped_passthrough [OF ok _ inp(1)] stepped_standalone [OF M below ok _ inp(1) b]
    stepped_standalone_2 [OF M below ok _ inp(1) b]
  by (cases "r_state st") (simp_all add: handle_state_def)

lemma render_loop_ends:
  assumes M: "ml_partials M = []" and below: "renders_below M b"
  shows "ok_state st \<Longrightarrow> at_delim st inp \<Longrightarrow> burden st + length inp \<le> b \<Longrightarrow>
     ends (\<lambda>n. render_loop n M st inp)
       (\<lambda>st'. ok_state st' \<and> r_context st' = r_context st \<and> burden st' \<le> burden st + length inp)"
proof (induction "5 * length inp + rank st" arbitrary: st inp rule: less_induct)
  case less
  show ?case
  proof (cases "inp = []")
    case True
    with less.prems show ?thesis by (intro ends_Suc [of "\<lambda>n. render_loop n M st inp"]) simp
  next
    case False
    have "ends (\<lambda>n. rbind (handle_state M (render_full n M) st inp) (\<lambda>(st', rest). render_loop n M st' rest))
      (\<lambda>st'. ok_state st' \<and> r_context st' = r_context st \<and> burden st' \<le> burden st + length inp)"
    proof (rule ends_bind [OF handle_state_steps [OF M below less.prems(1) False less.prems(2,3)]])
      fix x assume x: "stepped st inp x"
      obtain st1 rest where x': "x = (st1, rest)" by (cases x)
      have s: "ok_state st1" "r_context st1 = r_context st" "at_delim st1 rest"
        "burden st1 + length rest \<le> burden st + length inp" "5 * length rest + rank st1 < 5 * length inp + rank st"
        using x by (simp_all add: x' stepped_def)
      have "ends (\<lambda>n. render_loop n M st1 rest)
          (\<lambda>st'. ok_state st' \<and> r_context st' = r_context st1 \<and> burden st' \<le> burden st1 + length rest)"
        using less.hyps [OF s(5) s(1,3)] s(4) less.prems(3) by linarith
      then show "ends (\<lambda>n. case x of (st', rest) \<Rightarrow> render_loop n M st' rest)
          (\<lambda>st'. ok_state st' \<and> r_context st' = r_context st \<and> burden st' \<le> burden st + length inp)"
        using s(2,4) by (auto simp: x' elim: ends_mono)
    qed
    then show ?thesis
      using False by (intro ends_Suc [of "\<lambda>n. render_loop n M st inp"]) simp
  qed
qed

text \<open>The end of the input: the states that hold a whole tag take it, the others drop what they hold.\<close>

lemma finish_ends:
  assumes M: "ml_partials M = []" and below: "renders_below M b" and ok: "ok_state st" and b: "burden st \<le> b"
  shows "ends (\<lambda>n. finish M (render_full n M) st) (rendered st)"
proof -
  have fin: "rendered st (finish_state_leading_wsp st)" if "r_state st = LeadingWsp"
    using ok that by (auto simp: rendered_def quiet_def at_rest_def finish_state_leading_wsp_def ok_state_def)
  have fin': "rendered st (finish_state_start_delim st)" "rendered st (finish_state_tag st)"
    "rendered st (finish_state_end_delim st)"
    using ok by (auto simp: rendered_def quiet_def at_rest_def finish_state_start_delim_def finish_state_tag_def
        finish_state_end_delim_def ok_state_def)
  have pass: "rendered st (finish_state_passthrough st)" if "r_state st = Passthrough"
    using ok that by (auto simp: rendered_def quiet_def at_rest_def finish_state_passthrough_def ok_state_def)
  have held_tag: "length (r_section_text st) + 2 < b"
    if s: "r_state st = Standalone \<or> r_state st = Standalone2" and sec: "r_in_section st" and tag: "r_tag st \<noteq> []"
  proof -
    obtain n1 n2 n3 where "length (r_start_delim st) = Suc n1" "length (r_end_delim st) = Suc n2" "length (r_tag st) = Suc n3"
      using ok tag by (cases "r_start_delim st"; cases "r_end_delim st"; cases "r_tag st") (auto simp: ok_state_def)
    then show ?thesis using load_state_less [OF sec] s b by (auto simp: held_def)
  qed
  have triple: "ends (\<lambda>n. finish_state_end_triple M (render_full n M) st) (rendered st)"
  proof (cases "r_in_section st")
    case True
    then show ?thesis
      using ok by (auto simp: finish_state_end_triple_def rendered_def quiet_def at_rest_def ok_state_def)
  next
    case False
    let ?st = "(put False (r_whitespace st) st)\<lparr>r_whitespace := [], r_state := Passthrough\<rparr>"
    have "ends (\<lambda>n. take_tag M (render_full n M) [] ?st) (tag_taken ?st)"
      using ok False by (intro take_tag_ends [OF M below]) (auto simp: ok_state_def at_rest_def)
    then show ?thesis
      using False unfolding finish_state_end_triple_def
      by (auto elim!: ends_mono simp: tag_taken_def rendered_def quiet_def)
  qed
  have alone: "ends (\<lambda>n. finish_state_standalone M (render_full n M) st) (rendered st)" if s: "r_state st = Standalone"
  proof -
    let ?st = "st\<lparr>r_state := LeadingWsp, r_whitespace := r_partial_lwsp st\<rparr>"
    have "ends (\<lambda>n. take_tag M (render_full n M) (r_whitespace st) ?st) (tag_taken ?st)"
      using ok held_tag s by (intro take_tag_ends [OF M below]) (auto simp: ok_state_def at_rest_def)
    then show ?thesis
      unfolding finish_state_standalone_def
      by (intro ends_map, elim ends_mono) (auto simp: tag_taken_def rendered_def quiet_def at_rest_def ok_state_def)
  qed
  have alone2: "ends (\<lambda>n. finish_state_standalone_2 M (render_full n M) st) (rendered st)" if s: "r_state st = Standalone2"
  proof (cases "r_in_section st")
    case True
    let ?st = "st\<lparr>r_whitespace := [], r_state := Passthrough\<rparr>"
    have "ends (\<lambda>n. take_tag M (render_full n M) [] ?st) (tag_taken ?st)"
      using ok held_tag s by (intro take_tag_ends [OF M below]) (auto simp: ok_state_def at_rest_def)
    then have "ends (\<lambda>n. rbind (take_tag M (render_full n M) [] ?st) (\<lambda>st'. Done (st'\<lparr>r_in_section := False\<rparr>))) (rendered st)"
      by (intro ends_map, elim ends_mono) (auto simp: tag_taken_def rendered_def quiet_def at_rest_def ok_state_def)
    then show ?thesis using True by (simp add: finish_state_standalone_2_def)
  next
    case False
    let ?st = "(put False (r_whitespace st) st)\<lparr>r_whitespace := [], r_state := Passthrough\<rparr>"
    have "ends (\<lambda>n. take_tag M (render_full n M) [] ?st) (tag_taken ?st)"
      using ok False by (intro take_tag_ends [OF M below]) (auto simp: ok_state_def at_rest_def)
    then have "ends (\<lambda>n. rbind (take_tag M (render_full n M) [] ?st) (\<lambda>st'. Done (put False [CHR 0x0D] st'))) (rendered st)"
      using False by (intro ends_map, elim ends_mono) (auto simp: tag_taken_def rendered_def quiet_def at_rest_def ok_state_def)
    then show ?thesis using False by (simp add: finish_state_standalone_2_def)
  qed
  show ?thesis
    using fin fin' pass triple alone alone2 by (cases "r_state st") (simp_all add: finish_def)
qed

lemma renders_all:
  assumes M: "ml_partials M = []"
  shows "renders_below M b"
proof (induction b)
  case 0
  then show ?case by (simp add: renders_below_def)
next
  case (Suc b)
  show ?case
    unfolding renders_below_def
  proof (intro allI impI, elim conjE)
    fix st :: "'a rst" and body :: string assume st: "ok_state st" "at_rest st" "burden st + length body < Suc b"
    have "at_delim st body" using st(2) by (auto simp: at_rest_def at_delim_def)
    with st have loop: "ends (\<lambda>n. render_loop n M st body)
        (\<lambda>st'. ok_state st' \<and> r_context st' = r_context st \<and> burden st' \<le> burden st + length body)"
      by (intro render_loop_ends [OF M Suc]) simp_all
    have "ends (\<lambda>n. rbind (render_loop n M st body) (finish M (render_full n M))) (rendered st)"
    proof (rule ends_bind [OF loop])
      fix st' assume s: "ok_state st' \<and> r_context st' = r_context st \<and> burden st' \<le> burden st + length body"
      then have "ends (\<lambda>n. finish M (render_full n M) st') (rendered st')"
        using st(3) by (intro finish_ends [OF M Suc]) auto
      then show "ends (\<lambda>n. finish M (render_full n M) st') (rendered st)"
        by (rule ends_mono) (use s in \<open>simp add: rendered_def\<close>)
    qed
    then show "ends (\<lambda>n. render_full n M st body) (rendered st)"
      by (intro ends_Suc [of "\<lambda>n. render_full n M st body"]) simp
  qed
qed

text \<open>C28. Rendering a template always ends, with a text and never in a failed assertion: for every template,
  however malformed, and every data there is one result that each large enough fuel gives. The section
  a section body opens is shorter than the body, also where the renderer adds a line end of its own.\<close>

theorem mustache_terminates: "\<exists>text N. \<forall>more. mustache (N + more) M raw data = Done text"
proof -
  have "ok_state (renderer data)" "at_rest (renderer data)"
    by (simp_all add: ok_state_def renderer_def at_rest_def)
  moreover have "renders_below (no_partials M) (Suc (burden (renderer data) + length raw))"
    by (rule renders_all) (simp add: no_partials_def)
  ultimately have "ends (\<lambda>n. render_full n (no_partials M) (renderer data) raw) (rendered (renderer data))"
    unfolding renders_below_def by blast
  then obtain st N where "\<forall>n\<ge>N. render_full n (no_partials M) (renderer data) raw = Done st"
    by (auto simp: ends_def)
  then have "\<forall>more. mustache (N + more) M raw data = Done (r_out st)" by (simp add: mustache_def)
  then show ?thesis by blast
qed

subsection \<open>The vector search\<close>

text \<open>A block of as many bytes as the mask has bits, compared with the delimiter at once; the lowest set bit.\<close>

definition cmpeq_mask :: "string \<Rightarrow> char \<Rightarrow> 'w::len word" where
  "cmpeq_mask block delimiter = horner_sum of_bool 2 (map (\<lambda>c. c = delimiter) block)"

definition ctz :: "'w::len word \<Rightarrow> nat" where
  "ctz m = length (takeWhile (\<lambda>i. \<not> bit m i) [0..<LENGTH('w)])"

function find_char_vec :: "'w::len itself \<Rightarrow> string \<Rightarrow> char \<Rightarrow> nat" where
  "find_char_vec t p delimiter =
     (if LENGTH('w) \<le> length p then
        (let mask = (cmpeq_mask (take LENGTH('w) p) delimiter :: 'w word)
         in if mask \<noteq> 0 then ctz mask else LENGTH('w) + find_char_vec t (drop LENGTH('w) p) delimiter)
      else find_char p delimiter)"
  by pat_completeness auto
termination
  by (relation "measure (\<lambda>(t, p, d). length p)")
    (simp_all, metis diff_less len_gt_0 less_le_trans)

declare find_char_vec.simps [simp del]

lemma bit_cmpeq_mask:
  "length block = LENGTH('w::len) \<Longrightarrow> i < LENGTH('w) \<Longrightarrow>
     bit (cmpeq_mask block delimiter :: 'w word) i \<longleftrightarrow> block ! i = delimiter"
  by (simp add: cmpeq_mask_def bit_horner_sum_bit_word_iff)

lemma cmpeq_mask_0:
  assumes "length block = LENGTH('w::len)"
  shows "(cmpeq_mask block delimiter :: 'w word) = 0 \<longleftrightarrow> delimiter \<notin> set block"
proof -
  have "(cmpeq_mask block delimiter :: 'w word) = 0 \<longleftrightarrow> (\<forall>i<LENGTH('w). block ! i \<noteq> delimiter)"
    using bit_cmpeq_mask [OF assms, of _ delimiter]
    by (metis bit_0_eq bot_apply bot_bool_def bit_word_eqI)
  then show ?thesis using assms by (auto simp: in_set_conv_nth)
qed

lemma takeWhile_index: "length (takeWhile (\<lambda>i. P (xs ! i)) [0..<length xs]) = length (takeWhile P xs)"
proof -
  have "takeWhile (\<lambda>i. P (xs ! i)) [0..<length xs] = takeWhile (P \<circ> (!) xs) [0..<length xs]" by (simp add: comp_def)
  moreover have "takeWhile P xs = map ((!) xs) (takeWhile (P \<circ> (!) xs) [0..<length xs])"
    by (metis map_nth takeWhile_map)
  ultimately show ?thesis by simp
qed

lemma ctz_mask:
  assumes "length block = LENGTH('w::len)"
  shows "ctz (cmpeq_mask block delimiter :: 'w word) = find_char block delimiter"
proof -
  have "takeWhile (\<lambda>i. \<not> bit (cmpeq_mask block delimiter :: 'w word) i) [0..<LENGTH('w)]
      = takeWhile (\<lambda>i. block ! i \<noteq> delimiter) [0..<length block]"
    unfolding assms by (rule takeWhile_cong) (simp_all add: bit_cmpeq_mask [OF assms])
  then show ?thesis
    using takeWhile_index [of "\<lambda>c. c \<noteq> delimiter" block] by (simp add: ctz_def find_char_def)
qed

text \<open>The vector searches find what the scalar loop finds, whatever the width of the block: the 64 bytes
  of AVX-512 and the 32 bytes of AVX2 give the same rendering as the portable build.\<close>

theorem find_char_vec_scalar: "find_char_vec t p delimiter = find_char p delimiter"
proof (induction t p delimiter rule: find_char_vec.induct)
  case (1 t p delimiter)
  let ?w = "LENGTH('a)"
  show ?case
  proof (cases "?w \<le> length p")
    case False
    then show ?thesis by (subst find_char_vec.simps) simp
  next
    case True
    then have len: "length (take ?w p) = ?w" by simp
    show ?thesis
    proof (cases "delimiter \<in> set (take ?w p)")
      case hit: True
      then have "find_char p delimiter = find_char (take ?w p) delimiter"
        unfolding find_char_def
        by (subst append_take_drop_id [of ?w p, symmetric], subst takeWhile_append1) auto
      then show ?thesis
        using True hit by (subst find_char_vec.simps) (simp add: Let_def cmpeq_mask_0 [OF len] ctz_mask [OF len])
    next
      case miss: False
      have zero: "(cmpeq_mask (take ?w p) delimiter :: 'a word) = 0" using miss by (simp add: cmpeq_mask_0 [OF len])
      have "find_char p delimiter = ?w + find_char (drop ?w p) delimiter"
        using miss len unfolding find_char_def
        by (subst append_take_drop_id [of ?w p, symmetric], subst takeWhile_append2) auto
      then show ?thesis
        using True zero 1 [OF True refl] by (subst find_char_vec.simps) (simp add: Let_def)
    qed
  qed
qed

subsection \<open>What a template says\<close>

lemma loop_end: "Q st \<Longrightarrow> ends (\<lambda>n. render_loop n M st []) Q"
  by (intro ends_Suc [of "\<lambda>n. render_loop n M st []"]) simp

lemma loop_step:
  "inp \<noteq> [] \<Longrightarrow> (\<And>R. handle_state M R st inp = Done (st', rest)) \<Longrightarrow>
   ends (\<lambda>n. render_loop n M st' rest) Q \<Longrightarrow> ends (\<lambda>n. render_loop n M st inp) Q"
  by (intro ends_Suc [of "\<lambda>n. render_loop n M st inp"]) simp

lemma loop_step_run:
  "inp \<noteq> [] \<Longrightarrow> ends (\<lambda>n. rbind (handle_state M (render_full n M) st inp) (\<lambda>(st', rest). render_loop n M st' rest)) Q \<Longrightarrow>
   ends (\<lambda>n. render_loop n M st inp) Q"
  by (intro ends_Suc [of "\<lambda>n. render_loop n M st inp"]) simp

lemma full_run:
  "ends (\<lambda>n. rbind (render_loop n M st inp) (finish M (render_full n M))) Q \<Longrightarrow> ends (\<lambda>n. render_full n M st inp) Q"
  by (intro ends_Suc [of "\<lambda>n. render_full n M st inp"]) simp

text \<open>A state between tags, with the default delimiters.\<close>

definition plain :: "'d rst \<Rightarrow> bool" where
  "plain st \<longleftrightarrow> r_state st = Passthrough \<and> r_whitespace st = []
     \<and> r_start_delim st = ''{{'' \<and> r_end_delim st = ''}}''"

lemma until_char:
  "c \<notin> set p \<Longrightarrow> takeWhile (\<lambda>x. x \<noteq> c) (p @ c # r) = p" "c \<notin> set p \<Longrightarrow> dropWhile (\<lambda>x. x \<noteq> c) (p @ c # r) = c # r"
  "c \<notin> set p \<Longrightarrow> takeWhile (\<lambda>x. x \<noteq> c) p = p"
  by (induction p) auto

lemma find_char_absent: "c \<notin> set p \<Longrightarrow> find_char (p @ c # rest) c = length p" "c \<notin> set p \<Longrightarrow> find_char p c = length p"
  by (simp_all add: find_char_def until_char)

text \<open>Text without a brace goes out, or into the section, as it is.\<close>

lemma loop_plain_text:
  assumes st: "plain st" and p: "CHR ''{'' \<notin> set p" and Q: "Q (put (r_in_section st) p st)"
  shows "ends (\<lambda>n. render_loop n M st p) Q"
proof (cases "p = []")
  case True
  then show ?thesis using Q by (simp add: loop_end)
next
  case False
  have "handle_state M R st p = Done (put (r_in_section st) p st, [])" for R
    using st p by (simp add: handle_state_def plain_def handle_state_passthrough_def find_char_absent)
  then show ?thesis by (rule loop_step [OF False]) (rule loop_end [of Q, OF Q])
qed

text \<open>A tag that cannot stand alone or be a triple is taken with the text before it written. Text of blanks at
  the start of the input is kept in the state until then.\<close>

definition tag_read :: "string \<Rightarrow> string \<Rightarrow> 'd rst \<Rightarrow> 'd rst" where
  "tag_read p tag st = (put (r_in_section st) p st)\<lparr>r_standalone := False, r_state := Passthrough,
     r_whitespace := [], r_delim_index := 2, r_tag := tag\<rparr>"

definition before_delim :: "string \<Rightarrow> bool \<Rightarrow> 'd rst \<Rightarrow> 'd rst" where
  "before_delim w alone st = st\<lparr>r_whitespace := w, r_standalone := alone, r_state := StartDelim, r_delim_index := 0\<rparr>"

lemma loop_before_delim:
  assumes d: "r_start_delim st = ''{{''" "r_end_delim st = ''}}''"
    and alone: "alone \<Longrightarrow> \<not> is_tag_standalone tag"
    and tag: "CHR ''}'' \<notin> set tag" "tag \<noteq> []" "hd tag \<noteq> CHR ''{''"
    and run: "ends (\<lambda>n. rbind (take_tag M (render_full n M) [] (tag_read w tag st)) (\<lambda>st'. render_loop n M st' rest)) Q"
  shows "ends (\<lambda>n. render_loop n M (before_delim w alone st) (''{{'' @ tag @ ''}}'' @ rest)) Q"
proof -
  let ?s2 = "st\<lparr>r_whitespace := w, r_standalone := alone, r_state := InTag, r_delim_index := 2, r_tag := []\<rparr>"
  have h2: "handle_state M R (before_delim w alone st) (''{{'' @ tag @ ''}}'' @ rest) = Done (?s2, tag @ ''}}'' @ rest)" for R
    using d by (simp add: handle_state_def handle_state_start_delim_def before_delim_def numeral_2_eq_2)
  let ?s3 = "st\<lparr>r_whitespace := w, r_standalone := alone, r_state := EndDelim, r_delim_index := 0, r_tag := tag\<rparr>"
  have "dropWhile (\<lambda>c. c \<noteq> CHR ''}'') (tag @ ''}}'' @ rest) = ''}}'' @ rest"
    "takeWhile (\<lambda>c. c \<noteq> CHR ''}'') (tag @ ''}}'' @ rest) = tag"
    using tag(1) by (simp_all add: until_char)
  then have h3: "handle_state M R ?s2 (tag @ ''}}'' @ rest) = Done (?s3, ''}}'' @ rest)" for R
    using d by (simp add: handle_state_def handle_state_tag_def Let_def)
  have h4: "handle_state M R ?s3 (''}}'' @ rest)
      = rbind (take_tag M R [] (tag_read w tag st)) (\<lambda>st'. Done (st', rest))" for R
    using d tag alone
    by (cases alone)
      (simp_all add: handle_state_def handle_state_end_delim_def tag_read_def numeral_2_eq_2,
       (rule arg_cong [where f = "\<lambda>x. rbind (take_tag M R [] x) (\<lambda>st'. Done (st', rest))"], simp add: put_def)+)
  have "ends (\<lambda>n. rbind (rbind (take_tag M (render_full n M) [] (tag_read w tag st)) (\<lambda>st'. Done (st', rest)))
      (\<lambda>(st', rest). render_loop n M st' rest)) Q"
  proof -
    have "rbind (rbind m (\<lambda>st'. Done (st', rest))) (\<lambda>(st', rest). f st' rest) = rbind m (\<lambda>st'. f st' rest)"
      for m :: "'a rst run" and f :: "'a rst \<Rightarrow> string \<Rightarrow> 'a rst run"
      by (cases m) simp_all
    with run show ?thesis by simp
  qed
  then have "ends (\<lambda>n. render_loop n M ?s3 (''}}'' @ rest)) Q"
    by (intro loop_step_run) (simp_all only: h4, simp)
  then have "ends (\<lambda>n. render_loop n M ?s2 (tag @ ''}}'' @ rest)) Q"
    by (intro loop_step [OF _ h3]) simp_all
  then show ?thesis by (intro loop_step [OF _ h2]) simp_all
qed

lemma loop_tag:
  assumes st: "plain st" and p: "CHR ''{'' \<notin> set p"
    and tag: "CHR ''}'' \<notin> set tag" "tag \<noteq> []" "hd tag \<noteq> CHR ''{''"
    and run: "ends (\<lambda>n. rbind (take_tag M (render_full n M) [] (tag_read p tag st)) (\<lambda>st'. render_loop n M st' rest)) Q"
  shows "ends (\<lambda>n. render_loop n M st (p @ ''{{'' @ tag @ ''}}'' @ rest)) Q"
proof -
  let ?s = "put (r_in_section st) p st"
  have h: "handle_state M R st (p @ ''{{'' @ tag @ ''}}'' @ rest) = Done (before_delim [] False ?s, ''{{'' @ tag @ ''}}'' @ rest)" for R
    using st p by (simp add: plain_def handle_state_def handle_state_passthrough_def find_char_absent before_delim_def put_def)
  have "tag_read [] tag ?s = tag_read p tag st" by (simp add: tag_read_def)
  then have "ends (\<lambda>n. render_loop n M (before_delim [] False ?s) (''{{'' @ tag @ ''}}'' @ rest)) Q"
    using st run tag by (intro loop_before_delim) (simp_all add: plain_def)
  then show ?thesis by (intro loop_step [OF _ h]) simp_all
qed

lemma loop_first_tag:
  assumes st: "r_state st = LeadingWsp" "r_whitespace st = []" "r_start_delim st = ''{{''" "r_end_delim st = ''}}''"
    and p: "CHR ''{'' \<notin> set p" and alone: "\<not> is_tag_standalone tag \<or> \<not> list_all blank p"
    and tag: "CHR ''}'' \<notin> set tag" "tag \<noteq> []" "hd tag \<noteq> CHR ''{''"
    and run: "ends (\<lambda>n. rbind (take_tag M (render_full n M) [] (tag_read p tag st)) (\<lambda>st'. render_loop n M st' rest)) Q"
  shows "ends (\<lambda>n. render_loop n M st (p @ ''{{'' @ tag @ ''}}'' @ rest)) Q"
proof (cases "list_all blank p")
  case True
  then have w: "takeWhile blank (p @ ''{{'' @ tag @ ''}}'' @ rest) = p" "dropWhile blank (p @ ''{{'' @ tag @ ''}}'' @ rest) = ''{{'' @ tag @ ''}}'' @ rest"
    by (simp_all add: list_all_iff blank_def [of "CHR ''{''"])
  have h: "handle_state M R st (p @ ''{{'' @ tag @ ''}}'' @ rest) = Done (before_delim p True st, ''{{'' @ tag @ ''}}'' @ rest)" for R
    using st w by (simp add: handle_state_def handle_state_leading_wsp_def before_delim_def Let_def)
  have "ends (\<lambda>n. render_loop n M (before_delim p True st) (''{{'' @ tag @ ''}}'' @ rest)) Q"
    using True alone st run tag by (intro loop_before_delim) simp_all
  then show ?thesis by (intro loop_step [OF _ h]) simp_all
next
  case False
  define q where "q = dropWhile blank p"
  have q: "q \<noteq> []" "\<not> blank (hd q)" "p = takeWhile blank p @ q"
    using False hd_dropWhile [of blank p] by (auto simp: q_def list_all_iff)
  let ?s = "(put (r_in_section st) (takeWhile blank p) st)\<lparr>r_whitespace := [], r_state := Passthrough\<rparr>"
  obtain c cs where c: "q = c # cs" using q(1) by (cases q) auto
  have "set q \<subseteq> set p" unfolding q_def by (auto dest: set_dropWhileD)
  then have c': "c \<noteq> CHR ''{''" using p c by auto
  have w: "takeWhile blank (p @ r) = takeWhile blank p" "dropWhile blank (p @ r) = q @ r" for r
    using False by (auto simp: list_all_iff takeWhile_append dropWhile_append q_def)
  have h: "handle_state M R st (p @ r) = Done (?s, q @ r)" for R r
    using st w [of r] c c' by (simp add: handle_state_def handle_state_leading_wsp_def Let_def put_def)
  have "tag_read q tag ?s = tag_read (takeWhile blank p @ q) tag st"
    using st by (simp add: tag_read_def put_def)
  then have eq: "tag_read q tag ?s = tag_read p tag st" by (simp only: q(3) [symmetric])
  have "ends (\<lambda>n. render_loop n M ?s (q @ ''{{'' @ tag @ ''}}'' @ rest)) Q"
  proof (rule loop_tag [OF _ _ tag])
    show "plain ?s" using st by (simp add: plain_def)
    show "CHR ''{'' \<notin> set q" using p \<open>set q \<subseteq> set p\<close> by auto
    show "ends (\<lambda>n. rbind (take_tag M (render_full n M) [] (tag_read q tag ?s)) (\<lambda>st'. render_loop n M st' rest)) Q"
      unfolding eq by (rule run)
  qed
  then show ?thesis by (rule loop_step [OF _ h, rotated]) simp
qed

text \<open>A plain name: no delimiter, no sign of another tag, no blank.\<close>

definition tag_name :: "string \<Rightarrow> bool" where
  "tag_name x \<longleftrightarrow> x \<noteq> [] \<and> list_all (\<lambda>c. c \<notin> set (''{}!>#^&=/ '' @ [CHR 0x09])) x"

definition tag_field :: "'d mlib \<Rightarrow> 'd json list \<Rightarrow> string \<Rightarrow> string" where
  "tag_field M contexts x =
     (case lookup_value (renderer JNull\<lparr>r_context := contexts\<rparr>) x of
        None \<Rightarrow> [] | Some jv \<Rightarrow> output_value M jv True)"

lemma lookup_value_cong: "r_context st = r_context st' \<Longrightarrow> lookup_value st x = lookup_value st' x"
  by (simp only: lookup_value_def)

lemma lookup_context: "lookup_value (renderer JNull\<lparr>r_context := r_context st\<rparr>) x = lookup_value st x"
  by (rule lookup_value_cong) simp

lemma trim_whitespace_id: "list_all (\<lambda>c. \<not> blank c) x \<Longrightarrow> trim_whitespace x = x"
proof -
  have d: "dropWhile blank x = x" if "list_all (\<lambda>c. \<not> blank c) x" for x using that by (cases x) auto
  assume a: "list_all (\<lambda>c. \<not> blank c) x"
  then have "list_all (\<lambda>c. \<not> blank c) (rev x)" by (simp add: list_all_iff)
  with a d show ?thesis by (simp add: trim_whitespace_def trim_leading_whitespace_def trim_trailing_whitespace_def)
qed

lemma tag_name_facts:
  assumes "tag_name x"
  shows "x \<noteq> []" "trim_whitespace x = x" "CHR ''}'' \<notin> set x" "CHR ''{'' \<notin> set x" "hd x \<noteq> CHR ''{''"
    "\<not> is_tag_standalone x"
proof -
  obtain c cs where x: "x = c # cs" using assms by (cases x) (auto simp: tag_name_def)
  have "list_all (\<lambda>c. \<not> blank c) x" using assms by (auto simp: tag_name_def list_all_iff blank_def)
  then show "trim_whitespace x = x" by (rule trim_whitespace_id)
  show "x \<noteq> []" "CHR ''}'' \<notin> set x" "CHR ''{'' \<notin> set x" "hd x \<noteq> CHR ''{''" "\<not> is_tag_standalone x"
    using assms by (auto simp: tag_name_def list_all_iff x is_tag_standalone_def trim_leading_whitespace_def blank_def)
qed

lemma take_name:
  assumes x: "tag_name x" and sec: "\<not> r_in_section st"
  shows "take_tag M R w (tag_read p x st) = Done (tag_read (p @ tag_field M (r_context st) x) [] st)"
proof -
  obtain c cs where xc: "x = c # cs" using x by (cases x) (auto simp: tag_name_def)
  have c: "c \<notin> set ''{}!>#^&=/ ''" using x by (auto simp: tag_name_def xc)
  have same: "lookup_value (tag_read p x st) x = lookup_value st x" by (rule lookup_value_cong) (simp add: tag_read_def)
  have "handle_tag M R x w (tag_read p x st) = Done (handle_interpolation_tag M x True (tag_read p x st))"
    using sec c unfolding xc by (simp add: handle_tag_def tag_read_def)
  moreover have "handle_interpolation_tag M x True (tag_read p x st)\<lparr>r_tag := []\<rparr> = tag_read (p @ tag_field M (r_context st) x) [] st"
    using sec tag_name_facts(2) [OF x] same
    by (simp add: handle_interpolation_tag_def tag_field_def lookup_context split: option.split)
      (simp add: tag_read_def put_def)
  moreover have "r_tag (tag_read p x st) = x" by (simp add: tag_read_def)
  ultimately show ?thesis by (simp add: take_tag_def)
qed

lemma plain_tag_read: "r_start_delim st = ''{{'' \<Longrightarrow> r_end_delim st = ''}}'' \<Longrightarrow> plain (tag_read p tag st)"
  by (simp add: plain_def tag_read_def)

lemma finish_plain: "r_state st = Passthrough \<Longrightarrow> finish M R st = Done (st\<lparr>r_in_section := False\<rparr>)"
  by (simp add: finish_def finish_state_passthrough_def)

text \<open>What is left after a text that ends outside all tags.\<close>

definition wrote :: "'d rst \<Rightarrow> string \<Rightarrow> 'd rst \<Rightarrow> bool" where
  "wrote st s st' \<longleftrightarrow> plain st' \<and> \<not> r_in_section st' \<and> r_context st' = r_context st \<and> r_out st' = r_out st @ s"

lemma body_wrote:
  assumes st: "plain st" "\<not> r_in_section st" and b: "CHR ''{'' \<notin> set b1" "CHR ''{'' \<notin> set b2" and x: "tag_name x"
  shows "ends (\<lambda>n. render_full n M st (b1 @ ''{{'' @ x @ ''}}'' @ b2)) (wrote st (b1 @ tag_field M (r_context st) x @ b2))"
proof (rule full_run)
  note nf = tag_name_facts [OF x]
  let ?st = "tag_read (b1 @ tag_field M (r_context st) x) [] st"
  have "plain ?st" using st by (simp add: plain_def tag_read_def)
  have all: "ends (\<lambda>n. render_loop n M st (b1 @ ''{{'' @ x @ ''}}'' @ b2)) Q" if "ends (\<lambda>n. render_loop n M ?st b2) Q" for Q
    using that take_name [OF x st(2)] by (intro loop_tag [OF st(1) b(1) nf(3) nf(1) nf(5)]) simp
  have "ends (\<lambda>n. render_loop n M ?st b2) (\<lambda>s. plain s \<and> \<not> r_in_section s \<and> r_context s = r_context st
      \<and> r_out s = r_out st @ b1 @ tag_field M (r_context st) x @ b2)"
    using \<open>plain ?st\<close> b(2) by (intro loop_plain_text) (use st in \<open>simp_all add: tag_read_def plain_def\<close>)
  from all [OF this]
  show "ends (\<lambda>n. rbind (render_loop n M st (b1 @ ''{{'' @ x @ ''}}'' @ b2)) (finish M (render_full n M)))
      (wrote st (b1 @ tag_field M (r_context st) x @ b2))"
    by (rule ends_bind) (auto simp: wrote_def plain_def finish_plain)
qed

lemma quoted_escapeH: "quoted_write s = escapeH s"
  by (induction s) (auto simp: quoted_write_def quoted_char_def escapeH_def escapeH_char_def)

lemma output_quoted: "\<exists>s. output_value M jv True = quoted_write s"
proof (cases jv)
  case JNull
  have "output_value M jv True = quoted_write []" by (simp add: JNull output_value_def quoted_write_def)
  then show ?thesis by (rule exI)
qed (simp_all add: output_value_def maybe_quoted_write_def, blast+)

lemma field_quoted: "\<exists>s. tag_field M cs x = quoted_write s"
proof (cases "lookup_value (renderer JNull\<lparr>r_context := cs\<rparr>) x")
  case None
  then have "tag_field M cs x = quoted_write []" by (simp add: tag_field_def quoted_write_def)
  then show ?thesis by (rule exI)
qed (simp add: tag_field_def output_quoted)

lemma mustache_from:
  assumes "ends (\<lambda>n. render_full n (no_partials M) (renderer data) raw) (\<lambda>st. r_out st = text)"
  shows "\<exists>N. \<forall>fuel\<ge>N. mustache fuel M raw data = Done text"
proof -
  obtain st N where "r_out st = text" "\<forall>n\<ge>N. render_full n (no_partials M) (renderer data) raw = Done st"
    using assms by (auto simp: ends_def)
  then have "\<forall>fuel\<ge>N. mustache fuel M raw data = Done text" by (simp add: mustache_def)
  then show ?thesis by (rule exI)
qed

lemma field_no_partials [simp]: "tag_field (no_partials M) cs x = tag_field M cs x"
proof -
  have "output_value (no_partials M) jv q = output_value M jv q" for jv q
    by (cases jv) (simp_all add: output_value_def no_partials_def)
  then show ?thesis by (simp add: tag_field_def split: option.split)
qed

text \<open>C30. A template with one plain tag renders as the text before it, the value of the name with the four
  characters that HTML gives a meaning replaced, and the text after it. The inserted text opens no element and ends no
  double-quoted attribute, and a string reads back from it; a name without a value leaves nothing.\<close>

theorem interpolation_escaped:
  assumes x: "tag_name x" and plain: "CHR ''{'' \<notin> set pre" "CHR ''{'' \<notin> set post"
  shows "(\<exists>N. \<forall>fuel\<ge>N. mustache fuel M (pre @ ''{{'' @ x @ ''}}'' @ post) data = Done (pre @ tag_field M [data] x @ post))
    \<and> set (tag_field M [data] x) \<inter> {CHR ''<'', CHR ''>'', CHR 0x22} = {}
    \<and> (case lookup_value (renderer data) x of
         None \<Rightarrow> tag_field M [data] x = []
       | Some (JString s) \<Rightarrow> unescapeH (tag_field M [data] x) = s
       | Some _ \<Rightarrow> True)"
proof (intro conjI)
  note nf = tag_name_facts [OF x]
  let ?M = "no_partials M" and ?st = "renderer data"
  let ?st' = "tag_read (pre @ tag_field M [data] x) [] ?st"
  have ctx: "r_context ?st = [data]" "\<not> r_in_section ?st" by (simp_all add: renderer_def)
  have "ends (\<lambda>n. render_loop n ?M ?st' post) (\<lambda>s. plain s \<and> r_out s = pre @ tag_field M [data] x @ post)"
    by (rule loop_plain_text) (use plain(2) in \<open>simp_all add: tag_read_def plain_def renderer_def\<close>)
  then have "ends (\<lambda>n. rbind (take_tag ?M (render_full n ?M) [] (tag_read pre x ?st)) (\<lambda>s. render_loop n ?M s post))
      (\<lambda>s. plain s \<and> r_out s = pre @ tag_field M [data] x @ post)"
    using take_name [OF x ctx(2), of ?M] by (simp add: ctx)
  then have "ends (\<lambda>n. render_loop n ?M ?st (pre @ ''{{'' @ x @ ''}}'' @ post)) (\<lambda>s. plain s \<and> r_out s = pre @ tag_field M [data] x @ post)"
    by (intro loop_first_tag) (use plain nf in \<open>simp_all add: renderer_def\<close>)
  then have "ends (\<lambda>n. render_full n ?M ?st (pre @ ''{{'' @ x @ ''}}'' @ post)) (\<lambda>s. r_out s = pre @ tag_field M [data] x @ post)"
    by (intro full_run, elim ends_bind) (simp add: plain_def finish_plain)
  then show "\<exists>N. \<forall>fuel\<ge>N. mustache fuel M (pre @ ''{{'' @ x @ ''}}'' @ post) data = Done (pre @ tag_field M [data] x @ post)"
    by (rule mustache_from)
next
  obtain s where "tag_field M [data] x = escapeH s" using field_quoted quoted_escapeH by metis
  then show "set (tag_field M [data] x) \<inter> {CHR ''<'', CHR ''>'', CHR 0x22} = {}"
    by (auto simp: escapeH_def escapeH_char_def split: if_splits)
next
  have "lookup_value (renderer JNull\<lparr>r_context := [data]\<rparr>) x = lookup_value (renderer data) x"
    by (rule lookup_value_cong) (simp add: renderer_def)
  then show "case lookup_value (renderer data) x of None \<Rightarrow> tag_field M [data] x = []
      | Some (JString s) \<Rightarrow> unescapeH (tag_field M [data] x) = s | Some _ \<Rightarrow> True"
    by (auto simp: tag_field_def output_value_def maybe_quoted_write_def quoted_escapeH unescapeH_escapeH
        split: option.split json.split)
qed

lemma items_wrote:
  assumes b: "CHR ''{'' \<notin> set b1" "CHR ''{'' \<notin> set b2" and x: "tag_name x"
  shows "plain st \<Longrightarrow> \<not> r_in_section st \<Longrightarrow> r_context st \<noteq> [] \<Longrightarrow>
     ends (\<lambda>n. render_items (render_full n M) (b1 @ ''{{'' @ x @ ''}}'' @ b2) Passthrough items st)
       (\<lambda>st'. plain st' \<and> \<not> r_in_section st' \<and> r_context st' \<noteq> [] \<and> butlast (r_context st') = butlast (r_context st)
          \<and> r_out st' = r_out st @ concat (map (\<lambda>it. b1 @ tag_field M (butlast (r_context st) @ [it]) x @ b2) items))"
proof (induction items arbitrary: st)
  case Nil
  then show ?case by simp
next
  case (Cons it items)
  let ?st = "st\<lparr>r_context := butlast (r_context st) @ [it]\<rparr>"
  let ?body = "b1 @ ''{{'' @ x @ ''}}'' @ b2"
  have "plain ?st" "\<not> r_in_section ?st" using Cons.prems by (simp_all add: plain_def)
  from body_wrote [OF this b x] have "ends (\<lambda>n. render_full n M ?st ?body)
      (wrote ?st (b1 @ tag_field M (butlast (r_context st) @ [it]) x @ b2))"
    by simp
  then show ?case
    unfolding render_items.simps
  proof (rule ends_bind)
    fix st' assume w: "wrote ?st (b1 @ tag_field M (butlast (r_context st) @ [it]) x @ b2) st'"
    let ?st' = "st'\<lparr>r_state := Passthrough\<rparr>"
    have s: "plain ?st'" "\<not> r_in_section ?st'" "r_context ?st' \<noteq> []"
      "butlast (r_context ?st') = butlast (r_context st)"
      "r_out ?st' = r_out st @ b1 @ tag_field M (butlast (r_context st) @ [it]) x @ b2"
      using w by (simp_all add: wrote_def plain_def)
    from Cons.IH [OF s(1-3)] show "ends (\<lambda>n. render_items (render_full n M) ?body Passthrough items ?st')
        (\<lambda>st'. plain st' \<and> \<not> r_in_section st' \<and> r_context st' \<noteq> [] \<and> butlast (r_context st') = butlast (r_context st)
          \<and> r_out st' = r_out st @ concat (map (\<lambda>it. b1 @ tag_field M (butlast (r_context st) @ [it]) x @ b2) (it # items)))"
      unfolding s(4,5) by simp
  qed
qed

text \<open>What a section of one tag writes: once per item of a list, once for another true value, and the
  inverted section when there is no true value.\<close>

definition section_writes :: "'d mlib \<Rightarrow> bool \<Rightarrow> 'd json \<Rightarrow> 'd json option \<Rightarrow> string \<Rightarrow> string \<Rightarrow> string \<Rightarrow> string" where
  "section_writes M inverted data v b1 x b2 =
     (case v of
        None \<Rightarrow> if inverted then b1 @ tag_field M [data] x @ b2 else []
      | Some jv \<Rightarrow>
          if is_value_true M jv = inverted then []
          else if inverted then b1 @ tag_field M [data] x @ b2
          else (case jv of
              JArray items \<Rightarrow> concat (map (\<lambda>it. b1 @ tag_field M [data, it] x @ b2) items)
            | _ \<Rightarrow> b1 @ tag_field M [data, jv] x @ b2))"

lemma section_wrote:
  assumes b: "CHR ''{'' \<notin> set b1" "CHR ''{'' \<notin> set b2" and x: "tag_name x"
    and st: "plain st" "\<not> r_in_section st" "r_context st = [data]"
    and body: "r_section_text st = b1 @ ''{{'' @ x @ ''}}'' @ b2"
  shows "ends (\<lambda>n. render_section M (render_full n M) st)
    (wrote st (section_writes M (r_inverted st) data (r_section_context st) b1 x b2))"
proof -
  let ?body = "b1 @ ''{{'' @ x @ ''}}'' @ b2"
  have here: "ends (\<lambda>n. render_full n M st ?body) (wrote st (b1 @ tag_field M [data] x @ b2))"
    using body_wrote [OF st(1,2) b x] by (simp add: st(3))
  have stay: "wrote st [] st" using st by (simp add: wrote_def)
  have push: "ends (\<lambda>n. rbind (render_full n M (st\<lparr>r_context := [data, jv]\<rparr>) ?body) (\<lambda>st'. Done (pop_context st')))
      (wrote st (b1 @ tag_field M [data, jv] x @ b2))" for jv
  proof (rule ends_map, rule ends_mono)
    have "plain (st\<lparr>r_context := [data, jv]\<rparr>)" "\<not> r_in_section (st\<lparr>r_context := [data, jv]\<rparr>)"
      using st by (simp_all add: plain_def)
    from body_wrote [OF this b x] show "ends (\<lambda>n. render_full n M (st\<lparr>r_context := [data, jv]\<rparr>) ?body)
        (wrote (st\<lparr>r_context := [data, jv]\<rparr>) (b1 @ tag_field M [data, jv] x @ b2))"
      by simp
    show "wrote st s (pop_context st')" if "wrote (st\<lparr>r_context := [data, jv]\<rparr>) s st'" for s st'
      using that st by (simp add: wrote_def pop_context_def plain_def)
  qed
  have each: "ends (\<lambda>n. rbind (render_items (render_full n M) ?body Passthrough items (st\<lparr>r_context := [data, JNull]\<rparr>))
      (\<lambda>st'. Done (pop_context st'))) (wrote st (concat (map (\<lambda>it. b1 @ tag_field M [data, it] x @ b2) items)))" for items
  proof (rule ends_map, rule ends_mono)
    have "plain (st\<lparr>r_context := [data, JNull]\<rparr>)" "\<not> r_in_section (st\<lparr>r_context := [data, JNull]\<rparr>)"
      "r_context (st\<lparr>r_context := [data, JNull]\<rparr>) \<noteq> []"
      using st by (simp_all add: plain_def)
    from items_wrote [OF b x this] show "ends (\<lambda>n. render_items (render_full n M) ?body Passthrough items (st\<lparr>r_context := [data, JNull]\<rparr>))
        (\<lambda>st'. plain st' \<and> \<not> r_in_section st' \<and> butlast (r_context st') = [data]
          \<and> r_out st' = r_out st @ concat (map (\<lambda>it. b1 @ tag_field M [data, it] x @ b2) items))"
      by (rule ends_mono) simp
    show "wrote st s (pop_context st')"
      if "plain st' \<and> \<not> r_in_section st' \<and> butlast (r_context st') = [data] \<and> r_out st' = r_out st @ s" for s st'
      using that st by (simp add: wrote_def pop_context_def plain_def)
  qed
  have state: "r_state st = Passthrough" using st(1) by (simp add: plain_def)
  show ?thesis
  proof (cases "r_section_context st")
    case None
    then show ?thesis
      using here stay by (cases "r_inverted st") (simp_all add: render_section_def Let_def section_writes_def body)
  next
    case (Some jv)
    show ?thesis
    proof (cases "r_inverted st \<or> \<not> is_value_true M jv")
      case True
      then show ?thesis
        using Some here stay
        by (cases "r_inverted st"; cases "is_value_true M jv")
          (simp_all add: render_section_def Let_def section_writes_def body)
    next
      case False
      then show ?thesis
        using Some push [of jv] each
        by (cases jv) (simp_all add: render_section_def Let_def section_writes_def body st(3) state)
    qed
  qed
qed

lemma take_open:
  assumes name: "tag_name name" and sec: "\<not> r_in_section st"
  shows "take_tag M R w (tag_read p ((if inverted then CHR ''^'' else CHR ''#'') # name) st)
    = Done (handle_section_tag name inverted (tag_read p [] st))"
proof -
  let ?c = "if inverted then CHR ''^'' else CHR ''#''"
  have "handle_tag M R (?c # name) w (tag_read p (?c # name) st)
      = Done (handle_section_tag name inverted (tag_read p (?c # name) st))"
    using sec by (simp add: handle_tag_def tag_read_def)
  moreover have "lookup_value (tag_read p (?c # name) st) y = lookup_value (tag_read p [] st) y" for y
    by (rule lookup_value_cong) (simp add: tag_read_def)
  then have "handle_section_tag name inverted (tag_read p (?c # name) st)\<lparr>r_tag := []\<rparr>
      = handle_section_tag name inverted (tag_read p [] st)"
    by (simp add: handle_section_tag_def) (simp add: tag_read_def)
  moreover have "r_tag (tag_read p (?c # name) st) = ?c # name" by (simp add: tag_read_def)
  ultimately show ?thesis by (simp add: take_tag_def)
qed

lemma take_inner:
  assumes x: "tag_name x" and st: "plain st" and sec: "r_in_section st"
  shows "take_tag M R w (tag_read p x st) = Done (tag_read (p @ ''{{'' @ x @ ''}}'') [] st)"
proof -
  obtain c cs where xc: "x = c # cs" using x by (cases x) (auto simp: tag_name_def)
  have c: "c \<notin> set ''{}!>#^&=/ ''" using x by (auto simp: tag_name_def xc)
  let ?st = "tag_read p x st"
  have "handle_tag M R x w ?st = Done (?st\<lparr>r_section_text := r_section_text ?st @ buffered_tag x ?st\<rparr>)"
    using sec c unfolding xc by (simp add: handle_tag_def handle_tag_in_section_def tag_read_def)
  moreover have "buffered_tag x ?st = ''{{'' @ x @ ''}}''"
    using st by (simp add: buffered_tag_def tag_read_def plain_def)
  moreover have "r_tag ?st = x" by (simp add: tag_read_def)
  moreover have "?st\<lparr>r_section_text := r_section_text ?st @ ''{{'' @ x @ ''}}'', r_tag := []\<rparr>
      = tag_read (p @ ''{{'' @ x @ ''}}'') [] st"
    using sec by (simp add: tag_read_def put_def)
  ultimately show ?thesis by (simp add: take_tag_def)
qed

lemma take_close:
  assumes name: "tag_name name" and sec: "r_in_section st" and stack: "r_section_stack st = [name]"
  shows "take_tag M R w (tag_read p (CHR ''/'' # name) st)
    = rbind (render_section M R ((tag_read p (CHR ''/'' # name) st)\<lparr>r_section_stack := [], r_in_section := False\<rparr>))
        (\<lambda>st'. Done (st'\<lparr>r_tag := []\<rparr>))"
  using sec stack tag_name_facts(2) [OF name]
  by (simp add: take_tag_def handle_tag_def handle_tag_in_section_def tag_read_def)

text \<open>C29. In a template whose only tags are a section and one plain tag in its body, with plain names, no opening brace in
  the texts between the tags, and a text before the section that is not all blanks: the section writes what the
  value of its name says, the body once for each item of a list, with the item's fields found before the outer
  ones and its values escaped, once for another true value, nothing for a false or missing one; an inverted
  section writes its body exactly in the cases where the section writes nothing; and the text around the section
  stays as it is. The condition on the text before is needed: a tag that stands alone on the first line takes
  the blanks before it, and its line end, with it.\<close>

theorem section_renders:
  assumes names: "tag_name name" "tag_name x"
    and braces: "CHR ''{'' \<notin> set pre" "CHR ''{'' \<notin> set b1" "CHR ''{'' \<notin> set b2" "CHR ''{'' \<notin> set post"
    and start: "\<not> list_all blank pre"
  shows "\<exists>N. \<forall>fuel\<ge>N. mustache fuel M
      (pre @ ''{{'' @ ((if inverted then CHR ''^'' else CHR ''#'') # name) @ ''}}''
        @ b1 @ ''{{'' @ x @ ''}}'' @ b2 @ ''{{'' @ (CHR ''/'' # name) @ ''}}'' @ post) data
    = Done (pre @ section_writes M inverted data (lookup_value (renderer data) name) b1 x b2 @ post)"
proof (rule mustache_from)
  let ?M = "no_partials M" and ?st = "renderer data"
  let ?c = "if inverted then CHR ''^'' else CHR ''#''"
  let ?w = "section_writes M inverted data (lookup_value ?st name) b1 x b2"
  note nf = tag_name_facts [OF names(1)] and xf = tag_name_facts [OF names(2)]
  have truth: "is_value_true ?M jv = is_value_true M jv" for jv by (cases jv) (simp_all add: is_value_true_def no_partials_def)
  have writes: "section_writes ?M i d v b1 x b2 = section_writes M i d v b1 x b2" for i d v
    by (simp add: section_writes_def truth split: option.split json.split)
  define st1 where "st1 = handle_section_tag name inverted (tag_read pre [] ?st)"
  have st1: "plain st1" "r_in_section st1" "r_section_stack st1 = [name]" "r_section_text st1 = []" "r_inverted st1 = inverted"
    "r_context st1 = [data]" "r_out st1 = pre"
    using nf(2) by (simp_all add: st1_def handle_section_tag_def plain_def tag_read_def renderer_def)
  have "lookup_value (tag_read pre [] ?st) name = lookup_value ?st name"
    by (rule lookup_value_cong) (simp add: tag_read_def)
  then have ctx1: "r_section_context st1 = lookup_value ?st name"
    using nf(2) by (simp add: st1_def handle_section_tag_def)
  define st2 where "st2 = tag_read (b1 @ ''{{'' @ x @ ''}}'') [] st1"
  have st2: "plain st2" "r_in_section st2" "r_section_stack st2 = [name]" "r_section_text st2 = b1 @ ''{{'' @ x @ ''}}''"
    "r_inverted st2 = inverted" "r_context st2 = [data]" "r_out st2 = pre" "r_section_context st2 = lookup_value ?st name"
    using st1 ctx1 by (simp_all add: st2_def plain_def tag_read_def)
  define st3 where "st3 = (tag_read b2 (CHR ''/'' # name) st2)\<lparr>r_section_stack := [], r_in_section := False\<rparr>"
  have st3: "plain st3" "\<not> r_in_section st3" "r_context st3 = [data]" "r_section_text st3 = b1 @ ''{{'' @ x @ ''}}'' @ b2"
    "r_inverted st3 = inverted" "r_out st3 = pre" "r_section_context st3 = lookup_value ?st name"
    using st2 by (simp_all add: st3_def plain_def tag_read_def)
  let ?Q = "\<lambda>s. plain s \<and> r_out s = pre @ ?w @ post"
  have "ends (\<lambda>n. render_section ?M (render_full n ?M) st3) (wrote st3 ?w)"
    using section_wrote [OF braces(2,3) names(2) st3(1-4), of ?M] by (simp add: st3 writes)
  then have "ends (\<lambda>n. rbind (render_section ?M (render_full n ?M) st3) (\<lambda>s. Done (s\<lparr>r_tag := []\<rparr>))) (wrote st3 ?w)"
    by (intro ends_map, elim ends_mono) (simp add: wrote_def plain_def)
  then have "ends (\<lambda>n. rbind (rbind (render_section ?M (render_full n ?M) st3) (\<lambda>s. Done (s\<lparr>r_tag := []\<rparr>)))
      (\<lambda>s. render_loop n ?M s post)) ?Q"
  proof (rule ends_bind)
    fix s assume w: "wrote st3 ?w s"
    show "ends (\<lambda>n. render_loop n ?M s post) ?Q"
      by (rule loop_plain_text) (use w braces(4) st3(6) in \<open>simp_all add: wrote_def plain_def\<close>)
  qed
  then have "ends (\<lambda>n. rbind (take_tag ?M (render_full n ?M) [] (tag_read b2 (CHR ''/'' # name) st2)) (\<lambda>s. render_loop n ?M s post)) ?Q"
    using take_close [OF names(1) st2(2,3)] by (simp add: st3_def)
  then have "ends (\<lambda>n. render_loop n ?M st2 (b2 @ ''{{'' @ (CHR ''/'' # name) @ ''}}'' @ post)) ?Q"
    by (intro loop_tag [OF st2(1) braces(3)]) (use nf in simp_all)
  then have "ends (\<lambda>n. rbind (take_tag ?M (render_full n ?M) [] (tag_read b1 x st1))
      (\<lambda>s. render_loop n ?M s (b2 @ ''{{'' @ (CHR ''/'' # name) @ ''}}'' @ post))) ?Q"
    using take_inner [OF names(2) st1(1,2)] by (simp add: st2_def)
  then have "ends (\<lambda>n. render_loop n ?M st1 (b1 @ ''{{'' @ x @ ''}}'' @ b2 @ ''{{'' @ (CHR ''/'' # name) @ ''}}'' @ post)) ?Q"
    by (rule loop_tag [OF st1(1) braces(2) xf(3,1,5)])
  then have "ends (\<lambda>n. rbind (take_tag ?M (render_full n ?M) [] (tag_read pre (?c # name) ?st))
      (\<lambda>s. render_loop n ?M s (b1 @ ''{{'' @ x @ ''}}'' @ b2 @ ''{{'' @ (CHR ''/'' # name) @ ''}}'' @ post))) ?Q"
    using take_open [OF names(1), of ?st] by (simp add: st1_def renderer_def)
  then have loop: "ends (\<lambda>n. render_loop n ?M ?st (pre @ ''{{'' @ (?c # name) @ ''}}''
      @ b1 @ ''{{'' @ x @ ''}}'' @ b2 @ ''{{'' @ (CHR ''/'' # name) @ ''}}'' @ post)) ?Q"
    by (intro loop_first_tag) (use braces start nf in \<open>simp_all add: renderer_def\<close>)
  show "ends (\<lambda>n. render_full n ?M ?st (pre @ ''{{'' @ (?c # name) @ ''}}''
      @ b1 @ ''{{'' @ x @ ''}}'' @ b2 @ ''{{'' @ (CHR ''/'' # name) @ ''}}'' @ post)) (\<lambda>s. r_out s = pre @ ?w @ post)"
    by (rule full_run, rule ends_bind [OF loop]) (simp add: plain_def finish_plain)
qed

subsection \<open>Witnesses and observed behaviour\<close>

definition sample_mlib :: "nat mlib" where
  "sample_mlib = \<lparr>ml_serialize = (\<lambda>_. []), ml_double = (\<lambda>_. []), ml_nonzero = (\<lambda>d. d \<noteq> 0), ml_partials = []\<rparr>"

definition sample_data :: "nat json" where
  "sample_data = JObject [(''a'', JBool True), (''x'', JString ''1<2''),
     (''l'', JArray [JObject [(''x'', JString ''p'')], JObject []])]"

lemma names: "tag_name ''x''" "tag_name ''l''"
  by (simp_all add: tag_name_def)

theorem interpolation_escaped_witness:
  "\<exists>N. \<forall>fuel\<ge>N. mustache fuel sample_mlib ''say {{x}}!'' sample_data = Done ''say 1&lt;2!''"
proof -
  have f: "tag_field sample_mlib [sample_data] ''x'' = ''1&lt;2''"
    by (simp add: tag_field_def lookup_value_def sample_data_def if_contains_def output_value_def maybe_quoted_write_def
        quoted_write_def quoted_char_def)
  from interpolation_escaped [OF names(1), of "''say ''" "''!''" sample_mlib sample_data] show ?thesis
    unfolding f by simp
qed

theorem section_renders_witness:
  "\<exists>N. \<forall>fuel\<ge>N. mustache fuel sample_mlib ''rows:{{#l}}<li>{{x}}</li>{{/l}};'' sample_data
     = Done ''rows:<li>p</li><li>1&lt;2</li>;''"
proof -
  have f: "tag_field sample_mlib [sample_data, JObject [(''x'', JString ''p'')]] ''x'' = ''p''"
    "tag_field sample_mlib [sample_data, JObject []] ''x'' = ''1&lt;2''"
    "lookup_value (renderer sample_data) ''l'' = Some (JArray [JObject [(''x'', JString ''p'')], JObject []])"
    by (simp_all add: tag_field_def lookup_value_def sample_data_def if_contains_def output_value_def maybe_quoted_write_def
        quoted_write_def quoted_char_def renderer_def)
  have "\<not> list_all blank ''rows:''" by (simp add: blank_def)
  then have "\<exists>N. \<forall>fuel\<ge>N. mustache fuel sample_mlib
      (''rows:'' @ ''{{'' @ ((if False then CHR ''^'' else CHR ''#'') # ''l'') @ ''}}''
        @ ''<li>'' @ ''{{'' @ ''x'' @ ''}}'' @ ''</li>'' @ ''{{'' @ (CHR ''/'' # ''l'') @ ''}}'' @ '';'') sample_data
    = Done (''rows:'' @ section_writes sample_mlib False sample_data (lookup_value (renderer sample_data) ''l'') ''<li>'' ''x'' ''</li>'' @ '';'')"
    by (intro section_renders [OF names(2,1)]) simp_all
  then show ?thesis
    by (simp add: f section_writes_def is_value_true_def)
qed

text \<open>A standalone tag inside a section that is followed by text, not by a line end, makes the renderer add
  a line end of its own; with a carriage return after the tag it adds two characters and then the return.\<close>

theorem section_adds_line_end:
  "mustache 60 sample_mlib (''{{#a}}'' @ [CHR 0x0A] @ ''{{!c}}y{{/a}}'') sample_data = Done ([CHR 0x0A] @ ''y'')"
  "mustache 60 sample_mlib (''{{#a}}'' @ [CHR 0x0A] @ ''{{!c}}'' @ [CHR 0x0D] @ ''y{{/a}}'') sample_data
   = Done ([CHR 0x0D, CHR 0x0A, CHR 0x0D] @ ''y'')"
  by code_simp+

text \<open>After the first line no tag stands alone: the search of \<open>state_passthrough\<close> no longer stops at a line end,
  so the line of a comment stays as an empty line. On the first line it is removed.\<close>

theorem standalone_only_at_start:
  "mustache 60 sample_mlib (''l1'' @ [CHR 0x0A] @ ''{{!c}}'' @ [CHR 0x0A] @ ''l2'') sample_data
   = Done (''l1'' @ [CHR 0x0A, CHR 0x0A] @ ''l2'')"
  "mustache 60 sample_mlib (''{{!c}}'' @ [CHR 0x0A] @ ''l2'') sample_data = Done ''l2''"
  by code_simp+

text \<open>An apostrophe is not replaced, so a single-quoted attribute can be ended by a value.\<close>

theorem apostrophe_kept: "quoted_write [CHR 0x27] = [CHR 0x27]"
  by (simp add: quoted_write_def quoted_char_def)

end
