(* ===== verification/HttpServer.thy ===== *)
theory HttpServer
  imports AuthHandler WebPath ClientIp Monitoring
begin

text \<open>
  \<^verbatim>\<open>HTTP/beast.cpp\<close>: what becomes of a request (\<open>handle_request\<close>) and the connection that carries it
  (\<open>http_session\<close>). The state \<open>server\<close> is what a worker thread sees: the request and the payload
  inside the state of the login engine, the counters of \<open>Monitoring\<close>, the lines written to log files.

  The asynchronous reads and writes of Boost.Beast are steps of a relation: at most one read and one
  write are under way, each handler runs to its end on its thread. Fields, the parser, \<open>prepare_payload\<close>,
  Qt's URL and the clock are parameters in \<open>slib\<close>; the hooks of the project are actions that may throw.
\<close>

subsection \<open>Exceptions and state\<close>

datatype exn =
  StdException string
| ExceptionV2 string string bool
| HttpEx string string bool string nat
| UnknownException

type_synonym ('s, 'a) may = "'s \<Rightarrow> (exn + 'a) \<times> 's"

definition yield :: "'a \<Rightarrow> ('s, 'a) may" where
  "yield x s = (Inr x, s)"

definition andThen :: "('s, 'a) may \<Rightarrow> ('a \<Rightarrow> ('s, 'b) may) \<Rightarrow> ('s, 'b) may" where
  "andThen m f s = (case m s of (Inl e, s') \<Rightarrow> (Inl e, s') | (Inr x, s') \<Rightarrow> f x s')"

definition catching :: "('s, 'a) may \<Rightarrow> (exn \<Rightarrow> ('s, 'a) may) \<Rightarrow> ('s, 'a) may" where
  "catching m h s = (case m s of (Inl e, s') \<Rightarrow> h e s' | (Inr x, s') \<Rightarrow> (Inr x, s'))"

record ('w, 'c) server =
  sv_a :: "('w, 'c) areq"
  sv_load :: load
  sv_worker :: worker
  sv_log :: "(string \<times> string) list"
  sv_printed :: "string list"

record hreq =
  rq_method :: string
  rq_target :: string
  rq_version :: nat
  rq_keep_alive :: bool
  rq_fields :: "(string \<times> string) list"
  rq_body :: string

record response =
  rs_status :: nat
  rs_version :: nat
  rs_keep_alive :: bool
  rs_fields :: "(string \<times> string) list"
  rs_body :: string

record client_reply =
  cr_message :: "response option"
  cr_canned :: string
  cr_keepAlive :: bool

type_synonym ('w, 'c) rworld = "'w \<times> limiter \<times> 'c fcgi"

record ('w, 'c) sconf =
  sc_prePhase1 :: "(('w, 'c) areq, unit) may option"
  sc_loginManager :: "(('w, 'c) areq, bool) may option"
  sc_common1 :: "(('w, 'c) areq, bool) may option"
  sc_router :: "(('w, 'c) rworld, exn) rconf"
  sc_basePathFunctor :: "('c fcgi \<Rightarrow> string) option"
  sc_base :: conf_base
  sc_project :: 'c
  sc_trustedProxies :: "string list option"
  sc_logFolder :: string
  sc_logRequest :: bool
  sc_logResponse :: bool
  sc_logRequestByIp :: bool
  sc_maxResponseSize :: nat
  sc_logWhitelist :: "string list option"
  sc_logBlacklist :: "string list option"
  sc_htmlAllException :: bool
  sc_websocketUpgrade :: "(hreq \<Rightarrow> (('w, 'c) areq, bool) may) option"

record ('w, 'a) slib =
  bl_asio :: "'a asio"
  bl_find :: "(string \<times> string) list \<Rightarrow> header_lookup"
  bl_lower :: "string \<Rightarrow> string"
  bl_url :: "string \<Rightarrow> exn + string"
  bl_prepare :: "response \<Rightarrow> response option"
  bl_is_upgrade :: "hreq \<Rightarrow> bool"
  bl_readf :: "'w \<Rightarrow> string \<Rightarrow> string option"
  bl_now_s :: "'w \<Rightarrow> int"
  bl_now_ns :: "'w \<Rightarrow> int"
  bl_stamp :: "'w \<Rightarrow> string"
  bl_date :: "'w \<Rightarrow> string"
  bl_rand :: "'w \<Rightarrow> nat"
  bl_totals :: "'w \<Rightarrow> db_totals"

subsection \<open>Replies\<close>

text \<open>\<open>errorPrefix\<close> as the compiler reads it: two commas are missing, so four of the literals join in pairs.\<close>

definition errorPrefix :: "string list" where
  "errorPrefix = [''SRLY Bad'', ''Inappropriate'', ''Interesting'', ''Unxepectedly Bad'', ''Predicatable'',
     ''Boring'' @ ''OMG!'', ''Another'', ''Again an'', ''Is time for another'' @ ''Look mom an'']"

text \<open>\<open>rand(from, to)\<close> of \<^verbatim>\<open>rand/randutil.cpp\<close>, over what the C library's \<open>rand\<close> gave.\<close>

definition rand_between :: "nat \<Rightarrow> nat \<Rightarrow> nat \<Rightarrow> nat" where
  "rand_between from to r = (if from < to then r mod (to - from + 1) + from else 0)"

definition randomErrorPrefix :: "nat \<Rightarrow> string" where
  "randomErrorPrefix r = errorPrefix ! rand_between 0 (length errorPrefix - 1) r"

definition randomError :: "nat \<Rightarrow> string" where
  "randomError r = randomErrorPrefix r @ '' Internal Server Error!''"

definition set_field :: "string \<Rightarrow> string \<Rightarrow> response \<Rightarrow> response" where
  "set_field k v r = r\<lparr>rs_fields := filter (\<lambda>(k', _). k' \<noteq> k) (rs_fields r) @ [(k, v)]\<rparr>"

definition insert_field :: "string \<times> string \<Rightarrow> response \<Rightarrow> response" where
  "insert_field kv r = r\<lparr>rs_fields := rs_fields r @ [kv]\<rparr>"

definition new_response :: "nat \<Rightarrow> nat \<Rightarrow> string \<Rightarrow> bool \<Rightarrow> response" where
  "new_response status version payload keepAlive =
     \<lparr>rs_status = status, rs_version = version, rs_keep_alive = keepAlive, rs_fields = [], rs_body = payload\<rparr>"

definition invalid_body :: exn where
  "invalid_body = StdException ''invalid response body''"

definition prepared :: "('w, 'a) slib \<Rightarrow> response \<Rightarrow> exn + response" where
  "prepared L r = (case bl_prepare L r of None \<Rightarrow> Inl invalid_body | Some r' \<Rightarrow> Inr r')"

definition asReply :: "response \<Rightarrow> client_reply" where
  "asReply res = \<lparr>cr_message = Some res, cr_canned = [], cr_keepAlive = rs_keep_alive res\<rparr>"

definition html_mime :: string where
  "html_mime = ''text/html; charset=utf-8''"

definition quickResponse :: "('w, 'a) slib \<Rightarrow> string \<Rightarrow> nat \<Rightarrow> bool \<Rightarrow> exn + response" where
  "quickResponse L msg version keepAlive =
     prepared L (set_field ''Content-Type'' html_mime (new_response 500 version msg keepAlive))"

definition error_reply :: "('w, 'a) slib \<Rightarrow> nat \<Rightarrow> bool \<Rightarrow> ('w, 'c) server \<Rightarrow> exn + client_reply" where
  "error_reply L version keepAlive s =
     (case quickResponse L (randomError (bl_rand L (a_world (sv_a s)))) version keepAlive of
        Inl e \<Rightarrow> Inl e | Inr r \<Rightarrow> Inr (asReply r))"

text \<open>\<open>PMFCGI::serializeMsg\<close>: \<open>serialize\<close> is empty in this version.\<close>

definition serializeMsg :: "string \<Rightarrow> string \<Rightarrow> bool \<Rightarrow> string" where
  "serializeMsg ts msg light =
     ''@ '' @ ts @ '' Error: '' @ msg @ '' '' @ [CHR 0x0A] @ '' Status: ''
       @ (if light then ''remote ip and plain text url and header should be enought'' else [])"

subsection \<open>The access log\<close>

definition bad_optional_access :: exn where
  "bad_optional_access = StdException ''bad optional access''"

text \<open>Whether the answer is logged in full: \<open>.value()\<close> of a list that is not set throws.\<close>

definition log_response :: "('w, 'c) sconf \<Rightarrow> string \<Rightarrow> exn + bool" where
  "log_response C path =
     (if \<not> sc_logResponse C then Inr False
      else case sc_logWhitelist C of
          None \<Rightarrow> Inl bad_optional_access
        | Some white \<Rightarrow>
            (case sc_logBlacklist C of
               None \<Rightarrow> Inl bad_optional_access
             | Some black \<Rightarrow>
                 Inr ((white = [] \<or> list_ex (\<lambda>p. sublist p path) white) \<and> \<not> list_ex (\<lambda>p. sublist p path) black)))"

definition access_line :: "('w, 'c) sconf \<Rightarrow> bool \<Rightarrow> string \<Rightarrow> 'c fcgi \<Rightarrow> payload \<Rightarrow> int \<Rightarrow> string" where
  "access_line C full time status p responseTime =
     join_with '' '' [time, remoteIp status, req_path status, show_nat (statusCode p), show_nat (length (html p)),
       show_int responseTime]
     @ (if full then
          [CHR 0x0A] @ ''-------'' @ [CHR 0x0A]
          @ (if sc_maxResponseSize C > 0 then take (sc_maxResponseSize C) (html p) else html p)
          @ [CHR 0x0A] @ ''-------''
        else [])"

definition access_file :: "('w, 'c) sconf \<Rightarrow> 'c fcgi \<Rightarrow> string" where
  "access_file C status =
     sc_logFolder C @ ''/'' @ (if sc_logRequestByIp C then remoteIp status @ ''_access.log'' else ''access.log'')"

definition append_log :: "string \<Rightarrow> string \<Rightarrow> ('w, 'c) server \<Rightarrow> ('w, 'c) server" where
  "append_log line file_name s = s\<lparr>sv_log := sv_log s @ [(file_name, line)]\<rparr>"

definition flush_time :: "('w, 'a) slib \<Rightarrow> ('w, 'c) server \<Rightarrow> int \<times> ('w, 'c) server" where
  "flush_time L s =
     (let (t, m) = registerFlushTime (bl_now_ns L (a_world (sv_a s))) (wk_time (sv_worker s))
      in (t, s\<lparr>sv_worker := (sv_worker s)\<lparr>wk_time := m\<rparr>\<rparr>))"

definition message_for :: "payload \<Rightarrow> nat \<Rightarrow> bool \<Rightarrow> response" where
  "message_for p version keepAlive =
     fold insert_field (headers p)
       (set_field ''Content-Type'' (mime p) (new_response (statusCode p) version (html p) keepAlive))"

text \<open>The reply itself: a canned one for an empty answer with one of the three statuses, a message otherwise.\<close>

definition reply_for :: "('w, 'a) slib \<Rightarrow> payload \<Rightarrow> nat \<Rightarrow> bool \<Rightarrow> exn + client_reply" where
  "reply_for L p version keepAlive =
     (let canned = (if html p = [] \<and> headers p = [] then cannedEmptyHttp (statusCode p) version keepAlive else [])
      in if canned \<noteq> [] then Inr \<lparr>cr_message = None, cr_canned = canned, cr_keepAlive = keepAlive\<rparr>
         else case prepared L (message_for p version keepAlive) of
             Inl e \<Rightarrow> Inl e
           | Inr r \<Rightarrow> Inr \<lparr>cr_message = Some r, cr_canned = [], cr_keepAlive = keepAlive\<rparr>)"

definition buildResponseToClient ::
    "('w, 'a) slib \<Rightarrow> ('w, 'c) sconf \<Rightarrow> nat \<Rightarrow> bool \<Rightarrow> (('w, 'c) server, client_reply) may" where
  "buildResponseToClient L C version keepAlive s =
     (let s1 = s\<lparr>sv_a := (sv_a s)\<lparr>a_pay := (a_pay (sv_a s))\<lparr>alreadySent := True\<rparr>\<rparr>\<rparr>;
          p = a_pay (sv_a s1); status = a_req (sv_a s1)
      in case reply_for L p version keepAlive of
           Inl e \<Rightarrow> (Inl e, s1)
         | Inr out \<Rightarrow>
             (let (responseTime, s2) = flush_time L s1
              in if \<not> sc_logRequest C then (Inr out, s2)
                 else case log_response C (req_path status) of
                     Inl e \<Rightarrow> (Inl e, s2)
                   | Inr full \<Rightarrow>
                       (Inr out, append_log
                          (access_line C full (bl_stamp L (a_world (sv_a s2))) status p responseTime)
                          (access_file C status) s2)))"

subsection \<open>One request\<close>

definition on_areq :: "(('w, 'c) areq, 'x) may \<Rightarrow> (('w, 'c) server, 'x) may" where
  "on_areq m s = (case m (sv_a s) of (r, a) \<Rightarrow> (r, s\<lparr>sv_a := a\<rparr>))"

definition on_fcgi :: "('c fcgi, 'x) may \<Rightarrow> (('w, 'c) server, 'x) may" where
  "on_fcgi m = on_areq (\<lambda>a. case m (a_req a) of (r, q) \<Rightarrow> (r, a\<lparr>a_req := q\<rparr>))"

definition fresh_request :: "'c \<Rightarrow> 'c fcgi" where
  "fresh_request conf = \<lparr>remoteIp = [], localIp = [], req_headers = [], cookies = None, req_path = [], url_path = [],
     body = [], post = [], get_params = [], curBasePath = [], fcgi_conf = conf\<rparr>"

text \<open>From the parser's message to \<open>PMFCGI\<close>; what is read before a throw stays.\<close>

definition read_request ::
    "('w, 'a) slib \<Rightarrow> ('w, 'c) sconf \<Rightarrow> 'a option \<Rightarrow> 'a option \<Rightarrow> hreq \<Rightarrow> ('c fcgi, unit) may" where
  "read_request L C peer loc req status =
     (let look = bl_find L (rq_fields req);
          st1 = status\<lparr>remoteIp := clientIp (bl_asio L) peer look (sc_trustedProxies C),
                       localIp := serverIp (bl_asio L) loc peer look (sc_trustedProxies C),
                       req_path := rq_target req, body := rq_body req,
                       req_headers := bh_set (bl_lower L) (req_headers status) (rq_fields req)\<rparr>;
          (base, st2) = getBasePath (sc_basePathFunctor C) (sc_base C) st1
      in if rq_target req = [] then (Inl (StdException ''basic_string::substr''), st2)
         else case bl_url L (base @ tl (rq_target req)) of
             Inl e \<Rightarrow> (Inl e, st2)
           | Inr path \<Rightarrow> (Inr (), st2\<lparr>url_path := path\<rparr>))"

text \<open>A hook that is asked whether to go on; without one the request goes on.\<close>

definition asked ::
    "(('w, 'c) areq, bool) may option \<Rightarrow> (('w, 'c) server, 'x) may \<Rightarrow> (('w, 'c) server, 'x) may \<Rightarrow>
     (('w, 'c) server, 'x) may" where
  "asked hook go stop =
     (case hook of None \<Rightarrow> go | Some f \<Rightarrow> andThen (on_areq f) (\<lambda>go_on. if go_on then go else stop))"

definition run_deferred :: "(('w, 'c) rworld, exn) operation option \<Rightarrow> (('w, 'c) server, unit) may" where
  "run_deferred op s =
     (let a = sv_a s;
          (r, w, l, q) = router_deferred op (a_world a, a_lim a, a_req a)
      in (r, s\<lparr>sv_a := a\<lparr>a_world := w, a_lim := l, a_req := q\<rparr>,
               sv_worker := (sv_worker s)\<lparr>wk_state := Deferred\<rparr>\<rparr>))"

text \<open>The three phases: the router, the reply, the deferred part of the operation.\<close>

definition serve :: "('w, 'a) slib \<Rightarrow> ('w, 'c) sconf \<Rightarrow> nat \<Rightarrow> bool \<Rightarrow> (('w, 'c) server, client_reply) may" where
  "serve L C version keepAlive s =
     (let a = sv_a s;
          (op, r, (w, l, q), p) = router_immediate (\<lambda>w. bl_readf L (fst w)) (sc_router C) (url_path (a_req a))
                                    ((a_world a, a_lim a, a_req a), a_pay a);
          s1 = s\<lparr>sv_a := \<lparr>a_world = w, a_lim = l, a_req = q, a_pay = p\<rparr>\<rparr>
      in case r of
           Inl e \<Rightarrow> (Inl e, s1)
         | Inr _ \<Rightarrow>
             andThen (buildResponseToClient L C version keepAlive)
               (\<lambda>response. andThen (run_deferred op) (\<lambda>_. yield response)) s1)"

definition enter_request ::
    "('w, 'a) slib \<Rightarrow> ('w, 'c) sconf \<Rightarrow> 'a option \<Rightarrow> 'a option \<Rightarrow> hreq \<Rightarrow> (('w, 'c) server, unit) may" where
  "enter_request L C peer loc req =
     andThen (on_fcgi (read_request L C peer loc req))
       (\<lambda>_. case sc_prePhase1 C of None \<Rightarrow> yield () | Some f \<Rightarrow> on_areq f)"

definition process_request ::
    "('w, 'a) slib \<Rightarrow> ('w, 'c) sconf \<Rightarrow> 'a option \<Rightarrow> 'a option \<Rightarrow> hreq \<Rightarrow> (('w, 'c) server, client_reply) may" where
  "process_request L C peer loc req =
     (let build = buildResponseToClient L C (rq_version req) (rq_keep_alive req)
      in andThen (enter_request L C peer loc req) (\<lambda>_.
           asked (sc_loginManager C)
             (asked (sc_common1 C) (serve L C (rq_version req) (rq_keep_alive req)) build) build))"

definition what_of :: "exn \<Rightarrow> string" where
  "what_of e = (case e of StdException w \<Rightarrow> w | ExceptionV2 w _ _ \<Rightarrow> w | HttpEx w _ _ _ _ \<Rightarrow> w
     | UnknownException \<Rightarrow> ''unkown exception'')"

definition log_file_of :: "exn \<Rightarrow> string" where
  "log_file_of e = (case e of StdException _ \<Rightarrow> ''stdException.log'' | ExceptionV2 _ f _ \<Rightarrow> f | HttpEx _ f _ _ _ \<Rightarrow> f
     | UnknownException \<Rightarrow> ''unkException.log'')"

definition skips_print :: "exn \<Rightarrow> bool" where
  "skips_print e = (case e of ExceptionV2 _ _ b \<Rightarrow> b | HttpEx _ _ b _ _ \<Rightarrow> b | _ \<Rightarrow> False)"

definition error_payload :: "('w, 'c) sconf \<Rightarrow> string \<Rightarrow> nat \<Rightarrow> exn \<Rightarrow> payload \<Rightarrow> payload" where
  "error_payload C msg r e p =
     (let p1 = p\<lparr>mime := html_mime, statusCode := 500\<rparr>
      in case e of
           HttpEx _ _ _ shown code \<Rightarrow> p1\<lparr>html := (if shown \<noteq> [] then shown else html p), statusCode := code\<rparr>
         | UnknownException \<Rightarrow> p1\<lparr>html := randomError r\<rparr>
         | _ \<Rightarrow> p1\<lparr>html := (if sc_htmlAllException C then ''<pre>'' @ [CHR 0x0A] @ msg @ [CHR 0x0A] @ ''</pre>''
                                else randomError r)\<rparr>)"

definition log_block :: "string \<Rightarrow> string" where
  "log_block msg = [CHR 0x0A] @ ''------'' @ [CHR 0x0A] @ '' '' @ msg"

text \<open>The inner \<open>catch\<close> clauses.\<close>

definition on_exception :: "('w, 'a) slib \<Rightarrow> ('w, 'c) sconf \<Rightarrow> exn \<Rightarrow> ('w, 'c) server \<Rightarrow> ('w, 'c) server" where
  "on_exception L C e s =
     (let a = sv_a s; msg = serializeMsg (bl_date L (a_world a)) (what_of e) False;
          s1 = s\<lparr>sv_a := a\<lparr>a_pay := error_payload C msg (bl_rand L (a_world a)) e (a_pay a)\<rparr>\<rparr>;
          s2 = (if skips_print e then s1
                else s1\<lparr>sv_printed := sv_printed s1 @ [[CHR 0x0A] @ ''------'' @ [CHR 0x0A] @ msg]\<rparr>)
      in append_log (log_block msg) (sc_logFolder C @ ''/'' @ log_file_of e) s2)"

text \<open>The outer ones: what throws there is the reply to an error.\<close>

definition on_outer_exception ::
    "('w, 'a) slib \<Rightarrow> ('w, 'c) sconf \<Rightarrow> nat \<Rightarrow> bool \<Rightarrow> exn \<Rightarrow> (('w, 'c) server, client_reply) may" where
  "on_outer_exception L C version keepAlive e s =
     (let file_name = (if e = UnknownException then ''unkException.log'' else ''stdException.log'');
          s1 = append_log (log_block (serializeMsg (bl_date L (a_world (sv_a s))) (what_of e) True))
                 (sc_logFolder C @ ''/'' @ file_name) s
      in (error_reply L version keepAlive s1, s1))"

definition options_reply :: "('w, 'a) slib \<Rightarrow> hreq \<Rightarrow> exn + client_reply" where
  "options_reply L req =
     (case prepared L
        (set_field ''Access-Control-Max-Age'' ''86400''
          (set_field ''Access-Control-Allow-Headers'' ''Content-Type, X-Requested-With, Authorization''
            (set_field ''Access-Control-Allow-Methods'' ''GET, POST, OPTIONS''
              (set_field ''Access-Control-Allow-Origin'' ''*''
                (new_response 200 (rq_version req) [] (rq_keep_alive req)))))) of
        Inl e \<Rightarrow> Inl e | Inr r \<Rightarrow> Inr (asReply r))"

definition begin_request :: "('w, 'a) slib \<Rightarrow> ('w, 'c) server \<Rightarrow> ('w, 'c) server" where
  "begin_request L s =
     (let w = a_world (sv_a s); wk = (sv_worker s)\<lparr>wk_state := Immediate\<rparr>;
          (l', wk') = requestBeging (bl_now_s L w) (bl_now_ns L w) (sv_load s, wk)
      in s\<lparr>sv_load := l', sv_worker := wk'\<rparr>)"

definition end_request :: "('w, 'a) slib \<Rightarrow> ('w, 'c) server \<Rightarrow> ('w, 'c) server" where
  "end_request L s =
     (let w = a_world (sv_a s);
          (l', wk') = requestEnd (bl_now_ns L w) (bl_totals L w) (sv_load s, sv_worker s)
      in s\<lparr>sv_load := l', sv_worker := wk'\<rparr>)"

text \<open>A request arrives with its counters started and with its own \<open>PMFCGI\<close> and \<open>Payload\<close>.\<close>

definition arrive :: "('w, 'a) slib \<Rightarrow> ('w, 'c) sconf \<Rightarrow> ('w, 'c) server \<Rightarrow> ('w, 'c) server" where
  "arrive L C s =
     (let s0 = begin_request L s
      in s0\<lparr>sv_a := (sv_a s0)\<lparr>a_req := fresh_request (sc_project C), a_pay := payload_init\<rparr>\<rparr>)"

definition handle_request ::
    "('w, 'a) slib \<Rightarrow> ('w, 'c) sconf \<Rightarrow> 'a option \<Rightarrow> 'a option \<Rightarrow> hreq \<Rightarrow> (('w, 'c) server, client_reply) may" where
  "handle_request L C peer loc req s =
     (if rq_method req = ''OPTIONS''
      then (case options_reply L req of
          Inl e \<Rightarrow> (Inl e, arrive L C s)
        | Inr r \<Rightarrow> (Inr r, snd (flush_time L (arrive L C s))))
      else catching
          (\<lambda>s. case process_request L C peer loc req s of
             (Inr r, s') \<Rightarrow> (Inr r, s')
           | (Inl e, s') \<Rightarrow>
               buildResponseToClient L C (rq_version req) (rq_keep_alive req) (on_exception L C e s'))
          (on_outer_exception L C (rq_version req) (rq_keep_alive req)) (arrive L C s))"

subsection \<open>One connection\<close>

text \<open>\<open>http_session\<close>: the replies not yet written, the oldest first, and what is under way. \<open>ss_moved\<close>: the
  socket went to a websocket session.\<close>

record session =
  ss_queue :: "client_reply list"
  ss_reading :: bool
  ss_writing :: bool
  ss_shut :: bool
  ss_moved :: bool

datatype read_event = EndOfStream | ReadFailed | GotRequest hreq

definition queue_limit :: nat where
  "queue_limit = 8"

definition do_read :: "session \<Rightarrow> session" where
  "do_read ss = ss\<lparr>ss_reading := True\<rparr>"

definition do_write :: "session \<Rightarrow> session" where
  "do_write ss = (if ss_queue ss = [] then ss else ss\<lparr>ss_writing := True\<rparr>)"

definition do_close :: "session \<Rightarrow> session" where
  "do_close ss = ss\<lparr>ss_shut := True\<rparr>"

definition queue_write :: "client_reply \<Rightarrow> session \<Rightarrow> session" where
  "queue_write response ss =
     (let ss1 = ss\<lparr>ss_queue := ss_queue ss @ [response]\<rparr>
      in if length (ss_queue ss1) = 1 then do_write ss1 else ss1)"

definition session_start :: session where
  "session_start = do_read \<lparr>ss_queue = [], ss_reading = False, ss_writing = False, ss_shut = False, ss_moved = False\<rparr>"

text \<open>The upgrade hook is asked only while no reply waits. None: the request is not for it.\<close>

definition ask_upgrade ::
    "('w, 'a) slib \<Rightarrow> ('w, 'c) sconf \<Rightarrow> hreq \<Rightarrow> session \<Rightarrow> ('w, 'c) server \<Rightarrow>
     (exn + bool) option \<times> ('w, 'c) server" where
  "ask_upgrade L C req ss s =
     (case sc_websocketUpgrade C of
        None \<Rightarrow> (None, s)
      | Some hook \<Rightarrow>
          if ss_queue ss = [] \<and> bl_is_upgrade L req
          then (case on_areq (hook req) s of (r, s') \<Rightarrow> (Some r, s'))
          else (None, s))"

text \<open>\<open>on_read\<close>. A throw in the last \<open>catch\<close> leaves the handler, the left result.\<close>

definition answer_read ::
    "('w, 'a) slib \<Rightarrow> ('w, 'c) sconf \<Rightarrow> 'a option \<Rightarrow> 'a option \<Rightarrow> hreq \<Rightarrow> session \<Rightarrow> ('w, 'c) server \<Rightarrow>
     (exn + session) \<times> ('w, 'c) server" where
  "answer_read L C peer loc req ss s =
     (let failed = (\<lambda>s'. case error_reply L (rq_version req) (rq_keep_alive req) s' of
                        Inl e \<Rightarrow> (Inl e, s')
                      | Inr r \<Rightarrow> (Inr (queue_write r ss), end_request L s'));
          routed = (\<lambda>s'. case handle_request L C peer loc req s' of
                        (Inl e, s2) \<Rightarrow> failed s2
                      | (Inr r, s2) \<Rightarrow>
                          (let ss1 = queue_write r ss
                           in (Inr (if length (ss_queue ss1) < queue_limit then do_read ss1 else ss1),
                               end_request L s2)))
      in case ask_upgrade L C req ss s of
           (Some (Inl e), s') \<Rightarrow> failed s'
         | (Some (Inr True), s') \<Rightarrow> (Inr (ss\<lparr>ss_moved := True\<rparr>), end_request L s')
         | (_, s') \<Rightarrow> routed s')"

definition on_read ::
    "('w, 'a) slib \<Rightarrow> ('w, 'c) sconf \<Rightarrow> 'a option \<Rightarrow> 'a option \<Rightarrow> read_event \<Rightarrow> session \<Rightarrow> ('w, 'c) server \<Rightarrow>
     (exn + session) \<times> ('w, 'c) server" where
  "on_read L C peer loc ev ss s =
     (let ss0 = ss\<lparr>ss_reading := False\<rparr>
      in case ev of
           EndOfStream \<Rightarrow> (Inr (do_close ss0), s)
         | ReadFailed \<Rightarrow> (Inr ss0, s)
         | GotRequest req \<Rightarrow> answer_read L C peer loc req ss0 s)"

definition on_write :: "bool \<Rightarrow> bool \<Rightarrow> session \<Rightarrow> session" where
  "on_write keepAlive failed ss =
     (let ss0 = ss\<lparr>ss_writing := False\<rparr>
      in if failed then ss0
         else if \<not> keepAlive then do_close ss0
         else let ss1 = (if length (ss_queue ss0) = queue_limit then do_read ss0 else ss0)
              in do_write (ss1\<lparr>ss_queue := tl (ss_queue ss1)\<rparr>))"

text \<open>A connection with its history: the replies put in the queue and the ones written out.\<close>

record ('w, 'c) conn =
  cn_session :: session
  cn_server :: "('w, 'c) server"
  cn_answers :: "client_reply list"
  cn_sent :: "client_reply list"

inductive conn_step ::
    "('w, 'a) slib \<Rightarrow> ('w, 'c) sconf \<Rightarrow> 'a option \<Rightarrow> 'a option \<Rightarrow> ('w, 'c) conn \<Rightarrow> ('w, 'c) conn \<Rightarrow> bool"
  for L C peer loc where
  conn_read: "ss_reading (cn_session c) \<Longrightarrow>
      on_read L C peer loc ev (cn_session c) (cn_server c) = (Inr ss, s) \<Longrightarrow>
      conn_step L C peer loc c \<lparr>cn_session = ss, cn_server = s,
        cn_answers = cn_answers c @ drop (length (ss_queue (cn_session c))) (ss_queue ss), cn_sent = cn_sent c\<rparr>"
| conn_written: "ss_writing (cn_session c) \<Longrightarrow> reply = hd (ss_queue (cn_session c)) \<Longrightarrow>
      conn_step L C peer loc c (c\<lparr>cn_session := on_write (cr_keepAlive reply) False (cn_session c),
        cn_sent := cn_sent c @ [reply]\<rparr>)"
| conn_write_failed: "ss_writing (cn_session c) \<Longrightarrow>
      conn_step L C peer loc c (c\<lparr>cn_session :=
        on_write (cr_keepAlive (hd (ss_queue (cn_session c)))) True (cn_session c)\<rparr>)"

inductive conn_reach ::
    "('w, 'a) slib \<Rightarrow> ('w, 'c) sconf \<Rightarrow> 'a option \<Rightarrow> 'a option \<Rightarrow> ('w, 'c) conn \<Rightarrow> bool"
  for L C peer loc where
  conn_accepted: "conn_reach L C peer loc \<lparr>cn_session = session_start, cn_server = s, cn_answers = [], cn_sent = []\<rparr>"
| conn_next: "conn_reach L C peer loc c \<Longrightarrow> conn_step L C peer loc c c' \<Longrightarrow> conn_reach L C peer loc c'"

subsection \<open>Replies leave in order\<close>

lemmas session_ops = do_read_def do_write_def do_close_def queue_write_def on_write_def Let_def

text \<open>What a read may do to a session that is not reading any more: close, stop, hand the socket over while
  nothing waits, or queue one reply and read on while there is room.\<close>

definition read_result :: "session \<Rightarrow> session \<Rightarrow> bool" where
  "read_result ss ss' \<longleftrightarrow>
     ss' = ss \<or> ss' = do_close ss \<or> (ss_queue ss = [] \<and> ss' = ss\<lparr>ss_moved := True\<rparr>) \<or>
     (\<exists>r. ss' = queue_write r ss) \<or>
     (\<exists>r. length (ss_queue ss) + 1 < queue_limit \<and> ss' = do_read (queue_write r ss))"

lemma queue_write_simps [simp]:
  "ss_queue (queue_write r ss) = ss_queue ss @ [r]"
  "ss_reading (queue_write r ss) = ss_reading ss"
  "ss_writing (queue_write r ss) \<longleftrightarrow> ss_writing ss \<or> ss_queue ss = []"
  "ss_shut (queue_write r ss) = ss_shut ss" "ss_moved (queue_write r ss) = ss_moved ss"
  by (simp_all add: session_ops)

lemma on_read_result:
  assumes "on_read L C peer loc ev ss s = (Inr ss', s')"
  shows "read_result (ss\<lparr>ss_reading := False\<rparr>) ss'"
proof (cases ev)
  case (GotRequest req)
  obtain u s1 where u: "ask_upgrade L C req (ss\<lparr>ss_reading := False\<rparr>) s = (u, s1)" by fastforce
  have idle: "ss_queue ss = []" if "u = Some x" for x
    using u that by (auto simp: ask_upgrade_def split: option.splits if_splits prod.splits)
  show ?thesis using assms u idle
    by (auto simp: GotRequest on_read_def answer_read_def read_result_def Let_def
        split: option.splits sum.splits prod.splits bool.splits if_splits)
qed (use assms in \<open>auto simp: on_read_def read_result_def\<close>)

text \<open>The invariant. \<open>open_end\<close>: what was answered is what was sent and then the queue. Once a closing reply
  is out, it stays at the head of the queue and nothing more is written.\<close>

definition open_end :: "('w, 'c) conn \<Rightarrow> bool" where
  "open_end c \<longleftrightarrow> cn_answers c = cn_sent c @ ss_queue (cn_session c) \<and> list_all cr_keepAlive (cn_sent c)"

definition closed_end :: "('w, 'c) conn \<Rightarrow> bool" where
  "closed_end c \<longleftrightarrow> \<not> ss_writing (cn_session c) \<and> ss_shut (cn_session c) \<and>
     (\<exists>before r rest. cn_sent c = before @ [r] \<and> ss_queue (cn_session c) = r # rest \<and>
        cn_answers c = before @ r # rest \<and> list_all cr_keepAlive before \<and> \<not> cr_keepAlive r)"

definition conn_ok :: "('w, 'c) conn \<Rightarrow> bool" where
  "conn_ok c \<longleftrightarrow> (let ss = cn_session c in
     length (ss_queue ss) \<le> queue_limit \<and> (ss_reading ss \<longrightarrow> length (ss_queue ss) < queue_limit) \<and>
     (ss_writing ss \<longrightarrow> ss_queue ss \<noteq> []) \<and>
     (ss_moved ss \<longrightarrow> ss_queue ss = [] \<and> \<not> ss_reading ss \<and> \<not> ss_writing ss) \<and> (open_end c \<or> closed_end c))"

lemma conn_ok_read:
  assumes ok: "conn_ok c" and r: "ss_reading (cn_session c)"
    and step: "read_result ((cn_session c)\<lparr>ss_reading := False\<rparr>) ss"
  shows "conn_ok \<lparr>cn_session = ss, cn_server = s,
    cn_answers = cn_answers c @ drop (length (ss_queue (cn_session c))) (ss_queue ss), cn_sent = cn_sent c\<rparr>"
proof -
  let ?ss = "cn_session c"
  have room: "length (ss_queue ?ss) < queue_limit" and nm: "\<not> ss_moved ?ss"
    and w: "ss_writing ?ss \<Longrightarrow> ss_queue ?ss \<noteq> []"
    and e: "open_end c \<or> closed_end c"
    using ok r by (auto simp: conn_ok_def Let_def)
  have idle: "\<not> ss_writing ?ss" if "ss_queue ?ss = []" using w that by blast
  show ?thesis using step e room nm w
    by (auto simp: read_result_def conn_ok_def open_end_def closed_end_def do_close_def do_read_def)
qed

lemma conn_ok_written:
  assumes ok: "conn_ok c" and w: "ss_writing (cn_session c)"
  defines "reply \<equiv> hd (ss_queue (cn_session c))"
  shows "conn_ok (c\<lparr>cn_session := on_write (cr_keepAlive reply) False (cn_session c), cn_sent := cn_sent c @ [reply]\<rparr>)"
    and "conn_ok (c\<lparr>cn_session := on_write (cr_keepAlive reply) True (cn_session c)\<rparr>)"
proof -
  obtain q where q: "ss_queue (cn_session c) = reply # q"
    using ok w by (cases "ss_queue (cn_session c)") (auto simp: conn_ok_def reply_def Let_def)
  have e: "open_end c" using ok w by (auto simp: conn_ok_def closed_end_def Let_def)
  show "conn_ok (c\<lparr>cn_session := on_write (cr_keepAlive reply) False (cn_session c), cn_sent := cn_sent c @ [reply]\<rparr>)"
  proof (cases "cr_keepAlive reply")
    case True
    with ok w q e show ?thesis by (auto simp: conn_ok_def open_end_def session_ops queue_limit_def)
  next
    case False
    have "closed_end (c\<lparr>cn_session := on_write False False (cn_session c), cn_sent := cn_sent c @ [reply]\<rparr>)"
      using q e False by (auto simp: closed_end_def open_end_def session_ops)
    with ok w q False show ?thesis by (auto simp: conn_ok_def session_ops)
  qed
  show "conn_ok (c\<lparr>cn_session := on_write (cr_keepAlive reply) True (cn_session c)\<rparr>)"
    using ok w q e by (auto simp: conn_ok_def open_end_def session_ops)
qed

lemma conn_reach_ok: "conn_reach L C peer loc c \<Longrightarrow> conn_ok c"
proof (induction rule: conn_reach.induct)
  case (conn_next c c')
  from conn_next.hyps(2) show ?case
    by (cases rule: conn_step.cases)
      (use conn_next.IH conn_ok_read conn_ok_written on_read_result in blast)+
qed (simp add: conn_ok_def open_end_def session_start_def do_read_def queue_limit_def)

text \<open>C5. On every connection the replies go out in the order of the requests, each once: what was written is
  the beginning of what was answered, at most eight answers wait, the one being written is the oldest
  of them. Nothing is written after a reply that closes the connection, and the socket is handed to a websocket only when no
  reply waits and neither a read nor a write is under way.\<close>

theorem replies_in_order:
  assumes "conn_reach L C peer loc c"
  shows "prefix (cn_sent c) (cn_answers c) \<and> length (cn_answers c) \<le> length (cn_sent c) + queue_limit \<and>
    list_all cr_keepAlive (butlast (cn_sent c)) \<and>
    (ss_writing (cn_session c) \<longrightarrow>
       ss_queue (cn_session c) \<noteq> [] \<and> cn_answers c = cn_sent c @ ss_queue (cn_session c)) \<and>
    (ss_reading (cn_session c) \<longrightarrow> length (ss_queue (cn_session c)) < queue_limit) \<and>
    (ss_moved (cn_session c) \<longrightarrow>
       cn_answers c = cn_sent c \<and> \<not> ss_reading (cn_session c) \<and> \<not> ss_writing (cn_session c))"
proof -
  have ok: "conn_ok c" using assms by (rule conn_reach_ok)
  then consider "open_end c" | "closed_end c" by (auto simp: conn_ok_def Let_def)
  then show ?thesis
  proof cases
    case 1
    then have "list_all cr_keepAlive (butlast (cn_sent c))"
      by (auto simp: open_end_def list_all_iff dest: in_set_butlastD)
    with 1 ok show ?thesis by (auto simp: conn_ok_def open_end_def Let_def)
  next
    case 2
    with ok show ?thesis by (auto simp: conn_ok_def closed_end_def Let_def queue_limit_def)
  qed
qed

subsection \<open>Every request is answered\<close>

lemma andThen_Inr: "andThen m f s = (Inr y, s') \<longleftrightarrow> (\<exists>x s1. m s = (Inr x, s1) \<and> f x s1 = (Inr y, s'))"
  by (auto simp: andThen_def split: prod.splits sum.splits)

text \<open>What Boost.Beast says of \<open>prepare_payload\<close>: it sets the framing fields; a status that allows a body is
  not refused.\<close>

definition prepare_ok :: "('w, 'a) slib \<Rightarrow> bool" where
  "prepare_ok L \<longleftrightarrow> (\<forall>r. rs_status r \<in> {200, 500} \<longrightarrow>
     (\<exists>r'. bl_prepare L r = Some r' \<and> rs_status r' = rs_status r \<and> rs_body r' = rs_body r \<and>
        rs_keep_alive r' = rs_keep_alive r))"

definition error_bodies :: "string set" where
  "error_bodies = (\<lambda>p. p @ '' Internal Server Error!'') ` set errorPrefix"

text \<open>An error page: status 500, one of the fixed texts.\<close>

definition is_error_page :: "bool \<Rightarrow> client_reply \<Rightarrow> bool" where
  "is_error_page keepAlive r \<longleftrightarrow> cr_keepAlive r = keepAlive \<and> cr_canned r = [] \<and>
     (\<exists>m. cr_message r = Some m \<and> rs_status m = 500 \<and> rs_body m \<in> error_bodies)"

lemma randomError_body: "randomError r \<in> error_bodies"
proof -
  have "rand_between 0 (length errorPrefix - 1) r < length errorPrefix"
    by (simp add: rand_between_def errorPrefix_def less_Suc_eq_le)
  then show ?thesis by (auto simp: randomError_def randomErrorPrefix_def error_bodies_def)
qed

lemma prepared_500:
  assumes "prepare_ok L" and "rs_status r = 200 \<or> rs_status r = 500"
  obtains r' where "prepared L r = Inr r'" "rs_status r' = rs_status r" "rs_body r' = rs_body r"
    "rs_keep_alive r' = rs_keep_alive r"
  using assms by (fastforce simp: prepare_ok_def prepared_def)

lemma error_reply_page:
  assumes "prepare_ok L"
  shows "\<exists>r. error_reply L version keepAlive s = Inr r \<and> is_error_page keepAlive r"
proof -
  let ?r = "set_field ''Content-Type'' html_mime
    (new_response 500 version (randomError (bl_rand L (a_world (sv_a s)))) keepAlive)"
  obtain r' where "prepared L ?r = Inr r'" "rs_status r' = 500" "rs_body r' = rs_body ?r" "rs_keep_alive r' = rs_keep_alive ?r"
    using prepared_500 [OF assms, of ?r] by (auto simp: set_field_def new_response_def)
  then show ?thesis
    using randomError_body
    by (simp add: error_reply_def quickResponse_def asReply_def is_error_page_def set_field_def new_response_def)
qed

lemma build_keepAlive: "buildResponseToClient L C version keepAlive s = (Inr r, s') \<Longrightarrow> cr_keepAlive r = keepAlive"
  by (auto simp: buildResponseToClient_def reply_for_def Let_def split: sum.splits prod.splits if_splits)

lemma serve_keepAlive: "serve L C version keepAlive s = (Inr r, s') \<Longrightarrow> cr_keepAlive r = keepAlive"
  by (auto simp: serve_def Let_def andThen_Inr yield_def dest: build_keepAlive split: prod.splits sum.splits)

lemma asked_Inr:
  "asked hook go stop s = (Inr r, s') \<Longrightarrow> (\<exists>s1. go s1 = (Inr r, s') \<or> stop s1 = (Inr r, s'))"
  by (auto simp: asked_def andThen_Inr split: option.splits if_splits)

lemma process_keepAlive:
  "process_request L C peer loc req s = (Inr r, s') \<Longrightarrow> cr_keepAlive r = rq_keep_alive req"
  unfolding process_request_def Let_def andThen_Inr
  by (blast dest: asked_Inr build_keepAlive serve_keepAlive)

lemma options_keepAlive:
  assumes "prepare_ok L"
  shows "\<exists>r. options_reply L req = Inr r \<and> cr_keepAlive r = rq_keep_alive req"
proof -
  let ?r = "set_field ''Access-Control-Max-Age'' ''86400''
    (set_field ''Access-Control-Allow-Headers'' ''Content-Type, X-Requested-With, Authorization''
      (set_field ''Access-Control-Allow-Methods'' ''GET, POST, OPTIONS''
        (set_field ''Access-Control-Allow-Origin'' ''*''
          (new_response 200 (rq_version req) [] (rq_keep_alive req)))))"
  have r: "rs_status ?r = 200" "rs_keep_alive ?r = rq_keep_alive req" by (simp_all add: set_field_def new_response_def)
  obtain r' where "prepared L ?r = Inr r'" "rs_keep_alive r' = rs_keep_alive ?r"
    using prepared_500 [OF assms] r(1) by blast
  then show ?thesis using r(2) by (simp add: options_reply_def asReply_def)
qed

lemma outer_exception_page:
  assumes "prepare_ok L"
  shows "\<exists>r s'. on_outer_exception L C version keepAlive e s = (Inr r, s') \<and> is_error_page keepAlive r"
  unfolding on_outer_exception_def Let_def prod.inject
  using error_reply_page [OF assms] by blast

text \<open>The reply of \<open>handle_request\<close>: the one made inside, the page of the inner handler or the last resort.\<close>

lemma handle_request_cases:
  assumes "prepare_ok L" and "rq_method req \<noteq> ''OPTIONS''"
  obtains (answered) r s' where "process_request L C peer loc req (arrive L C s) = (Inr r, s')"
      "handle_request L C peer loc req s = (Inr r, s')"
  | (reported) e s1 r s' where "process_request L C peer loc req (arrive L C s) = (Inl e, s1)"
      "buildResponseToClient L C (rq_version req) (rq_keep_alive req) (on_exception L C e s1) = (Inr r, s')"
      "handle_request L C peer loc req s = (Inr r, s')"
  | (last_resort) e s1 e2 s2 r s' where "process_request L C peer loc req (arrive L C s) = (Inl e, s1)"
      "buildResponseToClient L C (rq_version req) (rq_keep_alive req) (on_exception L C e s1) = (Inl e2, s2)"
      "handle_request L C peer loc req s = (Inr r, s')" "is_error_page (rq_keep_alive req) r"
proof -
  obtain x s1 where p: "process_request L C peer loc req (arrive L C s) = (x, s1)" by fastforce
  show ?thesis
  proof (cases x)
    case (Inr r)
    with p assms(2) show ?thesis by (intro answered) (simp_all add: handle_request_def catching_def)
  next
    case (Inl e)
    obtain y s2 where b: "buildResponseToClient L C (rq_version req) (rq_keep_alive req) (on_exception L C e s1) = (y, s2)"
      by fastforce
    show ?thesis
    proof (cases y)
      case (Inr r)
      with p b Inl assms(2) show ?thesis by (intro reported) (simp_all add: handle_request_def catching_def)
    next
      case (Inl e2)
      obtain r s' where "on_outer_exception L C (rq_version req) (rq_keep_alive req) e2 s2 = (Inr r, s')"
          "is_error_page (rq_keep_alive req) r"
        using outer_exception_page [OF assms(1)] by blast
      with p b Inl \<open>x = Inl e\<close> assms(2) show ?thesis
        by (intro last_resort) (simp_all add: handle_request_def catching_def)
    qed
  qed
qed

lemma handle_request_reply:
  assumes "prepare_ok L"
  shows "\<exists>r s'. handle_request L C peer loc req s = (Inr r, s') \<and> cr_keepAlive r = rq_keep_alive req"
proof (cases "rq_method req = ''OPTIONS''")
  case True
  then show ?thesis using options_keepAlive [OF assms, of req] by (auto simp: handle_request_def)
next
  case False
  show ?thesis
    by (rule handle_request_cases [OF assms False, where C = C and peer = peer and loc = loc and s = s])
      (auto simp: is_error_page_def dest: process_keepAlive build_keepAlive)
qed

lemma end_request_idle [simp]: "wk_state (sv_worker (end_request L s)) = Idle"
  by (simp add: end_request_def requestEnd_def Let_def)

text \<open>C6. Every complete request gets exactly one answer: whatever the hooks, the router and the deferred part do or
  throw, \<open>on_read\<close> queues one reply that keeps the request's choice of keep-alive. The one exception is a
  request that asks for an upgrade while no reply waits and that the upgrade hook, asked for this request in
  this state, says it has taken: then the socket is handed over and nothing is queued; a hook that says no or
  throws leaves the socket and gets the request a reply. No exception leaves the handler, and the worker is
  idle again.\<close>

theorem every_request_answered:
  assumes "prepare_ok L"
  shows "\<exists>ss' s'. on_read L C peer loc (GotRequest req) ss s = (Inr ss', s') \<and> wk_state (sv_worker s') = Idle \<and>
    (if ss_queue ss = [] \<and> bl_is_upgrade L req \<and>
        (\<exists>hook t. sc_websocketUpgrade C = Some hook \<and> hook req (sv_a s) = (Inr True, t))
     then ss' = ss\<lparr>ss_reading := False, ss_moved := True\<rparr>
     else (\<exists>r. ss_queue ss' = ss_queue ss @ [r] \<and> cr_keepAlive r = rq_keep_alive req \<and> ss_moved ss' = ss_moved ss))"
proof -
  let ?ss = "ss\<lparr>ss_reading := False\<rparr>"
  obtain u s1 where u: "ask_upgrade L C req ?ss s = (u, s1)" by fastforce
  have taken: "u = Some (Inr True) \<longleftrightarrow> ss_queue ss = [] \<and> bl_is_upgrade L req \<and>
      (\<exists>hook t. sc_websocketUpgrade C = Some hook \<and> hook req (sv_a s) = (Inr True, t))"
    using u by (auto simp: ask_upgrade_def on_areq_def split: option.splits if_splits prod.splits)
  obtain r s2 where h: "handle_request L C peer loc req s1 = (Inr r, s2)" "cr_keepAlive r = rq_keep_alive req"
    using handle_request_reply [OF assms] by blast
  obtain e where e: "error_reply L (rq_version req) (rq_keep_alive req) s1 = Inr e" "cr_keepAlive e = rq_keep_alive req"
    using error_reply_page [OF assms, of "rq_version req" "rq_keep_alive req" s1] by (auto simp: is_error_page_def)
  have routed: "answer_read L C peer loc req ?ss s = (Inr (let ss1 = queue_write r ?ss in
      if length (ss_queue ss1) < queue_limit then do_read ss1 else ss1), end_request L s2)"
    if "u = None \<or> u = Some (Inr False)"
    using that u h(1) by (auto simp: answer_read_def Let_def)
  have thrown: "answer_read L C peer loc req ?ss s = (Inr (queue_write e ?ss), end_request L s1)" if "u = Some (Inl x)" for x
    using that u e(1) by (simp add: answer_read_def Let_def)
  have moved: "answer_read L C peer loc req ?ss s = (Inr (?ss\<lparr>ss_moved := True\<rparr>), end_request L s1)" if "u = Some (Inr True)"
    using that u by (simp add: answer_read_def Let_def)
  consider "u = None \<or> u = Some (Inr False)" | x where "u = Some (Inl x)" | "u = Some (Inr True)"
    by (metis (full_types) option.exhaust sum.exhaust)
  then show ?thesis
  proof cases
    case 1
    then have "u \<noteq> Some (Inr True)" by auto
    then show ?thesis using routed [OF 1] h(2) unfolding taken by (simp only: if_not_P) (simp add: on_read_def do_read_def Let_def)
  next
    case 2
    then have "u \<noteq> Some (Inr True)" by simp
    then show ?thesis using thrown [OF 2] e(2) unfolding taken by (simp only: if_not_P) (simp add: on_read_def)
  next
    case 3
    then show ?thesis using moved [OF 3] unfolding taken by (simp only: if_P) (simp add: on_read_def)
  qed
qed

subsection \<open>Errors\<close>

lemma log_response_body: "statusCode p = 500 \<Longrightarrow> prepare_ok L \<Longrightarrow>
    \<exists>r m. reply_for L p version keepAlive = Inr r \<and> cr_keepAlive r = keepAlive \<and> cr_canned r = [] \<and>
      cr_message r = Some m \<and> rs_status m = 500 \<and> rs_body m = html p"
proof -
  assume p: "statusCode p = 500" and L: "prepare_ok L"
  have kept: "rs_status (fold insert_field hs r) = rs_status r \<and> rs_body (fold insert_field hs r) = rs_body r" for hs r
    by (induction hs arbitrary: r) (auto simp: insert_field_def)
  have "rs_status (message_for p version keepAlive) = 500" "rs_body (message_for p version keepAlive) = html p"
    using p kept by (simp_all add: message_for_def set_field_def new_response_def)
  moreover obtain m where "prepared L (message_for p version keepAlive) = Inr m"
      "rs_status m = rs_status (message_for p version keepAlive)" "rs_body m = rs_body (message_for p version keepAlive)"
    using prepared_500 [OF L] calculation(1) by metis
  ultimately show ?thesis using p by (simp add: reply_for_def cannedEmptyHttp_def)
qed

lemma build_error_page:
  assumes "buildResponseToClient L C version keepAlive s = (Inr r, s')" and "prepare_ok L"
    and p: "statusCode (a_pay (sv_a s)) = 500" "html (a_pay (sv_a s)) \<in> error_bodies"
  shows "is_error_page keepAlive r"
proof -
  let ?p = "(a_pay (sv_a s))\<lparr>alreadySent := True\<rparr>"
  obtain r' m where "reply_for L ?p version keepAlive = Inr r'" "cr_keepAlive r' = keepAlive" "cr_canned r' = []"
      "cr_message r' = Some m" "rs_status m = 500" "rs_body m = html ?p"
    using log_response_body [of ?p L version keepAlive] p(1) assms(2) by auto
  moreover have "r = r'" using assms(1) calculation(1)
    by (auto simp: buildResponseToClient_def Let_def split: prod.splits if_splits sum.splits)
  ultimately show ?thesis using p(2) by (simp add: is_error_page_def)
qed

definition is_http_exception :: "exn \<Rightarrow> bool" where
  "is_http_exception e = (case e of HttpEx _ _ _ _ _ \<Rightarrow> True | _ \<Rightarrow> False)"

lemma error_payload_page:
  assumes "\<not> is_http_exception e" and "\<not> sc_htmlAllException C"
  shows "statusCode (error_payload C msg r e p) = 500 \<and> html (error_payload C msg r e p) \<in> error_bodies"
  using assms randomError_body by (cases e) (simp_all add: error_payload_def is_http_exception_def)

lemma on_exception_payload:
  "\<exists>msg r. a_pay (sv_a (on_exception L C e s)) = error_payload C msg r e (a_pay (sv_a s))"
  by (auto simp: on_exception_def append_log_def Let_def)

text \<open>C7. What an exception says stays on the server: when a hook, a handler or the deferred part throws anything
  but an \<open>HttpException\<close>, the client gets status 500 and one of the fixed texts, also when the access
  log or the reply itself fails on the way, unless the configuration asks for all exceptions to be shown.\<close>

theorem thrown_text_hidden:
  assumes "prepare_ok L" and "rq_method req \<noteq> ''OPTIONS''"
    and "process_request L C peer loc req (arrive L C s) = (Inl e, s1)"
    and "\<not> is_http_exception e" and "\<not> sc_htmlAllException C"
  shows "\<exists>r s'. handle_request L C peer loc req s = (Inr r, s') \<and> is_error_page (rq_keep_alive req) r"
proof -
  obtain msg n where p: "a_pay (sv_a (on_exception L C e s1)) = error_payload C msg n e (a_pay (sv_a s1))"
    using on_exception_payload by blast
  show ?thesis
    by (rule handle_request_cases [OF assms(1,2), where C = C and peer = peer and loc = loc and s = s])
      (use assms p error_payload_page [OF assms(4,5)] in \<open>auto dest!: build_error_page\<close>)
qed

text \<open>The text of an \<open>HttpException\<close> is the page, with its status code.\<close>

lemma http_exception_shown:
  assumes "shown \<noteq> []"
  shows "html (error_payload C msg r (HttpEx w f b shown code) p) = shown \<and>
    statusCode (error_payload C msg r (HttpEx w f b shown code) p) = code"
  using assms by (simp add: error_payload_def)

text \<open>With \<open>logRequest\<close> and \<open>logResponse\<close> set and one of the two lists left out of the configuration, as its
  default is, every request is answered with an error page, after its handler did its work.\<close>

lemma build_without_lists:
  assumes "sc_logRequest C" "sc_logResponse C" "sc_logWhitelist C = None \<or> sc_logBlacklist C = None"
  shows "\<exists>e s'. buildResponseToClient L C version keepAlive s = (Inl e, s')"
  using assms by (auto simp: buildResponseToClient_def log_response_def Let_def split: sum.splits prod.splits option.splits)

theorem access_log_needs_lists:
  assumes "prepare_ok L" and "rq_method req \<noteq> ''OPTIONS''"
    and "sc_logRequest C" "sc_logResponse C" "sc_logWhitelist C = None \<or> sc_logBlacklist C = None"
  shows "\<exists>r s'. handle_request L C peer loc req s = (Inr r, s') \<and> is_error_page (rq_keep_alive req) r"
proof -
  have no: "buildResponseToClient L C v k t \<noteq> (Inr r, t')" for v k t r t'
    using build_without_lists [OF assms(3-5), of L v k t] by auto
  have "serve L C v k t \<noteq> (Inr r, t')" for v k t r t'
    using no by (auto simp: serve_def Let_def andThen_Inr split: prod.splits sum.splits)
  then have none: "process_request L C peer loc req t \<noteq> (Inr r, t')" for t r t'
    using no unfolding process_request_def Let_def andThen_Inr by (blast dest: asked_Inr)
  show ?thesis
    by (rule handle_request_cases [OF assms(1,2), where C = C and peer = peer and loc = loc and s = s])
      (simp_all add: none no)
qed

subsection \<open>Who reaches the router\<close>

text \<open>A hook of the login engine as a hook of the server: its exceptions are translated.\<close>

definition lift_act :: "(auth_exn \<Rightarrow> exn) \<Rightarrow> ('s, 'a) act \<Rightarrow> ('s, 'a) may" where
  "lift_act tr m s = (case m s of (Inl e, s') \<Rightarrow> (Inl (tr e), s') | (Inr x, s') \<Rightarrow> (Inr x, s'))"

lemma router_fields:
  "sc_logRequest (C\<lparr>sc_router := rc\<rparr>) = sc_logRequest C" "sc_logResponse (C\<lparr>sc_router := rc\<rparr>) = sc_logResponse C"
  "sc_logWhitelist (C\<lparr>sc_router := rc\<rparr>) = sc_logWhitelist C" "sc_logBlacklist (C\<lparr>sc_router := rc\<rparr>) = sc_logBlacklist C"
  "sc_logFolder (C\<lparr>sc_router := rc\<rparr>) = sc_logFolder C" "sc_logRequestByIp (C\<lparr>sc_router := rc\<rparr>) = sc_logRequestByIp C"
  "sc_maxResponseSize (C\<lparr>sc_router := rc\<rparr>) = sc_maxResponseSize C"
  "sc_htmlAllException (C\<lparr>sc_router := rc\<rparr>) = sc_htmlAllException C" "sc_project (C\<lparr>sc_router := rc\<rparr>) = sc_project C"
  "sc_trustedProxies (C\<lparr>sc_router := rc\<rparr>) = sc_trustedProxies C" "sc_base (C\<lparr>sc_router := rc\<rparr>) = sc_base C"
  "sc_basePathFunctor (C\<lparr>sc_router := rc\<rparr>) = sc_basePathFunctor C"
  "sc_prePhase1 (C\<lparr>sc_router := rc\<rparr>) = sc_prePhase1 C" "sc_loginManager (C\<lparr>sc_router := rc\<rparr>) = sc_loginManager C"
  by simp_all

lemma router_parts:
  "log_response (C\<lparr>sc_router := rc\<rparr>) = log_response C" "access_line (C\<lparr>sc_router := rc\<rparr>) = access_line C"
  "access_file (C\<lparr>sc_router := rc\<rparr>) = access_file C" "error_payload (C\<lparr>sc_router := rc\<rparr>) = error_payload C"
  "read_request L (C\<lparr>sc_router := rc\<rparr>) = read_request L C"
  unfolding fun_eq_iff log_response_def access_line_def access_file_def error_payload_def read_request_def router_fields
  by simp_all

lemma build_router [simp]: "buildResponseToClient L (C\<lparr>sc_router := rc\<rparr>) = buildResponseToClient L C"
  unfolding fun_eq_iff buildResponseToClient_def router_fields router_parts by simp

lemma enter_router [simp]: "enter_request L (C\<lparr>sc_router := rc\<rparr>) peer loc req = enter_request L C peer loc req"
  unfolding enter_request_def router_fields router_parts ..

lemma handlers_router [simp]:
  "on_exception L (C\<lparr>sc_router := rc\<rparr>) = on_exception L C"
  "on_outer_exception L (C\<lparr>sc_router := rc\<rparr>) = on_outer_exception L C"
  "arrive L (C\<lparr>sc_router := rc\<rparr>) = arrive L C"
  unfolding fun_eq_iff on_exception_def on_outer_exception_def arrive_def router_fields router_parts by simp_all

lemma process_refused:
  assumes enter: "enter_request L C peer loc req t = (x, t1)"
    and hook: "sc_loginManager C = Some f" and no: "\<And>a. x = Inr () \<Longrightarrow> f (sv_a t1) \<noteq> (Inr True, a)"
  shows "process_request L (C\<lparr>sc_router := rc\<rparr>) peer loc req t = process_request L C peer loc req t"
proof (cases x)
  case (Inr u)
  obtain y a where f: "f (sv_a t1) = (y, a)" by fastforce
  with Inr no have "y \<noteq> Inr True" by auto
  then show ?thesis using enter Inr hook f
    by (cases y) (auto simp: process_request_def Let_def andThen_def asked_def on_areq_def)
qed (use enter in \<open>simp add: process_request_def Let_def andThen_def\<close>)

lemma process_let_through:
  assumes enter: "enter_request L C peer loc req t = (Inr (), t1)"
    and hook: "sc_loginManager C = Some f" and yes: "f (sv_a t1) = (Inr True, a)"
  shows "process_request L (C\<lparr>sc_router := rc\<rparr>) peer loc req t =
    asked (sc_common1 C) (serve L (C\<lparr>sc_router := rc\<rparr>) (rq_version req) (rq_keep_alive req))
      (buildResponseToClient L C (rq_version req) (rq_keep_alive req)) (t1\<lparr>sv_a := a\<rparr>)"
  using enter hook yes by (simp add: process_request_def Let_def andThen_def asked_def on_areq_def)

text \<open>C4. With the login engine as login hook, no handler of the project sees a request without a session. Let
  \<open>s1\<close> be the state of this very request when it has been read and prepared by the first hook. Either the
  request is let through from there: its path is public, or the session hook, asked with its own cookie in
  that state, accepts it, or the devel login asked right then gives a session, and \<open>postLogin\<close> agrees;
  then the routes are served in the state that check has left. Or the whole effect of the request is the
  same whatever the routes, the handlers and the static files are.\<close>

theorem router_needs_session:
  assumes "sc_loginManager C = Some (lift_act tr (loginManager A c))"
    and "enter_request L C peer loc req (arrive L C s) = (x, s1)"
  shows "(\<exists>a. x = Inr () \<and>
      (let b = snd (base_path c (sv_a s1)) in
         if is_public c (the_path (sv_a s1)) then a = sv_a s1
         else \<exists>ck t. cookies (a_req (sv_a s1)) = Some ck \<and>
           (case map_of ck (cookieName c) of
              None \<Rightarrow> devel_admits c b t
            | Some v \<Rightarrow> \<exists>f st u. f_resumeSession c = Some f \<and> f (skq_val v) b = (Inr st, u) \<and>
                (if st = SS_ok then t = u else devel_admits c u t)) \<and>
           post_admits c t a) \<and>
      process_request L (C\<lparr>sc_router := rc\<rparr>) peer loc req (arrive L C s) =
        asked (sc_common1 C) (serve L (C\<lparr>sc_router := rc\<rparr>) (rq_version req) (rq_keep_alive req))
          (buildResponseToClient L C (rq_version req) (rq_keep_alive req)) (s1\<lparr>sv_a := a\<rparr>)) \<or>
    handle_request L (C\<lparr>sc_router := rc\<rparr>) peer loc req s = handle_request L C peer loc req s"
proof (cases "x = Inr () \<and> (\<exists>a. loginManager A c (sv_a s1) = (Inr True, a))")
  case True
  then obtain a where x: "x = Inr ()" and a: "loginManager A c (sv_a s1) = (Inr True, a)" by blast
  then have p: "process_request L (C\<lparr>sc_router := rc\<rparr>) peer loc req (arrive L C s) =
        asked (sc_common1 C) (serve L (C\<lparr>sc_router := rc\<rparr>) (rq_version req) (rq_keep_alive req))
          (buildResponseToClient L C (rq_version req) (rq_keep_alive req)) (s1\<lparr>sv_a := a\<rparr>)"
    using assms by (intro process_let_through [where f = "lift_act tr (loginManager A c)"]) (auto simp: lift_act_def)
  have "admitted c (sv_a s1) a" using a by (simp add: loginManager_True)
  then show ?thesis using x p unfolding admitted_iff Let_def by blast
next
  case False
  then have "process_request L (C\<lparr>sc_router := rc\<rparr>) peer loc req (arrive L C s) = process_request L C peer loc req (arrive L C s)"
    by (intro process_refused [OF assms(2,1)]) (auto simp: lift_act_def split: prod.splits sum.splits)
  then have "handle_request L (C\<lparr>sc_router := rc\<rparr>) peer loc req s = handle_request L C peer loc req s"
    unfolding handle_request_def catching_def handlers_router build_router by (simp only:)
  then show ?thesis ..
qed

subsection \<open>What the handlers leave behind\<close>

text \<open>\<open>deferred\<close> runs before the reply is queued: when it throws, the reply that was ready is dropped.\<close>

theorem deferred_throw_drops_reply:
  assumes "router_immediate (\<lambda>w. bl_readf L (fst w)) (sc_router C) (url_path (a_req (sv_a s)))
      ((a_world (sv_a s), a_lim (sv_a s), a_req (sv_a s)), a_pay (sv_a s)) = (op, Inr (), (w, l, q), p)"
    and build: "buildResponseToClient L C version keepAlive
      (s\<lparr>sv_a := \<lparr>a_world = w, a_lim = l, a_req = q, a_pay = p\<rparr>\<rparr>) = (Inr r, s2)"
    and late: "router_deferred op (w, l, q) = (Inl e, w', l', q')"
  shows "\<exists>s'. serve L C version keepAlive s = (Inl e, s')"
proof -
  have "a_world (sv_a s2) = w" "a_lim (sv_a s2) = l" "a_req (sv_a s2) = q"
    using build by (auto simp: buildResponseToClient_def flush_time_def append_log_def Let_def
        split: sum.splits prod.splits if_splits)
  then show ?thesis using assms by (simp add: serve_def andThen_def run_deferred_def Let_def)
qed

text \<open>Actions that leave the counters of the workers alone.\<close>

definition keeps_load :: "(('w, 'c) server, 'x) may \<Rightarrow> bool" where
  "keeps_load m \<longleftrightarrow> (\<forall>s. sv_load (snd (m s)) = sv_load s)"

named_theorems load_intros \<open>actions that keep the worker counters\<close>

lemma keeps_load_andThen [load_intros]: "keeps_load m \<Longrightarrow> (\<And>x. keeps_load (f x)) \<Longrightarrow> keeps_load (andThen m f)"
  by (auto simp: keeps_load_def andThen_def split: prod.split sum.split) (metis snd_conv)+

lemma keeps_load_simple [load_intros]: "keeps_load (yield x)" "keeps_load (on_areq g)" "keeps_load (on_fcgi h)"
  by (simp_all add: keeps_load_def yield_def on_areq_def on_fcgi_def split: prod.split)

lemma keeps_load_build [load_intros]: "keeps_load (buildResponseToClient L C version keepAlive)"
  by (simp add: keeps_load_def buildResponseToClient_def flush_time_def append_log_def Let_def split: prod.split sum.split)

lemma keeps_load_deferred [load_intros]: "keeps_load (run_deferred op)"
  by (simp add: keeps_load_def run_deferred_def Let_def split: prod.split)

lemma keeps_load_asked [load_intros]: "keeps_load go \<Longrightarrow> keeps_load stop \<Longrightarrow> keeps_load (asked hook go stop)"
  by (auto simp: asked_def intro!: load_intros split: option.split)

lemma keeps_load_serve [load_intros]: "keeps_load (serve L C version keepAlive)"
proof (unfold keeps_load_def, intro allI)
  fix s
  have "keeps_load (andThen (buildResponseToClient L C version keepAlive)
      (\<lambda>response. andThen (run_deferred op) (\<lambda>_. yield response)))" for op by (intro load_intros)
  then show "sv_load (snd (serve L C version keepAlive s)) = sv_load s"
    by (simp add: serve_def keeps_load_def Let_def split: prod.split sum.split)
qed

lemma keeps_load_process [load_intros]: "keeps_load (process_request L C peer loc req)"
  unfolding process_request_def enter_request_def Let_def
  by (intro load_intros) (auto intro: load_intros split: option.split)

lemma keeps_loadD: "keeps_load m \<Longrightarrow> m s = (r, s') \<Longrightarrow> sv_load s' = sv_load s"
  by (metis keeps_load_def snd_conv)

lemma handle_request_load:
  assumes "handle_request L C peer loc req s = (r, s')"
  shows "ld_free (sv_load s') = ld_free (sv_load s) - 1"
proof -
  have a: "ld_free (sv_load (arrive L C s)) = ld_free (sv_load s) - 1"
    by (simp add: arrive_def begin_request_def requestBeging_def Let_def)
  have "sv_load s' = sv_load (arrive L C s)"
  proof (cases "rq_method req = ''OPTIONS''")
    case True
    with assms show ?thesis by (auto simp: handle_request_def flush_time_def Let_def split: sum.splits prod.splits)
  next
    case False
    have e: "sv_load (on_exception L C e t) = sv_load t" "sv_load (snd (on_outer_exception L C v k e t)) = sv_load t" for e v k t
      by (simp_all add: on_exception_def on_outer_exception_def append_log_def Let_def)
    obtain x s1 where p: "process_request L C peer loc req (arrive L C s) = (x, s1)" by fastforce
    note ps = keeps_loadD [OF keeps_load_process p]
    show ?thesis
    proof (cases x)
      case (Inr y)
      with assms False p ps show ?thesis by (simp add: handle_request_def catching_def)
    next
      case (Inl e1)
      obtain y s2 where b: "buildResponseToClient L C (rq_version req) (rq_keep_alive req) (on_exception L C e1 s1) = (y, s2)"
        by fastforce
      note bs = keeps_loadD [OF keeps_load_build b]
      show ?thesis
      proof (cases y)
        case (Inl e2)
        with assms False p b \<open>x = Inl e1\<close>
        have "s' = snd (on_outer_exception L C (rq_version req) (rq_keep_alive req) e2 s2)"
          by (simp add: handle_request_def catching_def)
        with e ps bs show ?thesis by simp
      qed (use assms False p b Inl e ps bs in \<open>simp add: handle_request_def catching_def\<close>)
    qed
  qed
  with a show ?thesis by simp
qed

lemma end_request_load [simp]: "ld_free (sv_load (end_request L s)) = ld_free (sv_load s) + 1"
  by (simp add: end_request_def requestEnd_def Let_def)

text \<open>The number of free workers: a routed request takes one and gives it back; a request whose upgrade hook took
  the socket, or threw, gives back one that it never took.\<close>

theorem workers_free_drift:
  assumes "prepare_ok L" and "on_read L C peer loc (GotRequest req) ss s = (Inr ss', s')"
    and "ask_upgrade L C req (ss\<lparr>ss_reading := False\<rparr>) s = (u, s1)"
  shows "ld_free (sv_load s') = ld_free (sv_load s) + (if u = None \<or> u = Some (Inr False) then 0 else 1)"
proof -
  let ?ss = "ss\<lparr>ss_reading := False\<rparr>"
  have a: "answer_read L C peer loc req ?ss s = (Inr ss', s')" using assms(2) by (simp add: on_read_def)
  have s1: "sv_load s1 = sv_load s"
    using assms(3) by (auto simp: ask_upgrade_def on_areq_def split: option.splits if_splits prod.splits)
  obtain r s2 where h: "handle_request L C peer loc req s1 = (Inr r, s2)" using handle_request_reply [OF assms(1)] by blast
  consider "u = None \<or> u = Some (Inr False)" | x where "u = Some (Inl x)" | "u = Some (Inr True)"
    by (metis (full_types) option.exhaust sum.exhaust)
  then show ?thesis
  proof cases
    case 1
    then have "s' = end_request L s2" using a assms(3) h by (auto simp: answer_read_def Let_def)
    with 1 s1 handle_request_load [OF h] show ?thesis by auto
  next
    case 2
    then have "s' = end_request L s1" using a assms(3) by (auto simp: answer_read_def Let_def split: sum.splits)
    with 2 s1 show ?thesis by simp
  next
    case 3
    then have "s' = end_request L s1" using a assms(3) by (auto simp: answer_read_def Let_def)
    with 3 s1 show ?thesis by simp
  qed
qed

subsection \<open>A request behind the closing one\<close>

lemma conn_routed:
  assumes "ss_reading (cn_session c)" and "sc_websocketUpgrade C = None"
    and "handle_request L C peer loc req (cn_server c) = (Inr r, s2)"
    and ss': "ss' = (let ss1 = queue_write r ((cn_session c)\<lparr>ss_reading := False\<rparr>)
      in if length (ss_queue ss1) < queue_limit then do_read ss1 else ss1)"
  shows "conn_step L C peer loc c \<lparr>cn_session = ss', cn_server = end_request L s2, cn_answers = cn_answers c @ [r],
    cn_sent = cn_sent c\<rparr>"
proof -
  have "on_read L C peer loc (GotRequest req) (cn_session c) (cn_server c) = (Inr ss', end_request L s2)"
    using assms(2-4) by (simp add: on_read_def answer_read_def ask_upgrade_def Let_def)
  from conn_step.conn_read [OF assms(1) this] show ?thesis using ss' by (simp add: Let_def do_read_def split: if_splits)
qed

text \<open>After the reply that closes the connection the session still reads: a request that came with the closing
  one runs with all its effects, and its answer is never written.\<close>

theorem served_after_close:
  fixes C :: "('w, 'c) sconf" and req1 req2 :: hreq
  assumes "prepare_ok L" and "sc_websocketUpgrade C = None" and "\<not> rq_keep_alive req1"
  shows "\<exists>c r1 r2 s2 s3. conn_reach L C peer loc c \<and> cn_sent c = [r1] \<and> cn_answers c = [r1, r2] \<and>
    ss_shut (cn_session c) \<and> \<not> ss_writing (cn_session c) \<and>
    handle_request L C peer loc req2 s2 = (Inr r2, s3)"
proof -
  obtain s :: "('w, 'c) server" where True by simp
  define c0 where "c0 = \<lparr>cn_session = session_start, cn_server = s, cn_answers = [], cn_sent = []\<rparr>"
  obtain r1 t1 where h1: "handle_request L C peer loc req1 s = (Inr r1, t1)" "\<not> cr_keepAlive r1"
    using handle_request_reply [OF assms(1)] assms(3) by metis
  define c1 where "c1 = \<lparr>cn_session = do_read (queue_write r1 (session_start\<lparr>ss_reading := False\<rparr>)),
    cn_server = end_request L t1, cn_answers = [r1], cn_sent = []\<rparr>"
  have s1: "conn_step L C peer loc c0 c1"
    using conn_routed [of c0 C L peer loc req1 r1 t1, OF _ assms(2) _ refl] h1(1)
    by (simp add: c0_def c1_def session_start_def do_read_def queue_limit_def Let_def)
  define c2 where "c2 = c1\<lparr>cn_session := on_write False False (cn_session c1), cn_sent := [r1]\<rparr>"
  have q1: "ss_queue (cn_session c1) = [r1]" "ss_writing (cn_session c1)" "cn_sent c1 = []"
    by (simp_all add: c1_def session_start_def do_read_def)
  have "conn_step L C peer loc c1 (c1\<lparr>cn_session := on_write (cr_keepAlive r1) False (cn_session c1),
      cn_sent := cn_sent c1 @ [r1]\<rparr>)"
    by (rule conn_step.conn_written) (simp_all only: q1 list.sel)
  then have s2: "conn_step L C peer loc c1 c2" using h1(2) by (simp only: c2_def q1 append.simps simp_thms)
  obtain r2 t2 where h2: "handle_request L C peer loc req2 (cn_server c2) = (Inr r2, t2)"
    using handle_request_reply [OF assms(1)] by blast
  define c3 where "c3 = \<lparr>cn_session = do_read (queue_write r2 ((cn_session c2)\<lparr>ss_reading := False\<rparr>)),
    cn_server = end_request L t2, cn_answers = [r1, r2], cn_sent = [r1]\<rparr>"
  have q2: "ss_queue (cn_session c2) = [r1]" "ss_reading (cn_session c2)" "\<not> ss_writing (cn_session c2)" "ss_shut (cn_session c2)"
    by (simp_all add: c2_def c1_def session_start_def on_write_def do_read_def do_close_def)
  have s3: "conn_step L C peer loc c2 c3"
    using conn_routed [of c2 C L peer loc req2 r2 t2, OF q2(2) assms(2) h2 refl] q2
    by (simp add: c3_def queue_limit_def c2_def c1_def)
  have "conn_reach L C peer loc c0" unfolding c0_def by (rule conn_accepted)
  then have "conn_reach L C peer loc c3" using s1 s2 s3 by (blast intro: conn_next)
  moreover have "ss_shut (cn_session c3)" "\<not> ss_writing (cn_session c3)"
    using q2 by (simp_all add: c3_def do_read_def)
  ultimately show ?thesis using h2 by (intro exI [of _ c3]) (auto simp: c3_def)
qed

subsection \<open>Samples\<close>

definition sample_slib :: "(int, sample_addr) slib" where
  "sample_slib = \<lparr>bl_asio = sample_asio, bl_find = map_of, bl_lower = id, bl_url = (\<lambda>u. Inr (slash # u)),
     bl_prepare = Some, bl_is_upgrade = (\<lambda>_. False), bl_readf = (\<lambda>_ _. None), bl_now_s = id, bl_now_ns = id,
     bl_stamp = (\<lambda>_. ''1.5''), bl_date = (\<lambda>_. ''2026-01-01''), bl_rand = (\<lambda>_. 3),
     bl_totals = (\<lambda>_. \<lparr>db_fetch = 0, db_server = 0, db_done = 0, db_reconnect = 0\<rparr>)\<rparr>"

definition sample_sconf :: "(int, unit) sconf" where
  "sample_sconf = \<lparr>sc_prePhase1 = None, sc_loginManager = None, sc_common1 = None,
     sc_router = \<lparr>routing = [], routingSimple = [], staticFile = None, staticFileCacheTTL = 0\<rparr>,
     sc_basePathFunctor = None, sc_base = \<lparr>basePathOpt = Some [], port = 80\<rparr>, sc_project = (),
     sc_trustedProxies = None, sc_logFolder = ''log'', sc_logRequest = False, sc_logResponse = False,
     sc_logRequestByIp = False, sc_maxResponseSize = 16384, sc_logWhitelist = None, sc_logBlacklist = None,
     sc_htmlAllException = False, sc_websocketUpgrade = None\<rparr>"

definition sample_hreq :: "string \<Rightarrow> bool \<Rightarrow> hreq" where
  "sample_hreq target keepAlive = \<lparr>rq_method = ''GET'', rq_target = target, rq_version = 11,
     rq_keep_alive = keepAlive, rq_fields = [], rq_body = []\<rparr>"

definition sample_server :: "(int, unit) server" where
  "sample_server = \<lparr>sv_a = \<lparr>a_world = 0, a_lim = limiter_init, a_req = fresh_request (), a_pay = payload_init\<rparr>,
     sv_load = load_init 2, sv_worker = \<lparr>wk_state = Idle, wk_time = timing_reset 0\<rparr>, sv_log = [], sv_printed = []\<rparr>"

lemma sample_prepare: "prepare_ok sample_slib"
  by (simp add: prepare_ok_def sample_slib_def)

text \<open>A hook that throws.\<close>

definition throwing_sconf :: "(int, unit) sconf" where
  "throwing_sconf = sample_sconf\<lparr>sc_prePhase1 := Some (\<lambda>a. (Inl (StdException ''table users is missing''), a))\<rparr>"

lemma sample_throws:
  "\<exists>s1. process_request sample_slib throwing_sconf None None (sample_hreq ''/x'' True)
      (arrive sample_slib throwing_sconf sample_server) = (Inl (StdException ''table users is missing''), s1)"
  by (simp add: process_request_def enter_request_def andThen_def on_fcgi_def on_areq_def read_request_def
      sample_slib_def sample_sconf_def throwing_sconf_def sample_hreq_def getBasePath_def arrive_def
      begin_request_def fresh_request_def requestBeging_def Let_def split: prod.split)

theorem thrown_text_hidden_witness:
  "\<exists>r s'. handle_request sample_slib throwing_sconf None None (sample_hreq ''/x'' True) sample_server = (Inr r, s') \<and>
     is_error_page True r"
proof -
  obtain s1 where t: "process_request sample_slib throwing_sconf None None (sample_hreq ''/x'' True)
      (arrive sample_slib throwing_sconf sample_server) = (Inl (StdException ''table users is missing''), s1)"
    using sample_throws by blast
  show ?thesis
    using thrown_text_hidden [OF sample_prepare _ t]
    by (simp add: sample_hreq_def is_http_exception_def throwing_sconf_def sample_sconf_def)
qed

theorem every_request_answered_witness:
  "\<exists>r ss' s'. on_read sample_slib throwing_sconf None None (GotRequest (sample_hreq ''/x'' True)) session_start
      sample_server = (Inr ss', s') \<and> ss_queue ss' = [r] \<and> cr_keepAlive r \<and> wk_state (sv_worker s') = Idle"
  using every_request_answered [OF sample_prepare, of throwing_sconf None None "sample_hreq ''/x'' True" session_start sample_server]
  by (auto simp: throwing_sconf_def sample_sconf_def session_start_def do_read_def sample_hreq_def)

theorem replies_in_order_witness:
  "\<exists>c. conn_reach sample_slib sample_sconf None None c \<and> length (cn_answers c) = 2 \<and> length (cn_sent c) = 1 \<and>
     prefix (cn_sent c) (cn_answers c)"
proof -
  obtain c r1 r2 where c: "conn_reach sample_slib sample_sconf None None c" "cn_sent c = [r1]" "cn_answers c = [r1, r2]"
    using served_after_close [OF sample_prepare, of sample_sconf "sample_hreq ''/x'' False" None None "sample_hreq ''/y'' True"]
    by (auto simp: sample_sconf_def sample_hreq_def)
  show ?thesis using replies_in_order [OF c(1)] c by (intro exI [of _ c]) simp
qed

text \<open>The login engine in front of a route, and a request without a cookie.\<close>

definition guarded_sconf :: "(int, unit) sconf" where
  "guarded_sconf = sample_sconf\<lparr>
     sc_prePhase1 := Some (\<lambda>a. (Inr (), a\<lparr>a_req := (a_req a)\<lparr>cookies := Some []\<rparr>\<rparr>)),
     sc_loginManager := Some (lift_act (\<lambda>_. UnknownException) (loginManager demo_lib demo_conf)),
     sc_router := \<lparr>routing = [], routingSimple = [(''secret'', \<lambda>s. (Inr (), s))], staticFile = None, staticFileCacheTTL = 0\<rparr>\<rparr>"

lemma guarded_enters:
  "\<exists>s1. enter_request sample_slib guarded_sconf None None (sample_hreq ''/secret'' True)
      (arrive sample_slib guarded_sconf sample_server) = (Inr (), s1) \<and>
      url_path (a_req (sv_a s1)) = ''/secret'' \<and> cookies (a_req (sv_a s1)) = Some []"
  by (simp add: enter_request_def andThen_def on_fcgi_def on_areq_def read_request_def
      sample_slib_def sample_sconf_def guarded_sconf_def sample_hreq_def getBasePath_def arrive_def slash_def
      begin_request_def fresh_request_def requestBeging_def Let_def split: prod.split)

theorem router_needs_session_witness:
  "handle_request sample_slib (guarded_sconf\<lparr>sc_router := sc_router sample_sconf\<rparr>) None None (sample_hreq ''/secret'' True) sample_server
   = handle_request sample_slib guarded_sconf None None (sample_hreq ''/secret'' True) sample_server"
proof -
  obtain s1 where e: "enter_request sample_slib guarded_sconf None None (sample_hreq ''/secret'' True)
      (arrive sample_slib guarded_sconf sample_server) = (Inr (), s1)"
    and u: "url_path (a_req (sv_a s1)) = ''/secret''" "cookies (a_req (sv_a s1)) = Some []"
    using guarded_enters by blast
  have "sc_loginManager guarded_sconf = Some (lift_act (\<lambda>_. UnknownException) (loginManager demo_lib demo_conf))"
    by (simp add: guarded_sconf_def)
  note r = router_needs_session [OF this e, where rc = "sc_router sample_sconf"]
  have "\<not> is_public demo_conf (the_path (sv_a s1))" "f_develLogin demo_conf = None"
    using u(1) by (simp_all add: is_public_def the_path_def demo_defs)
  then show ?thesis using r u(2) by (simp add: Let_def devel_admits_def)
qed

end
