(* ===== verification/DbConnection.thy ===== *)
theory DbConnection
  imports SqlQuery MapExt
begin

text \<open>
  The connection side of \<^verbatim>\<open>minMysql/min_mysql.cpp\<close>: connecting and its set-up statements, the ping before a
  query, a query with its error codes, reading the results, the SQL log. The record \<open>db\<close> is what one thread sees of a
  \<open>DB\<close>: its slot of the connection pool, its \<open>InternalState\<close>, the configuration.

  The client library is the record \<open>mysql\<close> of functions over a world \<open>'w\<close>; a handle is the address of a
  \<^verbatim>\<open>st_mysql\<close>. Connecting runs queries and a query may connect: the functions take each other as
  parameters, and \<open>db_query\<close> closes the knot over a fuel. \<open>Crashed\<close> is undefined behaviour or a throw
  that ends the process. Messages are cut to the statement and the library's text.
\<close>

subsection \<open>State\<close>

record dbconf =
  cf_host :: string
  cf_user :: string
  cf_pass :: string
  cf_port :: nat
  cf_ssl :: "bool option"
  cf_writeBinlog :: bool
  cf_isMariaDB8 :: "bool option"
  cf_warningSuppression :: "string list"
  cf_logSql :: "bool option"
  cf_logError :: "bool option"
  cf_pingBeforeQuery :: "bool option"
  cf_NULL_as_EMPTY :: bool
  cf_defaultDB :: string

record internal =
  in_lastSQL :: string
  in_lastError :: string
  in_totServerTime :: int
  in_totFetchTime :: int
  in_serverTime :: int
  in_fetchTime :: int
  in_lastErrorCode :: nat
  in_queryExecuted :: nat
  in_reconnection :: nat
  in_NULL_as_EMPTY :: bool
  in_skipNextDisconnect :: bool
  in_uniqueViolationNothrow :: bool
  in_noFetch :: bool
  in_affectedRows :: nat
  in_multiStatements :: bool

definition internal_init :: internal where
  "internal_init = \<lparr>in_lastSQL = [], in_lastError = [], in_totServerTime = 0, in_totFetchTime = 0, in_serverTime = 0,
     in_fetchTime = 0, in_lastErrorCode = 0, in_queryExecuted = 0, in_reconnection = 0, in_NULL_as_EMPTY = False,
     in_skipNextDisconnect = False, in_uniqueViolationNothrow = False, in_noFetch = False, in_affectedRows = 0,
     in_multiStatements = True\<rparr>"

text \<open>A result set: its columns and its rows; a cell that is SQL NULL is None.\<close>

record result_set =
  rt_columns :: "string list"
  rt_rows :: "string option list list"

record 'w mysql =
  my_real_connect :: "dbconf \<Rightarrow> bool \<times> bool \<Rightarrow> 'w \<Rightarrow> (nat \<times> string + nat) \<times> 'w"
  my_set_option :: "nat \<Rightarrow> bool \<Rightarrow> 'w \<Rightarrow> string option \<times> 'w"
  my_ping :: "nat \<Rightarrow> 'w \<Rightarrow> bool \<times> 'w"
  my_thread_id :: "nat \<Rightarrow> 'w \<Rightarrow> nat"
  my_query :: "nat \<Rightarrow> string \<Rightarrow> 'w \<Rightarrow> 'w"
  my_elapsed :: "'w \<Rightarrow> int"
  my_errno :: "nat \<Rightarrow> 'w \<Rightarrow> nat"
  my_error :: "nat \<Rightarrow> 'w \<Rightarrow> string"
  my_affected_rows :: "nat \<Rightarrow> 'w \<Rightarrow> nat"
  my_warning_count :: "nat \<Rightarrow> 'w \<Rightarrow> nat"
  my_results :: "nat \<Rightarrow> 'w \<Rightarrow> result_set option list"
  my_consume :: "nat \<Rightarrow> 'w \<Rightarrow> 'w"
  my_insert_id :: "nat \<Rightarrow> 'w \<Rightarrow> nat"
  my_close :: "nat \<Rightarrow> 'w \<Rightarrow> 'w"

record 'w db =
  d_world :: 'w
  d_conn :: "nat option"
  d_state :: internal
  d_skipWarning :: bool
  d_conf :: "dbconf option"
  d_log :: "(string \<times> string) list"
  d_noted :: "(nat \<times> string) option"
  d_reconnects :: nat

datatype dexn = DbEx db_error string | StdEx string | StringEx string

datatype 'a db_outcome = Returned 'a | Raised dexn | Crashed | OutOfFuel

type_synonym ('w, 'a) dbm = "'w db \<Rightarrow> 'a db_outcome \<times> 'w db"

definition give :: "'a \<Rightarrow> ('w, 'a) dbm" where
  "give x s = (Returned x, s)"

definition raise :: "dexn \<Rightarrow> ('w, 'a) dbm" where
  "raise e s = (Raised e, s)"

definition chain :: "('w, 'a) dbm \<Rightarrow> ('a \<Rightarrow> ('w, 'b) dbm) \<Rightarrow> ('w, 'b) dbm" where
  "chain m f s = (case m s of
     (Returned x, s') \<Rightarrow> f x s' | (Raised e, s') \<Rightarrow> (Raised e, s') | (Crashed, s') \<Rightarrow> (Crashed, s')
   | (OutOfFuel, s') \<Rightarrow> (OutOfFuel, s'))"

text \<open>\<open>optional::value()\<close>.\<close>

definition opt_value :: "'a option \<Rightarrow> ('w, 'a) dbm" where
  "opt_value x = (case x of None \<Rightarrow> raise (StdEx ''bad optional access'') | Some v \<Rightarrow> give v)"

definition upd_state :: "(internal \<Rightarrow> internal) \<Rightarrow> 'w db \<Rightarrow> 'w db" where
  "upd_state f s = s\<lparr>d_state := f (d_state s)\<rparr>"

subsection \<open>Configuration and slot\<close>

definition getConf :: "('w, dbconf) dbm" where
  "getConf s = (case d_conf s of
     None \<Rightarrow> (Raised (StdEx ''you have not set the configuration!''), s) | Some c \<Rightarrow> (Returned c, s))"

definition setConf :: "dbconf \<Rightarrow> ('w, unit) dbm" where
  "setConf c s =
     (if d_conf s \<noteq> None
      then (Raised (StdEx ''better not set twice the db config to avoid abomination''), s)
      else (Returned (), upd_state (\<lambda>i. i\<lparr>in_NULL_as_EMPTY := cf_NULL_as_EMPTY c\<rparr>) (s\<lparr>d_conf := Some c\<rparr>)))"

definition setConfIfNotSet :: "dbconf \<Rightarrow> ('w, unit) dbm" where
  "setConfIfNotSet c s = (if d_conf s = None then setConf c s else (Returned (), s))"

definition getDefaultDB :: "dbconf \<Rightarrow> ('w, string) dbm" where
  "getDefaultDB c =
     (if cf_defaultDB c = []
      then raise (StdEx ''default DB is sadly required to avoid mysql complain on certain operation!'')
      else give (cf_defaultDB c))"

text \<open>Storing into the slot drops the connection it held, which closes it.\<close>

definition set_conn :: "'w mysql \<Rightarrow> nat option \<Rightarrow> 'w db \<Rightarrow> 'w db" where
  "set_conn L c s = s\<lparr>d_conn := c, d_world := (case d_conn s of None \<Rightarrow> d_world s | Some h \<Rightarrow> my_close L h (d_world s))\<rparr>"

definition closeConn :: "'w mysql \<Rightarrow> 'w db \<Rightarrow> 'w db" where
  "closeConn L s = set_conn L None s"

definition noteError :: "nat \<Rightarrow> string \<Rightarrow> 'w db \<Rightarrow> 'w db" where
  "noteError code msg s = s\<lparr>d_noted := Some (code, msg)\<rparr>"

definition noteReconnect :: "'w db \<Rightarrow> 'w db" where
  "noteReconnect s = s\<lparr>d_reconnects := d_reconnects s + 1\<rparr>"

definition applyMultiStatements :: "'w mysql \<Rightarrow> nat \<Rightarrow> bool \<Rightarrow> ('w, unit) dbm" where
  "applyMultiStatements L h on s =
     (case my_set_option L h on (d_world s) of
        (None, w) \<Rightarrow> (Returned (), s\<lparr>d_world := w\<rparr>)
      | (Some err, w) \<Rightarrow>
          (Raised (DbEx Connection (''mysql_set_server_option('' @ (if on then ''ON'' else ''OFF'') @ '') failed: '' @ err)),
           s\<lparr>d_world := w\<rparr>))"

definition setMultiStatements :: "'w mysql \<Rightarrow> bool \<Rightarrow> ('w, unit) dbm" where
  "setMultiStatements L on s =
     (let s1 = upd_state (\<lambda>i. i\<lparr>in_multiStatements := on\<rparr>) s
      in case d_conn s1 of None \<Rightarrow> (Returned (), s1) | Some h \<Rightarrow> applyMultiStatements L h on s1)"

subsection \<open>The SQL log\<close>

record logger =
  lg_sql :: string
  lg_error :: string
  lg_logSql :: bool
  lg_logError :: bool
  lg_serverTime :: int

definition sql_logger :: "string \<Rightarrow> bool \<Rightarrow> logger" where
  "sql_logger sql enabled = \<lparr>lg_sql = sql, lg_error = [], lg_logSql = False, lg_logError = enabled, lg_serverTime = 0\<rparr>"

text \<open>\<open>SQLLogger::flush\<close>, which the destructor calls.\<close>

definition flush_logger :: "logger \<Rightarrow> 'w db \<Rightarrow> 'w db" where
  "flush_logger lg s =
     (if lg_error lg = [] \<and> \<not> lg_logSql lg then s
      else if lg_error lg \<noteq> [] \<and> \<not> lg_logError lg then s
      else s\<lparr>d_log := d_log s @ [(lg_sql lg, lg_error lg)]\<rparr>)"

subsection \<open>Connecting\<close>

definition quote_mark :: string where
  "quote_mark = [CHR 0x27]"

definition default_conf :: dbconf where
  "default_conf = \<lparr>cf_host = ''127.0.0.1'', cf_user = [], cf_pass = [], cf_port = 3306, cf_ssl = Some False,
     cf_writeBinlog = True, cf_isMariaDB8 = Some False, cf_warningSuppression = [], cf_logSql = Some False,
     cf_logError = Some False, cf_pingBeforeQuery = Some True, cf_NULL_as_EMPTY = False, cf_defaultDB = []\<rparr>"

definition conf_of :: "'w db \<Rightarrow> dbconf" where
  "conf_of s = (case d_conf s of None \<Rightarrow> default_conf | Some c \<Rightarrow> c)"

definition getInfo :: "dbconf \<Rightarrow> bool \<Rightarrow> string" where
  "getInfo c passwd = '' '' @ cf_host c @ '':'' @ show_nat (cf_port c) @ ''  user: '' @ cf_user c
     @ (if passwd then cf_pass c else [])"

text \<open>The flags: \<open>conf.ssl\<close> is an \<^verbatim>\<open>optional<bool>\<close> and counts as set whenever it holds a value.\<close>

definition connect_flags :: "dbconf \<Rightarrow> internal \<Rightarrow> bool \<times> bool" where
  "connect_flags c i = (in_multiStatements i, cf_ssl c \<noteq> None)"

definition setup_statements :: "dbconf \<Rightarrow> bool \<Rightarrow> string list" where
  "setup_statements c mariaDB8 =
     (if mariaDB8 then []
      else [''SET @@SQL_MODE = '' @ quote_mark @ ''STRICT_TRANS_TABLES,NO_ENGINE_SUBSTITUTION,ONLY_FULL_GROUP_BY''
              @ quote_mark @ '';''])
     @ [''SET time_zone='' @ quote_mark @ ''UTC'' @ quote_mark]
     @ (if cf_writeBinlog c then [] else [''SET sql_log_bin = 0''])
     @ [''SET collation_server = '' @ quote_mark @ ''utf8mb4_general_ci'' @ quote_mark @ '';'']"

fun run_all :: "(string \<Rightarrow> ('w, 'r) dbm) \<Rightarrow> string list \<Rightarrow> ('w, unit) dbm" where
  "run_all Q [] = give ()"
| "run_all Q (sql # sqls) = chain (Q sql) (\<lambda>_. run_all Q sqls)"

definition connect_refused :: "dbconf \<Rightarrow> nat \<times> string \<Rightarrow> ('w, 'a) dbm" where
  "connect_refused c e s = (case e of (no, err) \<Rightarrow>
     (let msg = ''Mysql connection error (mysql_init). for '' @ getInfo c False @ '' Error '' @ err
      in (Raised (DbEx (if no = 1049 then InvalidDB else Connection) msg),
          noteError no msg (upd_state (\<lambda>i. i\<lparr>in_lastError := msg\<rparr>) s))))"

text \<open>The connection goes into the slot before its option and its set-up statements.\<close>

definition set_up :: "'w mysql \<Rightarrow> (string \<Rightarrow> ('w, 'r) dbm) \<Rightarrow> dbconf \<Rightarrow> nat \<Rightarrow> ('w, unit) dbm" where
  "set_up L Q c h s =
     chain (applyMultiStatements L h (in_multiStatements (d_state s)))
       (\<lambda>_. chain (opt_value (cf_isMariaDB8 c)) (\<lambda>m8. run_all Q (setup_statements c m8))) s"

definition connect_body :: "'w mysql \<Rightarrow> (string \<Rightarrow> ('w, 'r) dbm) \<Rightarrow> ('w, unit) dbm" where
  "connect_body L Q =
     chain getConf (\<lambda>c. chain (getDefaultDB c) (\<lambda>_ s.
       case my_real_connect L c (connect_flags c (d_state s)) (d_world s) of
         (Inl e, w) \<Rightarrow> connect_refused c e (s\<lparr>d_world := w\<rparr>)
       | (Inr h, w) \<Rightarrow> set_up L Q c h (set_conn L (Some h) (s\<lparr>d_world := w\<rparr>))))"

definition tryConnect :: "('w, unit) dbm \<Rightarrow> ('w, bool) dbm" where
  "tryConnect K s = (case K s of
     (Returned _, s') \<Rightarrow> (Returned True, s') | (Raised _, s') \<Rightarrow> (Returned False, s')
   | (Crashed, s') \<Rightarrow> (Crashed, s') | (OutOfFuel, s') \<Rightarrow> (OutOfFuel, s'))"

definition getConn :: "('w, unit) dbm \<Rightarrow> ('w, nat) dbm" where
  "getConn K s = (case d_conn s of
     Some h \<Rightarrow> (Returned h, s)
   | None \<Rightarrow> chain K (\<lambda>_ s'. case d_conn s' of Some h \<Rightarrow> (Returned h, s') | None \<Rightarrow> (Crashed, s')) s)"

subsection \<open>The ping before a query\<close>

text \<open>The retries: the connection variable afterwards is None when \<open>getConn\<close> threw.\<close>

fun ping_loop ::
    "'w mysql \<Rightarrow> ('w, unit) dbm \<Rightarrow> nat \<Rightarrow> nat \<Rightarrow> 'w db \<Rightarrow> (bool db_outcome \<times> nat option) \<times> 'w db" where
  "ping_loop L K 0 h s =
     (case my_ping L h (d_world s) of (failed, w) \<Rightarrow> ((Returned (\<not> failed), Some h), s\<lparr>d_world := w\<rparr>))"
| "ping_loop L K (Suc k) h s =
     (case my_ping L h (d_world s) of
        (False, w) \<Rightarrow> ((Returned True, Some h), s\<lparr>d_world := w\<rparr>)
      | (True, w) \<Rightarrow>
          (case getConn K (closeConn L (s\<lparr>d_world := w\<rparr>)) of
             (Returned h', s') \<Rightarrow> ping_loop L K k h' s'
           | (Raised e, s') \<Rightarrow> ((Raised e, None), s')
           | (Crashed, s') \<Rightarrow> ((Crashed, None), s')
           | (OutOfFuel, s') \<Rightarrow> ((OutOfFuel, None), s')))"

text \<open>The scope guard: a throw inside it ends the process.\<close>

definition ping_guard :: "'w mysql \<Rightarrow> nat \<Rightarrow> nat option \<Rightarrow> ('w, unit) dbm" where
  "ping_guard L oldConnId conn s =
     (case conn of
        None \<Rightarrow> (Returned (), s)
      | Some h \<Rightarrow>
          if my_thread_id L h (d_world s) = oldConnId then (Returned (), s)
          else
            (let s1 = noteReconnect (upd_state (\<lambda>i. i\<lparr>in_reconnection := (in_reconnection i + 1) mod 2 ^ 32\<rparr>) s)
             in case applyMultiStatements L h (in_multiStatements (d_state s1)) s1 of
                  (Returned _, s2) \<Rightarrow> (Returned (), s2)
                | (_, s2) \<Rightarrow> (Crashed, s2)))"

definition ping_result :: "'w mysql \<Rightarrow> bool \<Rightarrow> string \<Rightarrow> bool db_outcome \<Rightarrow> nat option \<Rightarrow> ('w, nat) dbm" where
  "ping_result L logError err r conn s =
     (case (r, conn) of
        (Returned True, Some h) \<Rightarrow> (Returned h, s)
      | (Returned False, Some h) \<Rightarrow>
          (Raised (StringEx err), flush_logger ((sql_logger ''PING'' logError)\<lparr>lg_error := err\<rparr>) s)
      | (Raised e, _) \<Rightarrow> (Raised e, s)
      | (OutOfFuel, _) \<Rightarrow> (OutOfFuel, s)
      | _ \<Rightarrow> (Crashed, s))"

definition ping_error :: "'w mysql \<Rightarrow> nat option \<Rightarrow> 'w db \<Rightarrow> string" where
  "ping_error L conn s = ''Mysql error for PING error was ''
     @ (case conn of None \<Rightarrow> [] | Some h \<Rightarrow> my_error L h (d_world s)) @ getInfo (conf_of s) False"

definition pingCheck :: "'w mysql \<Rightarrow> ('w, unit) dbm \<Rightarrow> nat \<Rightarrow> ('w, nat) dbm" where
  "pingCheck L K h s =
     (if cf_pingBeforeQuery (conf_of s) = Some False then (Returned h, s)
      else chain (opt_value (cf_logError (conf_of s))) (\<lambda>logError s.
        case ping_loop L K 5 h s of
          ((OutOfFuel, _), s1) \<Rightarrow> (OutOfFuel, s1)
        | ((Crashed, _), s1) \<Rightarrow> (Crashed, s1)
        | ((r, conn), s1) \<Rightarrow>
            chain (ping_guard L (my_thread_id L h (d_world s)) conn)
              (\<lambda>_. ping_result L logError (ping_error L conn s1) r conn) s1) s)"

subsection \<open>A query\<close>

definition count_query :: "'w mysql \<Rightarrow> nat \<Rightarrow> internal \<Rightarrow> 'w \<Rightarrow> internal" where
  "count_query L h i w = i\<lparr>in_queryExecuted := (in_queryExecuted i + 1) mod 2 ^ 32, in_serverTime := my_elapsed L w,
     in_totServerTime := in_totServerTime i + my_elapsed L w, in_affectedRows := my_affected_rows L h w,
     in_lastErrorCode := my_errno L h w\<rparr>"

text \<open>On a lock error the running statements are listed through a second \<open>DB\<close>, whose connection and state
  are its own and go away at the end.\<close>

definition processlist :: "'w mysql \<Rightarrow> (string \<Rightarrow> ('w, 'r) dbm) \<Rightarrow> ('w, unit) dbm" where
  "processlist L Q s =
     (let s1 = s\<lparr>d_conn := None, d_skipWarning := False,
                 d_state := internal_init\<lparr>in_NULL_as_EMPTY := cf_NULL_as_EMPTY (conf_of s)\<rparr>\<rparr>;
          (r, s2) = chain (Q ''SHOW FULL PROCESSLIST'') (\<lambda>_. give ()) s1
      in (r, (closeConn L s2)\<lparr>d_conn := d_conn s, d_state := d_state s, d_skipWarning := d_skipWarning s\<rparr>))"

text \<open>Losing the connection closes it; a lock error keeps it in the slot.\<close>

definition lock_or_lost :: "'w mysql \<Rightarrow> nat \<Rightarrow> string \<Rightarrow> logger \<Rightarrow> ('w, 'a) dbm" where
  "lock_or_lost L error err lg s =
     (let s1 = (if error = 2013 then closeConn L s else s)
      in (Raised (DbEx (nr2Enum error) err), flush_logger lg s1))"

definition server_error :: "string \<Rightarrow> string \<Rightarrow> nat \<Rightarrow> dbconf \<Rightarrow> string" where
  "server_error sql text error c = ''Mysql error for sql: '' @ sql @ '' Error: '' @ text @ '' Code: '' @ show_nat error
     @ '' Connection Info: '' @ getInfo c False"

definition after_statement ::
    "'w mysql \<Rightarrow> (string \<Rightarrow> ('w, 'r) dbm) \<Rightarrow> nat \<Rightarrow> string \<Rightarrow> logger \<Rightarrow> ('w, logger) dbm" where
  "after_statement L Q h sql lg s =
     (let error = my_errno L h (d_world s); text = my_error L h (d_world s); c = conf_of s
      in if error = 0 \<or> error = 1065 then (Returned lg, s)
         else if error = 1062 then
           (if in_uniqueViolationNothrow (d_state s)
            then (Returned lg, noteError error text (upd_state (\<lambda>i. i\<lparr>in_lastError := text\<rparr>) s))
            else (Raised (DbEx (nr2Enum error) (''After: '' @ text @ '' For: '' @ sql)), flush_logger lg s))
         else if error \<in> {1205, 1213, 2013} then
           (if in_skipNextDisconnect (d_state s)
            then lock_or_lost L error [] lg (upd_state (\<lambda>i. i\<lparr>in_skipNextDisconnect := False\<rparr>) s)
            else case (if error = 2013 then give () else processlist L Q) s of
                (Returned _, s1) \<Rightarrow>
                  (let err = server_error sql text error c in lock_or_lost L error err (lg\<lparr>lg_error := err\<rparr>) s1)
              | (Raised e, s1) \<Rightarrow> (Raised e, flush_logger lg s1)
              | (Crashed, s1) \<Rightarrow> (Crashed, s1)
              | (OutOfFuel, s1) \<Rightarrow> (OutOfFuel, s1))
         else (let err = server_error sql text error c
               in (Raised (DbEx NA err), flush_logger (lg\<lparr>lg_error := err\<rparr>) s)))"

definition run_statement ::
    "'w mysql \<Rightarrow> (string \<Rightarrow> ('w, 'r) dbm) \<Rightarrow> nat \<Rightarrow> string \<Rightarrow> logger \<Rightarrow> ('w, logger) dbm" where
  "run_statement L Q h sql lg s =
     (let w = my_query L h sql (d_world s)
      in after_statement L Q h sql (lg\<lparr>lg_serverTime := my_elapsed L w\<rparr>)
           (s\<lparr>d_world := w, d_state := count_query L h (d_state s) w\<rparr>))"

definition pinged :: "'w mysql \<Rightarrow> ('w, unit) dbm \<Rightarrow> nat \<Rightarrow> logger \<Rightarrow> ('w, nat) dbm" where
  "pinged L K h lg s = (case pingCheck L K h s of
     (Raised e, s') \<Rightarrow> (Raised e, flush_logger lg s') | other \<Rightarrow> other)"

text \<open>The part of \<open>queryInner\<close> before the statement is sent: the connection it goes to, and the logger.\<close>

definition ready :: "'w mysql \<Rightarrow> ('w, unit) dbm \<Rightarrow> string \<Rightarrow> ('w, nat \<times> logger) dbm" where
  "ready L K sql =
     chain (getConn K) (\<lambda>h. chain (\<lambda>s. opt_value (cf_logError (conf_of s)) s) (\<lambda>logError.
     chain (\<lambda>s. if sql = ''SHOW WARNINGS'' then (Returned False, s)
                else opt_value (cf_logSql (conf_of s)) (upd_state (\<lambda>i. i\<lparr>in_lastSQL := sql\<rparr>) s)) (\<lambda>logSql.
     let lg = (sql_logger sql logError)\<lparr>lg_logSql := logSql\<rparr>
     in chain (pinged L K h lg) (\<lambda>h'. give (h', lg)))))"

definition queryInner ::
    "'w mysql \<Rightarrow> ('w, unit) dbm \<Rightarrow> (string \<Rightarrow> ('w, 'r) dbm) \<Rightarrow> string \<Rightarrow> ('w, logger) dbm" where
  "queryInner L K Q sql = chain (ready L K sql) (\<lambda>(h, lg). run_statement L Q h sql lg)"

subsection \<open>Reading the results\<close>

text \<open>The columns are those of the first result set; the rows of every set are read under them. A row shorter
  than that is read past its end: None.\<close>

fun fetch_sets ::
    "(string list \<Rightarrow> string option list \<Rightarrow> 'r) \<Rightarrow> string list option \<Rightarrow> result_set option list \<Rightarrow> 'r list option" where
  "fetch_sets mk cols [] = Some []"
| "fetch_sets mk cols (None # sets) = fetch_sets mk cols sets"
| "fetch_sets mk cols (Some t # sets) =
     (let c = (case cols of None \<Rightarrow> rt_columns t | Some c \<Rightarrow> c)
      in if list_ex (\<lambda>r. length r < length c) (rt_rows t) then None
         else case fetch_sets mk (Some c) sets of
             None \<Rightarrow> None | Some rows \<Rightarrow> Some (map (mk c) (rt_rows t) @ rows))"

definition cell_text :: "bool \<Rightarrow> string option \<Rightarrow> string" where
  "cell_text nullAsEmpty cell = (case cell of None \<Rightarrow> (if nullAsEmpty then [] else S_NULL) | Some t \<Rightarrow> t)"

definition old_row :: "bool \<Rightarrow> string list \<Rightarrow> string option list \<Rightarrow> (string, string) omap" where
  "old_row nullAsEmpty cols cells =
     fold (\<lambda>(name, cell). map_assign name (cell_text nullAsEmpty cell)) (zip cols cells) []"

text \<open>\<open>SqlResultV2\<close>: the first of two columns with one name keeps the name.\<close>

definition new_row :: "bool \<Rightarrow> string list \<Rightarrow> string option list \<Rightarrow> srow" where
  "new_row nullAsEmpty cols cells =
     \<lparr>sr_data = map (cell_text nullAsEmpty) (take (length cols) cells),
      sr_nulls = map (\<lambda>c. c = None) (take (length cols) cells), sr_columns = Some (zip cols [0..<length cols])\<rparr>"

text \<open>The warnings are read with a query of their own.\<close>

definition warnings :: "'w mysql \<Rightarrow> ('w, unit) dbm \<Rightarrow> (string \<Rightarrow> ('w, 'r) dbm) \<Rightarrow> ('w, unit) dbm" where
  "warnings L K Q s =
     (if d_skipWarning s then (Returned (), s\<lparr>d_skipWarning := False\<rparr>)
      else chain (getConn K) (\<lambda>h s.
        if my_warning_count L h (d_world s) = 0 then (Returned (), s)
        else chain (Q ''SHOW WARNINGS'') (\<lambda>_. give ()) s) s)"

definition fetch_error :: "string \<Rightarrow> string \<Rightarrow> nat \<Rightarrow> string" where
  "fetch_error sql text error = ''Mysql error for: '' @ sql @ '' Error was: '' @ text @ '' Code:'' @ show_nat error"

text \<open>After the warnings: the error the connection is left with, if any.\<close>

definition fetched :: "'w mysql \<Rightarrow> nat \<Rightarrow> logger \<Rightarrow> 'r list \<Rightarrow> unit db_outcome \<times> 'w db \<Rightarrow> 'r list db_outcome \<times> 'w db" where
  "fetched L h lg rows warned = (case warned of
     (Returned _, s) \<Rightarrow>
       (let error = my_errno L h (d_world s); text = my_error L h (d_world s)
        in if error = 0 then (Returned rows, flush_logger lg s)
           else (Raised (DbEx (nr2Enum error) (fetch_error (in_lastSQL (d_state s)) text error)),
                 flush_logger (lg\<lparr>lg_error := text\<rparr>) s))
   | (Raised e, s) \<Rightarrow> (Raised e, flush_logger lg s) | (Crashed, s) \<Rightarrow> (Crashed, s) | (OutOfFuel, s) \<Rightarrow> (OutOfFuel, s))"

definition fetchResult ::
    "(bool \<Rightarrow> string list \<Rightarrow> string option list \<Rightarrow> 'r) \<Rightarrow> 'w mysql \<Rightarrow> ('w, unit) dbm \<Rightarrow> (string \<Rightarrow> ('w, 'q) dbm) \<Rightarrow>
     logger \<Rightarrow> ('w, 'r list) dbm" where
  "fetchResult mk L K Q lg =
     chain (getConn K) (\<lambda>h s.
       case fetch_sets (mk (in_NULL_as_EMPTY (d_state s))) None (my_results L h (d_world s)) of
         None \<Rightarrow> (Crashed, s)
       | Some rows \<Rightarrow>
           (let w = my_consume L h (d_world s); t = my_elapsed L w;
                s1 = upd_state (\<lambda>i. i\<lparr>in_fetchTime := t, in_totFetchTime := in_totFetchTime i + t\<rparr>) (s\<lparr>d_world := w\<rparr>)
            in fetched L h lg rows (warnings L K Q s1)))"

definition query_with ::
    "(bool \<Rightarrow> string list \<Rightarrow> string option list \<Rightarrow> 'r) \<Rightarrow> 'w mysql \<Rightarrow> ('w, unit) dbm \<Rightarrow> (string \<Rightarrow> ('w, 'q) dbm) \<Rightarrow>
     string \<Rightarrow> ('w, 'r list) dbm" where
  "query_with mk L K Q sql =
     (if sql = [] then give []
      else chain (queryInner L K Q sql) (\<lambda>lg s.
        if in_noFetch (d_state s) then (Returned [], flush_logger lg s) else fetchResult mk L K Q lg s))"

text \<open>\<open>DB::query\<close> and \<open>DB::queryV2\<close>. The fuel bounds how deep a query may start another one.\<close>

fun db_query :: "nat \<Rightarrow> 'w mysql \<Rightarrow> string \<Rightarrow> ('w, (string, string) omap list) dbm" where
  "db_query 0 L sql = (\<lambda>s. (OutOfFuel, s))"
| "db_query (Suc n) L sql = query_with old_row L (connect_body L (db_query n L)) (db_query n L) sql"

declare db_query.simps [simp del]

definition db_connect :: "nat \<Rightarrow> 'w mysql \<Rightarrow> ('w, unit) dbm" where
  "db_connect n L = connect_body L (db_query n L)"

definition queryV2 :: "nat \<Rightarrow> 'w mysql \<Rightarrow> string \<Rightarrow> ('w, srow list) dbm" where
  "queryV2 n L sql = query_with new_row L (db_connect n L) (db_query n L) sql"

definition queryLine :: "nat \<Rightarrow> 'w mysql \<Rightarrow> string \<Rightarrow> ('w, (string, string) omap) dbm" where
  "queryLine n L sql = chain (db_query n L sql) (\<lambda>res. give (case res of [] \<Rightarrow> [] | r # _ \<Rightarrow> r))"

definition setMaxQueryTime :: "nat \<Rightarrow> 'w mysql \<Rightarrow> nat \<Rightarrow> ('w, unit) dbm" where
  "setMaxQueryTime n L time = chain (db_query n L (''SET @@max_statement_time  = '' @ show_nat time)) (\<lambda>_. give ())"

definition lastIdNoEx :: "nat \<Rightarrow> 'w mysql \<Rightarrow> ('w, nat) dbm" where
  "lastIdNoEx n L = chain (getConn (db_connect n L)) (\<lambda>h s. (Returned (my_insert_id L h (d_world s)), s))"

definition lastId :: "nat \<Rightarrow> 'w mysql \<Rightarrow> ('w, nat) dbm" where
  "lastId n L = chain (lastIdNoEx n L) (\<lambda>i.
     if i = 0 then raise (DbEx InvalidState ''Last insert is 0, check for error!'') else give i)"

definition getAffectedRows :: "'w db \<Rightarrow> nat" where
  "getAffectedRows s = in_affectedRows (d_state s)"

definition isSSL :: "nat \<Rightarrow> 'w mysql \<Rightarrow> ('w, bool) dbm" where
  "isSSL n L = chain (db_query n L (''SHOW STATUS LIKE '' @ quote_mark @ ''Ssl_cipher'' @ quote_mark)) (\<lambda>res.
     give (case res of [] \<Rightarrow> False
           | r # _ \<Rightarrow> (case map_of r ''Value'' of None \<Rightarrow> False | Some v \<Rightarrow> length v > 5)))"

subsection \<open>When a query ends\<close>

text \<open>The action does not run out of fuel, and what it returns satisfies \<open>P\<close>.\<close>

definition finishes :: "('w, 'a) dbm \<Rightarrow> ('a \<Rightarrow> 'w db \<Rightarrow> bool) \<Rightarrow> 'w db \<Rightarrow> bool" where
  "finishes m P s = (case m s of (Returned x, s') \<Rightarrow> P x s' | (OutOfFuel, _) \<Rightarrow> False | _ \<Rightarrow> True)"

lemma finishes_chain:
  assumes "finishes m P s" and "\<And>x s'. P x s' \<Longrightarrow> finishes (f x) R s'"
  shows "finishes (chain m f) R s"
proof -
  obtain r s' where r: "m s = (r, s')" by fastforce
  show ?thesis
  proof (cases r)
    case (Returned x)
    with r assms(1) have "P x s'" by (simp add: finishes_def)
    from assms(2) [OF this] r Returned show ?thesis by (simp add: finishes_def chain_def)
  qed (use r assms(1) in \<open>simp_all add: finishes_def chain_def\<close>)
qed

lemma finishes_mono: "finishes m P s \<Longrightarrow> (\<And>x s'. P x s' \<Longrightarrow> R x s') \<Longrightarrow> finishes m R s"
  by (auto simp: finishes_def split: prod.splits db_outcome.splits)

lemma finishes_give [simp]: "finishes (give x) P s \<longleftrightarrow> P x s"
  by (simp add: finishes_def give_def)

lemma finishes_opt [simp]: "finishes (opt_value v) P s \<longleftrightarrow> (\<forall>x. v = Some x \<longrightarrow> P x s)"
  by (simp add: finishes_def opt_value_def give_def raise_def split: option.split)

lemma finishes_returned: "finishes m P s \<Longrightarrow> m s = (Returned x, s') \<Longrightarrow> P x s'"
  by (simp add: finishes_def)

lemma finishes_fst: "finishes m (\<lambda>_ _. True) s \<longleftrightarrow> fst (m s) \<noteq> OutOfFuel"
  by (cases "m s"; cases "fst (m s)") (auto simp: finishes_def)

text \<open>The statements the class sends on its own account.\<close>

definition own_statement :: "string \<Rightarrow> bool" where
  "own_statement sql \<longleftrightarrow> sql = ''SHOW WARNINGS'' \<or> sql = ''SHOW FULL PROCESSLIST'' \<or>
     (\<exists>c m8. sql \<in> set (setup_statements c m8))"

text \<open>What is asked of the server: the class's own statements meet no lock and leave no warning, and a connection that
  was just made answers its pings while it is being set up. \<open>live h w\<close> is any property of a handle and the world
  that a new connection has, that lets a ping succeed, and that the steps of the set-up keep: a ping, the
  statement option, a set-up statement, the reading of its result. Any other statement may end it, and so
  may the passing of time: nothing is asked of a connection the thread already holds.\<close>

definition quiet_server :: "'w mysql \<Rightarrow> (nat \<Rightarrow> 'w \<Rightarrow> bool) \<Rightarrow> bool" where
  "quiet_server L live \<longleftrightarrow>
     (\<forall>h sql w. own_statement sql \<longrightarrow> my_errno L h (my_query L h sql w) \<notin> {1205, 1213} \<and>
        my_warning_count L h (my_consume L h (my_query L h sql w)) = 0) \<and>
     (\<forall>c f w h w'. my_real_connect L c f w = (Inr h, w') \<longrightarrow> live h w') \<and>
     (\<forall>h w. live h w \<longrightarrow> \<not> fst (my_ping L h w) \<and> live h (snd (my_ping L h w)) \<and>
        (\<forall>on. live h (snd (my_set_option L h on w))) \<and> live h (my_consume L h w) \<and>
        (\<forall>c m8. \<forall>sql\<in>set (setup_statements c m8). live h (my_query L h sql w)))"

lemma quietD:
  assumes "quiet_server L live"
  shows "own_statement sql \<Longrightarrow> my_errno L h (my_query L h sql w) \<notin> {1205, 1213} \<and>
      my_warning_count L h (my_consume L h (my_query L h sql w)) = 0"
    and "my_real_connect L c f w = (Inr h, w') \<Longrightarrow> live h w'"
    and "live h w \<Longrightarrow> my_ping L h w = (False, snd (my_ping L h w))" "live h w \<Longrightarrow> live h (snd (my_ping L h w))"
    and "live h w \<Longrightarrow> live h (snd (my_set_option L h on w))" and "live h w \<Longrightarrow> live h (my_consume L h w)"
    and "live h w \<Longrightarrow> sql \<in> set (setup_statements c m8) \<Longrightarrow> live h (my_query L h sql w)"
proof -
  note q = assms [unfolded quiet_server_def]
  note own = conjunct1 [OF q, rule_format] and new = conjunct1 [OF conjunct2 [OF q], rule_format]
    and kept = conjunct2 [OF conjunct2 [OF q], rule_format]
  show "own_statement sql \<Longrightarrow> my_errno L h (my_query L h sql w) \<notin> {1205, 1213} \<and>
      my_warning_count L h (my_consume L h (my_query L h sql w)) = 0" by (rule own)
  show "my_real_connect L c f w = (Inr h, w') \<Longrightarrow> live h w'" by (rule new)
  show "my_ping L h w = (False, snd (my_ping L h w))" if "live h w" using kept [OF that] by (simp add: prod_eq_iff)
  show "live h (snd (my_ping L h w))" "live h (snd (my_set_option L h on w))" "live h (my_consume L h w)" if "live h w"
    using kept [OF that] by simp_all
  show "live h (my_query L h sql w)" if "live h w" "sql \<in> set (setup_statements c m8)" using kept [OF that(1)] that(2) by simp
qed

text \<open>The slot holds a connection that answers.\<close>

definition has_live :: "(nat \<Rightarrow> 'w \<Rightarrow> bool) \<Rightarrow> 'w db \<Rightarrow> bool" where
  "has_live live s \<longleftrightarrow> (\<exists>h. d_conn s = Some h \<and> live h (d_world s))"

lemma getConn_finishes:
  assumes "d_conn s = None \<Longrightarrow> finishes K (\<lambda>_ s'. d_conn s' \<noteq> None) s"
  shows "finishes (getConn K) (\<lambda>h s'. d_conn s' = Some h) s"
proof (cases "d_conn s")
  case None
  with assms show ?thesis
    by (auto simp: finishes_def getConn_def chain_def split: option.splits prod.splits db_outcome.splits)
qed (simp add: finishes_def getConn_def)

lemma applyMulti_conn: "applyMultiStatements L h on s = (r, s') \<Longrightarrow> d_conn s' = d_conn s \<and> r \<noteq> OutOfFuel"
  by (auto simp: applyMultiStatements_def split: prod.splits option.splits)

lemma ping_guard_conn: "ping_guard L old conn s = (r, s') \<Longrightarrow> d_conn s' = d_conn s \<and> r \<noteq> OutOfFuel"
  by (auto simp: ping_guard_def Let_def noteReconnect_def upd_state_def dest!: applyMulti_conn
      split: option.splits if_splits prod.splits db_outcome.splits)

lemma ping_loop_finishes:
  assumes "\<And>s. d_conn s = None \<Longrightarrow> finishes K (\<lambda>_ s'. d_conn s' \<noteq> None) s" and "d_conn s = Some h"
    and "ping_loop L K k h s = ((r, conn), s')"
  shows "r \<noteq> OutOfFuel \<and> (\<forall>h'. conn = Some h' \<longrightarrow> d_conn s' = Some h')"
  using assms(2,3)
proof (induction k arbitrary: h s)
  case 0
  then show ?case by (auto split: prod.splits)
next
  case (Suc k)
  obtain failed w where p: "my_ping L h (d_world s) = (failed, w)" by fastforce
  show ?case
  proof (cases failed)
    case False
    with Suc.prems p show ?thesis by auto
  next
    case True
    let ?s = "closeConn L (s\<lparr>d_world := w\<rparr>)"
    have none: "d_conn ?s = None" by (simp add: closeConn_def set_conn_def)
    note g = getConn_finishes [OF assms(1) [OF none]]
    obtain q s1 where q: "getConn K ?s = (q, s1)" by fastforce
    show ?thesis
    proof (cases q)
      case (Returned h')
      have "d_conn s1 = Some h'" using finishes_returned [OF g q [unfolded Returned]] by simp
      moreover have "ping_loop L K k h' s1 = ((r, conn), s')" using Suc.prems(2) p True q Returned by simp
      ultimately show ?thesis using Suc.IH by blast
    qed (use Suc.prems(2) p True q g in \<open>auto simp: finishes_def\<close>)
  qed
qed

lemma pingCheck_finishes:
  assumes K: "\<And>s. d_conn s = None \<Longrightarrow> finishes K (\<lambda>_ s'. d_conn s' \<noteq> None) s" and s: "d_conn s = Some h"
  shows "finishes (pingCheck L K h) (\<lambda>h' s'. d_conn s' = Some h') s"
proof (cases "cf_pingBeforeQuery (conf_of s) = Some False")
  case True
  with s show ?thesis by (simp add: pingCheck_def finishes_def)
next
  case False
  obtain r conn s1 where l: "ping_loop L K 5 h s = ((r, conn), s1)" by (metis surj_pair)
  note p = ping_loop_finishes [OF K s l]
  obtain g s2 where g: "ping_guard L (my_thread_id L h (d_world s)) conn s1 = (g, s2)" by fastforce
  note gc = ping_guard_conn [OF g]
  show ?thesis
    using False l g gc p
    by (cases "cf_logError (conf_of s)"; cases r; cases g)
      (auto simp: pingCheck_def finishes_def opt_value_def chain_def give_def raise_def ping_result_def
        split: option.splits bool.splits)
qed

text \<open>On a connection that answers, the way to connect is never taken, whatever it is.\<close>

lemma ping_guard_live:
  assumes "quiet_server L live" "live h (d_world s)" "ping_guard L old (Some h) s = (r, s')"
  shows "d_conn s' = d_conn s \<and> live h (d_world s') \<and> (r = Returned () \<or> r = Crashed)"
  using assms(3) quietD(5) [OF assms(1,2), of "in_multiStatements (d_state s)"] assms(2)
  by (auto simp: ping_guard_def Let_def noteReconnect_def upd_state_def applyMultiStatements_def
      split: if_splits prod.splits option.splits)

lemma pingCheck_live:
  assumes q: "quiet_server L live" and h: "d_conn s = Some h" "live h (d_world s)"
  shows "finishes (pingCheck L K h) (\<lambda>h' s'. d_conn s' = Some h' \<and> live h' (d_world s')) s"
proof (cases "cf_pingBeforeQuery (conf_of s) = Some False")
  case True
  with h show ?thesis by (simp add: pingCheck_def finishes_def)
next
  case False
  let ?w = "snd (my_ping L h (d_world s))"
  have l: "ping_loop L K 5 h s = ((Returned True, Some h), s\<lparr>d_world := ?w\<rparr>)"
    using quietD(3) [OF q h(2)] by (cases "my_ping L h (d_world s)") (simp add: numeral_eq_Suc)
  obtain g s2 where g: "ping_guard L (my_thread_id L h (d_world s)) (Some h) (s\<lparr>d_world := ?w\<rparr>) = (g, s2)" by fastforce
  have "live h (d_world (s\<lparr>d_world := ?w\<rparr>))" using quietD(4) [OF q h(2)] by simp
  from ping_guard_live [OF q this g] show ?thesis
    using False l g h(1)
    by (cases "cf_logError (conf_of s)")
      (auto simp: pingCheck_def finishes_def opt_value_def chain_def give_def raise_def ping_result_def)
qed

text \<open>Three levels: a statement of the class on a good connection starts no other query; connecting starts only such
  statements; any statement starts at most one of the class's own, perhaps on a new connection.\<close>

lemma flush_logger_conn [simp]: "d_conn (flush_logger lg s) = d_conn s" "d_state (flush_logger lg s) = d_state s"
    "d_world (flush_logger lg s) = d_world s" "d_skipWarning (flush_logger lg s) = d_skipWarning s"
  by (simp_all add: flush_logger_def)

lemma lock_or_lost_finishes [simp]: "finishes (lock_or_lost L error err lg) P s"
  by (simp add: finishes_def lock_or_lost_def Let_def)

text \<open>\<open>ready\<close> gives a connection that is in the slot.\<close>

lemma ready_steps:
  assumes g: "finishes (getConn K) (\<lambda>h t. d_conn t = Some h \<and> P h (d_world t)) s"
    and p: "\<And>h t. d_conn t = Some h \<Longrightarrow> P h (d_world t) \<Longrightarrow>
      finishes (pingCheck L K h) (\<lambda>h' t'. d_conn t' = Some h' \<and> P h' (d_world t')) t"
  shows "finishes (ready L K sql) (\<lambda>(h, lg) t. d_conn t = Some h \<and> P h (d_world t)) s"
proof -
  have p': "finishes (pinged L K h lg) (\<lambda>h' t'. d_conn t' = Some h' \<and> P h' (d_world t')) t"
    if "d_conn t = Some h \<and> P h (d_world t)" for h lg t
    using p [of t h] that by (auto simp: finishes_def pinged_def split: prod.splits db_outcome.splits)
  have opt: "finishes (\<lambda>s. opt_value (v s) s) (\<lambda>_ s'. s' = t) t" for v :: "'a db \<Rightarrow> bool option" and t
    by (simp add: finishes_def opt_value_def give_def raise_def split: option.split)
  have set: "finishes (\<lambda>s. if sql = ''SHOW WARNINGS'' then (Returned False, s)
      else opt_value (cf_logSql (conf_of s)) (upd_state (\<lambda>i. i\<lparr>in_lastSQL := sql\<rparr>) s))
      (\<lambda>_ s'. d_conn s' = d_conn t \<and> d_world s' = d_world t) t" for t :: "'a db"
    by (simp add: finishes_def opt_value_def give_def raise_def upd_state_def split: option.split)
  show ?thesis
    unfolding ready_def Let_def
    apply (rule finishes_chain [OF g])
    apply (rule finishes_chain [OF opt])
    apply (rule finishes_chain [OF set])
    apply (rule finishes_chain [OF p'])
     apply simp
    apply simp
    done
qed

lemma ready_finishes:
  assumes "\<And>s. d_conn s = None \<Longrightarrow> finishes K (\<lambda>_ s'. d_conn s' \<noteq> None) s"
  shows "finishes (ready L K sql) (\<lambda>(h, lg) s'. d_conn s' = Some h) s"
  using ready_steps [of K "\<lambda>_ _. True" s L sql] getConn_finishes [OF assms] pingCheck_finishes [OF assms] by simp

lemma ready_live:
  assumes "quiet_server L live" and "has_live live s"
  shows "finishes (ready L K sql) (\<lambda>(h, lg) s'. d_conn s' = Some h \<and> live h (d_world s')) s"
proof (rule ready_steps)
  show "finishes (getConn K) (\<lambda>h t. d_conn t = Some h \<and> live h (d_world t)) s"
    using assms(2) by (auto simp: has_live_def finishes_def getConn_def)
qed (rule pingCheck_live [OF assms(1)])

lemma run_own:
  assumes "quiet_server L live" "own_statement sql" "d_conn s = Some h"
  shows "finishes (run_statement L Q h sql lg)
    (\<lambda>_ s'. d_conn s' = Some h \<and> d_world s' = my_query L h sql (d_world s)) s"
  using assms
  by (auto simp: run_statement_def after_statement_def Let_def finishes_def quiet_server_def noteError_def upd_state_def
      lock_or_lost_def give_def)

lemma fetch_own:
  assumes "quiet_server L live" "own_statement sql" "d_conn s = Some h" "d_world s = my_query L h sql w"
  shows "finishes (fetchResult mk L K Q lg) (\<lambda>_ s'. d_conn s' = Some h \<and> d_world s' = my_consume L h (d_world s)) s"
  using assms
  by (auto simp: fetchResult_def fetched_def finishes_def chain_def getConn_def warnings_def Let_def upd_state_def quiet_server_def
      split: option.split)

text \<open>A statement of the class's own starts no other query once it has its connection, and leaves of the world what
  the statement and the reading of its result leave.\<close>

lemma query_own:
  assumes q: "quiet_server L live" and own: "own_statement sql"
    and r: "finishes (ready L K sql) (\<lambda>(h, lg) s'. d_conn s' = Some h \<and> P h (d_world s')) s"
    and P: "\<And>h w. P h w \<Longrightarrow> P h (my_query L h sql w)" "\<And>h w. P h w \<Longrightarrow> P h (my_consume L h w)"
  shows "finishes (query_with mk L K Q sql) (\<lambda>_ s'. \<exists>h. d_conn s' = Some h \<and> P h (d_world s')) s"
proof -
  let ?R = "\<lambda>_ s'. \<exists>h w. d_conn s' = Some h \<and> P h (d_world s') \<and> d_world s' = my_query L h sql w"
  have "finishes (queryInner L K Q sql) ?R s"
    unfolding queryInner_def
    apply (rule finishes_chain [OF r])
    apply clarify
    apply (rule finishes_mono [OF run_own [OF q own]])
     apply (auto intro: P(1))
    done
  moreover have "sql \<noteq> []" using own by (auto simp: own_statement_def setup_statements_def split: if_splits)
  moreover have "finishes (\<lambda>s. if in_noFetch (d_state s) then (Returned [], flush_logger lg s) else fetchResult mk L K Q lg s)
      (\<lambda>_ s'. \<exists>h. d_conn s' = Some h \<and> P h (d_world s')) t" if R: "?R lg t" for lg t
  proof -
    obtain h w where h: "d_conn t = Some h" "P h (d_world t)" "d_world t = my_query L h sql w" using R by blast
    have "finishes (fetchResult mk L K Q lg) (\<lambda>_ s'. \<exists>h. d_conn s' = Some h \<and> P h (d_world s')) t"
      by (rule finishes_mono [OF fetch_own [OF q own h(1,3)]]) (use P(2) [OF h(2)] in auto)
    then show ?thesis using h by (simp add: finishes_def)
  qed
  ultimately show ?thesis by (auto simp: query_with_def intro!: finishes_chain)
qed


lemma own_warnings [simp]: "own_statement ''SHOW WARNINGS''"
  by (simp add: own_statement_def)

lemma own_processlist [simp]: "own_statement ''SHOW FULL PROCESSLIST''"
  by (simp add: own_statement_def)

lemma own_setup: "sql \<in> set (setup_statements c m8) \<Longrightarrow> own_statement sql"
  by (auto simp: own_statement_def)

text \<open>First level.\<close>

lemma setup_live_ends:
  assumes "quiet_server L live" "sql \<in> set (setup_statements c m8)" "has_live live s"
  shows "finishes (db_query (Suc n) L sql) (\<lambda>_. has_live live) s"
  unfolding db_query.simps has_live_def
  using assms(2) by (intro query_own [OF assms(1) own_setup ready_live [OF assms(1,3)]] quietD(6,7) [OF assms(1)])

lemma run_all_ends:
  "quiet_server L live \<Longrightarrow> set sqls \<subseteq> set (setup_statements c m8) \<Longrightarrow> has_live live s \<Longrightarrow>
     finishes (run_all (db_query (Suc n) L) sqls) (\<lambda>_. has_live live) s"
proof (induction sqls arbitrary: s)
  case (Cons sql sqls)
  have "finishes (db_query (Suc n) L sql) (\<lambda>_. has_live live) s" using setup_live_ends Cons.prems by auto
  then show ?case using Cons by (auto intro: finishes_chain)
qed simp

text \<open>Second level.\<close>

lemma connect_ends:
  assumes q: "quiet_server L live" and s: "d_conn s = None"
  shows "finishes (connect_body L (db_query (Suc n) L)) (\<lambda>_. has_live live) s"
proof -
  have set: "finishes (set_up L (db_query (Suc n) L) c h) (\<lambda>_. has_live live) t"
    if h: "d_conn t = Some h" "live h (d_world t)" for c h t
  proof -
    let ?on = "in_multiStatements (d_state t)"
    have "finishes (applyMultiStatements L h ?on) (\<lambda>_. has_live live) t"
      using h quietD(5) [OF q h(2), of ?on]
      by (auto simp: finishes_def has_live_def applyMultiStatements_def split: prod.split option.split)
    moreover have "finishes (chain (opt_value (cf_isMariaDB8 c)) (\<lambda>m8. run_all (db_query (Suc n) L) (setup_statements c m8)))
        (\<lambda>_. has_live live) u" if "has_live live u" for u
      by (rule finishes_chain [where P = "\<lambda>_ u'. u' = u"]) (auto intro!: run_all_ends [OF q _ that])
    ultimately have "finishes (chain (applyMultiStatements L h ?on)
        (\<lambda>_. chain (opt_value (cf_isMariaDB8 c)) (\<lambda>m8. run_all (db_query (Suc n) L) (setup_statements c m8)))) (\<lambda>_. has_live live) t"
      by (rule finishes_chain)
    then show ?thesis by (simp add: finishes_def set_up_def)
  qed
  have body: "finishes (\<lambda>s. case my_real_connect L c (connect_flags c (d_state s)) (d_world s) of
         (Inl e, w) \<Rightarrow> connect_refused c e (s\<lparr>d_world := w\<rparr>)
       | (Inr h, w) \<Rightarrow> set_up L (db_query (Suc n) L) c h (set_conn L (Some h) (s\<lparr>d_world := w\<rparr>))) (\<lambda>_. has_live live) s" for c
  proof (cases "my_real_connect L c (connect_flags c (d_state s)) (d_world s)")
    case (Pair r w)
    show ?thesis
    proof (cases r)
      case (Inr h)
      then have "live h w" using quietD(2) [OF q] Pair by blast
      then show ?thesis using set [of "set_conn L (Some h) (s\<lparr>d_world := w\<rparr>)" h c] Pair Inr s
        by (simp add: finishes_def set_conn_def)
    qed (use Pair in \<open>auto simp: finishes_def connect_refused_def Let_def split: prod.split\<close>)
  qed
  show ?thesis unfolding connect_body_def
    apply (rule finishes_chain [where P = "\<lambda>_ s'. s' = s"])
     apply (simp add: finishes_def getConf_def split: option.split)
    apply (rule finishes_chain [where P = "\<lambda>_ s'. s' = s"])
     apply (simp add: finishes_def getDefaultDB_def raise_def give_def)
    apply (simp add: body)
    done
qed

lemma connect_fills:
  "quiet_server L live \<Longrightarrow> d_conn s = None \<Longrightarrow> finishes (connect_body L (db_query (Suc n) L)) (\<lambda>_ s'. d_conn s' \<noteq> None) s"
  by (rule finishes_mono [OF connect_ends]) (auto simp: has_live_def)

text \<open>Third level.\<close>

lemma own_ends:
  assumes q: "quiet_server L live" and own: "own_statement sql"
  shows "finishes (db_query (Suc (Suc n)) L sql) (\<lambda>_ s'. d_conn s' \<noteq> None) s"
  unfolding db_query.simps(2) [of "Suc n"]
  by (rule finishes_mono [OF query_own [OF q own, where P = "\<lambda>_ _. True"]])
    (auto intro!: finishes_mono [OF ready_finishes [OF connect_fills [OF q]]])

lemma run_ends:
  assumes "\<And>s. finishes (Q ''SHOW FULL PROCESSLIST'') (\<lambda>_ _. True) s"
  shows "finishes (run_statement L Q h sql lg) (\<lambda>_ _. True) s"
proof -
  have p: "fst (processlist L Q t) \<noteq> OutOfFuel" for t
    using assms [of "t\<lparr>d_conn := None, d_skipWarning := False,
      d_state := internal_init\<lparr>in_NULL_as_EMPTY := cf_NULL_as_EMPTY (conf_of t)\<rparr>\<rparr>"]
    by (auto simp: processlist_def Let_def finishes_def chain_def give_def split: prod.splits db_outcome.splits)
  have "finishes (after_statement L Q h sql lg') (\<lambda>_ _. True) t" for lg' t
    using p [of t] by (auto simp: after_statement_def Let_def finishes_def lock_or_lost_def give_def split: prod.split db_outcome.splits)
  then show ?thesis by (simp add: run_statement_def Let_def finishes_def)
qed

lemma fetch_ends:
  assumes K: "\<And>s. d_conn s = None \<Longrightarrow> finishes K (\<lambda>_ s'. d_conn s' \<noteq> None) s" and Q: "\<And>s. finishes (Q ''SHOW WARNINGS'') (\<lambda>_ _. True) s"
  shows "finishes (fetchResult mk L K Q lg) (\<lambda>_ _. True) s"
proof -
  have g: "finishes (getConn K) (\<lambda>_ _. True) t" for t
    by (rule finishes_mono [OF getConn_finishes [OF K]]) simp_all
  let ?W = "\<lambda>h s. if my_warning_count L h (d_world s) = 0 then (Returned (), s)
      else chain (Q ''SHOW WARNINGS'') (\<lambda>_. give ()) s"
  have W: "finishes (?W h) (\<lambda>_ _. True) t" for h t
    using Q [of t] by (auto simp: finishes_def chain_def give_def split: prod.splits db_outcome.splits)
  have "finishes (chain (getConn K) ?W) (\<lambda>_ _. True) t" for t
    by (rule finishes_chain [OF g W])
  then have "finishes (warnings L K Q) (\<lambda>_ _. True) t" for t by (simp add: finishes_def warnings_def)
  then have w: "warnings L K Q t \<noteq> (OutOfFuel, t')" for t t' by (metis finishes_fst fst_conv)
  show ?thesis
    unfolding fetchResult_def
    by (rule finishes_chain [OF g]) (simp add: finishes_def fetched_def Let_def w split: option.split prod.split db_outcome.split)
qed

lemma query_ends:
  assumes "quiet_server L live" and Q: "Q = db_query (Suc (Suc n)) L" and K: "K = connect_body L Q"
  shows "fst (query_with mk L K Q sql s) \<noteq> OutOfFuel"
proof -
  have own: "finishes (Q sql') (\<lambda>_ _. True) t" if "own_statement sql'" for sql' t
    unfolding Q by (rule finishes_mono [OF own_ends [OF assms(1) that]]) simp
  have k: "finishes K (\<lambda>_ s'. d_conn s' \<noteq> None) t" if "d_conn t = None" for t
    unfolding K Q using that by (rule connect_fills [OF assms(1)])
  have i: "finishes (queryInner L K Q sql) (\<lambda>_ _. True) t" for t
    unfolding queryInner_def
    by (rule finishes_chain [OF finishes_mono [OF ready_finishes [OF k], where R = "\<lambda>_ _. True"]])
      (assumption, rule TrueI, clarify, rule run_ends, rule own, rule own_processlist)
  have "finishes (\<lambda>s. if in_noFetch (d_state s) then (Returned [], flush_logger lg s) else fetchResult mk L K Q lg s) (\<lambda>_ _. True) t" for lg t
  proof -
    have "finishes (fetchResult mk L K Q lg) (\<lambda>_ _. True) t" by (rule fetch_ends) (rule k, assumption, rule own, rule own_warnings)
    then show ?thesis by (simp add: finishes_def)
  qed
  from finishes_chain [OF i this] have "finishes (query_with mk L K Q sql) (\<lambda>_ _. True) s"
    by (simp add: query_with_def)
  then show ?thesis by (simp add: finishes_fst)
qed


subsection \<open>More fuel changes no answer\<close>

text \<open>The second action does what the first does, where the first does not run out of fuel.\<close>

definition below :: "('w, 'a) dbm \<Rightarrow> ('w, 'a) dbm \<Rightarrow> bool" where
  "below m m' \<longleftrightarrow> (\<forall>s. fst (m s) \<noteq> OutOfFuel \<longrightarrow> m' s = m s)"

lemma belowI: "(\<And>s r s'. m s = (r, s') \<Longrightarrow> r \<noteq> OutOfFuel \<Longrightarrow> m' s = (r, s')) \<Longrightarrow> below m m'"
  unfolding below_def by (metis prod.collapse)

lemma belowD: "below m m' \<Longrightarrow> m s = (r, s') \<Longrightarrow> r \<noteq> OutOfFuel \<Longrightarrow> m' s = (r, s')"
  by (auto simp: below_def)

lemma below_refl [simp]: "below m m"
  by (simp add: below_def)

lemma below_cases:
  assumes "below m m'"
  obtains s' where "m s = (OutOfFuel, s')" | "m' s = m s"
  using belowD [OF assms, of s] by (cases "m s"; cases "fst (m s)") auto

lemma below_chain:
  assumes "below m m'" "\<And>x. below (f x) (f' x)"
  shows "below (chain m f) (chain m' f')"
proof (rule belowI)
  fix s r s'
  assume "chain m f s = (r, s')" "r \<noteq> OutOfFuel"
  then show "chain m' f' s = (r, s')"
    using below_cases [OF assms(1), of s "chain m' f' s = (r, s')"] belowD [OF assms(2)]
    by (auto simp: chain_def split: prod.splits db_outcome.splits)
qed

lemma below_getConn: "below K K' \<Longrightarrow> below (getConn K) (getConn K')"
  using below_chain [of K K' "\<lambda>_ s'. case d_conn s' of Some h \<Rightarrow> (Returned h, s') | None \<Rightarrow> (Crashed, s')"]
  unfolding below_def getConn_def by (auto split: option.split)

lemma below_ping_loop:
  assumes "below K K'"
  shows "fst (fst (ping_loop L K k h s)) \<noteq> OutOfFuel \<Longrightarrow> ping_loop L K' k h s = ping_loop L K k h s"
proof (induction k arbitrary: h s)
  case (Suc k)
  obtain failed w where p: "my_ping L h (d_world s) = (failed, w)" by fastforce
  let ?s = "closeConn L (s\<lparr>d_world := w\<rparr>)"
  show ?case
    using Suc p by (cases rule: below_cases [OF below_getConn [OF assms], of ?s])
      (cases failed; auto split: prod.splits db_outcome.splits)+
qed simp

lemma below_pinged:
  assumes "below K K'"
  shows "below (pinged L K h lg) (pinged L K' h lg)"
proof -
  have "pingCheck L K' h s = pingCheck L K h s" if "fst (pingCheck L K h s) \<noteq> OutOfFuel" for s
  proof (cases "fst (fst (ping_loop L K 5 h s)) = OutOfFuel")
    case True
    with that show ?thesis
      by (cases "cf_logError (conf_of s)") (auto simp: pingCheck_def opt_value_def chain_def give_def raise_def split: if_splits prod.splits)
  next
    case False
    from below_ping_loop [OF assms this] show ?thesis
      by (cases "cf_logError (conf_of s)") (simp_all add: pingCheck_def opt_value_def chain_def give_def raise_def)
  qed
  then show ?thesis unfolding below_def pinged_def
    by (auto split: prod.split db_outcome.split)
qed


lemma below_ready: "below K K' \<Longrightarrow> below (ready L K sql) (ready L K' sql)"
  unfolding ready_def Let_def by (intro below_chain below_getConn below_pinged below_refl)

lemma below_processlist:
  assumes "\<And>sql. below (Q sql) (Q' sql)"
  shows "below (processlist L Q) (processlist L Q')"
proof (rule belowI)
  fix s :: "'a db" and r s'
  let ?m = "\<lambda>Q. chain (Q ''SHOW FULL PROCESSLIST'') (\<lambda>_. give ())"
  let ?s = "s\<lparr>d_conn := None, d_skipWarning := False,
      d_state := internal_init\<lparr>in_NULL_as_EMPTY := cf_NULL_as_EMPTY (conf_of s)\<rparr>\<rparr>"
  assume a: "processlist L Q s = (r, s')" "r \<noteq> OutOfFuel"
  have b: "below (?m Q) (?m Q')" by (intro below_chain assms below_refl)
  show "processlist L Q' s = (r, s')"
    using a by (cases rule: below_cases [OF b, of ?s]) (auto simp: processlist_def Let_def split: prod.splits)
qed

lemma below_after:
  assumes "\<And>sql. below (Q sql) (Q' sql)"
  shows "below (after_statement L Q h sql lg) (after_statement L Q' h sql lg)"
proof (rule belowI)
  fix s r s'
  assume a: "after_statement L Q h sql lg s = (r, s')" "r \<noteq> OutOfFuel"
  show "after_statement L Q' h sql lg s = (r, s')"
    using a
    by (cases rule: below_cases [OF below_processlist [of Q Q' L, OF assms], of s])
      (auto simp: after_statement_def Let_def split: if_splits)
qed

lemma below_run: "(\<And>sql. below (Q sql) (Q' sql)) \<Longrightarrow> below (run_statement L Q h sql lg) (run_statement L Q' h sql lg)"
  using below_after unfolding below_def run_statement_def Let_def by blast

lemma below_warnings:
  assumes "below K K'" "\<And>sql. below (Q sql) (Q' sql)"
  shows "below (warnings L K Q) (warnings L K' Q')"
proof -
  have w: "below (\<lambda>s. if p s then (Returned (), s) else m s) (\<lambda>s. if p s then (Returned (), s) else m' s)"
    if "below m m'" for p and m m' :: "('a, unit) dbm"
    using that by (auto simp: below_def)
  have "below (chain (Q ''SHOW WARNINGS'') (\<lambda>_. give ())) (chain (Q' ''SHOW WARNINGS'') (\<lambda>_. give ()))"
    by (intro below_chain assms below_refl)
  from below_chain [OF below_getConn [OF assms(1)] w [OF this]]
  show ?thesis unfolding below_def warnings_def by auto
qed

lemma below_fetch:
  assumes "below K K'" "\<And>sql. below (Q sql) (Q' sql)"
  shows "below (fetchResult mk L K Q lg) (fetchResult mk L K' Q' lg)"
proof -
  have w: "below (warnings L K Q) (warnings L K' Q')" by (rule below_warnings [OF assms])
  have f: "fetched L h lg rows (warnings L K' Q' t) = fetched L h lg rows (warnings L K Q t)"
    if "fst (fetched L h lg rows (warnings L K Q t)) \<noteq> OutOfFuel" for h rows t
    using that by (cases rule: below_cases [OF w, of t]) (auto simp: fetched_def)
  show ?thesis
    unfolding fetchResult_def
    by (rule below_chain [OF below_getConn [OF assms(1)]]) (use f in \<open>auto simp: below_def Let_def split: option.split\<close>)
qed

lemma below_query:
  assumes "below K K'" "\<And>sql. below (Q sql) (Q' sql)"
  shows "below (query_with mk L K Q sql) (query_with mk L K' Q' sql)"
proof -
  have i: "below (queryInner L K Q sql) (queryInner L K' Q' sql)"
    unfolding queryInner_def by (rule below_chain [OF below_ready [OF assms(1)]]) (auto intro: below_run assms(2))
  have f: "below (\<lambda>s. if in_noFetch (d_state s) then (Returned [], flush_logger lg s) else fetchResult mk L K Q lg s)
      (\<lambda>s. if in_noFetch (d_state s) then (Returned [], flush_logger lg s) else fetchResult mk L K' Q' lg s)" for lg
  proof -
    have "below (fetchResult mk L K Q lg) (fetchResult mk L K' Q' lg)" by (rule below_fetch) (rule assms)+
    then show ?thesis by (simp add: below_def)
  qed
  show ?thesis unfolding query_with_def using below_chain [OF i f] by simp
qed

lemma below_run_all: "(\<And>sql. below (Q sql) (Q' sql)) \<Longrightarrow> below (run_all Q sqls) (run_all Q' sqls)"
  by (induction sqls) (auto intro: below_chain)

lemma below_connect:
  assumes "\<And>sql. below (Q sql) (Q' sql)"
  shows "below (connect_body L Q) (connect_body L Q')"
proof -
  have set: "below (set_up L Q c h) (set_up L Q' c h)" for c h
  proof -
    have "below (chain (applyMultiStatements L h on) (\<lambda>_. chain (opt_value (cf_isMariaDB8 c)) (\<lambda>m8. run_all Q (setup_statements c m8))))
        (chain (applyMultiStatements L h on) (\<lambda>_. chain (opt_value (cf_isMariaDB8 c)) (\<lambda>m8. run_all Q' (setup_statements c m8))))" for on
      by (intro below_chain below_refl below_run_all assms)
    then show ?thesis by (simp add: below_def set_up_def)
  qed
  show ?thesis
    unfolding connect_body_def
    by (intro below_chain below_refl) (use set in \<open>auto simp: below_def split: prod.split sum.split\<close>)
qed

lemma below_fuel: "below (db_query n L sql) (db_query (n + extra) L sql)"
proof (induction n arbitrary: sql)
  case 0
  show ?case by (simp add: below_def db_query.simps)
next
  case (Suc n)
  show ?case unfolding add_Suc db_query.simps by (intro below_query below_connect Suc.IH)
qed


subsection \<open>The statements of a session\<close>

definition returns :: "('w, 'a) dbm \<Rightarrow> ('a \<Rightarrow> 'w db \<Rightarrow> bool) \<Rightarrow> 'w db \<Rightarrow> bool" where
  "returns m P s \<longleftrightarrow> (\<exists>x s'. m s = (Returned x, s') \<and> P x s')"

lemma returns_chain: "returns m P s \<Longrightarrow> (\<And>x s'. P x s' \<Longrightarrow> returns (f x) R s') \<Longrightarrow> returns (chain m f) R s"
  by (fastforce simp: returns_def chain_def)

lemma returns_mono: "returns m P s \<Longrightarrow> (\<And>x s'. P x s' \<Longrightarrow> R x s') \<Longrightarrow> returns m R s"
  by (auto simp: returns_def)

text \<open>A server that accepts everything; \<open>sent\<close> lists the statements it was sent, over all connections.\<close>

definition healthy_server :: "'w mysql \<Rightarrow> ('w \<Rightarrow> string list) \<Rightarrow> bool" where
  "healthy_server L sent \<longleftrightarrow>
     (\<forall>c f w. \<exists>h w'. my_real_connect L c f w = (Inr h, w') \<and> sent w' = sent w) \<and>
     (\<forall>h on w. \<exists>w'. my_set_option L h on w = (None, w') \<and> sent w' = sent w) \<and>
     (\<forall>h w. \<exists>w'. my_ping L h w = (False, w') \<and> sent w' = sent w) \<and>
     (\<forall>h sql w. sent (my_query L h sql w) = sent w @ [sql] \<and> my_errno L h (my_query L h sql w) = 0) \<and>
     (\<forall>h w. fetch_sets (\<lambda>_ _. ()) None (my_results L h w) \<noteq> None \<and> sent (my_consume L h w) = sent w \<and>
        my_warning_count L h (my_consume L h w) = 0 \<and> my_errno L h (my_consume L h w) = 0)"

lemma case_none [simp]: "((case x of None \<Rightarrow> None | Some r \<Rightarrow> Some (f r)) = None) = (x = None)"
  by (cases x) auto

lemma fetch_sets_none: "(fetch_sets mk c sets = None) = (fetch_sets mk' c sets = None)"
proof (induction sets arbitrary: c)
  case (Cons t sets)
  then show ?case by (cases t) (simp_all add: Let_def)
qed simp

lemma healthyD:
  assumes "healthy_server L sent"
  shows "\<exists>h w'. my_real_connect L c f w = (Inr h, w') \<and> sent w' = sent w"
    and "\<exists>w'. my_set_option L h on w = (None, w') \<and> sent w' = sent w"
    and "\<exists>w'. my_ping L h w = (False, w') \<and> sent w' = sent w"
    and "sent (my_query L h sql w) = sent w @ [sql]" "my_errno L h (my_query L h sql w) = 0"
    and "\<exists>rows. fetch_sets mk None (my_results L h w) = Some rows" "sent (my_consume L h w) = sent w"
    and "my_warning_count L h (my_consume L h w) = 0" "my_errno L h (my_consume L h w) = 0"
  using assms fetch_sets_none [of mk None "my_results L h w" "\<lambda>_ _. ()"] unfolding healthy_server_def by blast+

text \<open>A thread with a usable configuration and a connection, which has sent \<open>sqls\<close>.\<close>

definition thread_session :: "('w \<Rightarrow> string list) \<Rightarrow> dbconf \<Rightarrow> nat \<Rightarrow> string list \<Rightarrow> 'w db \<Rightarrow> bool" where
  "thread_session sent c h sqls s \<longleftrightarrow> d_conf s = Some c \<and> d_conn s = Some h \<and> sent (d_world s) = sqls"

definition usable :: "dbconf \<Rightarrow> bool" where
  "usable c \<longleftrightarrow> cf_defaultDB c \<noteq> [] \<and> cf_isMariaDB8 c \<noteq> None \<and> cf_logSql c \<noteq> None \<and> cf_logError c \<noteq> None"

lemma flush_session [simp]: "thread_session sent c h sqls (flush_logger lg s) = thread_session sent c h sqls s"
  by (simp add: thread_session_def flush_logger_def)

lemma state_session [simp]: "thread_session sent c h sqls (upd_state f s) = thread_session sent c h sqls s"
  by (simp add: thread_session_def upd_state_def)

lemma option_session:
  assumes "healthy_server L sent" "thread_session sent c h sqls s"
  shows "returns (applyMultiStatements L h' on) (\<lambda>_. thread_session sent c h sqls) s"
proof -
  obtain w where "my_set_option L h' on (d_world s) = (None, w) \<and> sent w = sent (d_world s)"
    using healthyD(2) [OF assms(1)] by blast
  with assms(2) show ?thesis by (simp add: returns_def applyMultiStatements_def thread_session_def)
qed


lemma guard_session:
  assumes "healthy_server L sent" "thread_session sent c h sqls s"
  shows "returns (ping_guard L old (Some h)) (\<lambda>_. thread_session sent c h sqls) s"
proof -
  let ?s = "noteReconnect (upd_state (\<lambda>i. i\<lparr>in_reconnection := (in_reconnection i + 1) mod 2 ^ 32\<rparr>) s)"
  have "thread_session sent c h sqls ?s" using assms(2) by (simp add: thread_session_def noteReconnect_def upd_state_def)
  from option_session [OF assms(1) this, of h "in_multiStatements (d_state ?s)"] assms(2)
  show ?thesis by (auto simp: returns_def ping_guard_def Let_def)
qed

lemma ping_session:
  assumes "healthy_server L sent" "usable c" and s: "thread_session sent c h sqls s"
  shows "returns (pinged L K h lg) (\<lambda>h' s'. h' = h \<and> thread_session sent c h sqls s') s"
proof -
  have c: "conf_of s = c" using s by (simp add: thread_session_def conf_of_def)
  obtain logError where l: "cf_logError c = Some logError" using assms(2) by (auto simp: usable_def)
  obtain w where w: "my_ping L h (d_world s) = (False, w)" "sent w = sent (d_world s)" using healthyD(3) [OF assms(1)] by blast
  have p: "ping_loop L K 5 h s = ((Returned True, Some h), s\<lparr>d_world := w\<rparr>)"
    using w(1) by (simp add: numeral_eq_Suc)
  have "thread_session sent c h sqls (s\<lparr>d_world := w\<rparr>)" using s w(2) by (simp add: thread_session_def)
  from guard_session [OF assms(1) this, of "my_thread_id L h (d_world s)"] obtain s' where
    g: "ping_guard L (my_thread_id L h (d_world s)) (Some h) (s\<lparr>d_world := w\<rparr>) = (Returned (), s')" "thread_session sent c h sqls s'"
    by (auto simp: returns_def)
  with s c l p have "returns (pingCheck L K h) (\<lambda>h' s'. h' = h \<and> thread_session sent c h sqls s') s"
    by (auto simp: returns_def pingCheck_def opt_value_def chain_def give_def ping_result_def)
  then show ?thesis by (auto simp: returns_def pinged_def)
qed

lemma ready_session:
  assumes "healthy_server L sent" "usable c" and s: "thread_session sent c h sqls s"
  shows "returns (ready L K sql) (\<lambda>(h', lg) s'. h' = h \<and> thread_session sent c h sqls s') s"
proof -
  have opt: "returns (\<lambda>s. opt_value (cf_logError (conf_of s)) s) (\<lambda>_. thread_session sent c h sqls) t" if "thread_session sent c h sqls t" for t
    using that assms(2) by (auto simp: returns_def opt_value_def usable_def thread_session_def conf_of_def give_def)
  have set: "returns (\<lambda>s. if sql = ''SHOW WARNINGS'' then (Returned False, s)
      else opt_value (cf_logSql (conf_of s)) (upd_state (\<lambda>i. i\<lparr>in_lastSQL := sql\<rparr>) s)) (\<lambda>_. thread_session sent c h sqls) t"
    if "thread_session sent c h sqls t" for t
  proof -
    obtain v where "cf_logSql c = Some v" using assms(2) by (auto simp: usable_def)
    with that show ?thesis by (auto simp: returns_def opt_value_def thread_session_def conf_of_def give_def upd_state_def)
  qed
  have "returns (getConn K) (\<lambda>h' s'. h' = h \<and> thread_session sent c h sqls s') s"
    using s by (simp add: returns_def getConn_def thread_session_def)
  then show ?thesis
    unfolding ready_def Let_def
    apply (rule returns_chain)
    apply (rule returns_chain [OF opt], simp)
    apply (rule returns_chain [OF set], simp)
    apply clarify
    apply (rule returns_chain [OF ping_session [OF assms(1,2)]], assumption)
    apply (simp add: returns_def give_def)
    done
qed

text \<open>A query sends one statement.\<close>

lemma query_session:
  assumes H: "healthy_server L sent" and "usable c" "thread_session sent c h sqls s" "sql \<noteq> []"
  shows "returns (query_with mk L K Q sql) (\<lambda>_. thread_session sent c h (sqls @ [sql])) s"
proof -
  have run: "returns (run_statement L Q h sql lg) (\<lambda>_. thread_session sent c h (sqls @ [sql])) t" if "thread_session sent c h sqls t" for lg t
    using that healthyD(4,5) [OF H]
    by (auto simp: returns_def run_statement_def after_statement_def Let_def thread_session_def)
  have fetch: "returns (fetchResult mk L K Q lg) (\<lambda>_. thread_session sent c h (sqls @ [sql])) t" if "thread_session sent c h (sqls @ [sql]) t" for lg t
  proof -
    obtain rows where "fetch_sets (mk (in_NULL_as_EMPTY (d_state t))) None (my_results L h (d_world t)) = Some rows"
      using healthyD(6) [OF H] by blast
    with that healthyD(7,8,9) [OF H] show ?thesis
      by (auto simp: returns_def fetchResult_def fetched_def chain_def getConn_def warnings_def Let_def thread_session_def upd_state_def
          flush_logger_def)
  qed
  have rest: "returns (\<lambda>s. if in_noFetch (d_state s) then (Returned [], flush_logger lg s) else fetchResult mk L K Q lg s)
      (\<lambda>_. thread_session sent c h (sqls @ [sql])) t" if "thread_session sent c h (sqls @ [sql]) t" for lg t
    using fetch [OF that] that by (auto simp: returns_def)
  have "returns (queryInner L K Q sql) (\<lambda>_. thread_session sent c h (sqls @ [sql])) s"
    unfolding queryInner_def by (rule returns_chain [OF ready_session [OF assms(1,2,3)]]) (auto intro: run)
  from returns_chain [OF this rest] assms(4) show ?thesis by (simp add: query_with_def)
qed


lemma run_all_session:
  assumes "healthy_server L sent" "usable c"
  shows "\<forall>sql\<in>set sqls'. sql \<noteq> [] \<Longrightarrow> thread_session sent c h sqls s \<Longrightarrow>
    returns (run_all (db_query (Suc n) L) sqls') (\<lambda>_. thread_session sent c h (sqls @ sqls')) s"
proof (induction sqls' arbitrary: sqls s)
  case Nil
  then show ?case by (simp add: returns_def give_def)
next
  case (Cons sql sqls')
  have "returns (db_query (Suc n) L sql) (\<lambda>_. thread_session sent c h (sqls @ [sql])) s"
    unfolding db_query.simps by (rule query_session [OF assms Cons.prems(2)]) (use Cons.prems(1) in simp)
  moreover have "returns (run_all (db_query (Suc n) L) sqls') (\<lambda>_. thread_session sent c h (sqls @ sql # sqls')) t"
    if "thread_session sent c h (sqls @ [sql]) t" for t
    using Cons.IH [OF _ that] Cons.prems(1) by simp
  ultimately show ?case by (simp add: returns_chain)
qed

lemma setup_not_empty: "\<forall>sql\<in>set (setup_statements c m8). sql \<noteq> []"
  by (auto simp: setup_statements_def)

lemma connect_session:
  assumes H: "healthy_server L sent" and u: "usable c" and c: "d_conf s = Some c" "cf_isMariaDB8 c = Some m8" and n: "d_conn s = None"
  shows "returns (connect_body L (db_query (Suc n) L))
    (\<lambda>_ s'. \<exists>h. thread_session sent c h (sent (d_world s) @ setup_statements c m8) s') s"
proof -
  obtain h w where r: "my_real_connect L c (connect_flags c (d_state s)) (d_world s) = (Inr h, w)" "sent w = sent (d_world s)"
    using healthyD(1) [OF H] by blast
  let ?s = "set_conn L (Some h) (s\<lparr>d_world := w\<rparr>)" and ?sqls = "sent (d_world s)"
  have s: "thread_session sent c h ?sqls ?s" using c n r(2) by (simp add: thread_session_def set_conn_def)
  have "returns (chain (opt_value (cf_isMariaDB8 c)) (\<lambda>m8. run_all (db_query (Suc n) L) (setup_statements c m8)))
      (\<lambda>_. thread_session sent c h (?sqls @ setup_statements c m8)) t" if "thread_session sent c h ?sqls t" for t
    using run_all_session [OF H u setup_not_empty that, of n c m8]
    by (simp add: returns_def chain_def opt_value_def c give_def)
  from returns_chain [OF option_session [OF H s] this]
  have "returns (set_up L (db_query (Suc n) L) c h) (\<lambda>_. thread_session sent c h (?sqls @ setup_statements c m8)) ?s"
    by (simp add: returns_def set_up_def)
  then show ?thesis
    using c u r(1) by (auto simp: returns_def connect_body_def chain_def getConf_def getDefaultDB_def give_def usable_def)
qed


subsection \<open>Properties\<close>

text \<open>A library over the list of the statements sent: one handle, every statement succeeds but
  \<^verbatim>\<open>UPDATE t\<close>, which deadlocks, and \<^verbatim>\<open>INSERT t\<close>, which leaves a warning.\<close>

definition sample_mysql :: "string list mysql" where
  "sample_mysql =
     (let is = (\<lambda>sql w. w \<noteq> [] \<and> last w = sql)
      in \<lparr>my_real_connect = (\<lambda>c f w. (Inr 7, w)), my_set_option = (\<lambda>h on w. (None, w)), my_ping = (\<lambda>h w. (False, w)),
          my_thread_id = (\<lambda>h w. 1), my_query = (\<lambda>h sql w. w @ [sql]), my_elapsed = (\<lambda>w. 5),
          my_errno = (\<lambda>h w. if is ''UPDATE t'' w then 1213 else 0), my_error = (\<lambda>h w. ''Deadlock found''),
          my_affected_rows = (\<lambda>h w. if is ''INSERT t'' w then 3 else 2 ^ 64 - 1),
          my_warning_count = (\<lambda>h w. if is ''INSERT t'' w then 1 else 0), my_results = (\<lambda>h w. []), my_consume = (\<lambda>h w. w),
          my_insert_id = (\<lambda>h w. 0), my_close = (\<lambda>h w. w)\<rparr>)"

definition sample_dbconf :: dbconf where
  "sample_dbconf = default_conf\<lparr>cf_defaultDB := ''rbk''\<rparr>"

definition sample_db :: "string list db" where
  "sample_db = \<lparr>d_world = [], d_conn = None, d_state = internal_init, d_skipWarning = False, d_conf = Some sample_dbconf,
     d_log = [], d_noted = None, d_reconnects = 0\<rparr>"

lemma own_statement_S: "own_statement sql \<Longrightarrow> \<exists>rest. sql = CHR ''S'' # rest"
  by (auto simp: own_statement_def setup_statements_def split: if_splits)

text \<open>C22. Queries start queries (the ping connects, connecting sends its set-up statements, a lock error lists the
  running statements, warnings are read with a statement). When the statements of the class itself meet no lock and leave no
  warning, and a connection made during these calls answers its pings until its set-up is over, the nesting is
  at most three deep: every query ends, for every statement, from every state, also when the connection the
  thread already holds is lost, or a new one is lost after its set-up; and more depth would not change its
  answer.\<close>

theorem db_query_returns:
  assumes "quiet_server L live"
  shows "db_query (3 + extra) L sql s = db_query 3 L sql s \<and> fst (db_query 3 L sql s) \<noteq> OutOfFuel"
proof -
  have "fst (db_query 3 L sql s) \<noteq> OutOfFuel"
    using query_ends [OF assms refl refl, of old_row 0 sql s] by (simp add: numeral_eq_Suc db_query.simps(2))
  moreover have "below (db_query 3 L sql) (db_query (3 + extra) L sql)" by (rule below_fuel)
  ultimately show ?thesis by (simp add: below_def)
qed

text \<open>A server that loses connections: the world is the statements sent, the dead handles and the next handle. A
  handle dies with any statement that is not a set-up statement, and an update deadlocks.\<close>

type_synonym flaky = "string list \<times> nat list \<times> nat"

definition flaky_mysql :: "flaky mysql" where
  "flaky_mysql = \<lparr>my_real_connect = (\<lambda>c f (sent, dead, n). (Inr n, (sent, removeAll n dead, Suc n))),
     my_set_option = (\<lambda>h on w. (None, w)), my_ping = (\<lambda>h w. (h \<in> set (fst (snd w)), w)), my_thread_id = (\<lambda>h w. h),
     my_query = (\<lambda>h sql (sent, dead, n). (sent @ [sql], if take 3 sql = ''SET'' then dead else h # dead, n)),
     my_elapsed = (\<lambda>w. 5), my_errno = (\<lambda>h w. if fst w \<noteq> [] \<and> last (fst w) = ''UPDATE t'' then 1213 else 0),
     my_error = (\<lambda>h w. ''Deadlock found''), my_affected_rows = (\<lambda>h w. 0), my_warning_count = (\<lambda>h w. 0),
     my_results = (\<lambda>h w. []), my_consume = (\<lambda>h w. w), my_insert_id = (\<lambda>h w. 0), my_close = (\<lambda>h w. w)\<rparr>"

lemma setup_SET: "sql \<in> set (setup_statements c m8) \<Longrightarrow> take 3 sql = ''SET''"
  by (auto simp: setup_statements_def split: if_splits)

lemma flaky_quiet: "quiet_server flaky_mysql (\<lambda>h w. h \<notin> set (fst (snd w)))"
  using setup_SET by (auto simp: quiet_server_def flaky_mysql_def split: prod.splits dest!: own_statement_S)

text \<open>The thread holds the connection 3, which is dead: its ping fails, and the query still ends.\<close>

definition lost_db :: "flaky db" where
  "lost_db = \<lparr>d_world = ([], [3], 7), d_conn = Some 3, d_state = internal_init, d_skipWarning = False,
     d_conf = Some sample_dbconf, d_log = [], d_noted = None, d_reconnects = 0\<rparr>"

lemma db_query_returns_witness:
  "fst (my_ping flaky_mysql 3 (d_world lost_db)) \<and> d_conn lost_db = Some 3 \<and>
   db_query (3 + 4) flaky_mysql ''UPDATE t'' lost_db = db_query 3 flaky_mysql ''UPDATE t'' lost_db \<and>
   fst (db_query 3 flaky_mysql ''UPDATE t'' lost_db) \<noteq> OutOfFuel"
  using db_query_returns [OF flaky_quiet, of 4 "''UPDATE t''" lost_db] by (simp add: flaky_mysql_def lost_db_def)

text \<open>C21. After a statement the thread's slot holds the connection it held before, whatever the statement's outcome
  and whatever the listing of the running statements after a lock error does, unless the connection itself
  was lost: the error 2013 and no other empties the slot. So a deadlock or a lock timeout (1213, 1205) does not
  make the thread reconnect. What the server does with the open transaction is not in the model.\<close>

theorem lock_keeps_connection:
  "d_conn (snd (run_statement L Q h sql lg s)) =
     (if my_errno L h (my_query L h sql (d_world s)) = 2013 then None else d_conn s)"
proof -
  have p: "d_conn (snd (processlist L Q t)) = d_conn t" for t by (simp add: processlist_def Let_def split: prod.split)
  have l: "d_conn (snd (lock_or_lost L e err lg' t)) = (if e = 2013 then None else d_conn t)" for e err lg' t
    by (simp add: lock_or_lost_def Let_def closeConn_def set_conn_def)
  have a: "d_conn (snd (after_statement L Q h sql lg' t)) = (if my_errno L h (d_world t) = 2013 then None else d_conn t)" for lg' t
    using p [of t]
    by (cases "processlist L Q t"; cases "fst (processlist L Q t)")
      (simp_all add: after_statement_def Let_def l noteError_def upd_state_def give_def)
  show ?thesis by (simp add: run_statement_def Let_def a)
qed

text \<open>C23. On a server that accepts everything, the first query of a thread connects, sends the set-up statements
  of the configuration once and in order, then its own statement; a later query sends only its own. Nothing else is sent,
  and both queries return.\<close>

theorem session_set_up_once:
  assumes H: "healthy_server L sent" and u: "usable c" and c: "d_conf s = Some c" "cf_isMariaDB8 c = Some m8" and n: "d_conn s = None"
    and sql: "sql \<noteq> []" "sql' \<noteq> []"
  shows "\<exists>rows s1. db_query 2 L sql s = (Returned rows, s1) \<and>
           sent (d_world s1) = sent (d_world s) @ setup_statements c m8 @ [sql] \<and>
           (\<exists>rows' s2. db_query (1 + extra) L sql' s1 = (Returned rows', s2) \<and> sent (d_world s2) = sent (d_world s1) @ [sql'])"
proof -
  let ?K = "connect_body L (db_query 1 L)" and ?sqls = "sent (d_world s) @ setup_statements c m8"
  obtain h s0 where s0: "?K s = (Returned (), s0)" "thread_session sent c h ?sqls s0"
    using connect_session [OF H u c n, of 0] by (auto simp: returns_def)
  have "db_query 2 L sql s = db_query 2 L sql s0"
    using s0 n sql(1)
    by (simp add: numeral_eq_Suc db_query.simps(2) query_with_def queryInner_def ready_def chain_def getConn_def thread_session_def)
  moreover have "returns (db_query 2 L sql) (\<lambda>_. thread_session sent c h (?sqls @ [sql])) s0"
    unfolding numeral_2_eq_2 db_query.simps(2) by (rule query_session [OF H u s0(2) sql(1)])
  ultimately obtain rows s1 where s1: "db_query 2 L sql s = (Returned rows, s1)" "thread_session sent c h (?sqls @ [sql]) s1"
    by (auto simp: returns_def)
  have "returns (db_query (1 + extra) L sql') (\<lambda>_. thread_session sent c h ((?sqls @ [sql]) @ [sql'])) s1"
    unfolding plus_1_eq_Suc db_query.simps(2) by (rule query_session [OF H u s1(2) sql(2)])
  with s1 show ?thesis by (auto simp: returns_def thread_session_def)
qed


definition calm_lib :: "string list mysql" where
  "calm_lib = sample_mysql\<lparr>my_errno := \<lambda>h w. 0, my_warning_count := \<lambda>h w. 0\<rparr>"

lemma session_set_up_once_witness:
  "\<exists>rows s1. db_query 2 calm_lib ''SELECT 1'' sample_db = (Returned rows, s1) \<and>
     d_world s1 = [] @ setup_statements sample_dbconf False @ [''SELECT 1''] \<and>
     (\<exists>rows' s2. db_query (1 + 1) calm_lib ''SELECT 2'' s1 = (Returned rows', s2) \<and> d_world s2 = d_world s1 @ [''SELECT 2''])"
proof -
  have "healthy_server calm_lib (\<lambda>w. w)" by (simp add: healthy_server_def calm_lib_def sample_mysql_def Let_def)
  moreover have "usable sample_dbconf" by (simp add: usable_def sample_dbconf_def default_conf_def)
  moreover have "cf_isMariaDB8 sample_dbconf = Some False" by (simp add: sample_dbconf_def default_conf_def)
  ultimately show ?thesis
    using session_set_up_once [of calm_lib "\<lambda>w. w" sample_dbconf sample_db False "''SELECT 1''" "''SELECT 2''" 1]
    by (simp add: sample_db_def)
qed

text \<open>A connection that fails to be configured stays in the slot: the next query runs on it as it is, without
  the set-up statements.\<close>

theorem half_configured_stays:
  assumes "d_conf s = Some c" "cf_defaultDB c \<noteq> []"
    and "my_real_connect L c (connect_flags c (d_state s)) (d_world s) = (Inr h, w)"
    and "\<And>on v. fst (my_set_option L h on v) \<noteq> None"
  shows "\<exists>e s1. connect_body L Q s = (Raised e, s1) \<and> getConn K s1 = (Returned h, s1)"
proof -
  let ?s = "set_conn L (Some h) (s\<lparr>d_world := w\<rparr>)" and ?on = "in_multiStatements (d_state s)"
  obtain err w' where "my_set_option L h ?on (d_world ?s) = (Some err, w')"
    using assms(4) [of ?on "d_world ?s"] by (cases "my_set_option L h ?on (d_world ?s)") auto
  with assms(1-3) show ?thesis
    by (simp add: connect_body_def chain_def getConf_def getDefaultDB_def give_def set_up_def applyMultiStatements_def
        getConn_def set_conn_def)
qed

text \<open>A server whose connections never answer a ping: the ping reconnects, the new connection's first set-up
  statement pings, reconnects, and so on. The five retries never count down.\<close>

definition dead_pings :: "'w mysql \<Rightarrow> bool" where
  "dead_pings L \<longleftrightarrow> (\<forall>c f w. \<exists>h w'. my_real_connect L c f w = (Inr h, w')) \<and>
     (\<forall>h on w. \<exists>w'. my_set_option L h on w = (None, w')) \<and> (\<forall>h w. \<exists>w'. my_ping L h w = (True, w'))"

lemma connect_out_of_fuel:
  assumes "dead_pings L" "usable c" and Q: "\<And>sql s. d_conf s = Some c \<Longrightarrow> sql \<noteq> [] \<Longrightarrow> fst (Q sql s) = OutOfFuel"
    and t: "d_conf t = Some c"
  shows "fst (connect_body L Q t) = OutOfFuel"
proof -
  obtain h w where r: "my_real_connect L c (connect_flags c (d_state t)) (d_world t) = (Inr h, w)"
    using assms(1) unfolding dead_pings_def by blast
  let ?t = "set_conn L (Some h) (t\<lparr>d_world := w\<rparr>)"
  obtain w' where o: "my_set_option L h (in_multiStatements (d_state ?t)) (d_world ?t) = (None, w')"
    using assms(1) unfolding dead_pings_def by blast
  obtain m8 where m8: "cf_isMariaDB8 c = Some m8" using assms(2) by (auto simp: usable_def)
  obtain sql1 sqls where q: "setup_statements c m8 = sql1 # sqls"
    by (cases "setup_statements c m8") (auto simp: setup_statements_def)
  then have "fst (Q sql1 (?t\<lparr>d_world := w'\<rparr>)) = OutOfFuel"
    using Q t setup_not_empty [of c m8] by (simp add: set_conn_def)
  then show ?thesis
    using t r o m8 q assms(2)
    by (cases "Q sql1 (?t\<lparr>d_world := w'\<rparr>)")
      (simp add: connect_body_def chain_def getConf_def getDefaultDB_def give_def usable_def set_up_def
        applyMultiStatements_def opt_value_def)
qed

lemma pinged_out_of_fuel:
  assumes "dead_pings L" "usable c" "cf_pingBeforeQuery c \<noteq> Some False" and K: "\<And>s. d_conf s = Some c \<Longrightarrow> fst (K s) = OutOfFuel"
    and t: "d_conf t = Some c"
  shows "fst (pinged L K h lg t) = OutOfFuel"
proof -
  obtain w where w: "my_ping L h (d_world t) = (True, w)" using assms(1) unfolding dead_pings_def by blast
  have "fst (K (closeConn L (t\<lparr>d_world := w\<rparr>))) = OutOfFuel" by (rule K) (simp add: t closeConn_def set_conn_def)
  then have "fst (fst (ping_loop L K 5 h t)) = OutOfFuel"
    using w by (cases "K (closeConn L (t\<lparr>d_world := w\<rparr>))")
      (simp add: numeral_eq_Suc getConn_def chain_def closeConn_def set_conn_def)
  then show ?thesis using assms(2,3) t
    by (cases "ping_loop L K 5 h t")
      (auto simp: pinged_def pingCheck_def conf_of_def opt_value_def chain_def give_def usable_def)
qed

lemma inner_out_of_fuel:
  assumes "dead_pings L" "usable c" "cf_pingBeforeQuery c \<noteq> Some False" and K: "\<And>s. d_conf s = Some c \<Longrightarrow> fst (K s) = OutOfFuel"
    and s: "d_conf s = Some c"
  shows "fst (queryInner L K Q sql s) = OutOfFuel"
proof -
  obtain logError logSql where l: "cf_logError c = Some logError" "cf_logSql c = Some logSql"
    using assms(2) by (auto simp: usable_def)
  let ?lg = "\<lambda>b. (sql_logger sql logError)\<lparr>lg_logSql := b\<rparr>" and ?s = "upd_state (\<lambda>i. i\<lparr>in_lastSQL := sql\<rparr>) s"
  have "fst (ready L K sql s) = OutOfFuel"
  proof (cases "d_conn s")
    case None
    with K [OF s] show ?thesis by (cases "K s") (simp add: ready_def getConn_def chain_def)
  next
    case (Some h)
    have "fst (pinged L K h (?lg False) s) = OutOfFuel" "fst (pinged L K h (?lg logSql) ?s) = OutOfFuel"
      by (rule pinged_out_of_fuel [OF assms(1-3) K]; simp add: upd_state_def s)+
    with Some s l show ?thesis
      by (cases "sql = ''SHOW WARNINGS''"; cases "pinged L K h (?lg False) s"; cases "pinged L K h (?lg logSql) ?s")
        (simp_all add: ready_def chain_def getConn_def opt_value_def give_def conf_of_def Let_def)
  qed
  then show ?thesis by (cases "ready L K sql s") (simp add: queryInner_def chain_def)
qed

text \<open>On a server whose connections never answer a ping no query ever ends: at every depth it has started
  another one.\<close>

theorem ping_failure_never_ends:
  assumes "dead_pings L" "usable c" "cf_pingBeforeQuery c \<noteq> Some False" "d_conf s = Some c" "sql \<noteq> []"
  shows "fst (db_query n L sql s) = OutOfFuel"
  using assms(4,5)
proof (induction n arbitrary: sql s)
  case (Suc n)
  let ?K = "connect_body L (db_query n L)"
  have "fst (?K t) = OutOfFuel" if "d_conf t = Some c" for t
    by (rule connect_out_of_fuel [OF assms(1,2) Suc.IH that])
  then have "fst (queryInner L ?K (db_query n L) sql s) = OutOfFuel"
    by (rule inner_out_of_fuel [OF assms(1-3) _ Suc.prems(1)])
  then show ?case
    using Suc.prems(2) by (cases "queryInner L ?K (db_query n L) sql s") (simp add: db_query.simps query_with_def chain_def)
qed (simp add: db_query.simps)

lemma ping_failure_never_ends_witness:
  "fst (db_query 1000 (sample_mysql\<lparr>my_ping := \<lambda>h w. (True, w)\<rparr>) ''SELECT 1'' sample_db) = OutOfFuel"
  by (rule ping_failure_never_ends [of _ sample_dbconf])
    (simp_all add: dead_pings_def sample_mysql_def Let_def usable_def sample_dbconf_def default_conf_def sample_db_def)

text \<open>A statement stores its count of affected rows; when it left a warning, the statement that reads the
  warnings stores its own in the same place before the caller sees it.\<close>

theorem affected_rows_of_the_warnings:
  assumes "my_errno L h (my_query L h sql w) = 0" "w = d_world s" "\<not> d_skipWarning s'" "d_conn s' = Some h"
    and "my_warning_count L h (d_world s') \<noteq> 0" "Q ''SHOW WARNINGS'' s' = (Returned rows, s'')"
  shows "getAffectedRows (snd (run_statement L Q h sql lg s)) = my_affected_rows L h (my_query L h sql w) \<and>
    getAffectedRows (snd (warnings L K Q s')) = getAffectedRows s''"
  using assms
  by (simp add: run_statement_def after_statement_def Let_def count_query_def getAffectedRows_def warnings_def chain_def
      getConn_def give_def)

text \<open>The rows of a second result set come back among those of the first, under its columns.\<close>

theorem later_sets_under_first_columns:
  "fetch_sets (old_row False) None
     [Some \<lparr>rt_columns = [''id''], rt_rows = [[Some ''1'']]\<rparr>, Some \<lparr>rt_columns = [''name'', ''id''], rt_rows = [[Some ''x'', Some ''9'']]\<rparr>]
   = Some [[(''id'', ''1'')], [(''id'', ''x'')]]"
  by code_simp

end
