(* ===== verification/LogHandler.thy ===== *)
theory LogHandler
  imports Prelude
begin

text \<open>
  The message handler of \<^verbatim>\<open>misc/QDebugHandler.cpp\<close> and the in-memory cool-down table of
  \<^verbatim>\<open>misc/runnableV2.cpp\<close> that limits its mails. \<open>log_state\<close> is \<open>LogState\<close> with the static
  variables of the handler and what reached the outside: the two files, the terminal, the mails. The clock, the
  rendered time, the locks taken and whether a file opens are arguments. Qt texts are
  lists of characters, one for each UTF-16 unit, so for messages within Latin-1, and the conversions to bytes are left out.
  The table's counters are 32 bits wide; its
  times are integers, as a 64-bit count of seconds does not wrap.
\<close>

subsection \<open>The cool-down table\<close>

record run_entry =
  re_lastRun :: int
  re_suppressed :: nat
  re_firstSuppressed :: int

record run_result =
  rr_run :: bool
  rr_suppressed :: nat
  rr_firstSuppressed :: int

type_synonym run_table = "string \<rightharpoonup> run_entry"

definition run_blocked :: run_result where
  "run_blocked = \<lparr>rr_run = False, rr_suppressed = 0, rr_firstSuppressed = 0\<rparr>"

definition fresh_entry :: "int \<Rightarrow> run_entry" where
  "fresh_entry now = \<lparr>re_lastRun = now, re_suppressed = 0, re_firstSuppressed = 0\<rparr>"

definition runnable_v2 :: "int \<Rightarrow> string \<Rightarrow> int \<Rightarrow> run_table \<Rightarrow> run_result \<times> run_table" where
  "runnable_v2 now key coolDown t = (case t key of
     None \<Rightarrow> (\<lparr>rr_run = True, rr_suppressed = 0, rr_firstSuppressed = 0\<rparr>, t(key \<mapsto> fresh_entry now))
   | Some e \<Rightarrow>
       (if coolDown \<le> 0 \<or> now < re_lastRun e \<or> now - re_lastRun e \<ge> coolDown
        then (\<lparr>rr_run = True, rr_suppressed = re_suppressed e, rr_firstSuppressed = re_firstSuppressed e\<rparr>,
              t(key \<mapsto> fresh_entry now))
        else (run_blocked,
              t(key \<mapsto> \<lparr>re_lastRun = re_lastRun e, re_suppressed = (re_suppressed e + 1) mod 2 ^ 32,
                       re_firstSuppressed = (if re_suppressed e = 0 then now else re_firstSuppressed e)\<rparr>))))"

subsection \<open>Configuration, message and state\<close>

datatype msg_type = QtDebugMsg | QtInfoMsg | QtWarningMsg | QtCriticalMsg | QtFatalMsg

record msg_context =
  mc_file :: "string option"
  mc_line :: int
  mc_function :: "string option"

record spam_config =
  sp_warningToMail :: bool
  sp_recipients :: "string list"
  sp_coolDown :: "int option"
  sp_instance :: string
  sp_application :: string
  sp_revision :: string
  sp_curl :: bool

record mail =
  ma_recipient :: string
  ma_subject :: string
  ma_message :: string

record log_state =
  ls_logOpen :: bool
  ls_errOpen :: bool
  ls_log :: "string list"
  ls_err :: "string list"
  ls_terminal :: "(bool \<times> string) list"
  ls_firstErr :: bool
  ls_gate :: run_table
  ls_mails :: "mail list"

text \<open>The outside of one call: the clock, its rendering, whether each file can be opened.\<close>

record moment =
  mo_now :: int
  mo_time :: string
  mo_stamp :: "int \<Rightarrow> string"
  mo_logOpens :: bool
  mo_errOpens :: bool

definition isError :: "msg_type \<Rightarrow> bool" where
  "isError type \<longleftrightarrow> type \<in> {QtWarningMsg, QtCriticalMsg, QtFatalMsg}"

definition newline :: string where
  "newline = [CHR 0x0A]"

subsection \<open>Mails\<close>

text \<open>\<open>QString::left\<close> counts UTF-16 units, as the characters of the message do here.\<close>

definition warningMailKey :: "msg_context \<Rightarrow> string \<Rightarrow> string" where
  "warningMailKey ctx msg = (case mc_file ctx of
     Some f \<Rightarrow> f @ '':'' @ show_int (mc_line ctx) | None \<Rightarrow> take 120 msg)"

definition getHeader1 :: "spam_config \<Rightarrow> string \<Rightarrow> string" where
  "getHeader1 c time = ''@ '' @ time @ '' From '' @ sp_application c @ '' instanceId '' @ sp_instance c @ '' rev '' @ sp_revision c"

definition getHeader2 :: "string \<Rightarrow> int \<Rightarrow> string \<Rightarrow> string" where
  "getHeader2 file line func = file @ '':'' @ show_int line @ '' ('' @ func @ '')''"

text \<open>Without curl the mail throws, which ends the process from inside the handler: None.\<close>

definition sendMail :: "spam_config \<Rightarrow> string \<Rightarrow> string \<Rightarrow> log_state \<Rightarrow> log_state option" where
  "sendMail c subject message s =
     (if \<not> sp_warningToMail c then Some s
      else if \<not> sp_curl c then None
      else Some (s\<lparr>ls_mails := ls_mails s
             @ map (\<lambda>r. \<lparr>ma_recipient = r, ma_subject = subject, ma_message = message\<rparr>) (sp_recipients c)\<rparr>))"

definition requireCurl :: "spam_config \<Rightarrow> bool" where
  "requireCurl c \<longleftrightarrow> \<not> (sp_warningToMail c \<and> \<not> sp_curl c)"

definition kDefaultMailCooldownSec :: int where
  "kDefaultMailCooldownSec = 8 * 3600"

definition suppressed_note :: "moment \<Rightarrow> run_result \<Rightarrow> string" where
  "suppressed_note m gate =
     (if rr_suppressed gate > 0
      then ''<br/>'' @ show_nat (rr_suppressed gate) @ '' similar messages suppressed since '' @ mo_stamp m (rr_firstSuppressed gate)
      else [])"

definition warn_by_mail :: "spam_config \<Rightarrow> moment \<Rightarrow> msg_context \<Rightarrow> string \<Rightarrow> string \<Rightarrow> string \<Rightarrow> log_state \<Rightarrow> log_state option" where
  "warn_by_mail c m ctx file funkz msg s =
     (if \<not> sp_warningToMail c then Some s
      else (let coolDown = (case sp_coolDown c of None \<Rightarrow> kDefaultMailCooldownSec | Some n \<Rightarrow> n);
                (gate, table) = runnable_v2 (mo_now m) (warningMailKey ctx msg) coolDown (ls_gate s);
                s1 = s\<lparr>ls_gate := table\<rparr>
            in if \<not> rr_run gate then Some s1
               else sendMail c (''Error from '' @ sp_application c @ '' @ '' @ sp_instance c @ '' in '' @ funkz)
                      (getHeader1 c (mo_time m) @ ''<br/>'' @ getHeader2 file (mc_line ctx) funkz @ ''<br/><br/><pre>'' @ msg
                         @ ''</pre>'' @ suppressed_note m gate) s1))"

subsection \<open>The handler\<close>

definition is_noise :: "string \<Rightarrow> bool" where
  "is_noise msg \<longleftrightarrow> msg = ''Empty filename passed to function'' \<or>
     find_sub ''The cached device pixel ratio value was stale on window'' msg \<noteq> None"

definition open_logs :: "moment \<Rightarrow> log_state \<Rightarrow> log_state" where
  "open_logs m s = (if ls_logOpen s then s else s\<lparr>ls_logOpen := mo_logOpens m, ls_errOpen := mo_errOpens m\<rparr>)"

text \<open>The first three characters of the file name are skipped without a look at its length: None.\<close>

definition shown_file :: "msg_context \<Rightarrow> string option" where
  "shown_file ctx = (case mc_file ctx of
     None \<Rightarrow> Some ''NOT VALID FILE ''
   | Some f \<Rightarrow> if length f < 3 then None else Some (drop 3 f))"

definition shown_function :: "msg_context \<Rightarrow> string" where
  "shown_function ctx = (case mc_function ctx of None \<Rightarrow> ''NOT VALID FUNCTION'' | Some f \<Rightarrow> f)"

definition msg_final :: "string \<Rightarrow> string \<Rightarrow> int \<Rightarrow> string \<Rightarrow> string \<Rightarrow> string" where
  "msg_final time file line funkz localMsg =
     time @ '' '' @ file @ '':'' @ show_int line @ '' ('' @ funkz @ '')'' @ newline @ localMsg @ newline @ ''----------'' @ newline"

text \<open>The disk log and the terminal.\<close>

definition write_log :: "bool \<Rightarrow> string \<Rightarrow> log_state \<Rightarrow> log_state" where
  "write_log err text s =
     s\<lparr>ls_err := ls_err s @ (if err \<and> ls_errOpen s then [text] else []),
       ls_log := ls_log s @ (if \<not> err \<and> ls_logOpen s then [text] else []),
       ls_terminal := ls_terminal s @ [(err, text)]\<rparr>"

definition revision_banner :: "spam_config \<Rightarrow> string" where
  "revision_banner c = ''Git revision: '' @ sp_revision c @ newline @ newline @ '' *************** '' @ newline @ '' '' @ newline"

definition generalMsgHandler ::
    "spam_config \<Rightarrow> bool \<Rightarrow> moment \<Rightarrow> msg_type \<Rightarrow> msg_context \<Rightarrow> string \<Rightarrow> log_state \<Rightarrow> log_state option" where
  "generalMsgHandler c running m type ctx msg s =
     (if \<not> running then Some (s\<lparr>ls_terminal := ls_terminal s @ [(isError type, msg @ newline)]\<rparr>)
      else (let s1 = open_logs m s
            in if is_noise msg then Some s1
               else case shown_file ctx of
                 None \<Rightarrow> None
               | Some file \<Rightarrow>
                   (let funkz = shown_function ctx; final = msg_final (mo_time m) file (mc_line ctx) funkz
                    in if \<not> isError type then Some (write_log False (final msg) s1)
                       else (let localMsg = (if ls_firstErr s1 then revision_banner c @ msg else msg)
                             in case warn_by_mail c m ctx file funkz msg (s1\<lparr>ls_firstErr := False\<rparr>) of
                                  None \<Rightarrow> None
                                | Some s2 \<Rightarrow> Some (write_log True (final localMsg) s2)))))"

definition lowSpamMsgHandler :: "msg_type \<Rightarrow> string \<Rightarrow> log_state \<Rightarrow> log_state" where
  "lowSpamMsgHandler type msg s = s\<lparr>ls_terminal := ls_terminal s @ [(isError type, msg @ newline)]\<rparr>"

text \<open>The two entries that do not wait for the lock: \<open>owned\<close> is whether they got it.\<close>

definition tryWriteDiskLog :: "bool \<Rightarrow> string \<Rightarrow> log_state \<Rightarrow> bool \<times> log_state" where
  "tryWriteDiskLog owned line s =
     (if \<not> owned \<or> \<not> ls_errOpen s then (False, s) else (True, s\<lparr>ls_err := ls_err s @ [line]\<rparr>))"

definition tryLogLine :: "bool \<Rightarrow> moment \<Rightarrow> bool \<Rightarrow> string \<Rightarrow> log_state \<Rightarrow> bool \<times> log_state" where
  "tryLogLine owned m err line s =
     (if \<not> owned then (False, s)
      else (True, write_log err (mo_time m @ '' '' @ line @ newline @ ''----------'' @ newline) s))"

definition log_init :: log_state where
  "log_init = \<lparr>ls_logOpen = False, ls_errOpen = False, ls_log = [], ls_err = [], ls_terminal = [], ls_firstErr = True,
     ls_gate = Map.empty, ls_mails = []\<rparr>"

subsection \<open>The table limits and counts\<close>

text \<open>A sequence of calls, each with its time, key and cool-down.\<close>

fun gate_calls :: "(int \<times> string \<times> int) list \<Rightarrow> run_table \<Rightarrow> (string \<times> run_result) list \<times> run_table" where
  "gate_calls [] t = ([], t)"
| "gate_calls ((now, key, coolDown) # calls) t =
     (let (r, t1) = runnable_v2 now key coolDown t; (rs, t2) = gate_calls calls t1 in ((key, r) # rs, t2))"

definition pending :: "run_table \<Rightarrow> string \<Rightarrow> nat" where
  "pending t key = (case t key of None \<Rightarrow> 0 | Some e \<Rightarrow> re_suppressed e)"

definition runs :: "string \<Rightarrow> (string \<times> run_result) list \<Rightarrow> run_result list" where
  "runs key rs = filter rr_run (map snd (filter (\<lambda>r. fst r = key) rs))"

definition calls_of :: "string \<Rightarrow> (int \<times> string \<times> int) list \<Rightarrow> nat" where
  "calls_of key calls = length (filter (\<lambda>(_, k, _). k = key) calls)"

lemma runnable_other: "runnable_v2 now k cd t = (r, t') \<Longrightarrow> key \<noteq> k \<Longrightarrow> t' key = t key"
  by (auto simp: runnable_v2_def split: option.splits if_splits)

lemma runnable_count:
  assumes "runnable_v2 now key cd t = (r, t')" "pending t key < 2 ^ 32 - 1"
  shows "1 + pending t key = (if rr_run r then 1 + rr_suppressed r else 0) + pending t' key"
    and "pending t' key \<le> 1 + pending t key"
  using assms by (auto simp: runnable_v2_def pending_def run_blocked_def fresh_entry_def split: option.splits if_splits)

text \<open>No suppressed call is lost: for every key, the calls made and the count that was pending at the start are
  the runs, the counts these runs report, and the count still pending, as long as the counter of 32 bits has room.\<close>

theorem suppressed_add_up:
  assumes "gate_calls calls t = (rs, t')" "pending t key + length calls < 2 ^ 32"
  shows "calls_of key calls + pending t key =
    length (runs key rs) + sum_list (map rr_suppressed (runs key rs)) + pending t' key"
  using assms
proof (induction calls arbitrary: t rs)
  case Nil
  then show ?case by (simp add: calls_of_def runs_def)
next
  case (Cons call calls)
  obtain now k cd where call: "call = (now, k, cd)" by (cases call)
  obtain r t1 where r: "runnable_v2 now k cd t = (r, t1)" by fastforce
  obtain rs' where rs: "gate_calls calls t1 = (rs', t')" "rs = (k, r) # rs'"
    using Cons.prems(1) by (auto simp: call r split: prod.splits)
  show ?case
  proof (cases "k = key")
    case True
    note c = runnable_count [OF r [unfolded True]]
    from Cons.prems(2) c have "pending t1 key + length calls < 2 ^ 32" by simp
    from Cons.IH [OF rs(1) this] c Cons.prems(2) show ?thesis
      by (simp add: call True rs(2) calls_of_def runs_def split: if_splits)
  next
    case False
    then have "pending t1 key = pending t key" using runnable_other [OF r, of key] by (simp add: pending_def)
    with Cons.IH [OF rs(1)] Cons.prems(2) False show ?thesis by (simp add: call rs(2) calls_of_def runs_def)
  qed
qed

definition sample_gate :: "(int \<times> string \<times> int) list" where
  "sample_gate = [(10, ''a'', 5), (12, ''a'', 5), (13, ''b'', 5), (14, ''a'', 5), (16, ''a'', 5), (17, ''a'', 5)]"

lemma suppressed_add_up_witness:
  "\<exists>rs t'. gate_calls sample_gate Map.empty = (rs, t') \<and> calls_of ''a'' sample_gate = 5 \<and>
     5 + pending Map.empty ''a'' = length (runs ''a'' rs) + sum_list (map rr_suppressed (runs ''a'' rs)) + pending t' ''a''"
proof -
  obtain rs t' where g: "gate_calls sample_gate Map.empty = (rs, t')" by fastforce
  have c: "calls_of ''a'' sample_gate = 5" by (simp add: calls_of_def sample_gate_def)
  show ?thesis
    using suppressed_add_up [OF g, of "''a''"] g c by (simp add: pending_def sample_gate_def)
qed

text \<open>A table never blocks again after the cool-down: a call is refused only within it.\<close>

lemma runnable_refused:
  "runnable_v2 now key cd t = (r, t') \<Longrightarrow> \<not> rr_run r \<Longrightarrow>
     \<exists>e. t key = Some e \<and> 0 < cd \<and> re_lastRun e \<le> now \<and> now < re_lastRun e + cd \<and>
         (\<exists>e'. t' key = Some e' \<and> re_lastRun e' = re_lastRun e)"
  by (auto simp: runnable_v2_def split: option.splits if_splits)

lemma runnable_allowed:
  "runnable_v2 now key cd t = (r, t') \<Longrightarrow> rr_run r \<Longrightarrow>
     (\<exists>e. t' key = Some e \<and> re_lastRun e = now) \<and>
     (\<forall>e. t key = Some e \<longrightarrow> cd \<le> 0 \<or> now < re_lastRun e \<or> re_lastRun e + cd \<le> now)"
  by (auto simp: runnable_v2_def fresh_entry_def run_blocked_def split: option.splits if_splits)

lemma runnable_keeps:
  "runnable_v2 now k cd t = (r, t') \<Longrightarrow> \<not> (k = key \<and> rr_run r) \<Longrightarrow> map_option re_lastRun (t' key) = map_option re_lastRun (t key)"
  by (auto simp: runnable_v2_def split: option.splits if_splits)

subsection \<open>What the handler does to a message\<close>

definition mail_coolDown :: "spam_config \<Rightarrow> int" where
  "mail_coolDown c = (case sp_coolDown c of None \<Rightarrow> kDefaultMailCooldownSec | Some n \<Rightarrow> n)"

lemma sendMail_keeps:
  "sendMail c sub msg s = Some s' \<Longrightarrow>
     ls_log s' = ls_log s \<and> ls_err s' = ls_err s \<and> ls_terminal s' = ls_terminal s \<and> ls_gate s' = ls_gate s \<and>
     ls_logOpen s' = ls_logOpen s \<and> ls_errOpen s' = ls_errOpen s"
  by (auto simp: sendMail_def split: if_splits)

lemma warn_by_mail_keeps:
  "warn_by_mail c m ctx file funkz msg s = Some s' \<Longrightarrow>
     ls_log s' = ls_log s \<and> ls_err s' = ls_err s \<and> ls_terminal s' = ls_terminal s \<and>
     ls_logOpen s' = ls_logOpen s \<and> ls_errOpen s' = ls_errOpen s"
  by (auto simp: warn_by_mail_def Let_def dest!: sendMail_keeps split: prod.splits if_splits)

lemma warn_by_mail_Some: "requireCurl c \<Longrightarrow> \<exists>s'. warn_by_mail c m ctx file funkz msg s = Some s'"
  by (auto simp: warn_by_mail_def requireCurl_def sendMail_def Let_def split: prod.splits)

lemma open_logs_keeps [simp]: "ls_log (open_logs m s) = ls_log s" "ls_err (open_logs m s) = ls_err s"
    "ls_terminal (open_logs m s) = ls_terminal s" "ls_gate (open_logs m s) = ls_gate s" "ls_mails (open_logs m s) = ls_mails s"
  by (simp_all add: open_logs_def)

lemma sublist_msg_final: "sublist msg localMsg \<Longrightarrow> sublist msg (msg_final time file line funkz localMsg)"
  unfolding msg_final_def sublist_def by (elim exE) (metis append.assoc)

text \<open>C36. While the program runs, every message that is not one of the two known noises goes once to the terminal and
  once to the file of its kind, if that file is open, with its text; nothing goes to the other file. It does so whether or not a
  mail is sent for it, and the handler returns, when mail is off or curl compiled in and the file name has three characters.\<close>

theorem message_logged_once:
  assumes "requireCurl c" "shown_file ctx = Some file" "\<not> is_noise msg"
  shows "\<exists>s' text. generalMsgHandler c True m type ctx msg s = Some s' \<and> sublist msg text \<and>
    ls_terminal s' = ls_terminal s @ [(isError type, text)] \<and>
    ls_err s' = ls_err s @ (if isError type \<and> ls_errOpen s' then [text] else []) \<and>
    ls_log s' = ls_log s @ (if \<not> isError type \<and> ls_logOpen s' then [text] else [])"
proof -
  let ?s = "(open_logs m s)\<lparr>ls_firstErr := False\<rparr>"
  let ?final = "msg_final (mo_time m) file (mc_line ctx) (shown_function ctx)"
  let ?msg = "if ls_firstErr (open_logs m s) then revision_banner c @ msg else msg"
  show ?thesis
  proof (cases "isError type")
    case False
    with assms show ?thesis
      by (intro exI [of _ "write_log False (?final msg) (open_logs m s)"] exI [of _ "?final msg"])
        (simp add: generalMsgHandler_def Let_def write_log_def sublist_msg_final)
  next
    case True
    obtain s2 where w: "warn_by_mail c m ctx file (shown_function ctx) msg ?s = Some s2"
      using warn_by_mail_Some [OF assms(1)] by blast
    have "sublist msg ?msg" by simp
    from sublist_msg_final [OF this] warn_by_mail_keeps [OF w] w True assms show ?thesis
      by (intro exI [of _ "write_log True (?final ?msg) s2"] exI [of _ "?final ?msg"])
        (simp add: generalMsgHandler_def Let_def write_log_def)
  qed
qed

definition sample_spam :: spam_config where
  "sample_spam = \<lparr>sp_warningToMail = True, sp_recipients = [''admin''], sp_coolDown = None, sp_instance = ''one'',
     sp_application = ''rbk'', sp_revision = ''abc'', sp_curl = True\<rparr>"

definition sample_ctx :: msg_context where
  "sample_ctx = \<lparr>mc_file = Some ''../db.cpp'', mc_line = 7, mc_function = None\<rparr>"

definition sample_moment :: "int \<Rightarrow> moment" where
  "sample_moment now = \<lparr>mo_now = now, mo_time = ''T'', mo_stamp = show_int, mo_logOpens = True, mo_errOpens = True\<rparr>"

lemma message_logged_once_witness:
  "\<exists>s' text. generalMsgHandler sample_spam True (sample_moment 10) QtWarningMsg sample_ctx ''lost'' log_init = Some s' \<and>
     sublist ''lost'' text \<and> ls_terminal s' = [(True, text)] \<and> ls_err s' = (if ls_errOpen s' then [text] else []) \<and> ls_log s' = []"
  using message_logged_once [of sample_spam sample_ctx "''db.cpp''" "''lost''" "sample_moment 10" QtWarningMsg log_init]
  by (simp add: requireCurl_def sample_spam_def shown_file_def sample_ctx_def is_noise_def find_sub_None_iff isError_def log_init_def
      sublist_def)

subsection \<open>The mails of one source line\<close>

type_synonym log_call = "moment \<times> msg_type \<times> msg_context \<times> string"

text \<open>The times of the messages with this key whose handling sent mails.\<close>

fun mail_times :: "spam_config \<Rightarrow> string \<Rightarrow> log_call list \<Rightarrow> log_state \<Rightarrow> int list" where
  "mail_times c key [] s = []"
| "mail_times c key ((m, type, ctx, msg) # calls) s =
     (case generalMsgHandler c True m type ctx msg s of
        None \<Rightarrow> []
      | Some s' \<Rightarrow> (if warningMailKey ctx msg = key \<and> ls_mails s' \<noteq> ls_mails s then [mo_now m] else [])
          @ mail_times c key calls s')"

lemma warn_by_mail_gate:
  assumes "warn_by_mail c m ctx file funkz msg s = Some s'"
  shows "(ls_gate s' = ls_gate s \<and> ls_mails s' = ls_mails s) \<or>
    (\<exists>r. runnable_v2 (mo_now m) (warningMailKey ctx msg) (mail_coolDown c) (ls_gate s) = (r, ls_gate s') \<and>
         (\<not> rr_run r \<longrightarrow> ls_mails s' = ls_mails s))"
proof (cases "sp_warningToMail c")
  case True
  obtain r t where r: "runnable_v2 (mo_now m) (warningMailKey ctx msg) (mail_coolDown c) (ls_gate s) = (r, t)" by fastforce
  with assms True have "ls_gate s' = t \<and> (\<not> rr_run r \<longrightarrow> ls_mails s' = ls_mails s)"
    by (cases "rr_run r") (auto simp: warn_by_mail_def mail_coolDown_def Let_def dest!: sendMail_keeps)
  with r show ?thesis by blast
qed (use assms in \<open>simp add: warn_by_mail_def\<close>)

lemma handler_gate:
  assumes "generalMsgHandler c True m type ctx msg s = Some s'"
  shows "(ls_gate s' = ls_gate s \<and> ls_mails s' = ls_mails s) \<or>
    (\<exists>r. runnable_v2 (mo_now m) (warningMailKey ctx msg) (mail_coolDown c) (ls_gate s) = (r, ls_gate s') \<and>
         (\<not> rr_run r \<longrightarrow> ls_mails s' = ls_mails s))"
  using assms
  by (auto simp: generalMsgHandler_def Let_def write_log_def dest!: warn_by_mail_gate split: if_splits option.splits)


text \<open>Every later mail of the key waits for the end of its cool-down.\<close>

lemma mail_times_spaced:
  assumes cd: "0 < mail_coolDown c" and "sorted (map (\<lambda>(m, _). mo_now m) calls)"
    and "\<forall>e. ls_gate s key = Some e \<longrightarrow> (\<forall>(m, _)\<in>set calls. re_lastRun e \<le> mo_now m)"
  shows "sorted_wrt (\<lambda>a b. a + mail_coolDown c \<le> b) (mail_times c key calls s) \<and>
    (\<forall>e. ls_gate s key = Some e \<longrightarrow> (\<forall>t\<in>set (mail_times c key calls s). re_lastRun e + mail_coolDown c \<le> t))"
  using assms(2,3)
proof (induction calls arbitrary: s)
  case (Cons call calls)
  obtain m type ctx msg where call: "call = (m, type, ctx, msg)" by (cases call)
  have later: "\<forall>(m', _)\<in>set calls. mo_now m \<le> mo_now m'" using Cons.prems(1) by (auto simp: call)
  show ?case
  proof (cases "generalMsgHandler c True m type ctx msg s")
    case None
    then show ?thesis by (simp add: call)
  next
    case (Some s')
    let ?k = "warningMailKey ctx msg" and ?rest = "mail_times c key calls s'"
    note IH = Cons.IH [of s']
    from handler_gate [OF Some] show ?thesis
    proof (elim disjE exE conjE)
      assume "ls_gate s' = ls_gate s" "ls_mails s' = ls_mails s"
      with IH Cons.prems Some show ?thesis by (auto simp: call)
    next
      fix r assume r: "runnable_v2 (mo_now m) ?k (mail_coolDown c) (ls_gate s) = (r, ls_gate s')"
        and quiet: "\<not> rr_run r \<longrightarrow> ls_mails s' = ls_mails s"
      show ?thesis
      proof (cases "?k = key \<and> rr_run r")
        case True
        then obtain e where e: "ls_gate s' key = Some e" "re_lastRun e = mo_now m"
          and old: "\<And>e0. ls_gate s key = Some e0 \<Longrightarrow> mo_now m < re_lastRun e0 \<or> re_lastRun e0 + mail_coolDown c \<le> mo_now m"
          using runnable_allowed [OF r] cd by fastforce
        have rest: "sorted_wrt (\<lambda>a b. a + mail_coolDown c \<le> b) ?rest \<and> (\<forall>t\<in>set ?rest. mo_now m + mail_coolDown c \<le> t)"
          using IH e later Cons.prems(1) by (auto simp: call)
        have "re_lastRun e0 + mail_coolDown c \<le> mo_now m" if "ls_gate s key = Some e0" for e0
          using old [OF that] Cons.prems(2) that by (auto simp: call)
        with rest Some cd show ?thesis by (fastforce simp: call)
      next
        case False
        note same = runnable_keeps [OF r False]
        have "\<forall>e. ls_gate s' key = Some e \<longrightarrow> (\<forall>(m, _)\<in>set calls. re_lastRun e \<le> mo_now m)"
          using same Cons.prems(2) by (cases "ls_gate s key"; cases "ls_gate s' key") (auto simp: call)
        with IH Cons.prems(1) have "sorted_wrt (\<lambda>a b. a + mail_coolDown c \<le> b) ?rest \<and>
            (\<forall>e. ls_gate s key = Some e \<longrightarrow> (\<forall>t\<in>set ?rest. re_lastRun e + mail_coolDown c \<le> t))"
          using same by (cases "ls_gate s key"; cases "ls_gate s' key") (auto simp: call)
        moreover have "mail_times c key (call # calls) s = ?rest" using False quiet Some by (auto simp: call)
        ultimately show ?thesis by simp
      qed
    qed
  qed
qed simp

text \<open>C35. While the clock does not go back, two mails caused by messages of the same key (the same source line) are at
  least the configured cool-down apart, eight hours when none is configured, whatever other messages are logged.\<close>

theorem mails_keep_coolDown:
  assumes "0 < mail_coolDown c" "sorted (map (\<lambda>(m, _). mo_now m) calls)"
  shows "sorted_wrt (\<lambda>a b. a + mail_coolDown c \<le> b) (mail_times c key calls log_init)"
  using mail_times_spaced [OF assms, of log_init key] by (simp add: log_init_def)

lemma mails_keep_coolDown_witness:
  "sorted_wrt (\<lambda>a b. a + 28800 \<le> b)
     (mail_times sample_spam ''../db.cpp:7'' (map (\<lambda>t. (sample_moment t, QtWarningMsg, sample_ctx, ''lost'')) [10, 20, 28810, 30000]) log_init)"
  using mails_keep_coolDown [of sample_spam "map (\<lambda>t. (sample_moment t, QtWarningMsg, sample_ctx, ''lost'')) [10, 20, 28810, 30000]"
    "''../db.cpp:7''"]
  by (simp add: mail_coolDown_def sample_spam_def kDefaultMailCooldownSec_def sample_moment_def)

text \<open>The first three characters of the file name are dropped whatever they are: the name of a source file that does not
  start with a relative step loses its own.\<close>

theorem file_name_loses_start:
  "shown_file (sample_ctx\<lparr>mc_file := Some ''main.cpp''\<rparr>) = Some ''n.cpp'' \<and> shown_file (sample_ctx\<lparr>mc_file := Some ''x''\<rparr>) = None"
  by (simp add: shown_file_def)

end
