(* ===== verification/Executor.thy ===== *)
theory Executor
  imports Prelude
begin

text \<open>
  Child processes and their logs: the tree of \<^verbatim>\<open>log/log.*\<close> and the functions of
  \<^verbatim>\<open>misc/executor.cpp\<close>. What the process library reports of one run is the record \<open>child\<close>, the
  file system is the record \<open>host\<close>; both are arguments. A function that may throw returns a sum, with the message (or
  the thrown log) on the left; what it does outside is the list of its \<open>deed\<close>s. Left out of a log: times, stack
  trace, the flag that it was read.
\<close>

subsection \<open>The log tree\<close>

datatype category = NotSet | LogInfo | LogWarning | LogError | LogException

datatype run_log = RunLog (rl_category: category) (rl_section: string) (rl_options: string) (rl_stdOut: string)
  (rl_stdErr: string) (rl_exit: int) (rl_subs: "run_log list")

definition log_failed :: "run_log \<Rightarrow> bool" where
  "log_failed l \<longleftrightarrow> rl_stdErr l \<noteq> [] \<or> rl_category l = LogError"

fun hasError :: "bool \<Rightarrow> run_log \<Rightarrow> bool" where
  "hasError recursive (RunLog cat sec opt out err ex subs) \<longleftrightarrow>
     (recursive \<and> list_ex (\<lambda>l. hasError True l \<or> rl_exit l \<noteq> 0) subs) \<or> err \<noteq> [] \<or> cat = LogError"

text \<open>The first failed log and the sections that lead to it.\<close>

fun findErrorImpl :: "bool \<Rightarrow> string list \<Rightarrow> run_log \<Rightarrow> (run_log \<times> string list) option"
  and find_in_subs :: "string list \<Rightarrow> run_log list \<Rightarrow> (run_log \<times> string list) option" where
  "findErrorImpl recursive anc (RunLog cat sec opt out err ex subs) =
     (case (if recursive then find_in_subs (anc @ [sec]) subs else None) of
        Some found \<Rightarrow> Some found
      | None \<Rightarrow> if err \<noteq> [] \<or> cat = LogError then Some (RunLog cat sec opt out err ex subs, anc @ [sec]) else None)"
| "find_in_subs path [] = None"
| "find_in_subs path (l # ls) =
     (case findErrorImpl True path l of
        Some found \<Rightarrow> Some found
      | None \<Rightarrow> if rl_exit l \<noteq> 0 then Some (l, path @ [rl_section l]) else find_in_subs path ls)"

definition findError :: "bool \<Rightarrow> run_log \<Rightarrow> (run_log \<times> string list) option" where
  "findError recursive l = findErrorImpl recursive [] l"

definition push_log :: "run_log \<Rightarrow> run_log \<Rightarrow> run_log" where
  "push_log l sub = (case l of RunLog cat sec opt out err ex subs \<Rightarrow> RunLog cat sec opt out err ex (subs @ [sub]))"

subsection \<open>Running a program\<close>

datatype start = Started | NotFound | StartError string

datatype drain = Drained | TimedOut string | DrainError string

text \<open>\<open>ch_chunks\<close> are the pieces of output in the order they arrive, True for the error stream. \<open>ch_exit\<close>
  and \<open>ch_wait\<close> are what waiting (or stopping, after the deadline) returned.\<close>

record child =
  ch_start :: start
  ch_chunks :: "(bool \<times> string) list"
  ch_drain :: drain
  ch_exit :: int
  ch_wait :: "string option"

record exec_opt =
  eo_maxTime :: string
  eo_isRetarded :: bool
  eo_onChunk :: bool
  eo_keepStdout :: bool
  eo_text :: string

definition stream_text :: "bool \<Rightarrow> child \<Rightarrow> string" where
  "stream_text err c = concat (map snd (filter (\<lambda>x. fst x = err) (ch_chunks c)))"

definition kept_output :: "exec_opt \<Rightarrow> child \<Rightarrow> string" where
  "kept_output opt c = (if eo_onChunk opt \<and> \<not> eo_keepStdout opt then [] else stream_text False c)"

definition line_feed :: string where
  "line_feed = [CHR 0x0A]"

text \<open>What stands in \<open>stdErr\<close> before the verdict.\<close>

definition drain_text :: "child \<Rightarrow> string" where
  "drain_text c = (case ch_drain c of Drained \<Rightarrow> [] | TimedOut m \<Rightarrow> line_feed @ m @ line_feed | DrainError m \<Rightarrow> line_feed @ m @ line_feed)
     @ stream_text True c"

definition timed_out :: "child \<Rightarrow> bool" where
  "timed_out c \<longleftrightarrow> (case ch_drain c of TimedOut _ \<Rightarrow> True | _ \<Rightarrow> False)"

definition final_exit :: "child \<Rightarrow> int" where
  "final_exit c = (if timed_out c \<and> ch_exit c = 0 then 124 else ch_exit c)"

definition verdict :: "exec_opt \<Rightarrow> child \<Rightarrow> category \<times> string \<times> string" where
  "verdict opt c =
     (let out = kept_output opt c; err = drain_text c
      in if eo_isRetarded opt
         then (if ch_exit c = 0 then (LogInfo, out @ err, []) else (LogInfo, out, err))
         else (if err = [] then LogInfo else LogError, out, err))"

definition last_words :: "exec_opt \<Rightarrow> child \<Rightarrow> string" where
  "last_words opt c =
     (case ch_wait c of None \<Rightarrow> [] | Some m \<Rightarrow> line_feed @ ''wait: '' @ m @ line_feed)
     @ (if timed_out c then line_feed @ ''timed out after '' @ eo_maxTime opt @ '' s: stopped'' @ line_feed else [])
     @ (if final_exit c \<noteq> 0 then line_feed @ ''exit_code: '' @ show_int (final_exit c) @ line_feed else [])"

definition executeImpl :: "exec_opt \<Rightarrow> string \<Rightarrow> child \<Rightarrow> string + run_log" where
  "executeImpl opt section c =
     (let sec = ''execute: '' @ section
      in case ch_start c of
           NotFound \<Rightarrow> Inl (''Program >>>'' @ section @ ''<<< not found. Make sure it is available from the PATH.'')
         | StartError m \<Rightarrow> Inr (RunLog LogError sec (eo_text opt) [] m 0 [])
         | Started \<Rightarrow>
             (case verdict opt c of (cat, out, err) \<Rightarrow>
                Inr (RunLog (if final_exit c \<noteq> 0 then LogError else cat) sec (eo_text opt) out
                       (err @ last_words opt c) (final_exit c) [])))"

subsection \<open>Commands\<close>

record host =
  ho_root :: bool
  ho_run :: "string list \<Rightarrow> child"
  ho_content :: "string \<Rightarrow> string option"
  ho_exists :: "string \<Rightarrow> bool"
  ho_access :: "string \<Rightarrow> bool"
  ho_parent :: "string \<Rightarrow> string"
  ho_put :: "string \<Rightarrow> string \<Rightarrow> string option"
  ho_octal :: "string \<Rightarrow> nat option"
  ho_temp :: string

definition joinArgv :: "string list \<Rightarrow> string" where
  "joinArgv args = join_with '' '' args"

definition execute_shell :: "host \<Rightarrow> exec_opt \<Rightarrow> string \<Rightarrow> string + run_log" where
  "execute_shell h opt cmd = executeImpl opt cmd (ho_run h [''/bin/bash'', ''-c'', cmd])"

definition execute :: "host \<Rightarrow> exec_opt \<Rightarrow> string list \<Rightarrow> string + run_log" where
  "execute h opt args =
     (if args = [] then Inr (RunLog LogError ''execute: <empty argv>'' [] [] ''empty argv'' 1 [])
      else executeImpl opt (joinArgv args) (ho_run h args))"

definition sudo_shell :: "host \<Rightarrow> exec_opt \<Rightarrow> string \<Rightarrow> string + run_log" where
  "sudo_shell h opt cmd = execute_shell h opt (if ho_root h then cmd else ''sudo '' @ cmd)"

definition sudo_argv :: "host \<Rightarrow> string list \<Rightarrow> string list" where
  "sudo_argv h args = (if ho_root h then args else ''sudo'' # args)"

definition sudo :: "host \<Rightarrow> exec_opt \<Rightarrow> string list \<Rightarrow> string + run_log" where
  "sudo h opt args = execute h opt (sudo_argv h args)"

subsection \<open>Installing files\<close>

datatype deed = WriteFile string string | Chmod string nat | RemoveFile string | Run "string list"

definition destWritableByProcess :: "host \<Rightarrow> string \<Rightarrow> bool" where
  "destWritableByProcess h path =
     (if ho_exists h path then ho_access h path
      else ho_access h (if ho_parent h path = [] then ''.'' else ho_parent h path))"

definition contentAlreadyMatches :: "host \<Rightarrow> string \<Rightarrow> string \<Rightarrow> bool" where
  "contentAlreadyMatches h path content = (ho_content h path = Some content)"

definition splitOwner :: "string \<Rightarrow> string \<times> string" where
  "splitOwner chown = (let parts = split_on (CHR '':'') chown
     in (hd parts, if length parts > 1 then parts ! 1 else []))"

definition installArgv :: "string \<Rightarrow> string \<Rightarrow> string \<Rightarrow> string \<Rightarrow> string list" where
  "installArgv src dest chown chmod = (case splitOwner chown of (user, grp) \<Rightarrow>
     [''install'', ''-m'', chmod] @ (if user \<noteq> [] then [''-o'', user] else []) @ (if grp \<noteq> [] then [''-g'', grp] else [])
     @ [src, dest])"

definition applyChmod :: "host \<Rightarrow> string \<Rightarrow> string \<Rightarrow> deed list" where
  "applyChmod h path chmod = (case ho_octal h chmod of None \<Rightarrow> [] | Some mode \<Rightarrow> [Chmod path mode])"

definition no_trace :: exec_opt where
  "no_trace = \<lparr>eo_maxTime = ''999'', eo_isRetarded = False, eo_onChunk = False, eo_keepStdout = True, eo_text = []\<rparr>"

definition saveInto :: "host \<Rightarrow> string \<Rightarrow> string \<Rightarrow> string \<Rightarrow> string \<Rightarrow> (string + run_log) \<times> deed list" where
  "saveInto h path content chown chmod =
     (let report = (\<lambda>cat err ex subs. RunLog cat ''saveInto'' [] [] err ex subs); temp = ho_temp h;
          argv = installArgv temp path chown chmod
      in if contentAlreadyMatches h path content then (Inr (report LogInfo [] 0 []), [])
         else if destWritableByProcess h path then
           (case ho_put h path content of
              Some e \<Rightarrow> (Inr (report LogError (''cannot write '' @ path @ '': '' @ e) 1 []), [WriteFile path content])
            | None \<Rightarrow> (Inr (report LogInfo [] 0 []), WriteFile path content # applyChmod h path chmod))
         else
           (case ho_put h temp content of
              Some e \<Rightarrow> (Inr (report LogError (''cannot write temp file '' @ temp @ '' for '' @ path @ '': '' @ e) 1 []),
                          [WriteFile temp content, RemoveFile temp])
            | None \<Rightarrow>
                (case sudo h no_trace argv of
                   Inl e \<Rightarrow> (Inl e, [WriteFile temp content, Run (sudo_argv h argv)])
                 | Inr inst \<Rightarrow>
                     (Inr (if rl_exit inst \<noteq> 0 then report LogError (rl_stdErr inst) (rl_exit inst) [inst]
                           else report LogInfo [] 0 [inst]),
                      [WriteFile temp content, Run (sudo_argv h argv), RemoveFile temp]))))"

definition wrap_run :: "string \<Rightarrow> string + run_log \<Rightarrow> string + run_log" where
  "wrap_run section r = (case r of Inl e \<Rightarrow> Inl e | Inr l \<Rightarrow> Inr (RunLog LogInfo section [] [] [] 0 [l]))"

definition move_script :: string where
  "move_script = (let q = CHR 0x22; v = (\<lambda>d. [q, CHR ''$'', d, q])
     in ''mv -- '' @ v (CHR ''1'') @ '' '' @ v (CHR ''2'') @ '' && chown -- '' @ v (CHR ''3'') @ '' '' @ v (CHR ''2'')
        @ '' && chmod -- '' @ v (CHR ''4'') @ '' '' @ v (CHR ''2''))"

definition moveInto :: "host \<Rightarrow> string \<Rightarrow> string \<Rightarrow> string \<Rightarrow> string \<Rightarrow> string + run_log" where
  "moveInto h old neu chown chmod =
     wrap_run ''moveInto'' (sudo h no_trace [''sh'', ''-c'', move_script, ''diter-moveInto'', old, neu, chown, chmod])"

definition copyInto :: "host \<Rightarrow> string \<Rightarrow> string \<Rightarrow> string \<Rightarrow> string \<Rightarrow> string + run_log" where
  "copyInto h old neu chown chmod = wrap_run ''copyInto'' (sudo h no_trace (installArgv old neu chown chmod))"

datatype exists_error = NotStarted string | OddExit run_log

definition fileExists :: "host \<Rightarrow> exec_opt \<Rightarrow> string \<Rightarrow> exists_error + bool" where
  "fileExists h opt path = (case sudo h opt [''test'', ''-f'', path] of
     Inl e \<Rightarrow> Inl (NotStarted e)
   | Inr l \<Rightarrow> (if rl_exit l = 0 then Inr True else if rl_exit l = 1 then Inr False else Inl (OddExit l)))"

subsection \<open>The tree and its first error\<close>

text \<open>The logs of a tree from the leaves up, each with the sections that lead to it: the reference for \<open>findError\<close>.\<close>

fun leaves_first :: "string list \<Rightarrow> run_log \<Rightarrow> (run_log \<times> string list) list" where
  "leaves_first anc (RunLog cat sec opt out err ex subs) =
     concat (map (leaves_first (anc @ [sec])) subs) @ [(RunLog cat sec opt out err ex subs, anc @ [sec])]"

definition sub_failed :: "run_log \<times> string list \<Rightarrow> bool" where
  "sub_failed x \<longleftrightarrow> log_failed (fst x) \<or> rl_exit (fst x) \<noteq> 0"

lemma sub_failed_pair [simp]: "sub_failed (l, path) = (log_failed l \<or> rl_exit l \<noteq> 0)"
  by (simp add: sub_failed_def)

lemma log_failed_simp [simp]: "log_failed (RunLog cat sec opt out err ex subs) = (err \<noteq> [] \<or> cat = LogError)"
  by (simp add: log_failed_def)

lemma find_append: "find P (xs @ ys) = (case find P xs of None \<Rightarrow> find P ys | Some x \<Rightarrow> Some x)"
  by (induction xs) auto

text \<open>In a subtree the exit code counts too.\<close>

lemma find_in_subs_leaves:
  assumes "\<And>l. l \<in> set ls \<Longrightarrow>
    (case findErrorImpl True path l of Some x \<Rightarrow> Some x | None \<Rightarrow> if rl_exit l \<noteq> 0 then Some (l, path @ [rl_section l]) else None)
      = find sub_failed (leaves_first path l)"
  shows "find_in_subs path ls = find sub_failed (concat (map (leaves_first path) ls))"
  using assms
proof (induction ls)
  case (Cons l ls)
  have "find_in_subs path ls = find sub_failed (concat (map (leaves_first path) ls))" using Cons by simp
  then show ?case by (simp add: find_append Cons.prems [of l, symmetric] split: option.split)
qed simp

lemma find_below:
  "(case findErrorImpl True anc l of Some x \<Rightarrow> Some x | None \<Rightarrow> if rl_exit l \<noteq> 0 then Some (l, anc @ [rl_section l]) else None)
     = find sub_failed (leaves_first anc l)"
proof (induction anc l rule: leaves_first.induct)
  case (1 anc cat sec opt out err ex subs)
  have "find_in_subs (anc @ [sec]) subs = find sub_failed (concat (map (leaves_first (anc @ [sec])) subs))"
    by (rule find_in_subs_leaves) (rule 1)
  then show ?case by (auto simp: find_append split: option.split)
qed

lemma hasError_below: "(hasError True l \<or> rl_exit l \<noteq> 0) = (find sub_failed (leaves_first anc l) \<noteq> None)"
proof (induction anc l rule: leaves_first.induct)
  case (1 anc cat sec opt out err ex subs)
  have "list_ex (\<lambda>l. hasError True l \<or> rl_exit l \<noteq> 0) ls = (find sub_failed (concat (map (leaves_first (anc @ [sec])) ls)) \<noteq> None)"
    if "set ls \<subseteq> set subs" for ls
    using that by (induction ls) (simp_all add: 1 find_append split: option.split)
  from this [of subs] show ?case by (auto simp: find_append split: option.split)
qed

text \<open>C37. The search for an error and the test for one agree, and the error found is the first from the leaves up, with the
  sections on the way to it: below the root a log counts as failed when it says so, wrote to \<open>stdErr\<close> or left an exit code;
  of the root the exit code does not count.\<close>

theorem findError_first:
  "findError True (RunLog cat sec opt out err ex subs) =
     (case find sub_failed (concat (map (leaves_first [sec]) subs)) of
        Some found \<Rightarrow> Some found
      | None \<Rightarrow> if log_failed (RunLog cat sec opt out err ex subs) then Some (RunLog cat sec opt out err ex subs, [sec]) else None) \<and>
   (findError recursive l \<noteq> None) = hasError recursive l"
proof
  have subs: "find_in_subs path ls = find sub_failed (concat (map (leaves_first path) ls))" for path ls
    by (rule find_in_subs_leaves) (rule find_below)
  then show "findError True (RunLog cat sec opt out err ex subs) =
     (case find sub_failed (concat (map (leaves_first [sec]) subs)) of
        Some found \<Rightarrow> Some found
      | None \<Rightarrow> if log_failed (RunLog cat sec opt out err ex subs) then Some (RunLog cat sec opt out err ex subs, [sec]) else None)"
    by (auto simp: findError_def split: option.split)
  have ex: "list_ex (\<lambda>l. hasError True l \<or> rl_exit l \<noteq> 0) ls = (find_in_subs path ls \<noteq> None)" for path ls
    unfolding subs by (induction ls) (simp_all add: hasError_below [of _ path] find_append split: option.split)
  show "(findError recursive l \<noteq> None) = hasError recursive l"
    by (cases l; cases recursive) (auto simp: findError_def ex [of _ "[rl_section l]"] split: option.split)
qed

subsection \<open>What a log says of a run\<close>

lemma line_feed_nonempty [simp]: "line_feed \<noteq> []"
  by (simp add: line_feed_def)

text \<open>The log of a program that was started tells how it ended: its exit code is zero exactly when the program exited
  with zero before its deadline, and it is filed as an error exactly when the exit code is not zero or, for a program that is not
  known to misuse the error stream, when something was written there or reading its output failed. A deadline is a failure
  even when the stopped program exited with zero.\<close>

theorem execute_verdict:
  "case executeImpl opt section (c\<lparr>ch_start := Started\<rparr>) of
     Inl _ \<Rightarrow> False
   | Inr l \<Rightarrow> (rl_exit l = 0) = (ch_exit c = 0 \<and> \<not> timed_out c) \<and>
       (rl_category l = LogError) = (ch_exit c \<noteq> 0 \<or> timed_out c \<or> \<not> eo_isRetarded opt \<and> drain_text c \<noteq> []) \<and>
       hasError recursive l = (rl_stdErr l \<noteq> [] \<or> rl_category l = LogError) \<and> (rl_exit l = 0 \<or> rl_stdErr l \<noteq> [])"
proof -
  have same: "timed_out (c\<lparr>ch_start := Started\<rparr>) = timed_out c" "drain_text (c\<lparr>ch_start := Started\<rparr>) = drain_text c"
    by (simp_all add: timed_out_def drain_text_def stream_text_def)
  show ?thesis
    by (auto simp: executeImpl_def verdict_def last_words_def final_exit_def same Let_def split: prod.split)
qed

text \<open>What the text streams hold: nothing is lost unless the caller streams and said so.\<close>

lemma log_failed_hasError: "log_failed l \<Longrightarrow> hasError recursive l"
  by (cases l) (auto simp: log_failed_def)

text \<open>C38. \<open>saveInto\<close> reports success exactly when the file already had the content, or was written, or the temporary file was
  written and the log of the installing program has exit code zero; its error test is that exit code. Whenever it returns, a
  temporary file it wrote was removed.\<close>

theorem saveInto_verdict:
  assumes "saveInto h path content chown chmod = (Inr l, deeds)"
  shows "(rl_exit l = 0) = (contentAlreadyMatches h path content \<or>
      (if destWritableByProcess h path then ho_put h path content = None
       else ho_put h (ho_temp h) content = None \<and>
         (\<exists>inst. sudo h no_trace (installArgv (ho_temp h) path chown chmod) = Inr inst \<and> rl_exit inst = 0))) \<and>
    hasError False l = (rl_exit l \<noteq> 0) \<and>
    (WriteFile (ho_temp h) content \<in> set deeds \<longrightarrow> path = ho_temp h \<or> RemoveFile (ho_temp h) \<in> set deeds)"
  using assms
  by (auto simp: saveInto_def applyChmod_def Let_def split: if_splits option.splits sum.splits)

text \<open>A host where every program runs and exits with \<open>code\<close>, or does not start.\<close>

definition sample_host :: "start \<Rightarrow> int \<Rightarrow> host" where
  "sample_host st code = \<lparr>ho_root = False,
     ho_run = (\<lambda>argv. \<lparr>ch_start = st, ch_chunks = [], ch_drain = Drained, ch_exit = code, ch_wait = None\<rparr>),
     ho_content = (\<lambda>p. None), ho_exists = (\<lambda>p. False), ho_access = (\<lambda>p. False), ho_parent = (\<lambda>p. ''/etc''),
     ho_put = (\<lambda>p t. None), ho_octal = (\<lambda>m. Some 420), ho_temp = ''/tmp/x''\<rparr>"

lemmas sample_runs = saveInto_def moveInto_def copyInto_def fileExists_def wrap_run_def sudo_def sudo_argv_def execute_def
  executeImpl_def verdict_def last_words_def final_exit_def timed_out_def drain_text_def kept_output_def stream_text_def
  installArgv_def splitOwner_def contentAlreadyMatches_def destWritableByProcess_def no_trace_def sample_host_def

lemma saveInto_verdict_witness:
  "\<exists>l deeds. saveInto (sample_host Started 1) ''/etc/a'' ''x'' ''root:root'' ''644'' = (Inr l, deeds) \<and>
     hasError False l = (rl_exit l \<noteq> 0) \<and> rl_exit l = 1 \<and> RemoveFile ''/tmp/x'' \<in> set deeds"
proof -
  let ?h = "sample_host Started 1"
  obtain l deeds where s: "saveInto ?h ''/etc/a'' ''x'' ''root:root'' ''644'' = (Inr l, deeds)" "rl_exit l = 1"
      "WriteFile ''/tmp/x'' ''x'' \<in> set deeds"
    by (simp add: sample_runs Let_def)
  have "ho_temp ?h = ''/tmp/x''" by (simp add: sample_host_def)
  with saveInto_verdict [OF s(1)] s show ?thesis by auto
qed

text \<open>A program that could not be started for another reason than a missing file has a log with exit code zero: then
  \<open>saveInto\<close> reports that the file was saved and \<open>fileExists\<close> that it exists.\<close>

theorem start_error_counts_as_success:
  "(\<exists>l deeds. saveInto (sample_host (StartError ''Cannot allocate memory'') 0) ''/etc/a'' ''x'' ''root:root'' ''644'' = (Inr l, deeds) \<and>
      \<not> hasError False l) \<and>
   fileExists (sample_host (StartError ''Cannot allocate memory'') 0) no_trace ''/etc/missing'' = Inr True"
  by (simp add: sample_runs Let_def)

text \<open>When \<^verbatim>\<open>sudo\<close> is not installed the exception leaves the temporary file behind, with its content.\<close>

theorem missing_sudo_leaves_temp:
  "saveInto (sample_host NotFound 0) ''/etc/a'' ''x'' ''root:root'' ''644'' = (Inl e, deeds) \<Longrightarrow>
     WriteFile ''/tmp/x'' ''x'' \<in> set deeds \<and> RemoveFile ''/tmp/x'' \<notin> set deeds"
  by (auto simp: sample_runs Let_def)

text \<open>\<open>moveInto\<close> and \<open>copyInto\<close> file their own log as good whatever the program did: only the recursive test sees it.\<close>

theorem move_and_copy_hide_failure:
  "moveInto h old neu chown chmod = Inr l \<or> copyInto h old neu chown chmod = Inr l \<Longrightarrow>
     \<not> hasError False l \<and> rl_exit l = 0 \<and> hasError True l = list_ex (\<lambda>s. hasError True s \<or> rl_exit s \<noteq> 0) (rl_subs l)"
  by (auto simp: moveInto_def copyInto_def wrap_run_def split: sum.splits)

text \<open>A program marked as misusing the error stream that exits with zero after reading its output failed: the output is
  cut short, and the log is good.\<close>

theorem cut_output_counts_as_success:
  "\<exists>l. executeImpl (no_trace\<lparr>eo_isRetarded := True\<rparr>) ''ls''
      \<lparr>ch_start = Started, ch_chunks = [(False, ''half'')], ch_drain = DrainError ''broken pipe'', ch_exit = 0, ch_wait = None\<rparr> = Inr l \<and>
     \<not> hasError True l"
  by (simp add: sample_runs Let_def)

end
