(* ===== verification/MailFetcher.thy ===== *)
theory MailFetcher
  imports Prelude
begin

text \<open>
  The mail fetcher of \<^verbatim>\<open>minCurl/mailfetcher.*\<close>. The mail server, behind libcurl, is the record \<open>imap\<close> of
  functions over its state \<open>'w\<close>: each gives whether curl succeeded, the body it received and the new state. The
  conversion \<^verbatim>\<open>QByteArray::toInt\<close> is an argument. The execution log and the options of the handle are left out.
\<close>

record 'w imap =
  im_search :: "string \<Rightarrow> 'w \<Rightarrow> (bool \<times> string) \<times> 'w"
  im_fetch :: "int \<Rightarrow> 'w \<Rightarrow> (bool \<times> string) \<times> 'w"
  im_copy :: "int \<Rightarrow> string \<Rightarrow> 'w \<Rightarrow> (bool \<times> string) \<times> 'w"
  im_store_deleted :: "int \<Rightarrow> 'w \<Rightarrow> (bool \<times> string) \<times> 'w"
  im_expunge :: "int \<Rightarrow> 'w \<Rightarrow> (bool \<times> string) \<times> 'w"

record mail_config =
  mf_searchQuery :: string
  mf_move :: bool
  mf_processed :: string

record fetched_mail =
  fm_id :: int
  fm_content :: string
  fm_ok :: bool

definition mail_space :: "char \<Rightarrow> bool" where
  "mail_space c \<longleftrightarrow> c \<in> {CHR '' '', CHR 0x09, CHR 0x0A, CHR 0x0B, CHR 0x0C, CHR 0x0D}"

text \<open>\<open>QByteArray::replace\<close> with nothing: every occurrence, from the left.\<close>

fun erase_sub :: "nat \<Rightarrow> string \<Rightarrow> string \<Rightarrow> string" where
  "erase_sub 0 p s = s"
| "erase_sub (Suc n) p s = (case find_sub p s of
     None \<Rightarrow> s | Some i \<Rightarrow> take i s @ erase_sub n p (drop (i + length p) s))"

definition getMailIds :: "(string \<Rightarrow> int) \<Rightarrow> 'w imap \<Rightarrow> mail_config \<Rightarrow> 'w \<Rightarrow> int list \<times> 'w" where
  "getMailIds toInt L c w = (case im_search L (mf_searchQuery c) w of ((ok, body), w') \<Rightarrow>
     if \<not> ok then ([], w')
     else (let r = trim_by mail_space (erase_sub (length body) ''* SEARCH'' body)
           in if r = [] then ([], w') else (map toInt (split_on (CHR '' '') r), w')))"

definition getRawMail :: "'w imap \<Rightarrow> int \<Rightarrow> 'w \<Rightarrow> string \<times> 'w" where
  "getRawMail L i w = (case im_fetch L i w of ((ok, body), w') \<Rightarrow> (if ok then body else [], w'))"

definition copyMailOnServer :: "'w imap \<Rightarrow> mail_config \<Rightarrow> int \<Rightarrow> 'w \<Rightarrow> bool \<times> 'w" where
  "copyMailOnServer L c i w = (case im_copy L i (mf_processed c) w of ((ok, body), w') \<Rightarrow> (ok \<and> body = [], w'))"

text \<open>The expunge is sent whether or not the flag was set.\<close>

definition deleteMailOnServer :: "'w imap \<Rightarrow> int \<Rightarrow> 'w \<Rightarrow> bool \<times> 'w" where
  "deleteMailOnServer L i w = (case im_store_deleted L i w of ((ok, _), w1) \<Rightarrow>
     (case im_expunge L i w1 of ((ok2, body2), w2) \<Rightarrow> (ok \<and> ok2 \<and> body2 = [], w2)))"

definition moveMailOnServer :: "'w imap \<Rightarrow> mail_config \<Rightarrow> int \<Rightarrow> 'w \<Rightarrow> bool \<times> 'w" where
  "moveMailOnServer L c i w =
     (if \<not> mf_move c then (True, w)
      else (case copyMailOnServer L c i w of
          (False, w') \<Rightarrow> (False, w')
        | (True, w') \<Rightarrow> deleteMailOnServer L i w'))"

fun fetch_each :: "'w imap \<Rightarrow> mail_config \<Rightarrow> int list \<Rightarrow> 'w \<Rightarrow> fetched_mail list \<times> 'w" where
  "fetch_each L c [] w = ([], w)"
| "fetch_each L c (i # ids) w = (case getRawMail L i w of (mail, w1) \<Rightarrow>
     if mail = [] then fetch_each L c ids w1
     else (case moveMailOnServer L c i w1 of (_, w2) \<Rightarrow>
            case fetch_each L c ids w2 of (mails, w3) \<Rightarrow> (\<lparr>fm_id = i, fm_content = mail, fm_ok = True\<rparr> # mails, w3)))"

definition fetch_mails :: "(string \<Rightarrow> int) \<Rightarrow> 'w imap \<Rightarrow> mail_config \<Rightarrow> 'w \<Rightarrow> fetched_mail list \<times> 'w" where
  "fetch_mails toInt L c w = (case getMailIds toInt L c w of (ids, w') \<Rightarrow> fetch_each L c ids w')"

subsection \<open>A mailbox\<close>

text \<open>What RFC 3501 says of a mailbox: mails are addressed by their position; a copy leaves them where they are, and
  either appends the mail to the other folder or, refused for whatever reason, leaves that as it was; the
  flag marks one; expunging removes the marked ones, and the positions of those behind move up. \<open>box\<close> and \<open>done\<close> read the
  mails of the folder, with their flags, and those of the folder for processed mails from the server's state.\<close>

definition mailbox :: "'w imap \<Rightarrow> mail_config \<Rightarrow> ('w \<Rightarrow> (string \<times> bool) list) \<Rightarrow> ('w \<Rightarrow> string list) \<Rightarrow> bool" where
  "mailbox L c box done \<longleftrightarrow>
     (\<forall>i w. 1 \<le> i \<and> i \<le> int (length (box w)) \<longrightarrow>
        (\<exists>w'. im_fetch L i w = ((True, fst (box w ! (nat i - 1))), w') \<and> box w' = box w \<and> done w' = done w) \<and>
        (\<exists>ok body w'. im_copy L i (mf_processed c) w = ((ok, body), w') \<and> box w' = box w \<and>
           done w' = (if ok \<and> body = [] then done w @ [fst (box w ! (nat i - 1))] else done w)) \<and>
        (\<exists>r w'. im_store_deleted L i w = (r, w') \<and> done w' = done w \<and>
           box w' = (box w)[nat i - 1 := (fst (box w ! (nat i - 1)), True)])) \<and>
     (\<forall>i w. \<exists>r w'. im_expunge L i w = (r, w') \<and> box w' = filter (\<lambda>m. \<not> snd m) (box w) \<and> done w' = done w)"

text \<open>No mail is flagged, none is empty.\<close>

definition clean :: "(string \<times> bool) list \<Rightarrow> bool" where
  "clean ms \<longleftrightarrow> (\<forall>m\<in>set ms. \<not> snd m \<and> fst m \<noteq> [])"

lemma filter_marked: "clean ms \<Longrightarrow> k < length ms \<Longrightarrow>
    filter (\<lambda>m. \<not> snd m) (ms[k := (x, True)]) = take k ms @ drop (Suc k) ms"
proof -
  assume c: "clean ms" and k: "k < length ms"
  have "filter (\<lambda>m. \<not> snd m) (take k ms) = take k ms" "filter (\<lambda>m. \<not> snd m) (drop (Suc k) ms) = drop (Suc k) ms"
    using c by (auto simp: clean_def filter_id_conv dest: in_set_takeD in_set_dropD)
  with k show ?thesis by (simp add: upd_conv_take_nth_drop)
qed

lemma clean_without: "clean ms \<Longrightarrow> clean (take k ms @ drop (Suc k) ms)"
  by (auto simp: clean_def dest: in_set_takeD in_set_dropD)

lemma mailboxD:
  assumes "mailbox L c box done"
  shows "1 \<le> i \<Longrightarrow> i \<le> int (length (box w)) \<Longrightarrow>
      \<exists>w'. im_fetch L i w = ((True, fst (box w ! (nat i - 1))), w') \<and> box w' = box w \<and> done w' = done w"
    and "1 \<le> i \<Longrightarrow> i \<le> int (length (box w)) \<Longrightarrow>
      \<exists>ok body w'. im_copy L i (mf_processed c) w = ((ok, body), w') \<and> box w' = box w \<and>
        done w' = (if ok \<and> body = [] then done w @ [fst (box w ! (nat i - 1))] else done w)"
    and "1 \<le> i \<Longrightarrow> i \<le> int (length (box w)) \<Longrightarrow>
      \<exists>r w'. im_store_deleted L i w = (r, w') \<and> done w' = done w \<and>
        box w' = (box w)[nat i - 1 := (fst (box w ! (nat i - 1)), True)]"
    and "\<exists>r w'. im_expunge L i w = (r, w') \<and> box w' = filter (\<lambda>m. \<not> snd m) (box w) \<and> done w' = done w"
  using assms unfolding mailbox_def by blast+

text \<open>A mail that was copied leaves the folder; one that was not stays.\<close>

lemma move_mail:
  assumes "mailbox L c box done" "mf_move c" "1 \<le> i" "i \<le> int (length (box w))" "clean (box w)"
  shows "\<exists>ok w'. moveMailOnServer L c i w = (ok, w') \<and>
    (done w' = done w @ [fst (box w ! (nat i - 1))] \<and> box w' = take (nat i - 1) (box w) @ drop (nat i) (box w) \<or>
     done w' = done w \<and> box w' = box w)"
proof -
  let ?k = "nat i - 1"
  obtain ok body w1 where 1: "im_copy L i (mf_processed c) w = ((ok, body), w1)" "box w1 = box w"
      "done w1 = (if ok \<and> body = [] then done w @ [fst (box w ! ?k)] else done w)"
    using mailboxD(2) [OF assms(1,3,4)] by blast
  show ?thesis
  proof (cases "ok \<and> body = []")
    case False
    then show ?thesis using assms(2) 1 by (auto simp: moveMailOnServer_def copyMailOnServer_def)
  next
    case True
    obtain r w2 where 2: "im_store_deleted L i w1 = (r, w2)" "box w2 = (box w)[?k := (fst (box w ! ?k), True)]"
        "done w2 = done w1"
      using mailboxD(3) [OF assms(1,3), of w1] assms(4) 1(2) by auto
    obtain r' w3 where 3: "im_expunge L i w2 = (r', w3)" "box w3 = filter (\<lambda>m. \<not> snd m) (box w2)" "done w3 = done w2"
      using mailboxD(4) [OF assms(1)] by blast
    have "box w3 = take ?k (box w) @ drop (Suc ?k) (box w)"
      unfolding 3(2) 2(2) by (rule filter_marked) (use assms in auto)
    moreover have "Suc ?k = nat i" using assms(3) by simp
    ultimately show ?thesis
      using assms(2) True 1 2 3
      by (cases r; cases r') (auto simp: moveMailOnServer_def copyMailOnServer_def deleteMailOnServer_def)
  qed
qed


lemma nths_without:
  assumes "k < length ms" "\<forall>j\<in>S. j < k"
  shows "nths (take k ms @ drop (Suc k) ms) (- S) = nths ms (- insert k S)"
proof -
  have ms: "ms = take k ms @ ms ! k # drop (Suc k) ms" using assms(1) by (simp add: id_take_nth_drop)
  have len: "length (take k ms) = k" using assms(1) by simp
  have 1: "nths (take k ms) (- S) = nths (take k ms) (- insert k S)"
    unfolding nths_def by (rule arg_cong [where f = "map fst"]) (rule filter_cong, auto dest!: set_zip_rightD)
  have 2: "nths (drop (Suc k) ms) {j. j + k \<in> - S} = drop (Suc k) ms"
    using assms(2) by (intro nths_all) auto
  have 3: "nths (ms ! k # drop (Suc k) ms) {j. j + k \<in> - insert k S} = drop (Suc k) ms"
    using assms(2) by (auto simp: nths_Cons intro!: nths_all)
  have "nths ms (- insert k S) = nths (take k ms @ ms ! k # drop (Suc k) ms) (- insert k S)"
    by (rule arg_cong [OF ms])
  also have "\<dots> = nths (take k ms) (- insert k S) @ drop (Suc k) ms"
    by (simp only: nths_append len 3)
  finally show ?thesis by (simp only: nths_append len 2 1)
qed

text \<open>Fetched from the last position down, every mail is the one its position named at the start.\<close>

lemma fetch_down:
  assumes box: "mailbox L c box done" and mv: "mf_move c"
  shows "clean (box w) \<Longrightarrow> sorted_wrt (>) ids \<Longrightarrow> \<forall>i\<in>set ids. 1 \<le> i \<and> i \<le> int (length (box w)) \<Longrightarrow>
    \<exists>mails w' T. fetch_each L c ids w = (mails, w') \<and>
      map (\<lambda>m. (fm_id m, fm_content m)) mails = map (\<lambda>i. (i, fst (box w ! (nat i - 1)))) ids \<and>
      T \<subseteq> set ids \<and> done w' = done w @ map (\<lambda>i. fst (box w ! (nat i - 1))) (filter (\<lambda>i. i \<in> T) ids) \<and>
      box w' = nths (box w) (- ((\<lambda>i. nat i - 1) ` T))"
proof (induction ids arbitrary: w)
  case Nil
  then show ?case by (simp add: nths_all)
next
  case (Cons i ids)
  let ?k = "nat i - 1" and ?at = "\<lambda>w j. fst (box w ! (nat j - 1))"
  have i: "1 \<le> i" "i \<le> int (length (box w))" "?k < length (box w)" "Suc ?k = nat i" using Cons.prems(3) by auto
  obtain w1 where 1: "im_fetch L i w = ((True, ?at w i), w1)" "box w1 = box w" "done w1 = done w"
    using mailboxD(1) [OF box i(1,2)] by blast
  have full: "?at w i \<noteq> []" using Cons.prems(1) i(3) by (simp add: clean_def)
  have "\<exists>ok w2. moveMailOnServer L c i w1 = (ok, w2) \<and>
      (done w2 = done w @ [?at w i] \<and> box w2 = take ?k (box w) @ drop (Suc ?k) (box w) \<or>
       done w2 = done w \<and> box w2 = box w)"
    using move_mail [OF box mv i(1), of w1] i(2) Cons.prems(1) unfolding 1(2,3) i(4) by blast
  then obtain ok w2 where 2: "moveMailOnServer L c i w1 = (ok, w2)"
    and moved: "done w2 = done w @ [?at w i] \<and> box w2 = take ?k (box w) @ drop (Suc ?k) (box w) \<or>
      done w2 = done w \<and> box w2 = box w" by blast
  have low: "\<forall>j\<in>set ids. 1 \<le> j \<and> j < i" using Cons.prems by auto
  have "clean (box w2)" using moved clean_without [OF Cons.prems(1)] Cons.prems(1) by auto
  moreover have "\<forall>j\<in>set ids. 1 \<le> j \<and> j \<le> int (length (box w2))" using moved low i by fastforce
  ultimately obtain mails w3 T where 3: "fetch_each L c ids w2 = (mails, w3)"
      "map (\<lambda>m. (fm_id m, fm_content m)) mails = map (\<lambda>j. (j, ?at w2 j)) ids"
      "T \<subseteq> set ids" "done w3 = done w2 @ map (?at w2) (filter (\<lambda>j. j \<in> T) ids)"
      "box w3 = nths (box w2) (- ((\<lambda>j. nat j - 1) ` T))"
    using Cons.IH [of w2] Cons.prems(2) by auto
  have same: "?at w2 j = ?at w j" if "j \<in> set ids" for j
    using moved low that i by (auto simp: nth_append)
  have r: "fetch_each L c (i # ids) w = (\<lparr>fm_id = i, fm_content = ?at w i, fm_ok = True\<rparr> # mails, w3)"
    using 1 2 3(1) full by (simp add: getRawMail_def)
  have m: "map (\<lambda>m. (fm_id m, fm_content m)) (\<lparr>fm_id = i, fm_content = ?at w i, fm_ok = True\<rparr> # mails) =
      map (\<lambda>j. (j, ?at w j)) (i # ids)" using 3(2) same by simp
  have d: "done w3 = done w2 @ map (?at w) (filter (\<lambda>j. j \<in> T) ids)" using 3(4) same by simp
  have new: "i \<notin> T" "i \<notin> set ids" using low 3(3) by auto
  from moved show ?case
  proof
    assume c: "done w2 = done w @ [?at w i] \<and> box w2 = take ?k (box w) @ drop (Suc ?k) (box w)"
    have "filter (\<lambda>j. j \<in> insert i T) ids = filter (\<lambda>j. j \<in> T) ids" using new(2) by (auto intro: filter_cong)
    then have "done w3 = done w @ map (?at w) (filter (\<lambda>j. j \<in> insert i T) (i # ids))" using d c by simp
    moreover have "box w3 = nths (box w) (- insert ?k ((\<lambda>j. nat j - 1) ` T))"
      unfolding 3(5) conjunct2 [OF c] by (rule nths_without) (use low 3(3) i in fastforce)+
    moreover have "insert i T \<subseteq> set (i # ids)" using 3(3) by auto
    ultimately show ?thesis using r m by (intro exI [of _ w3] exI [of _ "insert i T"] exI conjI) (assumption | simp)+
  next
    assume c: "done w2 = done w \<and> box w2 = box w"
    have "done w3 = done w @ map (?at w) (filter (\<lambda>j. j \<in> T) (i # ids))" using d c new(1) by simp
    moreover have "T \<subseteq> set (i # ids)" using 3(3) by auto
    ultimately show ?thesis using r m 3(5) c by (intro exI [of _ w3] exI [of _ T] exI conjI) (assumption | simp)+
  qed
qed


text \<open>C39. On a mailbox as RFC 3501 describes it, whose server delivers, flags and expunges the mails as it is told but
  may refuse to copy any of them, with moving on, no mail in the folder empty or flagged as deleted beforehand, and a search that
  lists positions from the last down: the mails returned are exactly those the search found, each under its
  position with its text; those whose copy arrived in the folder for processed mails are gone from the
  searched folder, and every other mail, found or not, is still there, in order.\<close>

theorem fetch_moves_the_found:
  assumes "mailbox L c box done" "mf_move c" "getMailIds toInt L c w0 = (ids, w)" "clean (box w)" "sorted_wrt (>) ids"
    and "\<forall>i\<in>set ids. 1 \<le> i \<and> i \<le> int (length (box w))"
  shows "\<exists>mails w' T. fetch_mails toInt L c w0 = (mails, w') \<and>
    map (\<lambda>m. (fm_id m, fm_content m)) mails = map (\<lambda>i. (i, fst (box w ! (nat i - 1)))) ids \<and>
    T \<subseteq> set ids \<and> done w' = done w @ map (\<lambda>i. fst (box w ! (nat i - 1))) (filter (\<lambda>i. i \<in> T) ids) \<and>
    box w' = nths (box w) (- ((\<lambda>i. nat i - 1) ` T))"
  using fetch_down [OF assms(1,2,4,5,6)] assms(3) by (simp add: fetch_mails_def)

text \<open>A server over the two folders, which answers every search with \<open>answer\<close> and does not copy the mails of \<open>refused\<close>.\<close>

type_synonym sample_folders = "(string \<times> bool) list \<times> string list"

definition sample_imap :: "string \<Rightarrow> string list \<Rightarrow> sample_folders imap" where
  "sample_imap answer refused = \<lparr>im_search = (\<lambda>q w. ((True, answer), w)),
     im_fetch = (\<lambda>i w. (if 1 \<le> i \<and> i \<le> int (length (fst w)) then (True, fst (fst w ! (nat i - 1))) else (False, []), w)),
     im_copy = (\<lambda>i f w. let m = fst (fst w ! (nat i - 1)) in
        if m \<in> set refused then ((False, ''NO''), w) else ((True, []), (fst w, snd w @ [m]))),
     im_store_deleted = (\<lambda>i w. ((True, []), ((fst w)[nat i - 1 := (fst (fst w ! (nat i - 1)), True)], snd w))),
     im_expunge = (\<lambda>i w. ((True, []), (filter (\<lambda>m. \<not> snd m) (fst w), snd w)))\<rparr>"

definition sample_toInt :: "string \<Rightarrow> int" where
  "sample_toInt s = int (read_nat s)"

definition sample_mail_config :: mail_config where
  "sample_mail_config = \<lparr>mf_searchQuery = ''SEARCH ALL'', mf_move = True, mf_processed = ''done''\<rparr>"

definition three_mails :: sample_folders where
  "three_mails = ([(''a'', False), (''b'', False), (''c'', False)], [])"

lemma sample_mailbox: "mailbox (sample_imap answer refused) c fst snd"
  by (auto simp: mailbox_def sample_imap_def Let_def)

lemma sample_ids:
  "getMailIds sample_toInt (sample_imap ''* SEARCH 3 1'' refused) sample_mail_config w = ([3, 1], w)"
  "getMailIds sample_toInt (sample_imap ''* SEARCH 1 2 3'' refused) sample_mail_config w = ([1, 2, 3], w)"
proof -
  have search: "getMailIds sample_toInt (sample_imap t refused) sample_mail_config w =
      (fst (getMailIds sample_toInt (sample_imap t []) sample_mail_config ([], [])), w)" for t
    by (simp add: getMailIds_def sample_imap_def Let_def)
  have "fst (getMailIds sample_toInt (sample_imap ''* SEARCH 3 1'' []) sample_mail_config ([], [])) = [3, 1]"
    "fst (getMailIds sample_toInt (sample_imap ''* SEARCH 1 2 3'' []) sample_mail_config ([], [])) = [1, 2, 3]"
    by code_simp+
  then show "getMailIds sample_toInt (sample_imap ''* SEARCH 3 1'' refused) sample_mail_config w = ([3, 1], w)"
    "getMailIds sample_toInt (sample_imap ''* SEARCH 1 2 3'' refused) sample_mail_config w = ([1, 2, 3], w)"
    using search by simp_all
qed

text \<open>The first mail cannot be copied: it is returned like the third, and stays.\<close>

lemma fetch_moves_the_found_witness:
  "\<exists>mails w' T. fetch_mails sample_toInt (sample_imap ''* SEARCH 3 1'' [''a'']) sample_mail_config three_mails = (mails, w') \<and>
     map (\<lambda>m. (fm_id m, fm_content m)) mails = [(3, ''c''), (1, ''a'')] \<and>
     snd w' = map (\<lambda>i. fst (fst three_mails ! (nat i - 1))) (filter (\<lambda>i. i \<in> T) [3, 1]) \<and>
     fst w' = nths (fst three_mails) (- ((\<lambda>i. nat i - 1) ` T))"
  using fetch_moves_the_found [OF sample_mailbox _ sample_ids(1) [of "[''a'']" three_mails]]
  by (auto simp: sample_mail_config_def clean_def three_mails_def)

text \<open>Servers list positions from the first up. Then each expunge shifts the mails behind it, the next position names
  another mail, and mails are skipped: of three mails found, the second is neither returned nor moved.\<close>

theorem ascending_search_skips_mails:
  "fetch_mails sample_toInt (sample_imap ''* SEARCH 1 2 3'' []) sample_mail_config three_mails =
     ([\<lparr>fm_id = 1, fm_content = ''a'', fm_ok = True\<rparr>, \<lparr>fm_id = 2, fm_content = ''c'', fm_ok = True\<rparr>],
      ([(''b'', False)], [''a'', ''c'']))"
  unfolding fetch_mails_def sample_ids
  by (simp add: getRawMail_def moveMailOnServer_def copyMailOnServer_def deleteMailOnServer_def sample_imap_def
      sample_mail_config_def three_mails_def Let_def)

end
