(* ===== verification/LocaleV2.thy ===== *)
theory LocaleV2
  imports Prelude
begin

text \<open>
  The locales of \<^verbatim>\<open>locale/localev2.*\<close>: reading an \<^verbatim>\<open>Accept-Language\<close> text, printing, and the default
  language. Qt's case conversions and the lookup of an address's country are arguments; None for the lookup is a build without it.
  The address is passed by pointer: None is the null pointer, which the code reads. The two tables read from the
  database are left out.
\<close>

record locale_v2 =
  lo_nation :: string
  lo_language :: string

datatype locale_error = Undecodable string | NoGeoDatabase | BadStyle string | NullAddress

definition make_locale :: "(string \<Rightarrow> string) \<Rightarrow> (string \<Rightarrow> string) \<Rightarrow> string \<Rightarrow> string \<Rightarrow> locale_v2" where
  "make_locale upper lower nation lang = \<lparr>lo_nation = upper nation, lo_language = lower lang\<rparr>"

definition setLanguage :: "string \<Rightarrow> locale_v2 \<Rightarrow> locale_v2" where
  "setLanguage l x = x\<lparr>lo_language := (if l = ''all'' then ''en'' else l)\<rparr>"

definition locale_isNull :: "locale_v2 \<Rightarrow> bool" where
  "locale_isNull x \<longleftrightarrow> lo_nation x = [] \<and> lo_language x = []"

definition getString :: "(string \<Rightarrow> string) \<Rightarrow> string \<Rightarrow> locale_v2 \<Rightarrow> locale_error + string" where
  "getString lower style x =
     (if style = ''xx-XX'' then Inr (lo_language x @ ''-'' @ lo_nation x)
      else if style = ''xx_XX'' then Inr (lo_language x @ ''_'' @ lo_nation x)
      else if style = ''xx-xx'' then Inr (lo_language x @ ''-'' @ lower (lo_nation x))
      else if style = ''xx_xx'' then Inr (lo_language x @ ''_'' @ lower (lo_nation x))
      else Inl (BadStyle style))"

definition splitM1 :: "string \<Rightarrow> string list" where
  "splitM1 s =
     (if CHR ''-'' \<in> set s then split_on (CHR ''-'') s
      else if CHR ''_'' \<in> set s then split_on (CHR ''_'') s else [])"

definition from2letter ::
    "(string \<Rightarrow> string) \<Rightarrow> (string \<Rightarrow> string) \<Rightarrow> (string \<Rightarrow> string) option \<Rightarrow> string \<Rightarrow> string option \<Rightarrow> locale_error + locale_v2" where
  "from2letter upper lower geo loc ip = (case ip of
     None \<Rightarrow> Inl NullAddress
   | Some address \<Rightarrow>
       if address = [] then Inl (Undecodable loc)
       else (case geo of
           None \<Rightarrow> Inl NoGeoDatabase
         | Some country \<Rightarrow> Inr \<lparr>lo_nation = upper (country address), lo_language = lower loc\<rparr>))"

text \<open>The part before the first semicolon, unless the text starts with it.\<close>

definition block1 :: "string \<Rightarrow> string" where
  "block1 loc = (case find_sub '';'' loc of
     Some (Suc i) \<Rightarrow> hd (split_on (CHR '';'') loc) | _ \<Rightarrow> loc)"

definition decode_list ::
    "(string \<Rightarrow> string) \<Rightarrow> (string \<Rightarrow> string) \<Rightarrow> (string \<Rightarrow> string) option \<Rightarrow> string \<Rightarrow> string option \<Rightarrow> locale_error + locale_v2" where
  "decode_list upper lower geo loc ip =
     (let parts = split_on (CHR '','') (block1 loc); p1 = parts ! 0; p2 = splitM1 p1
      in if length p2 = 2 then Inr (make_locale upper lower (p2 ! 1) (p2 ! 0))
         else if length parts > 1 then
           (if parts ! 1 = ''*'' \<and> length p1 = 2 then from2letter upper lower geo p1 ip
            else if length (parts ! 1) = 2 \<and> length p1 = 2 then from2letter upper lower geo p1 ip
            else let p3 = splitM1 (parts ! 1)
                 in if length p3 = 2 then Inr (make_locale upper lower (p3 ! 1) (p3 ! 0)) else Inl (Undecodable loc))
         else if length p1 = 2 then from2letter upper lower geo p1 ip
         else Inl (Undecodable loc))"

text \<open>The odd locale \<^verbatim>\<open>en-XA\<close> is read as \<^verbatim>\<open>en-US\<close>.\<close>

definition decodeLocale ::
    "(string \<Rightarrow> string) \<Rightarrow> (string \<Rightarrow> string) \<Rightarrow> (string \<Rightarrow> string) option \<Rightarrow> string \<Rightarrow> string option \<Rightarrow> locale_error + locale_v2" where
  "decodeLocale upper lower geo loc ip =
     (if length loc = 2 then from2letter upper lower geo loc ip
      else if loc = ''en-XA'' then decode_list upper lower geo ''en-US'' None
      else decode_list upper lower geo loc ip)"

subsection \<open>The first entry decides\<close>

definition no_separator :: "string \<Rightarrow> bool" where
  "no_separator s \<longleftrightarrow> set s \<inter> {CHR ''-'', CHR ''_'', CHR '','', CHR '';''} = {}"

lemma hd_split: "c \<notin> set s \<Longrightarrow> hd (split_on c (s @ c # r)) = s"
  by (simp add: split_on_append)

lemma block1_entry:
  assumes "CHR '';'' \<notin> set e" "e \<noteq> []" "tail = [] \<or> (\<exists>r. tail = CHR '','' # r \<or> tail = CHR '';'' # r)"
  shows "\<exists>t. block1 (e @ tail) = e @ t \<and> (t = [] \<or> (\<exists>r. t = CHR '','' # r))"
proof (cases "CHR '';'' \<in> set tail")
  case False
  then have "find_sub '';'' (e @ tail) = None" using assms(1) by (simp add: find_sub_single_None)
  with assms(3) False show ?thesis by (auto simp: block1_def)
next
  case True
  then obtain a b where tail: "tail = a @ CHR '';'' # b" "CHR '';'' \<notin> set a" by (meson split_list_first)
  obtain i where i: "find_sub '';'' (e @ tail) = Some i"
    using True find_sub_single_None [of "CHR '';''" "e @ tail"] by auto
  have "i \<noteq> 0" using find_sub_SomeD [OF i] assms(1,2) by (cases i; cases e) auto
  then have "block1 (e @ tail) = hd (split_on (CHR '';'') ((e @ a) @ CHR '';'' # b))"
    using i by (cases i) (simp_all add: block1_def tail)
  also have "\<dots> = e @ a" by (rule hd_split) (use assms(1) tail(2) in auto)
  finally show ?thesis using assms(3) tail by (cases a) auto
qed

lemma splitM1_entry:
  assumes "no_separator lang" "no_separator nation" "sep = CHR ''-'' \<or> sep = CHR ''_''"
  shows "splitM1 (lang @ sep # nation) = [lang, nation]"
  using assms by (auto simp: splitM1_def no_separator_def split_on_append split_on_id)

text \<open>C40. Whatever follows it, a first entry of a non-empty language and nation, free of separators and joined by a hyphen
  or an underscore, is the locale that is read, in the case of the code (\<open>en-XA\<close> alone excepted): so what \<open>getString\<close> prints in these styles is read back, and the list of
  preferences after it, its weights and the address do not matter.\<close>

theorem first_entry_decides:
  assumes "no_separator lang" "no_separator nation" "lang \<noteq> []" "nation \<noteq> []" "sep = CHR ''-'' \<or> sep = CHR ''_''"
    and "tail = [] \<or> (\<exists>r. tail = CHR '','' # r \<or> tail = CHR '';'' # r)" "lang @ sep # nation @ tail \<noteq> ''en-XA''"
  shows "decodeLocale upper lower geo (lang @ sep # nation @ tail) ip = Inr \<lparr>lo_nation = upper nation, lo_language = lower lang\<rparr>"
proof -
  let ?e = "lang @ sep # nation"
  have semi: "CHR '';'' \<notin> set ?e" and comma: "CHR '','' \<notin> set ?e" using assms(1,2,5) by (auto simp: no_separator_def)
  obtain t where t: "block1 (?e @ tail) = ?e @ t" "t = [] \<or> (\<exists>r. t = CHR '','' # r)"
    using block1_entry [OF semi _ assms(6)] by auto
  have "split_on (CHR '','') (?e @ t) ! 0 = ?e"
    using t(2) comma split_on_append [OF comma] split_on_id [OF comma] by auto
  with t(1) have "split_on (CHR '','') (block1 (lang @ sep # nation @ tail)) ! 0 = ?e" by simp
  then have "decode_list upper lower geo (?e @ tail) ip = Inr (make_locale upper lower nation lang)"
    using splitM1_entry [OF assms(1,2,5)] by (simp add: decode_list_def Let_def)
  moreover have "length (?e @ tail) \<noteq> 2" using assms(3,4) by (cases lang; cases nation) auto
  ultimately show ?thesis using assms(7) by (simp add: decodeLocale_def make_locale_def)
qed

lemma first_entry_decides_witness:
  "decodeLocale (\<lambda>s. s) (\<lambda>s. s) None ''fr-DZ,fr;q=0.9,en-US;q=0.5'' None = Inr \<lparr>lo_nation = ''DZ'', lo_language = ''fr''\<rparr>"
  using first_entry_decides [of "''fr''" "''DZ''" "CHR ''-''" "'',fr;q=0.9,en-US;q=0.5''" "\<lambda>s. s" "\<lambda>s. s" None None]
  by (simp add: no_separator_def)

text \<open>A list that starts with two bare languages, or with one and a star, is read as its first language in the
  country of the address; without a country database, or with an empty address, the error of that lookup.\<close>

theorem bare_first_language:
  assumes "length p = 2" "length q = 2 \<or> q = ''*''" "no_separator p" "CHR '','' \<notin> set q" "CHR '';'' \<notin> set q"
    and "tail = [] \<or> (\<exists>r. tail = CHR '','' # r \<or> tail = CHR '';'' # r)"
  shows "decodeLocale upper lower geo (p @ CHR '','' # q @ tail) ip = from2letter upper lower geo p ip"
proof -
  let ?e = "p @ CHR '','' # q"
  have p: "CHR '';'' \<notin> set p" "CHR '','' \<notin> set p" "CHR ''-'' \<notin> set p" "CHR ''_'' \<notin> set p"
    using assms(3) by (auto simp: no_separator_def)
  then have "CHR '';'' \<notin> set ?e" using assms(5) by simp
  then obtain t where t: "block1 (?e @ tail) = ?e @ t" "t = [] \<or> (\<exists>r. t = CHR '','' # r)"
    using block1_entry [of ?e, OF _ _ assms(6)] by auto
  have "\<exists>r. split_on (CHR '','') (q @ t) = q # r"
    using t(2) assms(4) split_on_append [OF assms(4)] split_on_id [OF assms(4)] by auto
  then obtain r where "split_on (CHR '','') (block1 (p @ CHR '','' # q @ tail)) = p # q # r"
    using t(1) split_on_append [OF p(2), of "q @ t"] by auto
  then have "decode_list upper lower geo (p @ CHR '','' # q @ tail) ip = from2letter upper lower geo p ip"
    using assms(1,2) p(3,4) by (auto simp: decode_list_def splitM1_def Let_def)
  moreover have "length (p @ CHR '','' # q @ tail) \<noteq> 2" "p @ CHR '','' # q @ tail \<noteq> ''en-XA''"
    using assms(1) by (auto simp: length_Suc_conv numeral_2_eq_2)
  ultimately show ?thesis by (simp add: decodeLocale_def)
qed

theorem bare_first_language_witness:
  "decodeLocale (\<lambda>s. s) (\<lambda>s. s) (Some (\<lambda>a. ''IT'')) ''it,en;q=0.5'' (Some ''1.2.3.4'') =
     Inr \<lparr>lo_nation = ''IT'', lo_language = ''it''\<rparr>"
  using bare_first_language [of "''it''" "''en''" "'';q=0.5''" "\<lambda>s. s" "\<lambda>s. s" "Some (\<lambda>a. ''IT'')" "Some ''1.2.3.4''"]
  by (simp add: no_separator_def from2letter_def)

text \<open>A bare language without an address reads through a null pointer.\<close>

theorem bare_language_needs_address:
  "length loc = 2 \<Longrightarrow> decodeLocale upper lower geo loc None = Inl NullAddress"
  by (simp add: decodeLocale_def from2letter_def)

end
