(* ===== verification/JsonSubset.thy ===== *)
theory JsonSubset
  imports Json
begin

text \<open>
  The check of \<^verbatim>\<open>BoostJson/isjsonasubset.cpp\<close>: it walks one value, builds the JSON pointer of each scalar and
  looks it up in the other. Boost's \<open>find_pointer\<close> and comparison are arguments; what is printed is the list of lines.
  A mismatch is printed with \<open>to_string\<close>, which may end the walk (\<open>json_to_string\<close>): the flag is False then.
\<close>

type_synonym lines = "string list \<times> bool"

fun in_turn :: "lines list \<Rightarrow> lines" where
  "in_turn [] = ([], True)"
| "in_turn ((ls, ok) # rest) = (if ok then (case in_turn rest of (ls', ok') \<Rightarrow> (ls @ ls', ok')) else (ls, False))"

definition check_scalar ::
    "('d json \<Rightarrow> string \<Rightarrow> 'd json option) \<Rightarrow> ('d json \<Rightarrow> 'd json \<Rightarrow> bool) \<Rightarrow> 'd json \<Rightarrow> 'd json \<Rightarrow> string \<Rightarrow> lines" where
  "check_scalar finder eq outer sub path = (case finder outer path of
     None \<Rightarrow> ([''This is missing '' @ path @ '' ''], True)
   | Some inner \<Rightarrow>
       if eq inner sub then ([], True)
       else (case (json_to_string inner, json_to_string sub) of
               (Text a, Text b) \<Rightarrow> ([''Mismatch in '' @ path @ '' we have '' @ a @ '' instead of '' @ b], True)
             | _ \<Rightarrow> ([], False)))"

lemma field_smaller: "(k, v) \<in> set fs \<Longrightarrow> size (v :: 'd json) < size (JObject fs)"
  by (induction fs) auto

lemma item_smaller: "(i, v) \<in> set (enumerate n vs) \<Longrightarrow> size (v :: 'd json) < size (JArray vs)"
proof -
  have "w \<in> set vs \<Longrightarrow> size w < size (JArray vs)" for w by (induction vs) auto
  moreover assume "(i, v) \<in> set (enumerate n vs)"
  ultimately show ?thesis by (auto simp: enumerate_eq_zip dest: set_zip_rightD)
qed

function isJsonASubset ::
    "('d json \<Rightarrow> string \<Rightarrow> 'd json option) \<Rightarrow> ('d json \<Rightarrow> 'd json \<Rightarrow> bool) \<Rightarrow> 'd json \<Rightarrow> 'd json \<Rightarrow> string \<Rightarrow> lines" where
  "isJsonASubset finder eq outer sub path = (case sub of
     JObject fs \<Rightarrow> in_turn (map (\<lambda>(k, v). isJsonASubset finder eq outer v (path @ ''/'' @ k)) fs)
   | JArray vs \<Rightarrow> in_turn (map (\<lambda>(i, v). isJsonASubset finder eq outer v (path @ ''/'' @ show_nat i)) (enumerate 0 vs))
   | _ \<Rightarrow> check_scalar finder eq outer sub path)"
  by pat_completeness auto
termination
  by (relation "measure (\<lambda>(_, _, _, sub, _). size sub)")
    (auto dest: field_smaller item_smaller [where n = 0] simp del: json.size)

declare isJsonASubset.simps [simp del]

subsection \<open>What the check reports\<close>

text \<open>The pointer of RFC 6901 for keys that need no escaping, and the value it leads to.\<close>

definition pointer :: "string list \<Rightarrow> string" where
  "pointer ks = concat (map (\<lambda>k. ''/'' @ k) ks)"

definition plain_key :: "string \<Rightarrow> bool" where
  "plain_key k \<longleftrightarrow> CHR ''/'' \<notin> set k \<and> CHR ''~'' \<notin> set k"

fun pointed :: "'d json \<Rightarrow> string list \<Rightarrow> 'd json option" where
  "pointed v [] = Some v"
| "pointed (JObject fs) (k # ks) = (case map_of fs k of None \<Rightarrow> None | Some v \<Rightarrow> pointed v ks)"
| "pointed (JArray vs) (k # ks) =
     (case map_of (zip (map show_nat [0..<length vs]) vs) k of None \<Rightarrow> None | Some v \<Rightarrow> pointed v ks)"
| "pointed _ (k # ks) = None"

text \<open>The scalars of a value with the keys that lead to them.\<close>

function scalars :: "string list \<Rightarrow> 'd json \<Rightarrow> (string list \<times> 'd json) list" where
  "scalars ks v = (case v of
     JObject fs \<Rightarrow> concat (map (\<lambda>(k, x). scalars (ks @ [k]) x) fs)
   | JArray vs \<Rightarrow> concat (map (\<lambda>(i, x). scalars (ks @ [show_nat i]) x) (enumerate 0 vs))
   | _ \<Rightarrow> [(ks, v)])"
  by pat_completeness auto
termination
  by (relation "measure (\<lambda>(_, v). size v)") (auto dest: field_smaller item_smaller [where n = 0] simp del: json.size)

declare scalars.simps [simp del]

lemma in_turn_good: "in_turn rs = ([], True) \<longleftrightarrow> (\<forall>r\<in>set rs. r = ([], True))"
proof (induction rs)
  case (Cons r rs)
  obtain ls ok where "r = (ls, ok)" by (cases r)
  with Cons show ?case by (cases "in_turn rs") auto
qed simp

definition found_equal ::
    "('d json \<Rightarrow> string \<Rightarrow> 'd json option) \<Rightarrow> ('d json \<Rightarrow> 'd json \<Rightarrow> bool) \<Rightarrow> 'd json \<Rightarrow> string list \<times> 'd json \<Rightarrow> bool" where
  "found_equal finder eq outer x = (case finder outer (pointer (fst x)) of None \<Rightarrow> False | Some inner \<Rightarrow> eq inner (snd x))"

lemma check_scalar_good: "check_scalar finder eq outer v (pointer ks) = ([], True) \<longleftrightarrow> found_equal finder eq outer (ks, v)"
  by (auto simp: check_scalar_def found_equal_def split: option.split text_result.split)

lemma pointer_snoc: "pointer ks @ CHR ''/'' # k = pointer (ks @ [k])"
  by (simp add: pointer_def)

lemma scalar_checked: "scalar v \<Longrightarrow> isJsonASubset finder eq outer v path = check_scalar finder eq outer v path"
  by (cases v; subst isJsonASubset.simps; simp add: scalar_def)

lemma scalar_listed: "scalar v \<Longrightarrow> scalars ks v = [(ks, v)]"
  by (cases v; subst scalars.simps; simp add: scalar_def)

lemma subset_good:
  "isJsonASubset finder eq outer sub (pointer ks) = ([], True) \<longleftrightarrow> (\<forall>x\<in>set (scalars ks sub). found_equal finder eq outer x)"
proof (induction ks sub rule: scalars.induct)
  case (1 ks v)
  let ?good = "\<lambda>ks v. isJsonASubset finder eq outer v (pointer ks) = ([], True)"
    and ?found = "\<lambda>ks v. \<forall>x\<in>set (scalars ks v). found_equal finder eq outer x"
  show ?case
  proof (cases v)
    case (JObject fs)
    have "\<forall>x\<in>set fs. ?good (ks @ [fst x]) (snd x) = ?found (ks @ [fst x]) (snd x)"
      using 1(2) [OF JObject] by auto
    then show ?thesis
      by (simp add: JObject isJsonASubset.simps [of _ _ _ "JObject fs"] scalars.simps [of ks "JObject fs"] in_turn_good
          pointer_snoc case_prod_beta ball_UN)
  next
    case (JArray vs)
    have "\<forall>x\<in>set (enumerate 0 vs). ?good (ks @ [show_nat (fst x)]) (snd x) = ?found (ks @ [show_nat (fst x)]) (snd x)"
      using 1(1) [OF JArray] by auto
    then show ?thesis
      by (simp add: JArray isJsonASubset.simps [of _ _ _ "JArray vs"] scalars.simps [of ks "JArray vs"] in_turn_good
          pointer_snoc case_prod_beta ball_UN)
  qed (simp_all add: scalar_checked scalar_listed scalar_def check_scalar_good)
qed

text \<open>When no key on the way to a scalar needs escaping, the check prints nothing and comes to its end exactly when every
  scalar of the subset is in the other value, at the same keys and positions and equal. Of empty objects and arrays nothing is asked.\<close>

theorem subset_check_exact:
  assumes "\<forall>v ks. (\<forall>k\<in>set ks. plain_key k) \<longrightarrow> finder v (pointer ks) = pointed v ks"
    and "\<forall>x\<in>set (scalars [] sub). \<forall>k\<in>set (fst x). plain_key k"
  shows "isJsonASubset finder eq outer sub [] = ([], True) \<longleftrightarrow>
    (\<forall>x\<in>set (scalars [] sub). \<exists>inner. pointed outer (fst x) = Some inner \<and> eq inner (snd x))"
proof -
  have "found_equal finder eq outer x = (\<exists>inner. pointed outer (fst x) = Some inner \<and> eq inner (snd x))"
    if "x \<in> set (scalars [] sub)" for x
    using assms that by (simp add: found_equal_def split: option.split)
  with subset_good [of finder eq outer sub "[]"] show ?thesis by (simp add: pointer_def)
qed

text \<open>A lookup for plain keys.\<close>

definition plain_finder :: "nat json \<Rightarrow> string \<Rightarrow> nat json option" where
  "plain_finder v p = (if p = [] then Some v else pointed v (split_on (CHR ''/'') (tl p)))"

lemma split_pointer: "\<forall>k\<in>set ks. plain_key k \<Longrightarrow> ks \<noteq> [] \<Longrightarrow> split_on (CHR ''/'') (tl (pointer ks)) = ks"
proof (induction ks)
  case (Cons k ks)
  then show ?case
    by (cases ks) (auto simp: pointer_def plain_key_def split_on_append split_on_id)
qed simp

lemma plain_finder_ok: "(\<forall>k\<in>set ks. plain_key k) \<longrightarrow> plain_finder v (pointer ks) = pointed v ks"
  using split_pointer [of ks] by (cases ks) (auto simp: plain_finder_def pointer_def)

definition sample_sub :: "nat json" where
  "sample_sub = JObject [(''a'', JArray [JBool True, JNull])]"

lemma subset_check_exact_witness:
  "isJsonASubset plain_finder (=) (JObject [(''b'', JNull), (''a'', JArray [JBool True, JNull, JUint64 3])]) sample_sub [] = ([], True)"
proof -
  let ?outer = "JObject [(''b'', JNull), (''a'', JArray [JBool True, JNull, JUint64 3])]"
  have d: "show_nat 0 = ''0''" "show_nat (Suc 0) = ''1''" "show_nat (Suc (Suc 0)) = ''2''" by code_simp+
  have s: "scalars [] sample_sub = [([''a'', ''0''], JBool True), ([''a'', ''1''], JNull)]"
    by (simp add: sample_sub_def scalars.simps [of _ "JObject _"] scalars.simps [of _ "JArray _"] scalar_listed scalar_def
        d)
  have "\<forall>x\<in>set (scalars [] sample_sub). \<forall>k\<in>set (fst x). plain_key k" by (simp add: s plain_key_def)
  from subset_check_exact [of plain_finder, OF _ this] plain_finder_ok
  show ?thesis by (auto simp: s d)
qed

text \<open>A key with a slash is looked up as two, so a value is reported as missing from itself.\<close>

theorem slash_key_not_in_itself:
  "isJsonASubset plain_finder (=) (JObject [(''a/b'', JNull)]) (JObject [(''a/b'', JNull)]) [] = ([''This is missing /a/b ''], True)"
  by (simp add: isJsonASubset.simps [of _ _ _ "JObject _"] scalar_checked scalar_def check_scalar_def plain_finder_def)

text \<open>Reporting a mismatch with a whole object throws.\<close>

theorem mismatch_with_object_stops:
  "isJsonASubset plain_finder (=) (JObject [(''a'', JObject [])]) (JObject [(''a'', JNull)]) [] = ([], False)"
  by (simp add: isJsonASubset.simps [of _ _ _ "JObject _"] scalar_checked scalar_def check_scalar_def plain_finder_def)

end
