(* ===== verification/Spec2Isabelle.thy ===== *)
theory Spec2Isabelle
  imports Prelude LoginLimiter ClientIp MapExt HttpMessage Json TextUtil AuthHandler WebPath
    Codec SecureRandom Password Shutdown Apcu SqlComposer SqlQuery Utilities CsvReader
    FileFunction Monitoring CheckSchema Mustache HttpServer DbConnection LogHandler
    Executor MailFetcher LocaleV2 JsonSubset
begin

text \<open>
  rbk is a library of C++ modules for web back ends: an HTTP server with a login engine, a client
  layer for MariaDB, a cache, a shutdown service, and the helpers they share. This development
  models the logic of these modules in HOL, one theory per component, and proves what makes each
  of them correct. Paths below are relative to \<^verbatim>\<open>src/\<close>.

  \<^bold>\<open>The parts of the program and how they meet.\<close>
  A request enters through the Boost.Beast session (\<^verbatim>\<open>HTTP/beast.cpp\<close>, \<open>HttpServer\<close>), which fills a
  \<open>PMFCGI\<close> request and a \<open>Payload\<close> (\<open>HttpMessage\<close>), finds the client's address behind trusted proxies
  (\<open>ClientIp\<close>), asks the login engine (\<open>AuthHandler\<close>) whether the path needs a session, and hands it to
  the router (\<open>WebPath\<close>), which serves a static file, runs the project's handler, or answers with an
  error. The login page takes a slot of the limiter (\<open>LoginLimiter\<close>) before the password is hashed
  (\<open>Password\<close>, on the salts of \<open>SecureRandom\<close>). Handlers talk to the database through composed
  statements and buffered writes (\<open>SqlComposer\<close>) and through queries with retries, cached results and
  typed rows (\<open>SqlQuery\<close>), over a connection per thread (\<open>DbConnection\<close>); they share objects in the in-process cache (\<open>Apcu\<close>), render pages
  from templates (\<open>Mustache\<close>), read
  headers and CSV rows from files (\<open>FileFunction\<close>, \<open>CsvReader\<close>), show their load on the status page (\<open>Monitoring\<close>) and
  stop through the shutdown service (\<open>Shutdown\<close>). \<open>MapExt\<close>, \<open>Json\<close>, \<open>TextUtil\<close>, \<open>Codec\<close> and \<open>Utilities\<close> hold what the others use.

  \<^bold>\<open>Theories, sources, and what the lemmas show.\<close>
  \<^item> \<open>Prelude\<close>: string routines of the C++ and Qt libraries (searching, splitting, joining, trimming,
    decimal printing) and the lemmas about them. A \<open>std::string\<close> is its list of bytes.
  \<^item> \<open>LoginLimiter\<close> (\<^verbatim>\<open>HTTP/loginLimiter.*\<close>): the record \<open>limiter\<close> is the class, \<open>tryBegin\<close>,
    \<open>recordFailure\<close>, \<open>recordSuccess\<close>, \<open>release\<close> its operations, \<open>gate_step\<close> the interleaving of requests over
    it. Slots and counter agree in every reachable state, at most ten failures of an address enter
    any window, the decision is a function of the windows and sets, a closed gate opens again.
  \<^item> \<open>ClientIp\<close> (\<^verbatim>\<open>HTTP/clientIp.*\<close>): headers of untrusted peers are ignored, the rightmost entry of a
    trusted one counts, the result is in canonical form.
  \<^item> \<open>MapExt\<close> (\<^verbatim>\<open>mapExtensor/\<close>): the containers with their error values, and the interfaces
    \<open>first_wins_map\<close> and \<open>kv_store\<close>.
  \<^item> \<open>HttpMessage\<close> (\<^verbatim>\<open>HTTP/Payload.*\<close>, \<^verbatim>\<open>PMFCGI.*\<close>, \<^verbatim>\<open>canned_reply.cpp\<close>): headers, cookies, post bodies.
  \<^item> \<open>AuthHandler\<close> (\<^verbatim>\<open>HTTP/authHandler.*\<close>): the handlers as actions over the whole state that may throw.
    A request passes exactly on a public path, with a session accepted in its own state or with the devel login; the
    redirect after a login stays on the site; the login page gives its slot back on every path, exceptions included.
  \<^item> \<open>WebPath\<close> (\<^verbatim>\<open>HTTP/staticPath.h\<close>, \<^verbatim>\<open>mime.cpp\<close>, \<^verbatim>\<open>router.*\<close>, \<^verbatim>\<open>url.*\<close>): a static path never leaves its root.
  \<^item> \<open>HttpServer\<close> (\<^verbatim>\<open>HTTP/beast.cpp\<close>): a request on its way through the hooks, the router, the reply and
    both catch clauses, and the connection, whose asynchronous reads and writes are the steps \<open>conn_step\<close>.
    Replies leave in order and at most eight wait, each request is answered once, what an exception
    says stays on the server, and with the login engine as hook no route sees a request without a session.
  \<^item> \<open>Json\<close>, \<open>TextUtil\<close>, \<open>Codec\<close> (\<^verbatim>\<open>BoostJson/\<close>, \<^verbatim>\<open>string/\<close>, \<^verbatim>\<open>misc/\<close>, \<^verbatim>\<open>totp/\<close>): merging, escaping, splitting, CSV, base32,
    time-based codes, with round trips and the exact behaviour where the code surprises.
  \<^item> \<open>SecureRandom\<close>, \<open>Password\<close> (\<^verbatim>\<open>rand/secureRandom.cpp\<close>, \<^verbatim>\<open>hash/salt.cpp\<close>, \<^verbatim>\<open>hash/passwordHash.*\<close>): rejection
    sampling has no bias and ends with the first acceptable draw; hashes verify; an accepted
    password means that the scheme named by the first bytes of the stored text accepted it.
  \<^item> \<open>Shutdown\<close> (\<^verbatim>\<open>thread/shutdown.*\<close>): the record \<open>sd_state\<close> is \<open>State\<close>; \<open>sd_step\<close> interleaves registering
    threads with the watcher; it refines the abstract machine \<open>once_step\<close> of the header's contract, run by run and in order.
    Callbacks run exactly once or are dropped, ids are well formed, the forced exit is reached.
  \<^item> \<open>Apcu\<close> (\<^verbatim>\<open>caching/apcu2.*\<close>): the cache refines a map; what is saved is found again after a restart.
  \<^item> \<open>SqlComposer\<close> (\<^verbatim>\<open>minMysql/sqlcomposer.*\<close>, \<^verbatim>\<open>sqlbuffering.*\<close>): no value leaves its literal, no update or
    delete goes out without a condition, buffered statements arrive once and in order, and what is
    lost or sent again when one fails.
  \<^item> \<open>SqlQuery\<close> (\<^verbatim>\<open>minMysql/min_mysql.cpp\<close>, \<^verbatim>\<open>sqlrowv2.*\<close>, \<^verbatim>\<open>sqlRow.h\<close>, \<^verbatim>\<open>runnable.*\<close>, \<^verbatim>\<open>misc/swapType.h\<close>,
    \<^verbatim>\<open>serialization/serialize.h\<close>): the deadlock repeater, the file cache, NULL handling, conversions.
  \<^item> \<open>DbConnection\<close> (\<^verbatim>\<open>minMysql/min_mysql.cpp\<close>, \<^verbatim>\<open>DBConf.h\<close>): one thread's view of a \<open>DB\<close> over a client library
    that is a parameter: connecting with its set-up statements, the ping, a query and its error codes, the result sets, the log.
    When queries end and when they never do, a lock error keeps the connection, a session is set up once.
  \<^item> \<open>CsvReader\<close>, \<open>FileFunction\<close> (\<^verbatim>\<open>filesystem/filefunction.*\<close>): the CSV state machine on what \<open>escapeForCSV\<close>
    wrote, and exactly when it raises; files with a versioned header, atomic writes, the instance lock.
  \<^item> \<open>CheckSchema\<close> (\<^verbatim>\<open>minMysql/checkschema.*\<close>): the answers of both checks are their contracts, a save is all
    or nothing, and what was saved passes on its own database, as the notes of the component ask.
  \<^item> \<open>Mustache\<close> (\<^verbatim>\<open>mustache/\<close>): the template renderer as its state machine. Every template ends on every
    value without a failed assertion, a value between double braces is written without a character
    that opens or closes HTML, sections repeat and choose as their value says, the vector search is the scalar one.
  \<^item> \<open>Monitoring\<close> (\<^verbatim>\<open>thread/statusProbes.cpp\<close>, \<^verbatim>\<open>thread/tmonitoring.cpp\<close>, \<^verbatim>\<open>thread/threadstatush.*\<close>): the parsers
    of the probes, netlink messages read within their bounds, the partition of the sockets, slots and timers.
  \<^item> \<open>LogHandler\<close> (\<^verbatim>\<open>misc/QDebugHandler.cpp\<close>, \<^verbatim>\<open>misc/runnableV2.*\<close>): the handler every warning of the
    other parts goes through: each message is logged once, mails of one source line keep their cool-down, none is lost from the count.
  \<^item> \<open>Executor\<close> (\<^verbatim>\<open>log/log.*\<close>, \<^verbatim>\<open>misc/executor.*\<close>): the tree of logs, whose search and test agree, the verdict on a
    child process, files installed with the rights of another user: what is reported as success, and what is so wrongly.
  \<^item> \<open>MailFetcher\<close> (\<^verbatim>\<open>minCurl/mailfetcher.*\<close>): what is fetched and moved, also when the server refuses copies, and why the order of the positions matters.
  \<^item> \<open>LocaleV2\<close> (\<^verbatim>\<open>locale/localev2.*\<close>): the first entry of an \<^verbatim>\<open>Accept-Language\<close> text decides, and bare languages are read by the address.
  \<^item> \<open>JsonSubset\<close> (\<^verbatim>\<open>BoostJson/isjsonasubset.cpp\<close>): the check is exact on keys that need no escaping.
  \<^item> \<open>Utilities\<close> (\<^verbatim>\<open>misc/snowflake.*\<close>, \<^verbatim>\<open>misc/decimate.h\<close>, \<^verbatim>\<open>RAII/resetAfterUse.h\<close>, \<^verbatim>\<open>minMysql/MITLS.h\<close>).

  \<^bold>\<open>Interfaces.\<close> \<open>admission_gate\<close> (interpreted on the limiter) is what the login page relies on;
  \<open>first_wins_map\<close> (standard maps, multimaps, the rows loaded from disk) and \<open>kv_store\<close> (assignment
  through \<open>operator[]\<close>, the cache, the per-thread repository) are what the fillers and the clients of
  the containers rely on; \<open>simulation\<close> (interpreted on the shutdown machine) carries step-wise
  refinement to runs.

  \<^bold>\<open>Parameters.\<close> What the sources call but do not contain is an argument: Boost.Asio addresses, Qt's
  Unicode case folding and its conversions between UTF-16 and UTF-8, SHA-256, Argon2, \<^verbatim>\<open>crypt_r\<close>, HMAC, the server's escape function, the project's
  hooks, the class hierarchy of cached objects, the parsed JSON of a header. Hypotheses about them state their
  documented behaviour and each theorem with one has a witness on a concrete function. The clock,
  system calls and the server are scripts of their answers; the database client, the mail server and the process library are functions over a state of their own.

  \<^bold>\<open>Bounds and loops.\<close> Loops are structural recursion over the input or over the script of answers, so
  no fuel is chosen, with two exceptions. The renderer's handlers call the main loop again: the termination property of
  \<open>Mustache\<close> shows that from some fuel on the result is there and stays the same. A query may start another one
  (\<open>db_query\<close>): on a server whose new connections answer pings during their set-up and that does not lock the class's own
  statements, three levels are enough, whatever happens to the connections after that, more change nothing, and without that assumption the recursion may have no end, which is proved too. \<open>index_loop\<close>, \<open>splitWs\<close> and the walks over netlink messages carry a termination
  proof, because they skip input. A script
  that ends while the code still waits gives a value of its own (\<open>Waiting\<close>, \<open>None\<close>), and the
  termination properties show which scripts are long enough. Machine integers are words or numbers
  with their wrap-around written out.

  \<^bold>\<open>Not modelled.\<close> The listener and the start of the worker threads, and the HTTP client, whose lines are calls of Boost and curl;
  stack traces; the HTML of the status pages; ClickHouse; the JSON reader over RapidJSON and the
  \<^verbatim>\<open>tag_invoke\<close> templates; wrappers of zip, digests and dates; vendored code. In modelled
  files: the Windows branches, logging, iterators and stream operators of the containers, the
  asynchronous queries of \<^verbatim>\<open>min_mysql.cpp\<close>, and the use of a cache row's address after its
  lock is released, which no sequential model shows.
\<close>

end
